(* ===== verification/Husk_Prelude.thy ===== *)
theory Husk_Prelude
  imports Main "HOL-Library.Word"
begin

text \<open>
  Shared vocabulary of the husklet development: the machine-integer synonyms of the C
  sources, little-endian byte images of words, half-open intervals over guest addresses,
  and the generic lemmas on lists and words that the component theories use.
  The collection \<open>husk_word\<close> gathers facts that move comparisons of words to \<open>nat\<close>,
  \<open>husk_step\<close> the unfolding equations of the components' step functions.
\<close>

unbundle bit_operations_syntax

named_theorems husk_word "comparisons of machine words read as natural numbers"
named_theorems husk_step "unfolding equations of step functions"

type_synonym u8 = "8 word"
type_synonym u16 = "16 word"
type_synonym u32 = "32 word"
type_synonym u64 = "64 word"

section \<open>Words\<close>

declare word_less_nat_alt [husk_word] word_le_nat_alt [husk_word]

lemma unat_u64_less [husk_word]: "unat (x :: u64) < 2 ^ 64"
  by (rule order.strict_trans2 [OF unsigned_less]) simp

lemma unat_u32_less: "unat (g :: u32) < 4294967296"
  by (rule order_less_le_trans [OF unsigned_less]) simp

lemma unat_succ: "x \<noteq> - 1 \<Longrightarrow> unat (x + 1 :: u32) = unat x + 1"
  by (metis Suc_eq_plus1 add.commute unatSuc add_eq_0_iff)

text \<open>Little-endian byte image: the \<open>n\<close> least significant bytes of a word.\<close>

definition le_bytes :: "nat \<Rightarrow> 'a::len word \<Rightarrow> u8 list" where
  "le_bytes n w = map (\<lambda>i. ucast (drop_bit (8 * i) w)) [0..<n]"

text \<open>The unsigned value of four bytes read in little-endian order, as C composes it.\<close>

definition le32 :: "u8 \<Rightarrow> u8 \<Rightarrow> u8 \<Rightarrow> u8 \<Rightarrow> u32" where
  "le32 a b c d = ucast a OR push_bit 8 (ucast b) OR (push_bit 16 (ucast c) OR push_bit 24 (ucast d))"

lemma length_le_bytes [simp]: "length (le_bytes n w) = n"
  by (simp add: le_bytes_def)

lemma nth_le_bytes [simp]: "i < n \<Longrightarrow> le_bytes n w ! i = ucast (drop_bit (8 * i) w)"
  by (simp add: le_bytes_def)

lemma le32_of_bytes:
  fixes w :: "'a::len word"
  shows "le32 (ucast w) (ucast (drop_bit 8 w)) (ucast (drop_bit 16 w)) (ucast (drop_bit 24 w)) = (ucast w :: u32)"
proof (rule bit_word_eqI)
  fix n assume n: "n < LENGTH(32)"
  then consider "n < 8" | "8 \<le> n" "n < 16" | "16 \<le> n" "n < 24" | "24 \<le> n" "n < 32"
    by fastforce
  then show "bit (le32 (ucast w) (ucast (drop_bit 8 w)) (ucast (drop_bit 16 w)) (ucast (drop_bit 24 w))) n =
      bit (ucast w :: u32) n"
    using n
    by cases
      (auto simp: le32_def bit_simps dest: bit_imp_le_length)
qed

lemma and_mask_bound:
  fixes x :: "'a::len word"
  shows "unat (x AND m) \<le> unat m"
  by (rule word_and_le1 [THEN word_le_nat_alt [THEN iffD1]])

lemma and_exp_cases:
  fixes c :: "'a::len word"
  shows "c AND 2 ^ n = 0 \<or> c AND 2 ^ n = 2 ^ n"
proof (cases "bit c n")
  case True
  then have "c AND 2 ^ n = 2 ^ n"
    by (intro bit_word_eqI) (auto simp: bit_simps)
  then show ?thesis ..
next
  case False
  then show ?thesis by (simp add: and_exp_eq_0_iff_not_bit)
qed

section \<open>Half-open intervals of guest addresses\<close>

definition in_range :: "u64 \<Rightarrow> u64 \<Rightarrow> u64 \<Rightarrow> bool" where
  "in_range lo hi a \<longleftrightarrow> lo \<le> a \<and> a < hi"

lemma in_rangeI [intro]: "lo \<le> a \<Longrightarrow> a < hi \<Longrightarrow> in_range lo hi a"
  by (simp add: in_range_def)

lemma in_rangeD [dest]: "in_range lo hi a \<Longrightarrow> lo \<le> a \<and> a < hi"
  by (simp add: in_range_def)

section \<open>Lists updated in place\<close>

lemma length_filter_update:
  assumes "i < length xs"
  shows "length (filter P (xs[i := x])) + (if P (xs ! i) then 1 else 0) =
      length (filter P xs) + (if P x then 1 else 0)"
  using assms
proof (induction xs arbitrary: i)
  case Nil
  then show ?case by simp
next
  case (Cons y ys)
  then show ?case
    by (cases i) auto
qed

lemma length_filter_update_same:
  "i < length xs \<Longrightarrow> P x = P (xs ! i) \<Longrightarrow> length (filter P (xs[i := x])) = length (filter P xs)"
  using length_filter_update [of i xs P x] by auto

lemma nth_update_cases:
  "i < length xs \<Longrightarrow> xs[i := x] ! j = (if j = i then x else xs ! j)"
  by auto

end
