(* ===== verification/Syscall_Number.thy ===== *)
theory Syscall_Number
  imports Husk_Prelude
begin

text \<open>
  The translation of system-call numbers (\<open>linux_abi/number.c\<close>): guests of both architectures are served
  under the AArch64 numbers.  The switch of \<open>x86_number\<close> is four tables; the inverse is the array the code
  fills once from the forward direction, an entry being the guest's number plus one.
\<close>

section \<open>The forward map\<close>

definition HL_LINUX_SYSCALL_X86_ONLY :: u64 where "HL_LINUX_SYSCALL_X86_ONLY = 0x10000"
definition HL_LINUX_CANONICAL_MAX :: nat where "HL_LINUX_CANONICAL_MAX = 471"

datatype hl_linux_guest_isa = HL_LINUX_GUEST_AARCH64 | HL_LINUX_GUEST_X86_64

definition x86_numbers_0_99 :: "(nat \<times> nat) list" where
  "x86_numbers_0_99 = [
    (0, 63), (1, 64), (3, 57), (5, 80), (8, 62), (9, 222), (10, 226), (11, 215), (12, 214), (13, 134),
    (14, 135), (15, 139), (16, 29), (17, 67), (18, 68), (19, 65), (20, 66), (24, 124), (25, 216), (26, 227),
    (27, 232), (28, 233), (29, 194), (30, 196), (31, 195), (32, 23), (33, 24), (35, 101), (36, 102),
    (38, 103), (39, 172), (40, 71), (41, 198), (42, 203), (43, 202), (44, 206), (45, 207), (46, 211),
    (47, 212), (48, 210), (49, 200), (50, 201), (51, 204), (52, 205), (53, 199), (54, 208), (55, 209),
    (56, 220), (59, 221), (60, 93), (61, 260), (62, 129), (63, 160), (64, 190), (65, 193), (66, 191),
    (67, 197), (68, 186), (69, 189), (70, 188), (71, 187), (72, 25), (73, 32), (74, 82), (75, 83), (76, 45),
    (77, 46), (79, 17), (80, 49), (81, 50), (91, 52), (93, 55), (95, 166), (96, 169), (97, 163), (98, 165),
    (99, 179)]"

definition x86_numbers_100_199 :: "(nat \<times> nat) list" where
  "x86_numbers_100_199 = [
    (100, 153), (101, 117), (102, 174), (103, 116), (104, 176), (105, 146), (106, 144), (107, 175),
    (108, 177), (109, 154), (110, 173), (112, 157), (113, 145), (114, 143), (115, 158), (116, 159),
    (117, 147), (118, 148), (119, 149), (120, 150), (121, 155), (122, 151), (123, 152), (124, 156),
    (125, 90), (126, 91), (127, 136), (128, 137), (129, 138), (130, 133), (131, 132), (135, 92), (137, 43),
    (138, 44), (140, 141), (141, 140), (142, 118), (143, 121), (144, 119), (145, 120), (146, 125),
    (147, 126), (148, 127), (149, 228), (150, 229), (151, 230), (152, 231), (153, 58), (155, 41), (157, 167),
    (159, 171), (160, 164), (161, 51), (162, 81), (163, 89), (164, 170), (165, 40), (166, 39), (167, 224),
    (168, 225), (169, 142), (170, 161), (171, 162), (175, 105), (176, 106), (179, 60), (180, 42), (186, 178),
    (187, 213), (188, 5), (189, 6), (190, 7), (191, 8), (192, 9), (193, 10), (194, 11), (195, 12), (196, 13),
    (197, 14), (198, 15), (199, 16)]"

definition x86_numbers_200_299 :: "(nat \<times> nat) list" where
  "x86_numbers_200_299 = [
    (200, 130), (202, 98), (203, 122), (204, 123), (206, 0), (207, 1), (208, 4), (209, 2), (210, 3),
    (212, 18), (216, 234), (217, 61), (218, 96), (219, 128), (220, 192), (221, 223), (222, 107), (223, 110),
    (224, 108), (225, 109), (226, 111), (227, 112), (228, 113), (229, 114), (230, 115), (231, 94), (233, 21),
    (234, 131), (237, 235), (238, 237), (239, 236), (240, 180), (241, 181), (242, 182), (243, 183),
    (244, 184), (245, 185), (246, 104), (247, 95), (248, 217), (249, 218), (250, 219), (251, 30), (252, 31),
    (254, 27), (255, 28), (256, 238), (257, 56), (258, 34), (259, 33), (260, 54), (262, 79), (263, 35),
    (264, 38), (265, 37), (266, 36), (267, 78), (268, 53), (269, 48), (270, 72), (271, 73), (272, 97),
    (273, 99), (274, 100), (275, 76), (276, 77), (277, 84), (278, 75), (279, 239), (280, 88), (281, 22),
    (283, 85), (285, 47), (286, 86), (287, 87), (288, 242), (289, 74), (290, 19), (291, 20), (292, 24),
    (293, 59), (294, 26), (295, 69), (296, 70), (297, 240), (298, 241), (299, 243)]"

definition x86_numbers_300_471 :: "(nat \<times> nat) list" where
  "x86_numbers_300_471 = [
    (300, 262), (301, 263), (302, 261), (303, 264), (304, 265), (305, 266), (306, 267), (307, 269),
    (308, 268), (309, 168), (310, 270), (311, 271), (312, 272), (313, 273), (314, 274), (315, 275),
    (316, 276), (317, 277), (318, 278), (319, 279), (320, 294), (321, 280), (322, 281), (323, 282),
    (324, 283), (325, 284), (326, 285), (327, 286), (328, 287), (329, 288), (330, 289), (331, 290),
    (332, 291), (333, 292), (334, 293), (424, 424), (425, 425), (426, 426), (427, 427), (428, 428),
    (429, 429), (430, 430), (431, 431), (432, 432), (433, 433), (434, 434), (435, 435), (436, 436),
    (437, 437), (438, 438), (439, 439), (440, 440), (441, 441), (442, 442), (443, 443), (444, 444),
    (445, 445), (446, 446), (447, 447), (448, 448), (449, 449), (450, 450), (451, 451), (452, 452),
    (453, 453), (454, 454), (455, 455), (456, 456), (457, 457), (458, 458), (459, 459), (460, 460),
    (461, 461), (462, 462), (463, 463), (464, 464), (465, 465), (466, 466), (467, 467), (468, 468),
    (469, 469), (470, 470), (471, 471)]"

definition switch_number :: "(nat \<times> nat) list \<Rightarrow> u64 \<Rightarrow> u64" where
  "switch_number cases nr =
    (case map_of cases (unat nr) of Some c \<Rightarrow> of_nat c | None \<Rightarrow> nr OR HL_LINUX_SYSCALL_X86_ONLY)"

definition x86_number_through_199 :: "u64 \<Rightarrow> u64" where
  "x86_number_through_199 = switch_number (x86_numbers_0_99 @ x86_numbers_100_199)"

definition x86_number_after_199 :: "u64 \<Rightarrow> u64" where
  "x86_number_after_199 = switch_number (x86_numbers_200_299 @ x86_numbers_300_471)"

definition x86_number :: "u64 \<Rightarrow> u64" where
  "x86_number nr = (if nr \<le> 199 then x86_number_through_199 nr else x86_number_after_199 nr)"

definition hl_linux_syscall_number :: "hl_linux_guest_isa \<Rightarrow> u64 \<Rightarrow> u64" where
  "hl_linux_syscall_number isa nr = (if isa = HL_LINUX_GUEST_X86_64 then x86_number nr else nr)"

section \<open>The inverse\<close>

definition x86_inverse_step :: "u16 list \<Rightarrow> nat \<Rightarrow> u16 list" where
  "x86_inverse_step encoded guest =
    (let canonical = x86_number (of_nat guest)
     in if unat canonical \<le> HL_LINUX_CANONICAL_MAX then encoded[unat canonical := of_nat (guest + 1)] else encoded)"

definition x86_inverse_init :: "u16 list" where
  "x86_inverse_init = foldl x86_inverse_step (replicate (HL_LINUX_CANONICAL_MAX + 1) 0) [0 ..< HL_LINUX_CANONICAL_MAX + 1]"

text \<open>\<open>once\<close> tells whether \<open>pthread_once\<close> succeeds.\<close>

definition hl_linux_syscall_guest_number :: "bool \<Rightarrow> hl_linux_guest_isa \<Rightarrow> u64 \<Rightarrow> u64" where
  "hl_linux_syscall_guest_number once isa canonical =
    (if canonical AND HL_LINUX_SYSCALL_X86_ONLY \<noteq> 0 then - 1
     else if isa \<noteq> HL_LINUX_GUEST_X86_64 then canonical
     else if unat canonical > HL_LINUX_CANONICAL_MAX then - 1
     else if \<not> once then - 1
     else let encoded = x86_inverse_init ! unat canonical
          in if encoded = 0 then - 1 else ucast encoded - 1)"

section \<open>The tables\<close>

definition x86_table :: "(nat \<times> nat) list" where
  "x86_table = (x86_numbers_0_99 @ x86_numbers_100_199) @ (x86_numbers_200_299 @ x86_numbers_300_471)"

lemmas x86_tables = x86_numbers_0_99_def x86_numbers_100_199_def x86_numbers_200_299_def x86_numbers_300_471_def

lemma x86_table_keys: "distinct (map fst x86_table)"
  by (simp add: x86_table_def x86_tables)

text \<open>The only canonical number with two names is that of dup3, which dup2 shares.\<close>

lemma x86_table_values: "distinct (map snd (filter (\<lambda>p. fst p \<noteq> 33) x86_table))"
  by (simp add: x86_table_def x86_tables)

lemma x86_table_bounds: "list_all (\<lambda>(g, c). g \<le> 471 \<and> c \<le> 471) x86_table"
  by (simp add: x86_table_def x86_tables)

lemma x86_table_split:
  "list_all (\<lambda>p. fst p \<le> 199) (x86_numbers_0_99 @ x86_numbers_100_199)"
  "list_all (\<lambda>p. 199 < fst p) (x86_numbers_200_299 @ x86_numbers_300_471)"
  by (simp_all add: x86_tables)

lemma x86_table_dup: "(33, 24) \<in> set x86_table" "(292, 24) \<in> set x86_table"
  by (simp_all add: x86_table_def x86_tables)

lemma map_of_none_all: "list_all (\<lambda>p. \<not> P (fst p)) xs \<Longrightarrow> P k \<Longrightarrow> map_of xs k = None"
  by (induction xs) (auto split: prod.splits)

lemma switch_number_append:
  "map_of ys (unat nr) = None \<Longrightarrow> switch_number (xs @ ys) nr = switch_number xs nr"
  "map_of xs (unat nr) = None \<Longrightarrow> switch_number (xs @ ys) nr = switch_number ys nr"
  by (simp_all add: switch_number_def map_add_def split: option.splits)

lemma x86_number_table: "x86_number nr = switch_number x86_table nr"
proof (cases "nr \<le> 199")
  case True
  then have "unat nr \<le> 199" by (simp add: word_le_nat_alt)
  then have "map_of (x86_numbers_200_299 @ x86_numbers_300_471) (unat nr) = None"
    using x86_table_split(2) by (intro map_of_none_all [where P = "\<lambda>k. k \<le> 199"]) (simp_all add: not_le)
  then show ?thesis using True
    unfolding x86_number_def x86_number_through_199_def x86_table_def by (simp only: switch_number_append(1) if_True)
next
  case False
  then have "199 < unat nr" by (simp add: word_le_nat_alt)
  then have "map_of (x86_numbers_0_99 @ x86_numbers_100_199) (unat nr) = None"
    using x86_table_split(1) by (intro map_of_none_all [where P = "\<lambda>k. 199 < k"]) (simp_all add: not_less)
  then show ?thesis using False
    unfolding x86_number_def x86_number_after_199_def x86_table_def by (simp only: switch_number_append(2) if_False)
qed

definition x86_known :: "u64 \<Rightarrow> bool" where
  "x86_known nr \<longleftrightarrow> map_of x86_table (unat nr) \<noteq> None"

lemma x86_only_big: "471 < unat (nr OR HL_LINUX_SYSCALL_X86_ONLY :: u64)"
proof -
  have "HL_LINUX_SYSCALL_X86_ONLY \<le> nr OR HL_LINUX_SYSCALL_X86_ONLY" by (rule le_word_or1)
  then show ?thesis by (simp add: word_le_nat_alt HL_LINUX_SYSCALL_X86_ONLY_def)
qed

section \<open>Round trips\<close>

lemma x86_number_known: "(unat nr, c) \<in> set x86_table \<Longrightarrow> x86_number nr = of_nat c"
  using map_of_is_SomeI [OF x86_table_keys] by (simp add: x86_number_table switch_number_def)

lemma x86_table_bound: "(g, c) \<in> set x86_table \<Longrightarrow> g \<le> 471 \<and> c \<le> 471"
  using x86_table_bounds by (fastforce simp: list_all_iff)

lemma x86_canonical_iff: "unat (x86_number nr) \<le> 471 \<longleftrightarrow> x86_known nr"
proof (cases "map_of x86_table (unat nr)")
  case None
  then show ?thesis using x86_only_big [of nr] by (simp add: x86_number_table switch_number_def x86_known_def)
next
  case (Some c)
  then have "c \<le> 471" using x86_table_bound map_of_SomeD by fast
  then show ?thesis using Some by (simp add: x86_number_table switch_number_def x86_known_def unat_of_nat take_bit_eq_mod)
qed

lemma x86_known_entry:
  assumes "x86_known nr"
  obtains c where "(unat nr, c) \<in> set x86_table" "x86_number nr = of_nat c" "unat (x86_number nr) = c" "c \<le> 471"
    "unat nr \<le> 471"
proof -
  obtain c where c: "map_of x86_table (unat nr) = Some c" using assms by (auto simp: x86_known_def)
  then have m: "(unat nr, c) \<in> set x86_table" by (rule map_of_SomeD)
  with x86_table_bound [OF m] that [OF m] show thesis
    using x86_number_known [OF m] by (simp add: unat_of_nat take_bit_eq_mod)
qed

lemma x86_table_injective:
  assumes "(g, c) \<in> set x86_table" "(g', c) \<in> set x86_table" "g \<noteq> 33" "g' \<noteq> 33"
  shows "g = g'"
proof -
  let ?t = "filter (\<lambda>p. fst p \<noteq> 33) x86_table"
  have "inj_on snd (set ?t)" using x86_table_values by (simp only: distinct_map)
  moreover have "(g, c) \<in> set ?t" "(g', c) \<in> set ?t" using assms by auto
  ultimately show ?thesis using inj_onD [of snd "set ?t" "(g, c)" "(g', c)"] by simp
qed

text \<open>What the loop leaves in the array after the first \<open>n\<close> guest numbers: the last guest number of every
  canonical number.\<close>

lemma inverse_loop:
  fixes n :: nat
  defines "a \<equiv> \<lambda>k. foldl x86_inverse_step (replicate (HL_LINUX_CANONICAL_MAX + 1) 0) [0 ..< k]"
  shows "length (a n) = 472"
    and "g < n \<Longrightarrow> unat (x86_number (of_nat g)) = c \<Longrightarrow> c \<le> 471 \<Longrightarrow>
      (\<And>g'. g < g' \<Longrightarrow> g' < n \<Longrightarrow> unat (x86_number (of_nat g')) \<noteq> c) \<Longrightarrow> a n ! c = of_nat (g + 1)"
    and "c \<le> 471 \<Longrightarrow> (\<And>g. g < n \<Longrightarrow> unat (x86_number (of_nat g)) \<noteq> c) \<Longrightarrow> a n ! c = 0"
proof -
  have step: "a (Suc k) = x86_inverse_step (a k) k" for k by (simp add: a_def)
  have len: "length (a k) = 472" for k
  proof (induction k)
    case 0
    then show ?case by (simp add: a_def HL_LINUX_CANONICAL_MAX_def)
  next
    case (Suc k)
    then show ?case by (simp add: step x86_inverse_step_def Let_def)
  qed
  then show "length (a n) = 472" .
  have nth: "a (Suc k) ! c = (if unat (x86_number (of_nat k)) = c then of_nat (k + 1) else a k ! c)" if "c \<le> 471" for k c
    using that len [of k] by (auto simp: step x86_inverse_step_def Let_def HL_LINUX_CANONICAL_MAX_def nth_list_update)
  show "a n ! c = of_nat (g + 1)" if "g < n" "unat (x86_number (of_nat g)) = c" "c \<le> 471"
    "\<And>g'. g < g' \<Longrightarrow> g' < n \<Longrightarrow> unat (x86_number (of_nat g')) \<noteq> c"
    using that
  proof (induction n)
    case 0
    then show ?case by simp
  next
    case (Suc n)
    show ?case
    proof (cases "g = n")
      case True
      then show ?thesis using Suc.prems by (simp add: nth)
    next
      case False
      then have "unat (x86_number (of_nat n)) \<noteq> c" using Suc.prems(1) by (intro Suc.prems(4)) simp_all
      then show ?thesis using Suc False by (simp add: nth less_Suc_eq)
    qed
  qed
  show "a n ! c = 0" if "c \<le> 471" "\<And>g. g < n \<Longrightarrow> unat (x86_number (of_nat g)) \<noteq> c"
    using that
  proof (induction n)
    case 0
    then show ?case by (simp add: a_def HL_LINUX_CANONICAL_MAX_def)
  next
    case (Suc n)
    then show ?case by (simp add: nth)
  qed
qed

lemma x86_inverse_hit:
  assumes "g \<le> 471" "unat (x86_number (of_nat g)) = c" "c \<le> 471"
    and "\<And>g'. g < g' \<Longrightarrow> g' \<le> 471 \<Longrightarrow> unat (x86_number (of_nat g')) \<noteq> c"
  shows "x86_inverse_init ! c = of_nat (g + 1)"
  using inverse_loop(2) [where n = 472 and g = g and c = c] assms
  by (simp add: x86_inverse_init_def HL_LINUX_CANONICAL_MAX_def less_Suc_eq_le del: upt_Suc)

lemma x86_inverse_miss:
  assumes "c \<le> 471" "\<And>g. g \<le> 471 \<Longrightarrow> unat (x86_number (of_nat g)) \<noteq> c"
  shows "x86_inverse_init ! c = 0"
  using inverse_loop(3) [where n = 472 and c = c] assms
  by (simp add: x86_inverse_init_def HL_LINUX_CANONICAL_MAX_def less_Suc_eq_le del: upt_Suc)

definition x86_guest :: "u64 \<Rightarrow> u64" where
  "x86_guest nr = (if nr = 33 then 292 else nr)"

lemma x86_number_guest: "x86_number (x86_guest nr) = x86_number nr"
proof (cases "nr = 33")
  case True
  then show ?thesis
    using x86_number_known [of 33 24] x86_number_known [of 292 24] x86_table_dup by (simp add: x86_guest_def)
qed (simp add: x86_guest_def)

lemma x86_same_canonical:
  assumes "x86_known nr" "unat (x86_number (of_nat g)) = unat (x86_number nr)" "g \<le> 471"
  shows "g = unat nr \<or> {g, unat nr} = {33, 292}"
proof -
  obtain c where c: "(unat nr, c) \<in> set x86_table" "unat (x86_number nr) = c" "c \<le> 471"
    using x86_known_entry [OF assms(1)] by metis
  have g: "unat (of_nat g :: u64) = g" using assms(3) by (simp add: unat_of_nat take_bit_eq_mod)
  have "x86_known (of_nat g)" using x86_canonical_iff [of "of_nat g"] assms(2) c by simp
  then obtain c' where "(unat (of_nat g :: u64), c') \<in> set x86_table" "unat (x86_number (of_nat g)) = c'"
    using x86_known_entry by metis
  with g assms(2) c have e: "(g, c) \<in> set x86_table" by simp
  have dup: "k = 292" if "(k, c) \<in> set x86_table" "(33, c) \<in> set x86_table" "k \<noteq> 33" for k
  proof -
    have "c = 24" using that(2) x86_table_dup(1) x86_table_keys by (metis map_of_is_SomeI option.inject)
    with that show ?thesis using x86_table_injective [of k 24 292] x86_table_dup(2) by simp
  qed
  show ?thesis
  proof (cases "g = 33 \<or> unat nr = 33")
    case True
    then show ?thesis using dup [OF e] dup [OF c(1)] e c(1) by auto
  next
    case False
    then show ?thesis using x86_table_injective [OF e c(1)] by simp
  qed
qed

lemma x86_inverse_exact:
  assumes "x86_known nr"
  shows "x86_inverse_init ! unat (x86_number nr) = of_nat (unat (x86_guest nr) + 1)"
proof -
  obtain c where c: "(unat nr, c) \<in> set x86_table" "unat (x86_number nr) = c" "c \<le> 471" "unat nr \<le> 471"
    using x86_known_entry [OF assms] by metis
  have n: "unat (x86_guest nr) \<le> 471" using c by (simp add: x86_guest_def)
  show ?thesis
  proof (rule x86_inverse_hit [OF n])
    show "unat (x86_number (of_nat (unat (x86_guest nr)))) = unat (x86_number nr)" by (simp add: x86_number_guest)
    show "unat (x86_number nr) \<le> 471" using c by simp
    show "unat (x86_number (of_nat g)) \<noteq> unat (x86_number nr)" if "unat (x86_guest nr) < g" "g \<le> 471" for g
    proof
      assume "unat (x86_number (of_nat g)) = unat (x86_number nr)"
      then have "g = unat nr \<or> {g, unat nr} = {33, 292}" by (rule x86_same_canonical [OF assms _ that(2)])
      moreover have "unat nr \<noteq> 33" if "nr \<noteq> 33" using that unat_arith_simps(3) [of nr 33] by simp
      ultimately show False using that(1) by (auto simp: x86_guest_def doubleton_eq_iff split: if_splits)
    qed
  qed
qed

lemma x86_only_bit: "(nr OR HL_LINUX_SYSCALL_X86_ONLY) AND HL_LINUX_SYSCALL_X86_ONLY \<noteq> 0"
proof -
  have "(nr OR HL_LINUX_SYSCALL_X86_ONLY) AND HL_LINUX_SYSCALL_X86_ONLY = HL_LINUX_SYSCALL_X86_ONLY"
    by (rule bit_word_eqI) (auto simp: bit_simps)
  then show ?thesis by (simp add: HL_LINUX_SYSCALL_X86_ONLY_def)
qed

lemma small_no_bit: "unat (c :: u64) \<le> 471 \<Longrightarrow> c AND HL_LINUX_SYSCALL_X86_ONLY = 0"
proof -
  assume "unat c \<le> 471"
  then have "c < 2 ^ 16" by (simp add: word_less_nat_alt)
  then have "take_bit 16 c = c" by (simp only: take_bit_eq_mask less_mask_eq)
  then have "\<not> bit c 16" by (metis bit_take_bit_iff less_irrefl)
  moreover have "HL_LINUX_SYSCALL_X86_ONLY = 2 ^ 16" by (simp add: HL_LINUX_SYSCALL_X86_ONLY_def)
  ultimately show ?thesis by (metis and_exp_eq_0_iff_not_bit)
qed

lemma unat_u16: "k \<le> 472 \<Longrightarrow> unat (of_nat k :: u16) = k"
  by (simp add: unat_of_nat take_bit_eq_mod)

lemma guest_of_known:
  assumes "x86_known nr"
  shows "hl_linux_syscall_guest_number True HL_LINUX_GUEST_X86_64 (x86_number nr) = x86_guest nr"
proof -
  obtain c where c: "unat (x86_number nr) \<le> 471" "unat nr \<le> 471" using x86_known_entry [OF assms] by metis
  then have n: "unat (x86_guest nr) \<le> 471" by (simp add: x86_guest_def)
  then have "unat (of_nat (unat (x86_guest nr) + 1) :: u16) = unat (x86_guest nr) + 1" by (intro unat_u16) simp
  then have e: "unat (x86_inverse_init ! unat (x86_number nr)) = unat (x86_guest nr) + 1"
    by (simp only: x86_inverse_exact [OF assms])
  then have "x86_inverse_init ! unat (x86_number nr) \<noteq> 0" by auto
  moreover have "ucast (x86_inverse_init ! unat (x86_number nr)) - 1 = x86_guest nr"
  proof -
    have "(ucast (x86_inverse_init ! unat (x86_number nr)) :: u64) = of_nat (unat (x86_inverse_init ! unat (x86_number nr)))"
      by simp
    also have "\<dots> = x86_guest nr + 1" by (simp only: e of_nat_add of_nat_1 of_nat_unat ucast_id)
    finally show ?thesis by (simp only: add_diff_cancel_right')
  qed
  ultimately show ?thesis
    using c by (simp add: hl_linux_syscall_guest_number_def HL_LINUX_CANONICAL_MAX_def small_no_bit)
qed

lemma guest_of_unknown:
  "\<not> x86_known nr \<Longrightarrow> hl_linux_syscall_guest_number True HL_LINUX_GUEST_X86_64 (x86_number nr) = - 1"
  using x86_only_bit [of nr]
  by (simp add: x86_known_def x86_number_table switch_number_def hl_linux_syscall_guest_number_def)

text \<open>A canonical number the inverse answers for is one some guest number has.\<close>

lemma guest_some:
  assumes "hl_linux_syscall_guest_number True HL_LINUX_GUEST_X86_64 c \<noteq> - 1"
  obtains nr where "x86_known nr" "c = x86_number nr"
proof -
  have c: "unat c \<le> 471"
  proof (rule ccontr)
    assume "\<not> unat c \<le> 471"
    then have "hl_linux_syscall_guest_number True HL_LINUX_GUEST_X86_64 c = - 1"
      by (simp add: hl_linux_syscall_guest_number_def HL_LINUX_CANONICAL_MAX_def)
    with assms show False by simp
  qed
  have hit: "x86_inverse_init ! unat c \<noteq> 0"
  proof
    assume "x86_inverse_init ! unat c = 0"
    then have "hl_linux_syscall_guest_number True HL_LINUX_GUEST_X86_64 c = - 1"
      by (simp add: hl_linux_syscall_guest_number_def HL_LINUX_CANONICAL_MAX_def)
    with assms show False by simp
  qed
  from hit obtain g where g: "unat (x86_number (of_nat g)) = unat c" using x86_inverse_miss [OF c] by blast
  show thesis
  proof (rule that)
    show "x86_known (of_nat g)" using c unfolding x86_canonical_iff [symmetric] g .
    show "c = x86_number (of_nat g)" using g by (simp only: word_unat_eq_iff)
  qed
qed

text \<open>Claim C31: the translation of system-call numbers and its inverse.  A number of the x86-64 table goes to
  its canonical number and back to itself, except that dup2 comes back as dup3; a number outside the table has
  no way back.  Whatever guest number the inverse answers translates to the canonical number it was asked
  for.\<close>

theorem syscall_number_roundtrip:
  "hl_linux_syscall_guest_number True HL_LINUX_GUEST_X86_64 (hl_linux_syscall_number HL_LINUX_GUEST_X86_64 nr) =
    (if x86_known nr then x86_guest nr else - 1) \<and>
   (hl_linux_syscall_guest_number True HL_LINUX_GUEST_X86_64 c = - 1 \<or>
    hl_linux_syscall_number HL_LINUX_GUEST_X86_64 (hl_linux_syscall_guest_number True HL_LINUX_GUEST_X86_64 c) = c)"
proof
  show "hl_linux_syscall_guest_number True HL_LINUX_GUEST_X86_64 (hl_linux_syscall_number HL_LINUX_GUEST_X86_64 nr) =
    (if x86_known nr then x86_guest nr else - 1)"
    by (simp add: hl_linux_syscall_number_def guest_of_known guest_of_unknown)
  show "hl_linux_syscall_guest_number True HL_LINUX_GUEST_X86_64 c = - 1 \<or>
    hl_linux_syscall_number HL_LINUX_GUEST_X86_64 (hl_linux_syscall_guest_number True HL_LINUX_GUEST_X86_64 c) = c"
  proof (cases "hl_linux_syscall_guest_number True HL_LINUX_GUEST_X86_64 c = - 1")
    case False
    then show ?thesis
      by (rule guest_some) (simp add: hl_linux_syscall_number_def guest_of_known x86_number_guest)
  qed simp
qed

end
