(* ===== verification/Seccomp_Vm.thy ===== *)
theory Seccomp_Vm
  imports Husk_Prelude
begin

text \<open>
  The classic-BPF machine of \<^verbatim>\<open>linux_abi/seccomp_vm.c\<close> and the per-thread filter stack and
  syscall gate of \<^verbatim>\<open>linux_abi/seccomp.c\<close>.  A program is a list of \<open>sock_filter\<close>
  (the C code's pointer together with its \<open>uint16_t\<close> length); the loop's \<open>pc\<close> is a
  natural number because the loop guard keeps it below the length, which is at most 4096.
  Every early \<open>return 0\<close> of the machine carries the reason it was taken, so that
  "a checked program never hits it" can be stated; the C result is 0 for all of them.
\<close>

section \<open>Programs and data\<close>

record sock_filter =
  code :: u16
  jt :: u8
  jf :: u8
  k :: u32

record seccomp_data =
  nr :: u32
  arch :: u32
  instruction_pointer :: u64
  args :: "u64 list"

definition HL_LINUX_BPF_MAXINSNS :: nat where "HL_LINUX_BPF_MAXINSNS = 4096"
definition MEMWORDS :: nat where "MEMWORDS = 16"

definition CLASS :: "u16 \<Rightarrow> u16" where "CLASS c = c AND 0x07"
definition SIZE :: "u16 \<Rightarrow> u16" where "SIZE c = c AND 0x18"
definition MODE :: "u16 \<Rightarrow> u16" where "MODE c = c AND 0xe0"
definition OP :: "u16 \<Rightarrow> u16" where "OP c = c AND 0xf0"
definition SRC :: "u16 \<Rightarrow> u16" where "SRC c = c AND 0x08"
definition RVAL :: "u16 \<Rightarrow> u16" where "RVAL c = c AND 0x18"
definition MISCOP :: "u16 \<Rightarrow> u16" where "MISCOP c = c AND 0xf8"

text \<open>The bytes the machine reads: \<open>struct hl_linux_seccomp_data\<close> in memory, 64 bytes.\<close>

definition packet_of :: "seccomp_data \<Rightarrow> u8 list" where
  "packet_of sd = le_bytes 4 (nr sd) @ le_bytes 4 (arch sd) @ le_bytes 8 (instruction_pointer sd) @
     concat (map (le_bytes 8) (take 6 (args sd)))"

definition sd_wf :: "seccomp_data \<Rightarrow> bool" where
  "sd_wf sd \<longleftrightarrow> length (args sd) = 6"

definition packet_length :: nat where "packet_length = 64"

section \<open>Validation\<close>

definition valid_insn :: "nat \<Rightarrow> nat \<Rightarrow> sock_filter \<Rightarrow> bool" where
  "valid_insn flen pc i =
    (let c = code i; value = unat (k i); op = OP c; remaining = flen - pc - 1 in
     if CLASS c = 0x00 then
       (if c = 0x00 \<or> c = 0x80 then True
        else if MODE c = 0x20 then
          \<not> (SIZE c \<noteq> 0 \<or> value > packet_length - 4 \<or> (k i AND 3) \<noteq> 0)
        else c = 0x60 \<and> value < MEMWORDS)
     else if CLASS c = 0x01 then c = 0x01 \<or> c = 0x81 \<or> (c = 0x61 \<and> value < MEMWORDS)
     else if CLASS c = 0x02 \<or> CLASS c = 0x03 then \<not> (c \<noteq> CLASS c \<or> value \<ge> MEMWORDS)
     else if CLASS c = 0x04 then
       (if op = 0x80 then c = 0x84
        else op \<in> {0x00, 0x10, 0x20, 0x30, 0x40, 0x50, 0x60, 0x70, 0x90, 0xa0}) \<and>
       \<not> ((op = 0x30 \<or> op = 0x90) \<and> SRC c = 0 \<and> value = 0)
     else if CLASS c = 0x05 then
       (if op = 0x00 then \<not> (c \<noteq> 0x05 \<or> value \<ge> remaining)
        else op \<in> {0x10, 0x20, 0x30, 0x40} \<and> unat (jt i) < remaining \<and> unat (jf i) < remaining)
     else if CLASS c = 0x06 then c = 0x06 \<or> c = 0x16
     else if CLASS c = 0x07 then c = 0x07 \<or> c = 0x87
     else False)"

fun validate_from :: "nat \<Rightarrow> nat \<Rightarrow> sock_filter list \<Rightarrow> bool" where
  "validate_from flen pc [] = True"
| "validate_from flen pc (i # is) = (valid_insn flen pc i \<and> validate_from flen (Suc pc) is)"

definition hl_seccomp_validate :: "sock_filter list \<Rightarrow> bool" where
  "hl_seccomp_validate f =
    (if f = [] \<or> length f > HL_LINUX_BPF_MAXINSNS \<or> CLASS (code (last f)) \<noteq> 0x06 then False
     else validate_from (length f) 0 f)"

section \<open>The machine\<close>

record bpf =
  accumulator :: u32
  index :: u32
  memory :: "u32 list"
  pc :: nat

datatype stop = OutOfBounds | DivideByZero | BadOpcode | FellOff

datatype bpf_next = Ret u32 | Stop stop | Next bpf

definition bpf_init :: bpf where
  "bpf_init = \<lparr>accumulator = 0, index = 0, memory = replicate MEMWORDS 0, pc = 0\<rparr>"

text \<open>A load of 1, 2 or 4 bytes from the packet, least significant byte first.\<close>

definition bpf_load :: "u8 list \<Rightarrow> nat \<Rightarrow> nat \<Rightarrow> u32" where
  "bpf_load packet offset sz =
    (if sz > 2 then le32 (packet ! offset) (packet ! (offset + 1)) (packet ! (offset + 2)) (packet ! (offset + 3))
     else if sz > 1 then ucast (packet ! offset) OR push_bit 8 (ucast (packet ! (offset + 1)))
     else ucast (packet ! offset))"

definition step_ld :: "u8 list \<Rightarrow> u16 \<Rightarrow> u32 \<Rightarrow> bpf \<Rightarrow> bpf_next" where
  "step_ld packet c value s =
    (if MODE c = 0x00 then Next (s\<lparr>accumulator := value\<rparr>)
     else if MODE c = 0x80 then Next (s\<lparr>accumulator := of_nat packet_length\<rparr>)
     else if MODE c = 0x20 \<or> MODE c = 0x40 then
       (let offset = (if MODE c = 0x40 then unat (index s) + unat value else unat value);
            sz = (if SIZE c = 0x10 then 1 else if SIZE c = 0x08 then 2 else 4)
        in if offset + sz > packet_length then Stop OutOfBounds
           else Next (s\<lparr>accumulator := bpf_load packet offset sz\<rparr>))
     else if MODE c = 0x60 then
       (if unat value \<ge> MEMWORDS then Stop OutOfBounds
        else Next (s\<lparr>accumulator := memory s ! unat value\<rparr>))
     else Stop BadOpcode)"

definition step_ldx :: "u8 list \<Rightarrow> u16 \<Rightarrow> u32 \<Rightarrow> bpf \<Rightarrow> bpf_next" where
  "step_ldx packet c value s =
    (if MODE c = 0x00 then Next (s\<lparr>index := value\<rparr>)
     else if MODE c = 0x80 then Next (s\<lparr>index := of_nat packet_length\<rparr>)
     else if MODE c = 0x60 then
       (if unat value \<ge> MEMWORDS then Stop OutOfBounds
        else Next (s\<lparr>index := memory s ! unat value\<rparr>))
     else if MODE c = 0xa0 then
       (if unat value \<ge> packet_length then Stop OutOfBounds
        else Next (s\<lparr>index := 4 * (ucast (packet ! unat value) AND 0x0f)\<rparr>))
     else Stop BadOpcode)"

definition step_alu :: "u16 \<Rightarrow> u32 \<Rightarrow> bpf \<Rightarrow> bpf_next" where
  "step_alu c value s =
    (let source = (if SRC c = 0x08 then index s else value); a = accumulator s; op = OP c in
     if op = 0x00 then Next (s\<lparr>accumulator := a + source\<rparr>)
     else if op = 0x10 then Next (s\<lparr>accumulator := a - source\<rparr>)
     else if op = 0x20 then Next (s\<lparr>accumulator := a * source\<rparr>)
     else if op = 0x30 then
       (if source = 0 then Stop DivideByZero else Next (s\<lparr>accumulator := a div source\<rparr>))
     else if op = 0x40 then Next (s\<lparr>accumulator := a OR source\<rparr>)
     else if op = 0x50 then Next (s\<lparr>accumulator := a AND source\<rparr>)
     else if op = 0x60 then
       Next (s\<lparr>accumulator := if source < 32 then push_bit (unat source) a else 0\<rparr>)
     else if op = 0x70 then
       Next (s\<lparr>accumulator := if source < 32 then drop_bit (unat source) a else 0\<rparr>)
     else if op = 0x80 then Next (s\<lparr>accumulator := 0 - a\<rparr>)
     else if op = 0x90 then
       (if source = 0 then Stop DivideByZero else Next (s\<lparr>accumulator := a mod source\<rparr>))
     else if op = 0xa0 then Next (s\<lparr>accumulator := a XOR source\<rparr>)
     else Stop BadOpcode)"

text \<open>A jump adds its displacement to \<open>pc\<close>; the loop then adds one more.\<close>

definition step_jmp :: "nat \<Rightarrow> sock_filter \<Rightarrow> bpf \<Rightarrow> bpf_next" where
  "step_jmp flen i s =
    (let c = code i; value = k i; op = OP c; remaining = flen - pc s - 1 in
     if op = 0x00 then
       (if unat value \<ge> remaining then Stop OutOfBounds else Next (s\<lparr>pc := pc s + unat value\<rparr>))
     else
       (let compare = (if SRC c = 0x08 then index s else value); a = accumulator s;
            branch = (\<lambda>matched. let jump = (if matched then unat (jt i) else unat (jf i)) in
               if jump \<ge> remaining then Stop OutOfBounds else Next (s\<lparr>pc := pc s + jump\<rparr>))
        in if op = 0x10 then branch (a = compare)
           else if op = 0x20 then branch (a > compare)
           else if op = 0x30 then branch (a \<ge> compare)
           else if op = 0x40 then branch (a AND compare \<noteq> 0)
           else Stop BadOpcode))"

definition bpf_exec :: "nat \<Rightarrow> u8 list \<Rightarrow> sock_filter \<Rightarrow> bpf \<Rightarrow> bpf_next" where
  "bpf_exec flen packet i s =
    (let c = code i; value = k i in
     if CLASS c = 0x00 then step_ld packet c value s
     else if CLASS c = 0x01 then step_ldx packet c value s
     else if CLASS c = 0x02 then
       (if unat value \<ge> MEMWORDS then Stop OutOfBounds
        else Next (s\<lparr>memory := (memory s)[unat value := accumulator s]\<rparr>))
     else if CLASS c = 0x03 then
       (if unat value \<ge> MEMWORDS then Stop OutOfBounds
        else Next (s\<lparr>memory := (memory s)[unat value := index s]\<rparr>))
     else if CLASS c = 0x04 then step_alu c value s
     else if CLASS c = 0x05 then step_jmp flen i s
     else if CLASS c = 0x06 then Ret (if RVAL c = 0x10 then accumulator s else value)
     else if CLASS c = 0x07 then
       (if MISCOP c = 0x00 then Next (s\<lparr>index := accumulator s\<rparr>)
        else if MISCOP c = 0x80 then Next (s\<lparr>accumulator := index s\<rparr>)
        else Stop BadOpcode)
     else Stop BadOpcode)"

text \<open>The loop: \<open>fuel\<close> is what is left of the bound \<open>steps \<le> MAXINSNS\<close>.\<close>

fun bpf_loop :: "sock_filter list \<Rightarrow> u8 list \<Rightarrow> nat \<Rightarrow> bpf \<Rightarrow> stop + u32" where
  "bpf_loop f packet 0 s = Inl FellOff"
| "bpf_loop f packet (Suc fuel) s =
    (if pc s < length f then
       (case bpf_exec (length f) packet (f ! pc s) s of
          Ret v \<Rightarrow> Inr v
        | Stop r \<Rightarrow> Inl r
        | Next s' \<Rightarrow> bpf_loop f packet fuel (s'\<lparr>pc := pc s' + 1\<rparr>))
     else Inl FellOff)"

definition bpf_outcome :: "sock_filter list \<Rightarrow> seccomp_data \<Rightarrow> stop + u32" where
  "bpf_outcome f sd =
    (if f = [] \<or> length f > HL_LINUX_BPF_MAXINSNS then Inl FellOff
     else bpf_loop f (packet_of sd) (HL_LINUX_BPF_MAXINSNS + 1) bpf_init)"

definition hl_seccomp_run :: "sock_filter list \<Rightarrow> seccomp_data \<Rightarrow> u32" where
  "hl_seccomp_run f sd = (case bpf_outcome f sd of Inl _ \<Rightarrow> 0 | Inr v \<Rightarrow> v)"

section \<open>What a single step does\<close>

lemmas bpf_fields = CLASS_def SIZE_def MODE_def OP_def SRC_def RVAL_def MISCOP_def

lemma step_ld_wf: "step_ld packet c value s = Next s' \<Longrightarrow> pc s' = pc s \<and> memory s' = memory s"
  by (auto simp: step_ld_def Let_def split: if_splits)
lemma step_ldx_wf: "step_ldx packet c value s = Next s' \<Longrightarrow> pc s' = pc s \<and> memory s' = memory s"
  by (auto simp: step_ldx_def Let_def split: if_splits)
lemma step_alu_wf: "step_alu c value s = Next s' \<Longrightarrow> pc s' = pc s \<and> memory s' = memory s"
  by (auto simp: step_alu_def Let_def split: if_splits)
lemma step_jmp_wf:
  "step_jmp flen i s = Next s' \<Longrightarrow> pc s \<le> pc s' \<and> pc s' - pc s < flen - pc s - 1 \<and> memory s' = memory s"
  by (auto simp: step_jmp_def Let_def split: if_splits)

lemmas step_wf = step_ld_wf step_ldx_wf step_alu_wf step_jmp_wf

lemma bpf_exec_advances:
  assumes "bpf_exec flen packet i s = Next s'"
  shows "pc s \<le> pc s' \<and> length (memory s') = length (memory s) \<and>
    (pc s' = pc s \<or> pc s' + 1 < flen) \<and> CLASS (code i) \<noteq> 0x06"
  using assms
  by (auto simp: bpf_exec_def Let_def split: if_splits dest!: step_wf)

lemma step_ld_valid:
  assumes "valid_insn flen p i" "CLASS (code i) = 0" 
  shows "step_ld packet (code i) (k i) s \<noteq> Stop r"
  using assms
  by (auto simp: valid_insn_def step_ld_def Let_def MEMWORDS_def packet_length_def split: if_splits; simp add: bpf_fields)

lemma step_ldx_valid:
  assumes "valid_insn flen p i" "CLASS (code i) = 1" 
  shows "step_ldx packet (code i) (k i) s \<noteq> Stop r"
  using assms
  by (auto simp: valid_insn_def step_ldx_def Let_def MEMWORDS_def packet_length_def split: if_splits; simp add: bpf_fields)


lemma SRC_cases: "SRC c = 0 \<or> SRC c = 0x08"
  using and_exp_cases [of c 3] by (simp add: SRC_def)

definition divides_by_index :: "sock_filter \<Rightarrow> bool" where
  "divides_by_index i \<longleftrightarrow>
    CLASS (code i) = 0x04 \<and> SRC (code i) = 0x08 \<and> (OP (code i) = 0x30 \<or> OP (code i) = 0x90)"

lemma step_alu_valid:
  assumes v: "valid_insn flen p i" "CLASS (code i) = 4" and st: "step_alu (code i) (k i) s = Stop r"
  shows "r = DivideByZero \<and> divides_by_index i \<and> index s = 0"
proof -
  have op: "OP (code i) \<in> {0x00, 0x10, 0x20, 0x30, 0x40, 0x50, 0x60, 0x70, 0x80, 0x90, 0xa0}"
    and nz: "OP (code i) = 0x30 \<or> OP (code i) = 0x90 \<Longrightarrow> SRC (code i) = 0 \<Longrightarrow> k i \<noteq> 0"
    using v by (auto simp: valid_insn_def Let_def unat_eq_0 split: if_splits)
  from op st have "OP (code i) = 0x30 \<or> OP (code i) = 0x90" "r = DivideByZero"
    "(if SRC (code i) = 0x08 then index s else k i) = 0"
    by (auto simp: step_alu_def Let_def split: if_splits)
  with v(2) nz SRC_cases [of "code i"] show ?thesis
    by (auto simp: divides_by_index_def split: if_splits)
qed

lemma step_jmp_valid:
  assumes "valid_insn flen (pc s) i" "CLASS (code i) = 5"
  shows "step_jmp flen i s \<noteq> Stop r"
proof (cases "OP (code i) = 0")
  case True
  then show ?thesis using assms by (simp add: valid_insn_def step_jmp_def Let_def)
next
  case False
  then have "OP (code i) \<in> {0x10, 0x20, 0x30, 0x40}"
    and "unat (jt i) < flen - pc s - 1" "unat (jf i) < flen - pc s - 1"
    using assms by (simp_all add: valid_insn_def Let_def)
  then show ?thesis by (auto simp: step_jmp_def Let_def False)
qed

lemma bpf_exec_valid:
  assumes v: "valid_insn flen (pc s) i" and st: "bpf_exec flen packet i s = Stop r"
  shows "r = DivideByZero \<and> divides_by_index i \<and> index s = 0"
proof -
  from st v consider "CLASS (code i) = 0" "step_ld packet (code i) (k i) s = Stop r"
    | "CLASS (code i) = 1" "step_ldx packet (code i) (k i) s = Stop r"
    | "CLASS (code i) = 4" "step_alu (code i) (k i) s = Stop r"
    | "CLASS (code i) = 5" "step_jmp flen i s = Stop r"
    | "CLASS (code i) = 7" "MISCOP (code i) \<noteq> 0" "MISCOP (code i) \<noteq> 0x80"
    by (fastforce simp: bpf_exec_def valid_insn_def Let_def split: if_splits)
  then show ?thesis
  proof cases
    case 5
    then have "code i = 0x07 \<or> code i = 0x87" using v by (simp add: valid_insn_def Let_def)
    with 5 show ?thesis by (auto simp: MISCOP_def)
  qed (use v step_ld_valid step_ldx_valid step_alu_valid step_jmp_valid in auto)
qed

lemma validate_from_nth:
  "validate_from flen p is \<Longrightarrow> j < length is \<Longrightarrow> valid_insn flen (p + j) (is ! j)"
proof (induction "is" arbitrary: p j)
  case (Cons i "is")
  then show ?case by (cases j) (auto dest: Cons.IH [of "Suc p"])
qed simp

lemma validate_nth:
  "hl_seccomp_validate f \<Longrightarrow> j < length f \<Longrightarrow> valid_insn (length f) j (f ! j)"
  using validate_from_nth [of "length f" 0 f j] by (auto simp: hl_seccomp_validate_def split: if_splits)

lemma validate_shape:
  "hl_seccomp_validate f \<Longrightarrow> f \<noteq> [] \<and> length f \<le> HL_LINUX_BPF_MAXINSNS \<and> CLASS (code (f ! (length f - 1))) = 0x06"
  by (auto simp: hl_seccomp_validate_def last_conv_nth split: if_splits)


lemma bpf_exec_stays:
  assumes "hl_seccomp_validate f" "pc s < length f" "bpf_exec (length f) packet (f ! pc s) s = Next s'"
  shows "pc s \<le> pc s' \<and> pc s' + 1 < length f"
proof -
  from bpf_exec_advances [OF assms(3)] have a: "pc s \<le> pc s'" "pc s' = pc s \<or> pc s' + 1 < length f"
    and c: "CLASS (code (f ! pc s)) \<noteq> 0x06" by auto
  from c validate_shape [OF assms(1)] have "pc s \<noteq> length f - 1" by auto
  with a assms(2) show ?thesis by auto
qed

lemma bpf_loop_valid:
  assumes v: "hl_seccomp_validate f"
  shows "pc s < length f \<Longrightarrow> length f - pc s \<le> fuel \<Longrightarrow>
    bpf_loop f packet fuel s = Inl r \<Longrightarrow> r = DivideByZero \<and> (\<exists>i \<in> set f. divides_by_index i)"
proof (induction fuel arbitrary: s)
  case 0
  then show ?case by simp
next
  case (Suc fuel)
  show ?case
  proof (cases "bpf_exec (length f) packet (f ! pc s) s")
    case (Stop r')
    with Suc.prems bpf_exec_valid [OF validate_nth [OF v Suc.prems(1)] Stop] show ?thesis
      by (auto intro: bexI [of _ "f ! pc s"])
  next
    case (Next s')
    from bpf_exec_stays [OF v Suc.prems(1) Next] Suc.prems Next
    show ?thesis by (intro Suc.IH [of "s'\<lparr>pc := pc s' + 1\<rparr>"]) auto
  qed (use Suc.prems in auto)
qed

lemma bpf_loop_more_fuel:
  "length f - pc s \<le> fuel \<Longrightarrow> bpf_loop f packet (fuel + n) s = bpf_loop f packet fuel s"
proof (induction fuel arbitrary: s)
  case 0
  then show ?case by (cases n) auto
next
  case (Suc fuel)
  have "bpf_loop f packet (fuel + n) (s'\<lparr>pc := pc s' + 1\<rparr>) = bpf_loop f packet fuel (s'\<lparr>pc := pc s' + 1\<rparr>)"
    if "bpf_exec (length f) packet (f ! pc s) s = Next s'" for s'
    using bpf_exec_advances [OF that] Suc.prems by (intro Suc.IH) auto
  then show ?case by (auto split: bpf_next.splits)
qed


section \<open>The packet bytes\<close>

lemma length_concat_le_bytes: "length (concat (map (le_bytes n) ws)) = n * length ws"
  by (induction ws) simp_all

lemma nth_concat_le_bytes:
  "i < length ws \<Longrightarrow> j < n \<Longrightarrow>
   concat (map (le_bytes n) ws) ! (n * i + j) = ucast (drop_bit (8 * j) (ws ! i))"
proof (induction ws arbitrary: i)
  case (Cons w ws)
  then show ?case
    by (cases i) (simp_all add: nth_append algebra_simps)
qed simp

lemma length_packet_of: "sd_wf sd \<Longrightarrow> length (packet_of sd) = packet_length"
  by (simp add: sd_wf_def packet_of_def packet_length_def length_concat_le_bytes)

lemma packet_header:
  shows "bpf_load (packet_of sd) 0 4 = nr sd" "bpf_load (packet_of sd) 4 4 = arch sd"
    "bpf_load (packet_of sd) 8 4 = ucast (instruction_pointer sd)"
    "bpf_load (packet_of sd) 12 4 = ucast (drop_bit 32 (instruction_pointer sd))"
  using le32_of_bytes [of "nr sd"] le32_of_bytes [of "arch sd"] le32_of_bytes [of "instruction_pointer sd"]
   le32_of_bytes [of "drop_bit 32 (instruction_pointer sd)"]
  by (simp_all add: bpf_load_def packet_of_def nth_append)

lemma packet_arg_byte:
  assumes "sd_wf sd" "i < 6" "j < 8"
  shows "packet_of sd ! (16 + 8 * i + j) = ucast (drop_bit (8 * j) (args sd ! i))"
  using nth_concat_le_bytes [of i "args sd" j 8] assms
  by (simp add: packet_of_def nth_append sd_wf_def algebra_simps)

lemma packet_args:
  assumes "sd_wf sd" "i < 6"
  shows "bpf_load (packet_of sd) (16 + 8 * i) 4 = ucast (args sd ! i)"
    "bpf_load (packet_of sd) (16 + 8 * i + 4) 4 = ucast (drop_bit 32 (args sd ! i))"
  using packet_arg_byte [OF assms, of 0] packet_arg_byte [OF assms, of 1] packet_arg_byte [OF assms, of 2]
    packet_arg_byte [OF assms, of 3] packet_arg_byte [OF assms, of 4] packet_arg_byte [OF assms, of 5]
    packet_arg_byte [OF assms, of 6] packet_arg_byte [OF assms, of 7]
    le32_of_bytes [of "args sd ! i"] le32_of_bytes [of "drop_bit 32 (args sd ! i)"]
  by (simp_all add: bpf_load_def add.commute add.left_commute numeral_eq_Suc)

section \<open>Properties\<close>

text \<open>Claim C1.  A program that the validator accepts runs to a \<open>RET\<close> instruction: the machine
  never reads the packet or its scratch memory out of bounds, never meets an opcode it does not know
  and never falls off the end of the program.  The only early exit left is a division by the index
  register when that register is 0, and then the program does contain such an instruction.\<close>

theorem validated_run_returns:
  assumes "hl_seccomp_validate f"
  shows "(\<exists>v. bpf_outcome f sd = Inr v) \<or>
    (bpf_outcome f sd = Inl DivideByZero \<and> (\<exists>i \<in> set f. divides_by_index i))"
proof (cases "bpf_outcome f sd")
  case (Inl r)
  from validate_shape [OF assms] have "f \<noteq> []" "length f \<le> HL_LINUX_BPF_MAXINSNS" by auto
  with Inl have "r = DivideByZero \<and> (\<exists>i \<in> set f. divides_by_index i)"
    by (intro bpf_loop_valid [OF assms, of bpf_init "HL_LINUX_BPF_MAXINSNS + 1" "packet_of sd"])
       (auto simp: bpf_outcome_def bpf_init_def)
  with Inl show ?thesis by simp
qed simp

definition example_filter :: "sock_filter list" where
  "example_filter =
    [\<lparr>code = 0x20, jt = 0, jf = 0, k = 0\<rparr>,
     \<lparr>code = 0x15, jt = 0, jf = 1, k = 7\<rparr>,
     \<lparr>code = 0x06, jt = 0, jf = 0, k = 0x00050001\<rparr>,
     \<lparr>code = 0x06, jt = 0, jf = 0, k = 0x7fff0000\<rparr>]"

definition example_data :: "u32 \<Rightarrow> seccomp_data" where
  "example_data n = \<lparr>nr = n, arch = 0xC00000B7, instruction_pointer = 0x1000, args = [1, 2, 3, 4, 5, 6]\<rparr>"

lemma example_filter_valid: "hl_seccomp_validate example_filter"
  by (simp add: example_filter_def hl_seccomp_validate_def valid_insn_def bpf_fields Let_def
      HL_LINUX_BPF_MAXINSNS_def packet_length_def)

theorem validated_run_returns_witness:
  "hl_seccomp_validate example_filter \<and>
   ((\<exists>v. bpf_outcome example_filter (example_data 7) = Inr v) \<or>
    (bpf_outcome example_filter (example_data 7) = Inl DivideByZero \<and>
      (\<exists>i \<in> set example_filter. divides_by_index i)))"
  using example_filter_valid validated_run_returns [OF example_filter_valid] by blast

text \<open>The bound of 4096 on the number of loop rounds never cuts a run short: every round
  moves \<open>pc\<close> forward, so any budget of at least as many rounds as the program has instructions,
  checked by the validator or not, gives the same outcome.\<close>

theorem step_bound_unreachable:
  assumes "f \<noteq> []" "length f \<le> HL_LINUX_BPF_MAXINSNS"
  shows "bpf_outcome f sd = bpf_loop f (packet_of sd) (length f + n) bpf_init"
proof -
  have p: "length f - pc bpf_init \<le> length f" by simp
  have "bpf_outcome f sd = bpf_loop f (packet_of sd) (length f + (HL_LINUX_BPF_MAXINSNS + 1 - length f)) bpf_init"
    using assms by (simp add: bpf_outcome_def)
  also have "\<dots> = bpf_loop f (packet_of sd) (length f) bpf_init" by (rule bpf_loop_more_fuel [OF p])
  also have "\<dots> = bpf_loop f (packet_of sd) (length f + n) bpf_init" by (rule bpf_loop_more_fuel [OF p, symmetric])
  finally show ?thesis .
qed

theorem step_bound_unreachable_witness:
  "bpf_outcome example_filter (example_data 9) =
   bpf_loop example_filter (packet_of (example_data 9)) (length example_filter + 0) bpf_init"
  by (rule step_bound_unreachable) (simp_all add: example_filter_def HL_LINUX_BPF_MAXINSNS_def)

text \<open>A program can inspect exactly the system call it is asked about: a checked absolute
  load at the offsets of the ABI reads the system call number, the architecture, and the two halves
  of the instruction pointer and of each argument.\<close>

theorem absolute_load_reads_fields:
  assumes "sd_wf sd" "i < 6"
  shows "step_ld (packet_of sd) 0x20 0 s = Next (s\<lparr>accumulator := nr sd\<rparr>) \<and>
    step_ld (packet_of sd) 0x20 4 s = Next (s\<lparr>accumulator := arch sd\<rparr>) \<and>
    step_ld (packet_of sd) 0x20 8 s = Next (s\<lparr>accumulator := ucast (instruction_pointer sd)\<rparr>) \<and>
    step_ld (packet_of sd) 0x20 12 s = Next (s\<lparr>accumulator := ucast (drop_bit 32 (instruction_pointer sd))\<rparr>) \<and>
    step_ld (packet_of sd) 0x20 (of_nat (16 + 8 * i)) s = Next (s\<lparr>accumulator := ucast (args sd ! i)\<rparr>) \<and>
    step_ld (packet_of sd) 0x20 (of_nat (20 + 8 * i)) s =
      Next (s\<lparr>accumulator := ucast (drop_bit 32 (args sd ! i))\<rparr>)"
proof -
  have u: "unat (word_of_nat (16 + 8 * i) :: u32) = 16 + 8 * i"
    "unat (word_of_nat (20 + 8 * i) :: u32) = 16 + 8 * i + 4"
    using assms(2) by (simp_all only: unat_of_nat) (simp_all add: take_bit_nat_eq_self)
  have ld: "step_ld (packet_of sd) 0x20 v s = Next (s\<lparr>accumulator := bpf_load (packet_of sd) (unat v) 4\<rparr>)"
    if "unat v \<le> 60" for v
    using that by (simp add: step_ld_def bpf_fields packet_length_def Let_def)
  have a: "step_ld (packet_of sd) 0x20 (of_nat (16 + 8 * i)) s = Next (s\<lparr>accumulator := ucast (args sd ! i)\<rparr>)"
    using assms(2) by (subst ld) (simp_all only: u packet_args [OF assms])
  have b: "step_ld (packet_of sd) 0x20 (of_nat (20 + 8 * i)) s =
      Next (s\<lparr>accumulator := ucast (drop_bit 32 (args sd ! i))\<rparr>)"
    using assms(2) by (subst ld) (simp_all only: u packet_args [OF assms])
  from a b show ?thesis by (simp add: ld packet_header)
qed

theorem absolute_load_reads_fields_witness:
  "step_ld (packet_of (example_data 7)) 0x20 (of_nat (16 + 8 * 2)) bpf_init =
     Next (bpf_init\<lparr>accumulator := 3\<rparr>)"
proof -
  have "sd_wf (example_data 7)" "(2::nat) < 6" by (simp_all add: sd_wf_def example_data_def)
  from absolute_load_reads_fields [OF this, of bpf_init] show ?thesis
    by (simp add: example_data_def)
qed

end
