(* ===== verification/Address_Projection.thy ===== *)
theory Address_Projection
  imports Husk_Prelude
begin

text \<open>
  The displaced-image address projection of \<^verbatim>\<open>bridge/address_projection.{h,c}\<close>: a static
  executable linked at \<open>guest_start\<close> may be stored \<open>storage_bias\<close> bytes higher; guest-visible
  addresses stay in link coordinates.  \<open>nonpie_fold\<close> of \<^verbatim>\<open>linux_abi/thread/futex_mapping.c\<close>
  and the AArch64 interpreter's \<open>pcrel_base\<close> and \<open>interp_guest_pointer\<close> are its uses.
\<close>

record address_projection =
  pr_abi :: u32
  pr_size :: u32
  pr_flags :: u32
  pr_reserved :: u32
  guest_start :: u64
  guest_end :: u64
  storage_bias :: u64

definition PROJECTION_ABI :: u32 where "PROJECTION_ABI = 1"
definition PROJECTION_DISPLACED :: u32 where "PROJECTION_DISPLACED = 1"
definition PROJECTION_SIZE :: u32 where "PROJECTION_SIZE = 40"

definition projection_init :: "u64 \<Rightarrow> u64 \<Rightarrow> u64 \<Rightarrow> address_projection option" where
  "projection_init start finish storage =
    (if finish \<le> start \<or> storage < start then None
     else let bias = storage - start in
       if bias > - 1 - finish then None
       else Some \<lparr>pr_abi = PROJECTION_ABI, pr_size = PROJECTION_SIZE,
                  pr_flags = (if bias \<noteq> 0 then PROJECTION_DISPLACED else 0), pr_reserved = 0,
                  guest_start = start, guest_end = finish, storage_bias = bias\<rparr>)"

definition ELF_EXECUTABLE :: u32 where "ELF_EXECUTABLE = 1"
definition ELF_POSITION_INDEPENDENT :: u32 where "ELF_POSITION_INDEPENDENT = 2"

definition projection_init_elf :: "u32 \<Rightarrow> u64 \<Rightarrow> u64 \<Rightarrow> u64 \<Rightarrow> address_projection option" where
  "projection_init_elf kind link_start link_end storage_start =
    (if link_end \<le> link_start then None
     else if kind = ELF_EXECUTABLE then projection_init link_start link_end storage_start
     else if kind \<noteq> ELF_POSITION_INDEPENDENT then None
     else let span = link_end - link_start in
       if span > - 1 - storage_start then None
       else projection_init storage_start (storage_start + span) storage_start)"

definition projection_valid :: "address_projection \<Rightarrow> bool" where
  "projection_valid p =
    (if pr_abi p \<noteq> PROJECTION_ABI \<or> pr_size p < PROJECTION_SIZE \<or> pr_reserved p \<noteq> 0 \<or>
        (pr_flags p AND NOT PROJECTION_DISPLACED) \<noteq> 0 \<or> guest_end p \<le> guest_start p then False
     else storage_bias p \<le> - 1 - guest_end p \<and>
       ((storage_bias p \<noteq> 0) = ((pr_flags p AND PROJECTION_DISPLACED) \<noteq> 0)))"

definition storage_unchecked :: "address_projection \<Rightarrow> u64 \<Rightarrow> u64" where
  "storage_unchecked p guest =
    (if guest \<ge> guest_start p \<and> guest < guest_end p then guest + storage_bias p else guest)"

definition guest_unchecked :: "address_projection \<Rightarrow> u64 \<Rightarrow> u64" where
  "guest_unchecked p storage =
    (let start = guest_start p + storage_bias p; finish = guest_end p + storage_bias p in
     if storage \<ge> start \<and> storage < finish then storage - storage_bias p else storage)"

lemma projection_init_valid: "projection_init s f g = Some p \<Longrightarrow> projection_valid p"
  by (auto simp: projection_init_def projection_valid_def Let_def PROJECTION_ABI_def PROJECTION_SIZE_def
      PROJECTION_DISPLACED_def not_le not_less split: if_splits)

lemma bias_no_wrap:
  assumes "(b::u64) \<le> - 1 - e" "x \<le> e"
  shows "unat (x + b) = unat x + unat b"
proof -
  have "unat (- 1 - e) = 2 ^ 64 - 1 - unat e"
    using word_le_nat_alt [of e "- 1"] by (simp add: unat_sub_if' unsigned_minus_1_eq_mask mask_eq_exp_minus_1)
  with assms have "unat x + unat b < 2 ^ 64"
    using unat_u64_less [of e] by (simp add: word_le_nat_alt)
  then show ?thesis by (simp add: unat_word_ariths)
qed

lemma projection_window:
  assumes "projection_valid p" "guest_start p \<le> g" "g \<le> guest_end p"
  shows "unat (g + storage_bias p) = unat g + unat (storage_bias p)"
  using assms by (intro bias_no_wrap [of _ "guest_end p"]) (auto simp: projection_valid_def split: if_splits)

section \<open>The folds of the Linux personality\<close>

record nonpie =
  nonpie_lo :: u64
  nonpie_hi :: u64
  nonpie_bias :: u64

definition nonpie_projection :: "nonpie \<Rightarrow> address_projection" where
  "nonpie_projection g =
    \<lparr>pr_abi = PROJECTION_ABI, pr_size = PROJECTION_SIZE, pr_flags = PROJECTION_DISPLACED, pr_reserved = 0,
     guest_start = nonpie_lo g, guest_end = nonpie_hi g, storage_bias = nonpie_bias g\<rparr>"

definition nonpie_fold :: "nonpie \<Rightarrow> u64 \<Rightarrow> u64" where
  "nonpie_fold g guest = (if nonpie_lo g = 0 then guest else storage_unchecked (nonpie_projection g) guest)"

definition nonpie_unfold :: "nonpie \<Rightarrow> u64 \<Rightarrow> u64" where
  "nonpie_unfold g storage = (if nonpie_lo g = 0 then storage else guest_unchecked (nonpie_projection g) storage)"

section \<open>Properties\<close>

text \<open>Claim C2.  A projection that validates is a faithful relocation of its window: storage addresses
  of the window never wrap, land exactly in the displaced window, and convert back to the guest address
  they came from; an address outside the window and its image is left alone in both directions.\<close>

theorem projection_roundtrip:
  assumes "projection_valid p"
  shows "(in_range (guest_start p) (guest_end p) g \<longrightarrow>
      guest_unchecked p (storage_unchecked p g) = g \<and>
      unat (storage_unchecked p g) = unat g + unat (storage_bias p)) \<and>
    (\<not> in_range (guest_start p) (guest_end p) g \<and>
     \<not> in_range (guest_start p + storage_bias p) (guest_end p + storage_bias p) g \<longrightarrow>
      storage_unchecked p g = g \<and> guest_unchecked p g = g)"
proof -
  have le: "guest_start p \<le> guest_end p" using assms by (auto simp: projection_valid_def split: if_splits)
  note w = projection_window [OF assms order_refl le] projection_window [OF assms le order_refl]
  show ?thesis
    using projection_window [OF assms, of g] w
    by (auto simp: storage_unchecked_def guest_unchecked_def in_range_def Let_def word_less_nat_alt word_le_nat_alt)
qed

definition example_projection :: address_projection where
  "example_projection = \<lparr>pr_abi = 1, pr_size = 40, pr_flags = 1, pr_reserved = 0,
     guest_start = 0x400000, guest_end = 0x500000, storage_bias = 0x10000000\<rparr>"

theorem projection_roundtrip_witness:
  "guest_unchecked example_projection (storage_unchecked example_projection 0x400010) = 0x400010"
proof -
  have v: "projection_valid example_projection"
    by (simp add: projection_valid_def example_projection_def PROJECTION_ABI_def PROJECTION_SIZE_def
        PROJECTION_DISPLACED_def)
  have "in_range (guest_start example_projection) (guest_end example_projection) 0x400010"
    by (simp add: in_range_def example_projection_def)
  with projection_roundtrip [OF v, of "0x400010"] show ?thesis by blast
qed

text \<open>Every projection the initialisers build validates, for executables and for
  position-independent images; a position-independent image is never displaced.\<close>

theorem projection_init_elf_valid:
  assumes "projection_init_elf kind lo hi storage = Some p"
  shows "projection_valid p \<and> (kind = ELF_POSITION_INDEPENDENT \<longrightarrow> (\<forall>g. storage_unchecked p g = g))"
  using assms projection_init_valid
  by (fastforce simp: projection_init_elf_def projection_init_def storage_unchecked_def
      ELF_EXECUTABLE_def ELF_POSITION_INDEPENDENT_def Let_def split: if_splits)

theorem projection_init_elf_valid_witness:
  "\<exists>p. projection_init_elf 2 0 0x1000 0x7000 = Some p \<and> projection_valid p"
proof -
  have "projection_init_elf 2 0 0x1000 0x7000 =
      Some \<lparr>pr_abi = 1, pr_size = 40, pr_flags = 0, pr_reserved = 0,
        guest_start = 0x7000, guest_end = 0x8000, storage_bias = 0\<rparr>"
    by (simp add: projection_init_elf_def projection_init_def ELF_EXECUTABLE_def
        ELF_POSITION_INDEPENDENT_def PROJECTION_ABI_def PROJECTION_SIZE_def Let_def)
  with projection_init_elf_valid [OF this] show ?thesis by blast
qed

end
