(* ===== verification/Seccomp_Filter.thy ===== *)
theory Seccomp_Filter
  imports Seccomp_Vm Address_Projection
begin

text \<open>
  The filter stacks and the system call gate of \<^verbatim>\<open>linux_abi/seccomp.c\<close>, with the thread-group
  synchronisation of \<^verbatim>\<open>linux_abi/thread/lifecycle.c\<close> and the \<open>seccomp(2)\<close> entry of
  \<^verbatim>\<open>linux_abi/syscall/rare.c\<close>.  A chain is the list of its nodes, newest first; a node is its
  identity (the address malloc gave it) and its program, and nodes are immutable once published, so
  comparing two head pointers is comparing two chains.  Guest memory is a reader that yields
  the bytes of a range, or \<open>None\<close> where the range is not readable; \<open>alloc\<close> yields the
  address of a new node, or \<open>None\<close> when memory is exhausted.  Error numbers are Linux's.
\<close>

section \<open>State\<close>

type_synonym bpf_chain = "(nat \<times> sock_filter list) list"

datatype seccomp_effect =
    RaiseSignal (signo: nat) (si_errno: u32) (si_code: int) (si_call: u64) (si_addr: u64)
  | GroupFatal nat

record task =
  tid :: int
  seccomp_filters :: bpf_chain
  seccomp_mode :: nat
  g_ret :: u64
  exited :: bool
  exit_code :: int
  effects :: "seccomp_effect list"

record engine =
  threg :: "task option list"
  g_seccomp_active :: bool
  g_nnp :: bool
  g_cap_eff :: u64
  image :: nonpie

definition EINVAL :: int where "EINVAL = 22"
definition EFAULT :: int where "EFAULT = 14"
definition ENOMEM :: int where "ENOMEM = 12"
definition EACCES :: int where "EACCES = 13"
definition ESRCH :: int where "ESRCH = 3"
definition ENOSYS :: int where "ENOSYS = 38"
definition EOPNOTSUPP :: int where "EOPNOTSUPP = 95"

definition RET_KILL_PROCESS :: u32 where "RET_KILL_PROCESS = 0x80000000"
definition RET_KILL_THREAD :: u32 where "RET_KILL_THREAD = 0x00000000"
definition RET_TRAP :: u32 where "RET_TRAP = 0x00030000"
definition RET_ERRNO :: u32 where "RET_ERRNO = 0x00050000"
definition RET_USER_NOTIF :: u32 where "RET_USER_NOTIF = 0x7fc00000"
definition RET_TRACE :: u32 where "RET_TRACE = 0x7ff00000"
definition RET_LOG :: u32 where "RET_LOG = 0x7ffc0000"
definition RET_ALLOW :: u32 where "RET_ALLOW = 0x7fff0000"
definition RET_ACTION_FULL :: u32 where "RET_ACTION_FULL = 0xffff0000"
definition RET_DATA :: u32 where "RET_DATA = 0x0000ffff"

lemmas ret_consts = RET_KILL_PROCESS_def RET_KILL_THREAD_def RET_TRAP_def RET_ERRNO_def
  RET_USER_NOTIF_def RET_TRACE_def RET_LOG_def RET_ALLOW_def RET_ACTION_FULL_def RET_DATA_def

section \<open>Evaluation\<close>

definition hl_seccomp_precedence :: "u32 \<Rightarrow> nat" where
  "hl_seccomp_precedence action =
    (let a = action AND RET_ACTION_FULL in
     if a = RET_KILL_PROCESS then 0
     else if a = RET_KILL_THREAD then 1
     else if a = RET_TRAP then 2
     else if a = RET_ERRNO then 3
     else if a = RET_USER_NOTIF then 4
     else if a = RET_TRACE then 5
     else if a = RET_LOG then 6
     else if a = RET_ALLOW then 7
     else 1)"

fun evaluate_from :: "seccomp_data \<Rightarrow> bpf_chain \<Rightarrow> u32 \<Rightarrow> nat \<Rightarrow> u32" where
  "evaluate_from sd [] best best_prec = best"
| "evaluate_from sd (f # fs) best best_prec =
    (let r = hl_seccomp_run (snd f) sd; p = hl_seccomp_precedence r in
     if p < best_prec then evaluate_from sd fs r p else evaluate_from sd fs best best_prec)"

definition hl_linux_seccomp_evaluate :: "bpf_chain \<Rightarrow> seccomp_data \<Rightarrow> u32" where
  "hl_linux_seccomp_evaluate fs sd = evaluate_from sd fs RET_ALLOW 7"

section \<open>The gate\<close>

definition neg_errno :: "int \<Rightarrow> u64" where "neg_errno e = word_of_int (- e)"

text \<open>\<open>Some\<close> state: the call was intercepted and must not be serviced; \<open>None\<close>: it proceeds.
  \<open>cnr\<close> is the canonical (AArch64) number, \<open>sd\<close> the data built from the raw registers.\<close>

definition hl_linux_seccomp_apply :: "u64 \<Rightarrow> seccomp_data \<Rightarrow> task \<Rightarrow> task option" where
  "hl_linux_seccomp_apply cnr sd c =
    (if seccomp_mode c = 1 then
       (if cnr = 63 \<or> cnr = 64 \<or> cnr = 93 \<or> cnr = 139 then None
        else Some (c\<lparr>effects := effects c @ [GroupFatal 9]\<rparr>))
     else if seccomp_mode c \<noteq> 2 then None
     else
       (let action = hl_linux_seccomp_evaluate (seccomp_filters c) sd; a = action AND RET_ACTION_FULL in
        if a = RET_ALLOW then None
        else if a = RET_LOG then None
        else if a = RET_ERRNO then
          (let e = action AND RET_DATA; e' = (if e > 4095 then 4095 else e)
           in Some (c\<lparr>g_ret := neg_errno (uint e')\<rparr>))
        else if a = RET_TRACE then Some (c\<lparr>g_ret := neg_errno ENOSYS\<rparr>)
        else if a = RET_USER_NOTIF then Some (c\<lparr>g_ret := neg_errno ENOSYS\<rparr>)
        else if a = RET_TRAP then
          Some (c\<lparr>effects := effects c @
            [RaiseSignal 31 (action AND RET_DATA) 1 (ucast (nr sd) OR push_bit 32 (ucast (arch sd)))
              (instruction_pointer sd)]\<rparr>)
        else if a = RET_KILL_THREAD then Some (c\<lparr>exited := True, exit_code := 128 + 31\<rparr>)
        else Some (c\<lparr>effects := effects c @ [GroupFatal 31]\<rparr>)))"

definition seccomp_gate :: "engine \<Rightarrow> u64 \<Rightarrow> seccomp_data \<Rightarrow> task \<Rightarrow> task option" where
  "seccomp_gate e cnr sd c =
    (if \<not> g_seccomp_active e then None
     else if seccomp_mode c = 0 then None
     else hl_linux_seccomp_apply cnr sd c)"

section \<open>Installation\<close>

text \<open>A task is addressed by its slot of the thread registry.\<close>

definition task_at :: "engine \<Rightarrow> nat \<Rightarrow> task option" where
  "task_at e i = (if i < length (threg e) then threg e ! i else None)"

definition put_task :: "engine \<Rightarrow> nat \<Rightarrow> task \<Rightarrow> engine" where
  "put_task e i t = e\<lparr>threg := (threg e)[i := Some t]\<rparr>"

definition seccomp_set_strict :: "engine \<Rightarrow> nat \<Rightarrow> task \<Rightarrow> int \<times> engine" where
  "seccomp_set_strict e i c =
    (if seccomp_mode c = 2 then (- EINVAL, e)
     else (0, (put_task e i (c\<lparr>seccomp_mode := 1\<rparr>))\<lparr>g_seccomp_active := True\<rparr>))"

fun first_incompatible :: "task \<Rightarrow> task option list \<Rightarrow> int" where
  "first_incompatible caller [] = 0"
| "first_incompatible caller (None # ts) = first_incompatible caller ts"
| "first_incompatible caller (Some peer # ts) =
    (if seccomp_mode peer \<noteq> seccomp_mode caller \<or> seccomp_filters peer \<noteq> seccomp_filters caller then tid peer
     else first_incompatible caller ts)"

definition seccomp_tsync_attach :: "engine \<Rightarrow> task \<Rightarrow> bpf_chain \<Rightarrow> int \<times> engine" where
  "seccomp_tsync_attach e caller node =
    (let status = first_incompatible caller (threg e) in
     if status = 0 then
       (status, e\<lparr>threg := map (map_option (\<lambda>peer. peer\<lparr>seccomp_filters := node, seccomp_mode := 2\<rparr>)) (threg e)\<rparr>)
     else (status, e))"

definition FLAG_TSYNC :: u32 where "FLAG_TSYNC = 0x01"
definition FLAG_NEW_LISTENER :: u32 where "FLAG_NEW_LISTENER = 0x08"
definition FLAG_TSYNC_ESRCH :: u32 where "FLAG_TSYNC_ESRCH = 0x10"
definition FLAGS_KNOWN :: u32 where "FLAGS_KNOWN = 0x1f"
definition CAP_SYS_ADMIN :: nat where "CAP_SYS_ADMIN = 21"

text \<open>One instruction in guest memory: \<open>code\<close>, \<open>jt\<close>, \<open>jf\<close>, \<open>k\<close>, little endian, 8 bytes.\<close>

fun decode_filter :: "u8 list \<Rightarrow> sock_filter list" where
  "decode_filter (c0 # c1 # t # f # k0 # k1 # k2 # k3 # bs) =
    \<lparr>code = ucast c0 OR push_bit 8 (ucast c1), jt = t, jf = f, k = le32 k0 k1 k2 k3\<rparr> # decode_filter bs"
| "decode_filter _ = []"

definition le16_of :: "u8 list \<Rightarrow> nat" where
  "le16_of bs = unat (bs ! 0) + 256 * unat (bs ! 1)"

definition le64_of :: "u8 list \<Rightarrow> u64" where
  "le64_of bs = ucast (le32 (bs ! 0) (bs ! 1) (bs ! 2) (bs ! 3)) OR
     push_bit 32 (ucast (le32 (bs ! 4) (bs ! 5) (bs ! 6) (bs ! 7)))"

type_synonym guest_reader = "u64 \<Rightarrow> nat \<Rightarrow> u8 list option"

definition seccomp_install_filter ::
  "guest_reader \<Rightarrow> nat option \<Rightarrow> engine \<Rightarrow> nat \<Rightarrow> task \<Rightarrow> u64 \<Rightarrow> u32 \<Rightarrow> int \<times> engine" where
  "seccomp_install_filter rd alloc e i c fprog_ptr flags =
    (if flags AND NOT FLAGS_KNOWN \<noteq> 0 then (- EINVAL, e)
     else if flags AND (FLAG_NEW_LISTENER OR FLAG_TSYNC) = FLAG_NEW_LISTENER OR FLAG_TSYNC then (- EINVAL, e)
     else case (rd fprog_ptr 2, rd (fprog_ptr + 8) 8) of
       (Some len_bytes, Some ptr_bytes) \<Rightarrow>
         (let len = le16_of len_bytes; insn_ptr = nonpie_fold (image e) (le64_of ptr_bytes) in
          if len = 0 \<or> len > HL_LINUX_BPF_MAXINSNS then (- EINVAL, e)
          else if insn_ptr = 0 then (- EFAULT, e)
          else case alloc of
            None \<Rightarrow> (- ENOMEM, e)
          | Some node \<Rightarrow>
            (case rd insn_ptr (len * 8) of
               None \<Rightarrow> (- EFAULT, e)
             | Some bytes \<Rightarrow>
               (let insns = decode_filter bytes in
                if \<not> hl_seccomp_validate insns then (- EINVAL, e)
                else if \<not> g_nnp e \<and> \<not> bit (g_cap_eff e) CAP_SYS_ADMIN then (- EACCES, e)
                else if flags AND FLAG_NEW_LISTENER \<noteq> 0 then (- EINVAL, e)
                else
                  (let chain = (node, insns) # seccomp_filters c in
                   if flags AND FLAG_TSYNC \<noteq> 0 then
                     (case seccomp_tsync_attach e c chain of
                        (status, e') \<Rightarrow>
                          if status \<noteq> 0 then (if flags AND FLAG_TSYNC_ESRCH \<noteq> 0 then - ESRCH else status, e')
                          else (0, e'\<lparr>g_seccomp_active := True\<rparr>))
                   else (0, (put_task e i (c\<lparr>seccomp_filters := chain, seccomp_mode := 2\<rparr>))
                              \<lparr>g_seccomp_active := True\<rparr>)))))
     | _ \<Rightarrow> (- EFAULT, e))"

definition seccomp_get_action_avail :: "guest_reader \<Rightarrow> u64 \<Rightarrow> u64 \<Rightarrow> int" where
  "seccomp_get_action_avail rd flags act_ptr =
    (if flags \<noteq> 0 then - EINVAL
     else case rd act_ptr 4 of
       None \<Rightarrow> - EFAULT
     | Some bs \<Rightarrow>
         if le32 (bs ! 0) (bs ! 1) (bs ! 2) (bs ! 3) \<in>
            {RET_KILL_PROCESS, RET_KILL_THREAD, RET_TRAP, RET_ERRNO, RET_USER_NOTIF, RET_TRACE, RET_LOG, RET_ALLOW}
         then 0 else - EOPNOTSUPP)"

definition seccomp_get_notif_sizes :: "u64 \<Rightarrow> bool \<Rightarrow> int \<times> u16 list" where
  "seccomp_get_notif_sizes flags writable =
    (if flags \<noteq> 0 then (- EINVAL, [])
     else if \<not> writable then (- EFAULT, [])
     else (0, [80, 24, of_nat packet_length]))"

text \<open>The \<open>seccomp(2)\<close> dispatch; \<open>writable\<close> tells whether the buffer of operation 3 can be
  written.\<close>

definition seccomp_syscall ::
  "guest_reader \<Rightarrow> bool \<Rightarrow> nat option \<Rightarrow> engine \<Rightarrow> nat \<Rightarrow> task \<Rightarrow> u64 \<Rightarrow> u64 \<Rightarrow> u64 \<Rightarrow> int \<times> engine" where
  "seccomp_syscall rd writable alloc e i c a0 a1 a2 =
    (let op = ucast a0 :: u32 in
     if op = 1 then seccomp_install_filter rd alloc e i c a2 (ucast a1)
     else if op = 0 then (if a1 \<noteq> 0 \<or> a2 \<noteq> 0 then (- EINVAL, e) else seccomp_set_strict e i c)
     else if op = 2 then (seccomp_get_action_avail rd a1 a2, e)
     else if op = 3 then (fst (seccomp_get_notif_sizes a1 writable), e)
     else (- EINVAL, e))"

section \<open>Evaluation takes the most restrictive answer\<close>

lemma precedence_le: "hl_seccomp_precedence a \<le> 7"
  by (simp add: hl_seccomp_precedence_def Let_def)

lemma precedence_ALLOW [simp]: "hl_seccomp_precedence RET_ALLOW = 7"
  by (simp add: hl_seccomp_precedence_def ret_consts)

lemma Min_insert_insert:
  "finite S \<Longrightarrow> Min (insert a (insert b S)) = Min (insert (min a (b :: nat)) S)"
  by (cases "S = {}") (auto simp: min.assoc)

lemma evaluate_from_prec:
  "hl_seccomp_precedence best = bp \<Longrightarrow>
   hl_seccomp_precedence (evaluate_from sd fs best bp) =
     Min (insert bp ((\<lambda>f. hl_seccomp_precedence (hl_seccomp_run (snd f) sd)) ` set fs))"
proof (induction fs arbitrary: best bp)
  case (Cons f fs)
  let ?p = "hl_seccomp_precedence (hl_seccomp_run (snd f) sd)"
  have "hl_seccomp_precedence (evaluate_from sd (f # fs) best bp) =
      Min (insert (min bp ?p) ((\<lambda>f. hl_seccomp_precedence (hl_seccomp_run (snd f) sd)) ` set fs))"
    using Cons.IH [of best bp] Cons.IH [of "hl_seccomp_run (snd f) sd" ?p] Cons.prems
    by (simp add: Let_def min_def not_less)
  then show ?case
    by (simp only: list.set image_insert Min_insert_insert finite_imageI finite_set)
qed simp

lemma evaluate_from_mem:
  "evaluate_from sd fs best bp \<in> insert best ((\<lambda>f. hl_seccomp_run (snd f) sd) ` set fs)"
proof (induction fs arbitrary: best bp)
  case (Cons f fs)
  from Cons [of best bp] Cons [of "hl_seccomp_run (snd f) sd" "hl_seccomp_precedence (hl_seccomp_run (snd f) sd)"]
  show ?case by (auto simp: Let_def)
qed simp

lemma evaluate_prec:
  "hl_seccomp_precedence (hl_linux_seccomp_evaluate fs sd) =
     Min (insert 7 ((\<lambda>f. hl_seccomp_precedence (hl_seccomp_run (snd f) sd)) ` set fs))"
  by (simp add: hl_linux_seccomp_evaluate_def evaluate_from_prec)

lemma evaluate_antimono:
  "set fs \<subseteq> set gs \<Longrightarrow> hl_seccomp_precedence (hl_linux_seccomp_evaluate gs sd)
     \<le> hl_seccomp_precedence (hl_linux_seccomp_evaluate fs sd)"
  unfolding evaluate_prec by (rule Min_antimono) auto

section \<open>Invariant of the engine\<close>

definition chain_valid :: "bpf_chain \<Rightarrow> bool" where
  "chain_valid fs \<longleftrightarrow> list_all (\<lambda>f. hl_seccomp_validate (snd f)) fs"

definition task_wf :: "bool \<Rightarrow> task \<Rightarrow> bool" where
  "task_wf on t \<longleftrightarrow> tid t \<noteq> 0 \<and> chain_valid (seccomp_filters t) \<and> seccomp_mode t \<le> 2 \<and>
     (seccomp_mode t \<noteq> 2 \<longrightarrow> seccomp_filters t = []) \<and> (seccomp_mode t \<noteq> 0 \<longrightarrow> on)"

definition engine_wf :: "engine \<Rightarrow> bool" where
  "engine_wf e \<longleftrightarrow> (\<forall>t. Some t \<in> set (threg e) \<longrightarrow> task_wf (g_seccomp_active e) t)"

lemma engine_wfD: "engine_wf e \<Longrightarrow> task_at e i = Some t \<Longrightarrow> task_wf (g_seccomp_active e) t"
  by (auto simp: engine_wf_def task_at_def split: if_splits) (metis nth_mem)

lemma task_at_put [simp]:
  "task_at (put_task e i t) j = (if j = i \<and> i < length (threg e) then Some t else task_at e j)"
  by (auto simp: task_at_def put_task_def)

lemma task_at_active [simp]: "task_at (e\<lparr>g_seccomp_active := b\<rparr>) i = task_at e i"
  by (simp add: task_at_def)

lemma task_at_map:
  "task_at (e\<lparr>threg := map (map_option f) (threg e)\<rparr>) i = map_option f (task_at e i)"
  by (simp add: task_at_def)

lemma task_at_lt: "task_at e i = Some t \<Longrightarrow> i < length (threg e)"
  by (simp add: task_at_def split: if_splits)

lemma engine_wfI:
  "(\<And>i t. task_at e i = Some t \<Longrightarrow> task_wf (g_seccomp_active e) t) \<Longrightarrow> engine_wf e"
  by (auto simp: engine_wf_def task_at_def in_set_conv_nth split: if_splits) metis

lemma first_incompatible_zero:
  assumes "first_incompatible c ts = 0" "\<And>t. Some t \<in> set ts \<Longrightarrow> tid t \<noteq> 0" "Some t \<in> set ts"
  shows "seccomp_mode t = seccomp_mode c \<and> seccomp_filters t = seccomp_filters c"
  using assms by (induction c ts rule: first_incompatible.induct) (auto split: if_splits)

text \<open>The two ways an installation succeeds: on the caller alone, or on the whole group, every member
  of which then had the caller's mode and chain.\<close>

definition install_result :: "engine \<Rightarrow> nat \<Rightarrow> task \<Rightarrow> nat \<times> sock_filter list \<Rightarrow> engine \<Rightarrow> bool" where
  "install_result e i c node e' \<longleftrightarrow> hl_seccomp_validate (snd node) \<and>
    (g_nnp e \<or> bit (g_cap_eff e) CAP_SYS_ADMIN) \<and> g_seccomp_active e' \<and>
    (\<forall>j. task_at e' j = (if j = i then Some (c\<lparr>seccomp_filters := node # seccomp_filters c, seccomp_mode := 2\<rparr>)
                         else task_at e j) \<or>
     (first_incompatible c (threg e) = 0 \<and>
      task_at e' j = map_option (\<lambda>t. t\<lparr>seccomp_filters := node # seccomp_filters c, seccomp_mode := 2\<rparr>) (task_at e j)))"

lemma install_success:
  assumes "seccomp_install_filter rd alloc e i c p fl = (0, e')" "task_at e i = Some c"
  shows "\<exists>node. install_result e i c node e'"
  using assms task_at_lt [OF assms(2)]
  by (auto simp: seccomp_install_filter_def seccomp_tsync_attach_def install_result_def Let_def
      task_at_map EINVAL_def EFAULT_def ENOMEM_def EACCES_def ESRCH_def
      split: if_splits option.splits prod.splits intro!: exI)

lemma install_failure:
  assumes "seccomp_install_filter rd alloc e i c p fl = (r, e')" "r \<noteq> 0"
  shows "e' = e"
  using assms
  by (auto simp: seccomp_install_filter_def seccomp_tsync_attach_def Let_def
      split: if_splits option.splits prod.splits)

lemma task_wf_active: "task_wf b t \<Longrightarrow> task_wf True t"
  by (simp add: task_wf_def)

lemma task_wf_pushed:
  "task_wf b c \<Longrightarrow> hl_seccomp_validate (snd node) \<Longrightarrow> tid u \<noteq> 0 \<Longrightarrow>
   task_wf True (u\<lparr>seccomp_filters := node # seccomp_filters c, seccomp_mode := 2\<rparr>)"
  by (simp add: task_wf_def chain_valid_def)

lemma task_wf_tid: "task_wf b t \<Longrightarrow> tid t \<noteq> 0"
  by (simp add: task_wf_def)

lemma install_result_at:
  assumes "install_result e i c node e'" "task_at e' j = Some t" "task_at e i = Some c"
  obtains "task_at e j = Some t"
    | u where "task_at e j = Some u" "t = u\<lparr>seccomp_filters := node # seccomp_filters c, seccomp_mode := 2\<rparr>"
  using assms by (fastforce simp: install_result_def split: if_splits)

lemma install_result_wf:
  assumes "install_result e i c node e'" "engine_wf e" "task_at e i = Some c"
  shows "engine_wf e'"
proof (rule engine_wfI)
  fix j t assume t: "task_at e' j = Some t"
  have act: "g_seccomp_active e'" and v: "hl_seccomp_validate (snd node)"
    using assms(1) by (simp_all add: install_result_def)
  from assms(1) t assms(3) show "task_wf (g_seccomp_active e') t"
  proof (cases rule: install_result_at)
    case 1
    then show ?thesis using task_wf_active [OF engine_wfD [OF assms(2)]] act by simp
  next
    case (2 u)
    then show ?thesis
      using task_wf_pushed [OF engine_wfD [OF assms(2,3)] v task_wf_tid [OF engine_wfD [OF assms(2) 2(1)]]] act
      by simp
  qed
qed

lemma set_strict_wf:
  assumes "seccomp_set_strict e i c = (r, e')" "engine_wf e" "task_at e i = Some c"
  shows "engine_wf e'"
proof (cases "seccomp_mode c = 2")
  case True
  then show ?thesis using assms by (simp add: seccomp_set_strict_def)
next
  case False
  with assms(1) have e': "e' = (put_task e i (c\<lparr>seccomp_mode := 1\<rparr>))\<lparr>g_seccomp_active := True\<rparr>"
    by (simp add: seccomp_set_strict_def)
  have c: "task_wf True (c\<lparr>seccomp_mode := 1\<rparr>)"
    using engine_wfD [OF assms(2,3)] False by (simp add: task_wf_def chain_valid_def)
  show ?thesis
  proof (rule engine_wfI)
    fix j t assume "task_at e' j = Some t"
    then have "t = c\<lparr>seccomp_mode := 1\<rparr> \<or> task_at e j = Some t"
      by (auto simp: e' split: if_splits)
    then show "task_wf (g_seccomp_active e') t"
      using c engine_wfD [OF assms(2)] task_wf_active by (auto simp: e')
  qed
qed

section \<open>Runs of a guest thread group\<close>

text \<open>A guest task reaches the installers only through a system call (number 277 or \<open>prctl\<close>, 167)
  that the gate lets through.\<close>

inductive seccomp_step :: "engine \<Rightarrow> engine \<Rightarrow> bool" where
  install: "task_at e i = Some c \<Longrightarrow> cnr = 277 \<or> cnr = 167 \<Longrightarrow> seccomp_gate e cnr sd c = None \<Longrightarrow>
     seccomp_install_filter rd alloc e i c p fl = (r, e') \<Longrightarrow> seccomp_step e e'"
| strict: "task_at e i = Some c \<Longrightarrow> cnr = 277 \<or> cnr = 167 \<Longrightarrow> seccomp_gate e cnr sd c = None \<Longrightarrow>
     seccomp_set_strict e i c = (r, e') \<Longrightarrow> seccomp_step e e'"

inductive_cases seccomp_stepE: "seccomp_step e e'"

text \<open>What a task may never lose: strict mode, and the filters it has.\<close>

definition tightened :: "task \<Rightarrow> task \<Rightarrow> bool" where
  "tightened t t' \<longleftrightarrow> (seccomp_mode t = 1 \<longrightarrow> seccomp_mode t' = 1) \<and>
     (seccomp_mode t = 2 \<longrightarrow> seccomp_mode t' = 2) \<and>
     (\<exists>new. seccomp_filters t' = new @ seccomp_filters t)"

lemma tightened_refl [simp]: "tightened t t"
  by (simp add: tightened_def)

lemma tightened_trans: "tightened a b \<Longrightarrow> tightened b c \<Longrightarrow> tightened a c"
  by (auto simp: tightened_def)

lemma gate_strict_blocks:
  "task_wf (g_seccomp_active e) c \<Longrightarrow> cnr = 277 \<or> cnr = 167 \<Longrightarrow> seccomp_gate e cnr sd c = None \<Longrightarrow>
   seccomp_mode c \<noteq> 1"
  by (auto simp: seccomp_gate_def hl_linux_seccomp_apply_def task_wf_def split: if_splits)

lemma install_result_tightens:
  assumes "install_result e i c node e'" "engine_wf e" "task_at e i = Some c" "seccomp_mode c \<noteq> 1"
    "task_at e j = Some t"
  shows "\<exists>t'. task_at e' j = Some t' \<and> tightened t t'"
proof -
  from assms(5) task_at_lt [OF assms(5)] have "Some t \<in> set (threg e)"
    by (auto simp: task_at_def in_set_conv_nth)
  moreover have "\<And>u. Some u \<in> set (threg e) \<Longrightarrow> tid u \<noteq> 0"
    using assms(2) by (auto simp: engine_wf_def task_wf_def)
  ultimately have "first_incompatible c (threg e) = 0 \<Longrightarrow> seccomp_mode t = seccomp_mode c \<and> seccomp_filters t = seccomp_filters c"
    using first_incompatible_zero by blast
  moreover from assms(1) have "task_at e' j = (if j = i then Some (c\<lparr>seccomp_filters := node # seccomp_filters c, seccomp_mode := 2\<rparr>)
       else task_at e j) \<or> (first_incompatible c (threg e) = 0 \<and>
      task_at e' j = map_option (\<lambda>t. t\<lparr>seccomp_filters := node # seccomp_filters c, seccomp_mode := 2\<rparr>) (task_at e j))"
    by (auto simp: install_result_def)
  ultimately show ?thesis
    using assms(3-5) by (auto simp: tightened_def split: if_splits)
qed

lemma set_strict_tightens:
  assumes "seccomp_set_strict e i c = (r, e')" "engine_wf e" "task_at e i = Some c" "task_at e j = Some t"
  shows "\<exists>t'. task_at e' j = Some t' \<and> tightened t t'"
  using assms(1,3,4) engine_wfD [OF assms(2,3)] task_at_lt [OF assms(3)]
  by (auto simp: seccomp_set_strict_def tightened_def split: if_splits)

lemma seccomp_step_sound:
  assumes "seccomp_step e e'" "engine_wf e"
  shows "engine_wf e' \<and> (\<forall>j t. task_at e j = Some t \<longrightarrow> (\<exists>t'. task_at e' j = Some t' \<and> tightened t t'))"
  using assms(1)
proof cases
  case (install i c cnr sd rd alloc p fl r)
  show ?thesis
  proof (cases "r = 0")
    case True
    with install install_success obtain node where n: "install_result e i c node e'" by metis
    have m: "seccomp_mode c \<noteq> 1"
      by (rule gate_strict_blocks [OF engine_wfD [OF assms(2) install(1)] install(2,3)])
    show ?thesis
      using install_result_wf [OF n assms(2) install(1)] install_result_tightens [OF n assms(2) install(1) m]
      by blast
  next
    case False
    then have "e' = e" by (rule install_failure [OF install(4)])
    with assms(2) show ?thesis by (auto intro: exI)
  qed
next
  case (strict i c cnr sd r)
  show ?thesis
    using set_strict_wf [OF strict(4) assms(2) strict(1)] set_strict_tightens [OF strict(4) assms(2) strict(1)]
    by blast
qed

section \<open>Properties\<close>

text \<open>The answer of a filter stack is the most restrictive answer of its filters: it is the
  answer of one of them, or ALLOW for the empty stack, and no filter's answer takes precedence over
  it.\<close>

theorem evaluate_most_restrictive:
  "hl_linux_seccomp_evaluate fs sd \<in> insert RET_ALLOW ((\<lambda>f. hl_seccomp_run (snd f) sd) ` set fs) \<and>
   hl_seccomp_precedence (hl_linux_seccomp_evaluate fs sd) =
     Min (insert 7 ((\<lambda>f. hl_seccomp_precedence (hl_seccomp_run (snd f) sd)) ` set fs))"
  using evaluate_from_mem [of sd fs RET_ALLOW 7] evaluate_prec [of fs sd]
  by (simp add: hl_linux_seccomp_evaluate_def)

text \<open>Claim C3.  A sandbox only tightens.  Whatever sequence of \<open>seccomp\<close> and \<open>prctl\<close> calls the
  tasks of a group make, in any order, a task that is still there keeps strict or filter mode once
  it has it, keeps every filter it had below the new ones, and its answer to any system call is at
  least as restrictive as before; and every installed program has passed the validator.\<close>

theorem sandbox_only_tightens:
  assumes "seccomp_step\<^sup>*\<^sup>* e e'" "engine_wf e" "task_at e i = Some t"
  shows "engine_wf e' \<and> (\<exists>t'. task_at e' i = Some t' \<and> tightened t t' \<and>
    hl_seccomp_precedence (hl_linux_seccomp_evaluate (seccomp_filters t') sd)
      \<le> hl_seccomp_precedence (hl_linux_seccomp_evaluate (seccomp_filters t) sd))"
proof -
  from assms(1) have "engine_wf e' \<and> (\<exists>t'. task_at e' i = Some t' \<and> tightened t t')"
  proof (induction rule: rtranclp_induct)
    case base
    then show ?case using assms(2,3) by auto
  next
    case (step y z)
    then show ?case using seccomp_step_sound [of y z] tightened_trans by blast
  qed
  then show ?thesis by (fastforce simp: tightened_def intro!: evaluate_antimono)
qed

definition example_engine :: engine where
  "example_engine = \<lparr>threg = [Some \<lparr>tid = 1, seccomp_filters = [], seccomp_mode = 0, g_ret = 0,
      exited = False, exit_code = 0, effects = []\<rparr>],
    g_seccomp_active = False, g_nnp = True, g_cap_eff = 0, image = \<lparr>nonpie_lo = 0, nonpie_hi = 0, nonpie_bias = 0\<rparr>\<rparr>"

lemma example_engine_wf: "engine_wf example_engine"
  by (simp add: engine_wf_def example_engine_def task_wf_def chain_valid_def)

theorem sandbox_only_tightens_witness:
  "\<exists>e' t'. seccomp_step\<^sup>*\<^sup>* example_engine e' \<and> task_at e' 0 = Some t' \<and> seccomp_mode t' = 1 \<and> engine_wf e'"
proof -
  obtain c where c: "task_at example_engine 0 = Some c" "seccomp_mode c = 0" "seccomp_filters c = []"
    by (simp add: task_at_def example_engine_def)
  define e' where "e' = snd (seccomp_set_strict example_engine 0 c)"
  have st: "seccomp_step example_engine e'"
    by (rule seccomp_step.strict [OF c(1), of 277 "example_data 0" 0])
       (simp_all add: seccomp_gate_def example_engine_def e'_def seccomp_set_strict_def c(2) split: prod.splits)
  have m: "\<exists>t'. task_at e' 0 = Some t' \<and> seccomp_mode t' = 1"
    by (simp add: e'_def seccomp_set_strict_def c(2)) (simp add: example_engine_def)
  from st have "seccomp_step\<^sup>*\<^sup>* example_engine e'" by (rule r_into_rtranclp)
  with sandbox_only_tightens [OF this example_engine_wf c(1)] m show ?thesis by blast
qed



text \<open>In strict mode the gate lets exactly \<open>read\<close>, \<open>write\<close>, \<open>exit\<close> and
  \<open>rt_sigreturn\<close> through and kills the group on any other call; in filter mode it lets a call through
  exactly when the stack answers ALLOW or LOG; an intercepted call that does not end the task reports an
  error between 0 and 4095 or leaves the return register to the signal handler.\<close>

theorem gate_decision:
  assumes "g_seccomp_active e"
  shows "(seccomp_mode c = 1 \<longrightarrow> seccomp_gate e cnr sd c =
      (if cnr \<in> {63, 64, 93, 139} then None else Some (c\<lparr>effects := effects c @ [GroupFatal 9]\<rparr>))) \<and>
    (seccomp_mode c = 2 \<longrightarrow> (seccomp_gate e cnr sd c = None) =
      (hl_linux_seccomp_evaluate (seccomp_filters c) sd AND RET_ACTION_FULL \<in> {RET_ALLOW, RET_LOG})) \<and>
    (seccomp_gate e cnr sd c = Some c' \<longrightarrow> g_ret c' = g_ret c \<or> (\<exists>n \<le> 4095. g_ret c' = neg_errno (int n)))"
proof -
  have small: "\<exists>n \<le> 4095. neg_errno (uint x) = neg_errno (int n)" if "\<not> 4095 < x" for x :: u32
    using that by (intro exI [of _ "unat x"]) (simp add: word_less_nat_alt)
  have "\<exists>n \<le> 4095. neg_errno 4095 = neg_errno (int n)" "\<exists>n \<le> 4095. neg_errno ENOSYS = neg_errno (int n)"
    by (rule exI [of _ 4095], simp) (rule exI [of _ 38], simp add: ENOSYS_def)
  with small [of "hl_linux_seccomp_evaluate (seccomp_filters c) sd AND RET_DATA"] assms show ?thesis
    by (auto simp: seccomp_gate_def hl_linux_seccomp_apply_def Let_def ret_consts split: if_splits)
qed

theorem gate_decision_witness:
  "seccomp_gate (example_engine\<lparr>g_seccomp_active := True\<rparr>) 221 (example_data 221)
     ((the (task_at example_engine 0))\<lparr>seccomp_mode := 1\<rparr>) \<noteq> None"
proof -
  have "g_seccomp_active (example_engine\<lparr>g_seccomp_active := True\<rparr>)" by simp
  from gate_decision [OF this, of "(the (task_at example_engine 0))\<lparr>seccomp_mode := 1\<rparr>" 221] show ?thesis by simp
qed

end
