(* ===== verification/Counted_Store.thy ===== *)
theory Counted_Store
  imports Husk_Prelude "HOL-Library.Multiset"
begin

text \<open>
  The contract of a store of reference-counted cells, as the personality's components use it: a
  holder may take another reference to a cell that is held, and may drop a reference it holds.
  \<open>counted R s\<close> says that \<open>R\<close> is the multiset of all references held anywhere; \<open>content\<close> is what a
  cell says apart from its count.  The laws are those the clients rely on: counts stay exact, and
  a cell keeps its content as long as somebody holds it.
\<close>

locale counted_store =
  fixes get put :: "'p \<Rightarrow> 's \<Rightarrow> 's"
    and counted :: "'p multiset \<Rightarrow> 's \<Rightarrow> bool"
    and content :: "'s \<Rightarrow> 'p \<Rightarrow> 'v option"
  assumes live: "counted R s \<Longrightarrow> p \<in># R \<Longrightarrow> content s p \<noteq> None"
    and get_counted: "counted R s \<Longrightarrow> p \<in># R \<Longrightarrow> counted (add_mset p R) (get p s)"
    and get_content: "counted R s \<Longrightarrow> p \<in># R \<Longrightarrow> content (get p s) q = content s q"
    and put_counted: "counted (add_mset p R) s \<Longrightarrow> counted R (put p s)"
    and put_content: "counted (add_mset p R) s \<Longrightarrow> q \<in># R \<Longrightarrow> content (put p s) q = content s q"
begin

lemma get_fold:
  assumes "counted R s" "set ps \<subseteq> set_mset R"
  shows "counted (R + mset ps) (fold get ps s) \<and> content (fold get ps s) q = content s q"
  using assms
proof (induction ps arbitrary: R s)
  case (Cons p ps)
  from Cons.prems have p: "p \<in># R" and ps: "set ps \<subseteq> set_mset (add_mset p R)" by auto
  from Cons.IH [OF get_counted [OF Cons.prems(1) p] ps] get_content [OF Cons.prems(1) p]
  show ?case by simp
qed simp

lemma put_fold:
  assumes "counted (R + mset ps) s"
  shows "counted R (fold put ps s) \<and> (q \<in># R \<longrightarrow> content (fold put ps s) q = content s q)"
  using assms
proof (induction ps arbitrary: s)
  case (Cons p ps)
  from Cons.prems have c: "counted (add_mset p (R + mset ps)) s" by simp
  from Cons.IH [OF put_counted [OF c]] put_content [OF c, of q] show ?case by auto
qed simp

lemma put_folds:
  assumes "counted (R + (\<Sum>ps\<leftarrow>pss. mset (f ps))) s"
  shows "counted R (fold (\<lambda>ps. fold put (f ps)) pss s) \<and>
    (q \<in># R \<longrightarrow> content (fold (\<lambda>ps. fold put (f ps)) pss s) q = content s q)"
  using assms
proof (induction pss arbitrary: s)
  case (Cons ps pss)
  let ?R = "R + (\<Sum>ps\<leftarrow>pss. mset (f ps))"
  from Cons.prems have "counted (?R + mset (f ps)) s" by (simp add: ac_simps)
  from put_fold [OF this, of q] Cons.IH [of "fold put (f ps) s"] show ?case by auto
qed simp

text \<open>Moving a reference from one cell to another.\<close>

lemma get_put:
  assumes "counted (add_mset p R) s" "q \<in># R"
  shows "counted (add_mset q R) (put p (get q s)) \<and>
    (x \<in># add_mset q R \<longrightarrow> content (put p (get q s)) x = content s x)"
proof -
  from assms(2) have q: "q \<in># add_mset p R" by simp
  from get_counted [OF assms(1) q] have c: "counted (add_mset p (add_mset q R)) (get q s)"
    by (simp add: add_mset_commute)
  from put_counted [OF c] put_content [OF c, of x] get_content [OF assms(1) q, of x] show ?thesis by auto
qed

end

end
