(* ===== verification/Logical_Vma.thy ===== *)
theory Logical_Vma
  imports Husk_Prelude "HOL-Library.Multiset"
begin

text \<open>
  The logical VMA ledger of \<^verbatim>\<open>linux_abi/logical_vma.c\<close>: guest-visible 4 KiB intervals over
  shared host backings, published as immutable sorted snapshots.  A pointer to a backing is a
  number into \<open>heap\<close>, whose cells carry the C reference count; \<open>fault\<close> is raised by every
  access to a freed cell, every decrement of a zero count and every write past the end of an
  allocated array, so that memory safety is a statement about the model.  What the host decides
  (allocation, \<open>fstat\<close>, \<open>mmap\<close>, descriptor duplication) is the record \<open>vma_host\<close>.  The POSIX
  branch of the source is modelled; the ledger lock is held throughout each operation, so an
  operation is one function of the state.  The instruction-fetch authority that brackets a
  publication belongs to \<^verbatim>\<open>translator/guest_fetch.c\<close> and is not part of this state.
\<close>

section \<open>State\<close>

record vma_backing =
  mapping :: u64
  blen :: u64
  references :: nat
  device :: u64
  inode :: u64
  file_offset :: u64
  retained :: int
  writable :: bool
  borrowed :: bool

record vma_entry =
  guest_first :: u64
  guest_last :: u64
  backing_offset :: u64
  protection :: u32
  flags :: u32
  backing :: nat

record vma_view =
  v_first :: u64
  v_last :: u64
  host_delta :: u64
  v_backing :: nat
  v_offset :: u64
  v_protection :: u32
  v_flags :: u32

record vma_snapshot =
  views :: "vma_view list"
  backings :: "nat list"

record vma_ledger =
  entries :: "vma_entry list"
  capacity :: nat
  current :: "vma_snapshot option"
  retired :: "vma_snapshot list"
  generation :: u64

record vma_mem =
  heap :: "nat \<Rightarrow> vma_backing option"
  fault :: bool
  unmapped :: "(u64 \<times> u64) list"
  closed_fds :: "int list"

record vma_host =
  plan_ok :: bool
  realloc_ok :: bool
  snapshot_ok :: bool
  fstat_of :: "int \<Rightarrow> (u64 \<times> u64) option"
  map_file :: "int \<Rightarrow> u64 \<Rightarrow> u64 \<Rightarrow> bool \<Rightarrow> u64 option"
  new_backing :: "nat option"
  dup_fd :: "int \<Rightarrow> int option"

datatype vma_errno = V_EINVAL | V_ENOMEM | V_EACCES | V_EFAULT | V_HOST

definition VMA_READ :: u32 where "VMA_READ = 1"
definition VMA_WRITE :: u32 where "VMA_WRITE = 2"
definition VMA_EXEC :: u32 where "VMA_EXEC = 4"
definition VMA_SHARED :: u32 where "VMA_SHARED = 1"
definition VMA_DIRECT :: u32 where "VMA_DIRECT = 2"
definition SIZE_MAX :: nat where "SIZE_MAX = 2 ^ 64 - 1"
definition INT64_MAX :: u64 where "INT64_MAX = 0x7fffffffffffffff"

definition power_of_two :: "u64 \<Rightarrow> bool" where
  "power_of_two value \<longleftrightarrow> value \<noteq> 0 \<and> value AND (value - 1) = 0"

section \<open>Allocation and reference counts\<close>

function grow_capacity :: "nat \<Rightarrow> nat \<Rightarrow> nat option" where
  "grow_capacity cap need =
    (if cap = 0 \<or> need \<le> cap then Some cap
     else if cap > SIZE_MAX div 2 then None
     else grow_capacity (2 * cap) need)"
  by pat_completeness auto
termination
  by (relation "measure (\<lambda>(cap, need). need - cap)") auto

declare grow_capacity.simps [simp del]

definition grow :: "vma_host \<Rightarrow> vma_ledger \<Rightarrow> nat \<Rightarrow> vma_ledger option" where
  "grow h l need =
    (if need \<le> capacity l then Some l
     else case grow_capacity (if capacity l \<noteq> 0 then capacity l else 8) need of
       None \<Rightarrow> None
     | Some cap \<Rightarrow> if realloc_ok h then Some (l\<lparr>capacity := cap\<rparr>) else None)"

definition release_backing :: "vma_backing \<Rightarrow> vma_mem \<Rightarrow> vma_mem" where
  "release_backing b m = m\<lparr>
     unmapped := (if borrowed b then unmapped m else unmapped m @ [(mapping b, blen b)]),
     closed_fds := (if retained b \<ge> 0 then closed_fds m @ [retained b] else closed_fds m)\<rparr>"

definition backing_put :: "nat \<Rightarrow> vma_mem \<Rightarrow> vma_mem" where
  "backing_put p m =
    (case heap m p of
       None \<Rightarrow> m\<lparr>fault := True\<rparr>
     | Some b \<Rightarrow>
         if references b = 0 then m\<lparr>fault := True\<rparr>
         else if references b \<noteq> 1 then m\<lparr>heap := (heap m)(p \<mapsto> b\<lparr>references := references b - 1\<rparr>)\<rparr>
         else (release_backing b m)\<lparr>heap := (heap m)(p := None)\<rparr>)"

definition backing_get :: "nat \<Rightarrow> vma_mem \<Rightarrow> vma_mem" where
  "backing_get p m =
    (case heap m p of
       None \<Rightarrow> m\<lparr>fault := True\<rparr>
     | Some b \<Rightarrow> m\<lparr>heap := (heap m)(p \<mapsto> b\<lparr>references := references b + 1\<rparr>)\<rparr>)"

definition snapshot_free :: "vma_snapshot \<Rightarrow> vma_mem \<Rightarrow> vma_mem" where
  "snapshot_free s m = fold backing_put (backings s) m"

text \<open>A snapshot is allocated for a number of items; \<open>None\<close> is ENOMEM.\<close>

definition snapshot_allocate :: "vma_host \<Rightarrow> nat \<Rightarrow> nat option" where
  "snapshot_allocate h cap =
    (if cap > (SIZE_MAX - 16) div 56 then None
     else if snapshot_ok h then Some cap else None)"

text \<open>A write to the next slot of the entry array.\<close>

definition append_entry :: "vma_entry \<Rightarrow> vma_ledger \<times> vma_mem \<Rightarrow> vma_ledger \<times> vma_mem" where
  "append_entry e lm =
    (case lm of (l, m) \<Rightarrow>
      (l\<lparr>entries := entries l @ [e]\<rparr>,
       if length (entries l) < capacity l then m else m\<lparr>fault := True\<rparr>))"

definition host_first :: "vma_mem \<Rightarrow> vma_entry \<Rightarrow> u64" where
  "host_first m e = (case heap m (backing e) of None \<Rightarrow> 0 | Some b \<Rightarrow> mapping b) + backing_offset e"

definition view_of :: "vma_mem \<Rightarrow> vma_entry \<Rightarrow> vma_view" where
  "view_of m e =
    \<lparr>v_first = guest_first e, v_last = guest_last e, host_delta = host_first m e - guest_first e,
     v_backing = backing e, v_offset = backing_offset e, v_protection = protection e, v_flags = flags e\<rparr>"

definition swap_current :: "vma_snapshot option \<Rightarrow> vma_ledger \<Rightarrow> vma_ledger" where
  "swap_current s l = l\<lparr>
     generation := generation l + 2,
     current := s,
     retired := (case current l of None \<Rightarrow> retired l | Some old \<Rightarrow> old # retired l)\<rparr>"

text \<open>\<open>cap\<close> is the number of items the snapshot was allocated for.\<close>

definition publish_locked :: "nat \<Rightarrow> vma_ledger \<Rightarrow> vma_mem \<Rightarrow> vma_ledger \<times> vma_mem" where
  "publish_locked cap l m =
    (let s = \<lparr>views = sort_key v_first (map (view_of m) (entries l)), backings = map backing (entries l)\<rparr>;
         m' = fold backing_get (map backing (entries l)) m
     in (swap_current (Some s) l,
         if length (entries l) \<le> cap then m' else m'\<lparr>fault := True\<rparr>))"

section \<open>Unmapping\<close>

definition overlaps :: "u64 \<Rightarrow> u64 \<Rightarrow> vma_entry \<Rightarrow> bool" where
  "overlaps lo hi e \<longleftrightarrow> \<not> (hi \<le> guest_first e \<or> lo \<ge> guest_last e)"

text \<open>The part of an entry from \<open>hi\<close> on.\<close>

definition tail_from :: "u64 \<Rightarrow> vma_entry \<Rightarrow> vma_entry" where
  "tail_from hi e = e\<lparr>guest_first := hi, backing_offset := backing_offset e + (hi - guest_first e)\<rparr>"

definition swap_remove :: "nat \<Rightarrow> 'a list \<Rightarrow> 'a list" where
  "swap_remove i xs = butlast (xs[i := last xs])"

lemma tail_from_fields [simp]:
  "guest_first (tail_from hi e) = hi" "guest_last (tail_from hi e) = guest_last e"
  "backing (tail_from hi e) = backing e" "protection (tail_from hi e) = protection e"
  "flags (tail_from hi e) = flags e"
  by (simp_all add: tail_from_def)

lemma length_swap_remove [simp]: "length (swap_remove i xs) = length xs - 1"
  by (simp add: swap_remove_def)

lemma mset_swap_remove:
  assumes "i < length xs"
  shows "mset xs = add_mset (xs ! i) (mset (swap_remove i xs))"
proof -
  from assms have ne: "xs \<noteq> []" by auto
  have "mset (xs[i := last xs]) = add_mset (last xs) (mset xs - {#xs ! i#})"
    using assms by (simp add: mset_update)
  moreover from assms ne have "xs[i := last xs] \<noteq> []" "last (xs[i := last xs]) = last xs"
    by (auto simp: last_list_update)
  then have "mset (xs[i := last xs]) = add_mset (last xs) (mset (swap_remove i xs))"
    unfolding swap_remove_def by (metis append_butlast_last_id mset_append union_mset_add_mset_right mset.simps add.right_neutral)
  ultimately show ?thesis using assms by simp
qed

lemma mset_update_nth:
  "i < length xs \<Longrightarrow> mset xs = add_mset (xs ! i) R \<Longrightarrow> mset (xs[i := y]) = add_mset y R"
  by (simp add: mset_update)

text \<open>What is left to do: twice the overlapping entries ahead, plus the entries ahead.\<close>

definition unmap_measure :: "u64 \<Rightarrow> u64 \<Rightarrow> nat \<Rightarrow> vma_entry list \<Rightarrow> nat" where
  "unmap_measure lo hi i es = 2 * length (filter (overlaps lo hi) (drop i es)) + (length es - i)"

function unmap_from ::
  "vma_host \<Rightarrow> u64 \<Rightarrow> u64 \<Rightarrow> nat \<Rightarrow> vma_ledger \<times> vma_mem \<Rightarrow> bool \<times> vma_ledger \<times> vma_mem" where
  "unmap_from h lo hi i (l, m) =
    (if i < length (entries l) then
       (let e = entries l ! i in
        if \<not> overlaps lo hi e then unmap_from h lo hi (Suc i) (l, m)
        else if lo \<le> guest_first e \<and> hi \<ge> guest_last e then
          unmap_from h lo hi i (l\<lparr>entries := swap_remove i (entries l)\<rparr>, backing_put (backing e) m)
        else if lo > guest_first e \<and> hi < guest_last e then
          (case grow h l (length (entries l) + 1) of
             None \<Rightarrow> (False, l, m)
           | Some l1 \<Rightarrow>
               unmap_from h lo hi (Suc i)
                 (append_entry (tail_from hi e)
                   (l1\<lparr>entries := (entries l1)[i := e\<lparr>guest_last := lo\<rparr>]\<rparr>, backing_get (backing e) m)))
        else if lo \<le> guest_first e then
          unmap_from h lo hi (Suc i) (l\<lparr>entries := (entries l)[i := tail_from hi e]\<rparr>, m)
        else
          unmap_from h lo hi (Suc i) (l\<lparr>entries := (entries l)[i := e\<lparr>guest_last := lo\<rparr>]\<rparr>, m))
     else (True, l, m))"
  by pat_completeness auto

lemma grow_entries: "grow h l n = Some l1 \<Longrightarrow> entries l1 = entries l"
  by (auto simp: grow_def split: if_splits option.splits)

lemma append_entry_entries [simp]: "entries (fst (append_entry e (l, m))) = entries l @ [e]"
  by (simp add: append_entry_def)

lemma filter_drop_swap_remove:
  assumes "i < length xs" "P (xs ! i)"
  shows "length (filter P (drop i (swap_remove i xs))) < length (filter P (drop i xs))"
proof -
  have "drop i xs = xs ! i # drop (Suc i) xs" using assms by (simp add: Cons_nth_drop_Suc)
  moreover have "length (filter P (drop i (swap_remove i xs))) = length (filter P (drop (Suc i) xs))"
  proof (cases "Suc i = length xs")
    case True
    then show ?thesis by (simp add: swap_remove_def)
  next
    case False
    with assms have lt: "Suc i < length xs" by simp
    then obtain ys where ys: "drop (Suc i) xs = ys @ [last xs]"
      by (metis append_butlast_last_id drop_eq_Nil last_drop linorder_not_le)
    have "drop i (xs[i := last xs]) = last xs # ys @ [last xs]"
      using assms lt ys by (simp add: drop_update_swap flip: Cons_nth_drop_Suc)
    then have "drop i (swap_remove i xs) = last xs # ys"
      by (simp add: swap_remove_def drop_butlast)
    with ys show ?thesis by simp
  qed
  ultimately show ?thesis using assms(2) by simp
qed

lemma unmap_measure_next:
  assumes "i < length es"
  shows "unmap_measure lo hi (Suc i) (es[i := y]) < unmap_measure lo hi i es"
proof -
  from assms have "drop i es = es ! i # drop (Suc i) es" by (simp add: Cons_nth_drop_Suc)
  with assms show ?thesis by (auto simp: unmap_measure_def)
qed

lemma unmap_measure_skip:
  "i < length es \<Longrightarrow> unmap_measure lo hi (Suc i) es < unmap_measure lo hi i es"
  using unmap_measure_next [of i es lo hi "es ! i"] by simp

lemma unmap_measure_remove:
  "i < length es \<Longrightarrow> overlaps lo hi (es ! i) \<Longrightarrow> unmap_measure lo hi i (swap_remove i es) < unmap_measure lo hi i es"
  using filter_drop_swap_remove [of i es "overlaps lo hi"] by (simp add: unmap_measure_def)

lemma unmap_measure_split:
  "i < length es \<Longrightarrow> overlaps lo hi (es ! i) \<Longrightarrow> \<not> overlaps lo hi t \<Longrightarrow>
   unmap_measure lo hi (Suc i) (es[i := y] @ [t]) < unmap_measure lo hi i es"
  using Cons_nth_drop_Suc [of i es, symmetric] by (simp add: unmap_measure_def)

lemma tail_from_not_overlaps [simp]: "\<not> overlaps lo hi (tail_from hi e)"
  by (simp add: overlaps_def)

termination unmap_from
proof (relation "measure (\<lambda>(h, lo, hi, i, l, m). unmap_measure lo hi i (entries l))", goal_cases)
  case 1
  show ?case by simp
next
  case 2
  then show ?case by (simp add: unmap_measure_skip)
next
  case 3
  then show ?case by (simp add: unmap_measure_remove)
next
  case (4 h lo hi i l m e l1)
  from 4(6) have "entries l1 = entries l" by (rule grow_entries)
  with 4(1-3) unmap_measure_split [of i "entries l" lo hi "tail_from hi e" "e\<lparr>guest_last := lo\<rparr>"]
  show ?case by (simp add: append_entry_def)
next
  case 5
  then show ?case by (simp add: unmap_measure_next)
next
  case 6
  then show ?case by (simp add: unmap_measure_next)
qed

declare unmap_from.simps [simp del]

definition unmap_locked ::
  "vma_host \<Rightarrow> u64 \<Rightarrow> u64 \<Rightarrow> vma_ledger \<times> vma_mem \<Rightarrow> bool \<times> vma_ledger \<times> vma_mem" where
  "unmap_locked h lo hi lm = unmap_from h lo hi 0 lm"

section \<open>Life of a ledger\<close>

definition vma_init :: vma_ledger where
  "vma_init = \<lparr>entries = [], capacity = 0, current = None, retired = [], generation = 2\<rparr>"

definition put_all :: "vma_entry list \<Rightarrow> vma_mem \<Rightarrow> vma_mem" where
  "put_all es m = fold backing_put (map backing (rev es)) m"

definition free_current :: "vma_snapshot option \<Rightarrow> vma_mem \<Rightarrow> vma_mem" where
  "free_current s m = (case s of None \<Rightarrow> m | Some snap \<Rightarrow> snapshot_free snap m)"

definition vma_destroy :: "vma_ledger \<times> vma_mem \<Rightarrow> vma_ledger \<times> vma_mem" where
  "vma_destroy lm =
    (case lm of (l, m) \<Rightarrow>
      (l\<lparr>entries := [], capacity := 0, current := None, retired := [], generation := generation l + 2\<rparr>,
       fold snapshot_free (retired l) (free_current (current l) (put_all (entries l) m))))"

definition vma_reclaim :: "vma_ledger \<times> vma_mem \<Rightarrow> vma_ledger \<times> vma_mem" where
  "vma_reclaim lm = (case lm of (l, m) \<Rightarrow> (l\<lparr>retired := []\<rparr>, fold snapshot_free (retired l) m))"

section \<open>Shared mappings\<close>

record coalesced =
  canon_first :: u64
  canon_last :: u64
  canon_writable :: bool
  canon_ref :: int
  expanded :: bool

definition touches :: "u64 \<Rightarrow> u64 \<Rightarrow> vma_backing \<Rightarrow> bool" where
  "touches lo hi b \<longleftrightarrow> \<not> (file_offset b + blen b < lo \<or> file_offset b > hi)"

definition coalesce_one :: "bool \<Rightarrow> u64 \<Rightarrow> u64 \<Rightarrow> vma_backing \<Rightarrow> coalesced \<Rightarrow> coalesced" where
  "coalesce_one requested_writable dev ino b c =
    (if device b \<noteq> dev \<or> inode b \<noteq> ino then c
     else if \<not> touches (canon_first c) (canon_last c) b then c
     else
       (let c1 = (if writable b
                  then c\<lparr>canon_writable := True, canon_ref := if requested_writable then canon_ref c else retained b\<rparr>
                  else c);
            c2 = (if file_offset b < canon_first c1 then c1\<lparr>canon_first := file_offset b, expanded := True\<rparr> else c1);
            candidate_last = file_offset b + blen b
        in if candidate_last > canon_last c2 then c2\<lparr>canon_last := candidate_last, expanded := True\<rparr> else c2))"

definition coalesce_pass :: "bool \<Rightarrow> u64 \<Rightarrow> u64 \<Rightarrow> vma_backing list \<Rightarrow> coalesced \<Rightarrow> coalesced" where
  "coalesce_pass rw dev ino bs c = fold (coalesce_one rw dev ino) bs (c\<lparr>expanded := False\<rparr>)"

text \<open>How many backings still stick out of the range on either side.\<close>

definition sticking_out :: "vma_backing list \<Rightarrow> coalesced \<Rightarrow> nat" where
  "sticking_out bs c = length (filter (\<lambda>b. file_offset b < canon_first c) bs) +
     length (filter (\<lambda>b. file_offset b + blen b > canon_last c) bs)"

lemma filter_less_mono:
  assumes "\<And>x. P x \<Longrightarrow> Q x"
  shows "length (filter P xs) \<le> length (filter Q xs)"
    and "x \<in> set xs \<Longrightarrow> Q x \<Longrightarrow> \<not> P x \<Longrightarrow> length (filter P xs) < length (filter Q xs)"
proof -
  show le: "length (filter P ys) \<le> length (filter Q ys)" for ys
    using assms by (induction ys) (auto simp: le_SucI)
  show "x \<in> set xs \<Longrightarrow> Q x \<Longrightarrow> \<not> P x \<Longrightarrow> length (filter P xs) < length (filter Q xs)"
    using assms le by (induction xs) (auto simp: less_Suc_eq_le)
qed

lemma coalesce_one_less:
  assumes "b \<in> set bs"
  shows "sticking_out bs (coalesce_one rw dev ino b c) \<le> sticking_out bs c \<and>
    (expanded (coalesce_one rw dev ino b c) \<longrightarrow> \<not> expanded c \<longrightarrow>
      sticking_out bs (coalesce_one rw dev ino b c) < sticking_out bs c)"
proof -
  have first: "length (filter (\<lambda>x. file_offset x < file_offset b) bs) < length (filter (\<lambda>x. file_offset x < lo) bs)"
    if "file_offset b < lo" for lo
    using that assms by (intro filter_less_mono(2)) auto
  have last: "length (filter (\<lambda>x. file_offset b + blen b < file_offset x + blen x) bs)
      < length (filter (\<lambda>x. hi < file_offset x + blen x) bs)"
    if "hi < file_offset b + blen b" for hi
    using that assms by (intro filter_less_mono(2)) auto
  show ?thesis
    using first [of "canon_first c"] last [of "canon_last c"]
    by (auto simp: coalesce_one_def sticking_out_def Let_def)
qed

lemma coalesce_fold_less:
  assumes "set xs \<subseteq> set bs"
  shows "sticking_out bs (fold (coalesce_one rw dev ino) xs c) \<le> sticking_out bs c \<and>
    (expanded (fold (coalesce_one rw dev ino) xs c) \<longrightarrow> \<not> expanded c \<longrightarrow>
      sticking_out bs (fold (coalesce_one rw dev ino) xs c) < sticking_out bs c)"
  using assms
proof (induction xs arbitrary: c)
  case (Cons x xs)
  from Cons.prems coalesce_one_less [of x bs rw dev ino c] Cons.IH [of "coalesce_one rw dev ino x c"]
  show ?case by (cases "expanded (coalesce_one rw dev ino x c)") auto
qed simp

lemma sticking_out_expanded [simp]: "sticking_out bs (c\<lparr>expanded := x\<rparr>) = sticking_out bs c"
  by (simp add: sticking_out_def)

function coalesce :: "bool \<Rightarrow> u64 \<Rightarrow> u64 \<Rightarrow> vma_backing list \<Rightarrow> coalesced \<Rightarrow> coalesced" where
  "coalesce rw dev ino bs c =
    (let c' = coalesce_pass rw dev ino bs c in if expanded c' then coalesce rw dev ino bs c' else c')"
  by pat_completeness auto
termination
proof (relation "measure (\<lambda>(rw, dev, ino, bs, c). sticking_out bs c)", goal_cases)
  case 1
  show ?case by simp
next
  case (2 rw dev ino bs c c')
  then show ?case
    using coalesce_fold_less [of bs bs rw dev ino "c\<lparr>expanded := False\<rparr>"] by (simp add: coalesce_pass_def)
qed

declare coalesce.simps [simp del]

text \<open>The backings of the entries, in entry order; a dangling pointer is a fault.\<close>

definition candidates :: "vma_ledger \<Rightarrow> vma_mem \<Rightarrow> vma_backing list" where
  "candidates l m = List.map_filter (\<lambda>e. heap m (backing e)) (entries l)"

definition check_live :: "nat list \<Rightarrow> vma_mem \<Rightarrow> vma_mem" where
  "check_live ps m = (if list_all (\<lambda>p. heap m p \<noteq> None) ps then m else m\<lparr>fault := True\<rparr>)"

definition rebind_one ::
  "u64 \<Rightarrow> u64 \<Rightarrow> u64 \<Rightarrow> u64 \<Rightarrow> nat \<Rightarrow> vma_entry \<Rightarrow> vma_mem \<Rightarrow> vma_entry \<times> vma_mem" where
  "rebind_one dev ino cf cl p e m =
    (case heap m (backing e) of
       None \<Rightarrow> (e, m\<lparr>fault := True\<rparr>)
     | Some old \<Rightarrow>
         if device old \<noteq> dev \<or> inode old \<noteq> ino \<or> \<not> touches cf cl old then (e, m)
         else (e\<lparr>backing := p, backing_offset := file_offset old + backing_offset e - cf\<rparr>,
               backing_put (backing e) (backing_get p m)))"

fun rebind ::
  "u64 \<Rightarrow> u64 \<Rightarrow> u64 \<Rightarrow> u64 \<Rightarrow> nat \<Rightarrow> vma_entry list \<Rightarrow> vma_mem \<Rightarrow> vma_entry list \<times> vma_mem" where
  "rebind dev ino cf cl p [] m = ([], m)"
| "rebind dev ino cf cl p (e # es) m =
    (case rebind_one dev ino cf cl p e m of
       (e', m') \<Rightarrow> (case rebind dev ino cf cl p es m' of (es', m'') \<Rightarrow> (e' # es', m'')))"

text \<open>The common end of both mapping calls: clear the range, store the new entry (the construction
  reference keeps its backing alive meanwhile), publish into a snapshot of \<open>cap\<close> items.\<close>

definition install_entry :: "vma_host \<Rightarrow> nat \<Rightarrow> vma_entry \<Rightarrow> vma_ledger \<times> vma_mem \<Rightarrow> vma_ledger \<times> vma_mem" where
  "install_entry h cap e lm =
    (case unmap_locked h (guest_first e) (guest_last e) lm of
       (_, l1, m1) \<Rightarrow>
         (case append_entry e (l1, backing_get (backing e) m1) of
            (l2, m2) \<Rightarrow>
              (case publish_locked cap l2 m2 of (l3, m3) \<Rightarrow> (l3, backing_put (backing e) m3))))"

type_synonym vma_result = "vma_errno option \<times> vma_ledger \<times> vma_mem"

text \<open>From the point where the canonical extent \<open>c\<close> is known.\<close>

definition map_shared_extent ::
  "vma_host \<Rightarrow> nat \<Rightarrow> u64 \<Rightarrow> u64 \<Rightarrow> u32 \<Rightarrow> u64 \<Rightarrow> u64 \<Rightarrow> u64 \<Rightarrow> coalesced \<Rightarrow>
   vma_ledger \<times> vma_mem \<Rightarrow> vma_result" where
  "map_shared_extent h cap gfirst len prot offset dev ino c lm =
    (case lm of (l, m) \<Rightarrow>
      if canon_last c \<le> canon_first c \<or> canon_first c > INT64_MAX then (Some V_ENOMEM, l, m)
      else
        (let mapped_length = canon_last c - canon_first c in
         case map_file h (canon_ref c) mapped_length (canon_first c) (canon_writable c) of
           None \<Rightarrow> (Some V_HOST, l, m)
         | Some addr \<Rightarrow>
           (let undo = m\<lparr>unmapped := unmapped m @ [(addr, mapped_length)]\<rparr> in
            case new_backing h of
              None \<Rightarrow> (Some V_ENOMEM, l, undo)
            | Some p \<Rightarrow>
              (case dup_fd h (canon_ref c) of
                 None \<Rightarrow> (Some V_HOST, l, undo)
               | Some kept \<Rightarrow>
                 (let b = \<lparr>mapping = addr, blen = mapped_length, references = 1, device = dev, inode = ino,
                           file_offset = canon_first c, retained = kept, writable = canon_writable c,
                           borrowed = False\<rparr>;
                      m1 = m\<lparr>heap := (heap m)(p \<mapsto> b)\<rparr>
                  in case rebind dev ino (canon_first c) (canon_last c) p (entries l) m1 of
                       (es, m2) \<Rightarrow>
                         (None, install_entry h cap
                           \<lparr>guest_first = gfirst, guest_last = gfirst + len,
                            backing_offset = offset - canon_first c, protection = prot,
                            flags = VMA_SHARED, backing = p\<rparr>
                           (l\<lparr>entries := es\<rparr>, m2)))))))"

definition map_shared ::
  "vma_host \<Rightarrow> u64 \<Rightarrow> u64 \<Rightarrow> u32 \<Rightarrow> int \<Rightarrow> u64 \<Rightarrow> u64 \<Rightarrow> vma_ledger \<times> vma_mem \<Rightarrow> vma_result" where
  "map_shared h gfirst len prot fd offset host_page lm =
    (case lm of (l, m) \<Rightarrow>
      if fd < 0 \<or> len = 0 \<or> gfirst > - 1 - len \<or> offset > INT64_MAX \<or> \<not> power_of_two host_page \<or>
         gfirst AND 4095 \<noteq> 0 \<or> offset AND 4095 \<noteq> 0
      then (Some V_EINVAL, l, m)
      else case fstat_of h fd of
        None \<Rightarrow> (Some V_HOST, l, m)
      | Some (dev, ino) \<Rightarrow>
        (let head = offset AND (host_page - 1) in
         if len > - 1 - head \<or> len + head > - 1 - (host_page - 1) \<or> offset > - 1 - len
         then (Some V_ENOMEM, l, m)
         else case grow h l (length (entries l) + 2) of
           None \<Rightarrow> (Some V_ENOMEM, l, m)
         | Some l1 \<Rightarrow>
           (case snapshot_allocate h (length (entries l) + 2) of
              None \<Rightarrow> (Some V_ENOMEM, l1, m)
            | Some cap \<Rightarrow>
              (let requested_last = offset + len in
               if requested_last > - 1 - (host_page - 1) then (Some V_ENOMEM, l1, m)
               else
                 (let requested_writable = (prot AND VMA_WRITE \<noteq> 0);
                      c = coalesce requested_writable dev ino (candidates l m)
                        \<lparr>canon_first = offset - head,
                         canon_last = (requested_last + host_page - 1) AND NOT (host_page - 1),
                         canon_writable = requested_writable, canon_ref = fd, expanded = False\<rparr>
                  in map_shared_extent h cap gfirst len prot offset dev ino c
                       (l1, check_live (map backing (entries l)) m))))))"

section \<open>Direct mappings\<close>

definition map_direct ::
  "vma_host \<Rightarrow> u64 \<Rightarrow> u64 \<Rightarrow> u32 \<Rightarrow> u64 \<Rightarrow> vma_ledger \<times> vma_mem \<Rightarrow> vma_result" where
  "map_direct h gfirst len prot hfirst lm =
    (case lm of (l, m) \<Rightarrow>
      if len = 0 \<or> gfirst > - 1 - len \<or> len > - 1 - hfirst then (Some V_EINVAL, l, m)
      else case grow h l (length (entries l) + 1) of
        None \<Rightarrow> (Some V_ENOMEM, l, m)
      | Some l1 \<Rightarrow>
        (case (snapshot_allocate h (length (entries l) + 1), new_backing h) of
           (Some cap, Some p) \<Rightarrow>
             (let b = \<lparr>mapping = hfirst, blen = len, references = 1, device = 0, inode = 0, file_offset = 0,
                       retained = - 1, writable = False, borrowed = True\<rparr>
              in (None, install_entry h cap
                    \<lparr>guest_first = gfirst, guest_last = gfirst + len, backing_offset = 0,
                     protection = prot, flags = VMA_DIRECT, backing = p\<rparr>
                    (l1, m\<lparr>heap := (heap m)(p \<mapsto> b)\<rparr>)))
         | _ \<Rightarrow> (Some V_ENOMEM, l1, m)))"

section \<open>Unmapping and protecting a range\<close>

definition vma_unmap :: "vma_host \<Rightarrow> u64 \<Rightarrow> u64 \<Rightarrow> vma_ledger \<times> vma_mem \<Rightarrow> vma_result" where
  "vma_unmap h gfirst len lm =
    (case lm of (l, m) \<Rightarrow>
      if gfirst > - 1 - len then (Some V_EINVAL, l, m)
      else if len = 0 then (None, l, m)
      else case grow h l (length (entries l) + 1) of
        None \<Rightarrow> (Some V_ENOMEM, l, m)
      | Some l1 \<Rightarrow>
        (case snapshot_allocate h (length (entries l) + 1) of
           None \<Rightarrow> (Some V_ENOMEM, l1, m)
         | Some cap \<Rightarrow>
           (case unmap_locked h gfirst (gfirst + len) (l1, m) of
              (ok, l2, m2) \<Rightarrow> (if ok then None else Some V_ENOMEM, publish_locked cap l2 m2))))"

definition protect_one :: "u64 \<Rightarrow> u64 \<Rightarrow> u32 \<Rightarrow> nat \<Rightarrow> vma_ledger \<times> vma_mem \<Rightarrow> vma_ledger \<times> vma_mem" where
  "protect_one lo hi prot i lm =
    (case lm of (l, m) \<Rightarrow>
      (let e = entries l ! i in
       if \<not> overlaps lo hi e then (l, m)
       else
         (let olo = (if lo > guest_first e then lo else guest_first e);
              ohi = (if hi < guest_last e then hi else guest_last e);
              with_tail = (\<lambda>lm. if ohi < guest_last e
                 then (case lm of (l, m) \<Rightarrow> append_entry (tail_from ohi e) (l, backing_get (backing e) m))
                 else lm)
          in if olo = guest_first e \<and> ohi = guest_last e then
               (l\<lparr>entries := (entries l)[i := e\<lparr>protection := prot\<rparr>]\<rparr>, m)
             else if olo > guest_first e then
               with_tail (append_entry ((tail_from olo e)\<lparr>guest_last := ohi, protection := prot\<rparr>)
                 (l\<lparr>entries := (entries l)[i := e\<lparr>guest_last := olo\<rparr>]\<rparr>, backing_get (backing e) m))
             else
               with_tail (l\<lparr>entries := (entries l)[i := e\<lparr>guest_last := ohi, protection := prot\<rparr>]\<rparr>, m))))"

definition protect_entries :: "u64 \<Rightarrow> u64 \<Rightarrow> u32 \<Rightarrow> vma_ledger \<times> vma_mem \<Rightarrow> vma_ledger \<times> vma_mem" where
  "protect_entries lo hi prot lm = fold (protect_one lo hi prot) [0..<length (entries (fst lm))] lm"

definition vma_protect :: "vma_host \<Rightarrow> u64 \<Rightarrow> u64 \<Rightarrow> u32 \<Rightarrow> vma_ledger \<times> vma_mem \<Rightarrow> vma_result" where
  "vma_protect h gfirst len prot lm =
    (case lm of (l, m) \<Rightarrow>
      if len = 0 \<or> gfirst > - 1 - len then (Some V_EINVAL, l, m)
      else case grow h l (length (entries l) + 2) of
        None \<Rightarrow> (Some V_ENOMEM, l, m)
      | Some l1 \<Rightarrow>
        (case snapshot_allocate h (length (entries l) + 2) of
           None \<Rightarrow> (Some V_ENOMEM, l1, m)
         | Some cap \<Rightarrow>
           (case protect_entries gfirst (gfirst + len) prot (l1, m) of
              (l2, m2) \<Rightarrow> (None, publish_locked cap l2 m2))))"

section \<open>Resolution\<close>

record vma_resolution =
  r_host :: u64
  contiguous :: u64
  r_protection :: u32
  r_flags :: u32

text \<open>The binary search over the views of a snapshot: the index of the view that holds the address.\<close>

function find_view :: "vma_view list \<Rightarrow> u64 \<Rightarrow> nat \<Rightarrow> nat \<Rightarrow> nat + nat" where
  "find_view vs a low high =
    (if low < high then
       (let middle = low + (high - low) div 2; v = vs ! middle in
        if a < v_first v then find_view vs a low middle
        else if a \<ge> v_last v then find_view vs a (middle + 1) high
        else Inr middle)
     else Inl low)"
  by pat_completeness auto
termination
  by (relation "measure (\<lambda>(vs, a, low, high). high - low)") auto

declare find_view.simps [simp del]

definition current_views :: "vma_ledger \<Rightarrow> vma_view list" where
  "current_views l = (case current l of None \<Rightarrow> [] | Some s \<Rightarrow> views s)"

definition resolve :: "vma_ledger \<Rightarrow> u64 \<Rightarrow> u64 \<Rightarrow> u32 \<Rightarrow> vma_errno + vma_resolution option" where
  "resolve l a len required =
    (if a > - 1 - len then Inl V_EINVAL
     else case find_view (current_views l) a 0 (length (current_views l)) of
       Inl _ \<Rightarrow> Inr None
     | Inr i \<Rightarrow>
       (let v = current_views l ! i; available = v_last v - a in
        if v_protection v AND required \<noteq> required then Inl V_EACCES
        else if len > available then Inl V_EFAULT
        else Inr (Some \<lparr>r_host = a + host_delta v, contiguous = available,
                        r_protection = v_protection v, r_flags = v_flags v\<rparr>)))"

text \<open>The maximal interval over which an instruction-fetch answer holds: \<open>(hit, first, last, delta)\<close>.\<close>

definition resolve_exec_span :: "vma_ledger \<Rightarrow> u64 \<Rightarrow> vma_errno + bool \<times> u64 \<times> u64 \<times> u64" where
  "resolve_exec_span l a =
    (let vs = current_views l in
     case find_view vs a 0 (length vs) of
       Inr i \<Rightarrow>
         (let v = vs ! i in
          if v_protection v AND VMA_EXEC = 0 then Inl V_EACCES
          else Inr (True, v_first v, v_last v, host_delta v))
     | Inl low \<Rightarrow>
         Inr (False, if low \<noteq> 0 then v_last (vs ! (low - 1)) else 0,
              if low \<noteq> length vs then v_first (vs ! low) else - 1, 0))"

fun overlap_scan :: "u64 \<Rightarrow> u64 \<Rightarrow> vma_view list \<Rightarrow> bool" where
  "overlap_scan lo hi [] = False"
| "overlap_scan lo hi (v # vs) =
    (if v_first v \<ge> hi then False else if v_last v > lo then True else overlap_scan lo hi vs)"

definition global_overlap :: "vma_ledger \<Rightarrow> u64 \<Rightarrow> u64 \<Rightarrow> bool" where
  "global_overlap l gfirst len =
    (if len = 0 \<or> gfirst > - 1 - len then False
     else overlap_scan gfirst (gfirst + len) (current_views l))"

end
