(* ===== verification/Vma_Store.thy ===== *)
theory Vma_Store
  imports Logical_Vma Counted_Store
begin

text \<open>
  The entry store of the ledger as a multiset of intervals.  Reference counts of the backings are exact
  (\<open>rc_ok\<close>), an interpretation of the counted store; an address is translated by at most one
  entry (\<open>disjoint\<close>); and the unmapping loop \<open>unmap_from\<close> removes exactly the addresses of its
  range, splits at most once and never fails when the array has room for one more entry.
\<close>

section \<open>Reference counts\<close>

definition rc_ok :: "nat multiset \<Rightarrow> vma_mem \<Rightarrow> bool" where
  "rc_ok R m \<longleftrightarrow> (\<forall>p. (heap m p = None \<longrightarrow> count R p = 0) \<and>
     (\<forall>b. heap m p = Some b \<longrightarrow> references b = count R p \<and> 0 < count R p))"

definition attrs :: "vma_mem \<Rightarrow> nat \<Rightarrow> vma_backing option" where
  "attrs m p = map_option (\<lambda>b. b\<lparr>references := 0\<rparr>) (heap m p)"

lemma rc_ok_live: "rc_ok R m \<Longrightarrow> p \<in># R \<Longrightarrow> \<exists>b. heap m p = Some b \<and> references b = count R p \<and> 0 < count R p"
  by (cases "heap m p") (auto simp: rc_ok_def count_eq_zero_iff)

lemma rc_okI:
  assumes "\<And>p. heap m p = None \<Longrightarrow> count R p = 0" "\<And>p b. heap m p = Some b \<Longrightarrow> references b = count R p \<and> 0 < count R p"
  shows "rc_ok R m"
  using assms by (simp add: rc_ok_def)

lemma rc_ok_None: "rc_ok R m \<Longrightarrow> heap m p = None \<Longrightarrow> count R p = 0"
  and rc_ok_Some: "rc_ok R m \<Longrightarrow> heap m p = Some b \<Longrightarrow> references b = count R p \<and> 0 < count R p"
  by (auto simp: rc_ok_def)

lemma rc_get:
  assumes "rc_ok R m" "p \<in># R"
  shows "rc_ok (add_mset p R) (backing_get p m)" "fault (backing_get p m) = fault m"
    "attrs (backing_get p m) q = attrs m q"
proof -
  from rc_ok_live [OF assms] obtain b where b: "heap m p = Some b" "references b = count R p" "0 < count R p" by auto
  show "rc_ok (add_mset p R) (backing_get p m)"
    using b rc_ok_None [OF assms(1)] rc_ok_Some [OF assms(1)]
    by (intro rc_okI) (auto simp: backing_get_def split: if_splits)
  from b show "fault (backing_get p m) = fault m" "attrs (backing_get p m) q = attrs m q"
    by (auto simp: backing_get_def attrs_def)
qed

lemma rc_put:
  assumes "rc_ok (add_mset p R) m"
  shows "rc_ok R (backing_put p m)" "fault (backing_put p m) = fault m"
    "q \<in># R \<Longrightarrow> attrs (backing_put p m) q = attrs m q"
proof -
  from rc_ok_live [OF assms, of p] obtain b where b: "heap m p = Some b" "references b = Suc (count R p)"
    by auto
  have o: "heap m x = None \<Longrightarrow> x \<noteq> p \<Longrightarrow> count R x = 0"
    "heap m x = Some c \<Longrightarrow> x \<noteq> p \<Longrightarrow> references c = count R x \<and> 0 < count R x" for x c
    using rc_ok_None [OF assms, of x] rc_ok_Some [OF assms, of x c] by auto
  from b o show "rc_ok R (backing_put p m)"
    by (intro rc_okI) (auto simp: backing_put_def release_backing_def not_in_iff split: if_splits)
  from b show "fault (backing_put p m) = fault m"
    by (auto simp: backing_put_def release_backing_def)
  assume "q \<in># R"
  then have "0 < count R q" by simp
  with b show "attrs (backing_put p m) q = attrs m q"
    by (auto simp: backing_put_def release_backing_def attrs_def)
qed

definition counted :: "nat multiset \<Rightarrow> vma_mem \<Rightarrow> bool" where
  "counted R m \<longleftrightarrow> rc_ok R m \<and> \<not> fault m"

interpretation backings: counted_store backing_get backing_put counted attrs
proof (unfold_locales, goal_cases)
  case (1 R s p)
  then show ?case by (auto simp: counted_def attrs_def dest: rc_ok_live)
qed (auto simp: counted_def rc_get rc_put)

lemma snapshot_free_folds: "fold snapshot_free ss m = fold (\<lambda>s. fold backing_put (backings s)) ss m"
  by (simp add: snapshot_free_def [abs_def])

section \<open>Entries as maps from addresses\<close>

definition covers :: "u64 \<Rightarrow> vma_entry \<Rightarrow> bool" where
  "covers a e \<longleftrightarrow> in_range (guest_first e) (guest_last e) a"

definition translate :: "vma_entry \<Rightarrow> u64 \<Rightarrow> nat \<times> u64 \<times> u32 \<times> u32" where
  "translate e a = (backing e, backing_offset e + (a - guest_first e), protection e, flags e)"

definition maps :: "vma_entry multiset \<Rightarrow> u64 \<Rightarrow> nat \<times> u64 \<times> u32 \<times> u32 \<Rightarrow> bool" where
  "maps M a t \<longleftrightarrow> (\<exists>e. e \<in># M \<and> covers a e \<and> t = translate e a)"

definition disjoint :: "vma_entry multiset \<Rightarrow> bool" where
  "disjoint M \<longleftrightarrow> (\<forall>a. size (filter_mset (covers a) M) \<le> 1)"

definition e_ok :: "vma_mem \<Rightarrow> vma_entry \<Rightarrow> bool" where
  "e_ok m e \<longleftrightarrow> guest_first e < guest_last e \<and>
     (\<exists>b. attrs m (backing e) = Some b \<and>
        unat (backing_offset e) + unat (guest_last e - guest_first e) \<le> unat (blen b) \<and>
        unat (file_offset b) + unat (blen b) < 2 ^ 64)"

definition piece :: "vma_entry \<Rightarrow> vma_entry \<Rightarrow> bool" where
  "piece e e' \<longleftrightarrow> backing e' = backing e \<and> guest_first e \<le> guest_first e' \<and> guest_first e' < guest_last e' \<and>
     guest_last e' \<le> guest_last e \<and> backing_offset e' = backing_offset e + (guest_first e' - guest_first e)"

lemma piece_covers: "piece e e' \<Longrightarrow> covers a e' \<Longrightarrow> covers a e"
  by (auto simp: piece_def covers_def in_range_def)

lemma piece_e_ok:
  assumes "piece e e'" "e_ok m e"
  shows "e_ok m e'"
proof -
  from assms obtain b where b: "attrs m (backing e) = Some b"
    "unat (backing_offset e) + unat (guest_last e - guest_first e) \<le> unat (blen b)"
    "unat (file_offset b) + unat (blen b) < 2 ^ 64"
    by (auto simp: e_ok_def)
  from assms(1) have le: "guest_first e \<le> guest_first e'" "guest_first e' < guest_last e'" "guest_last e' \<le> guest_last e"
    and off: "backing_offset e' = backing_offset e + (guest_first e' - guest_first e)"
    by (auto simp: piece_def)
  from le have d: "unat (guest_last e - guest_first e) = unat (guest_last e) - unat (guest_first e)"
    "unat (guest_first e' - guest_first e) = unat (guest_first e') - unat (guest_first e)"
    "unat (guest_last e' - guest_first e') = unat (guest_last e') - unat (guest_first e')"
    by (auto simp: unat_sub word_less_nat_alt word_le_nat_alt)
  with b le have "unat (backing_offset e) + unat (guest_first e' - guest_first e) < 2 ^ 64"
    using unat_u64_less [of "blen b"] by (simp add: word_less_nat_alt word_le_nat_alt)
  then have "unat (backing_offset e') = unat (backing_offset e) + unat (guest_first e' - guest_first e)"
    by (simp add: off unat_word_ariths)
  with b le d assms show ?thesis
    by (auto simp: e_ok_def piece_def word_less_nat_alt word_le_nat_alt)
qed

lemma budget_one:
  "(x::nat) \<le> 1 \<Longrightarrow> x = (if P then 1 else 0) + r \<Longrightarrow> y = r + n \<Longrightarrow> n \<le> (if P then 1 else 0) \<Longrightarrow> y \<le> 1"
  by (cases P) simp_all

lemma disjoint_replace:
  assumes "disjoint (add_mset e R)"
    "\<And>a. size (filter_mset (covers a) N) \<le> (if covers a e then 1 else 0)"
  shows "disjoint (R + N)"
  unfolding disjoint_def
proof
  fix a
  from assms(1) have "size (filter_mset (covers a) (add_mset e R)) \<le> 1" unfolding disjoint_def by blast
  moreover have "size (filter_mset (covers a) (add_mset e R)) = (if covers a e then 1 else 0) + size (filter_mset (covers a) R)"
    by simp
  moreover have "size (filter_mset (covers a) (R + N)) = size (filter_mset (covers a) R) + size (filter_mset (covers a) N)"
    by simp
  ultimately show "size (filter_mset (covers a) (R + N)) \<le> 1"
    using assms(2) [of a] by (rule budget_one)
qed

lemma disjoint_subset: "disjoint (R + N) \<Longrightarrow> disjoint R"
  unfolding disjoint_def filter_union_mset size_union by (meson le_add1 order_trans)

lemma maps_union: "maps (M + N) a t \<longleftrightarrow> maps M a t \<or> maps N a t"
  by (auto simp: maps_def)

lemma maps_add: "maps (add_mset e M) a t \<longleftrightarrow> (covers a e \<and> t = translate e a) \<or> maps M a t"
  by (auto simp: maps_def)

lemma maps_unique:
  assumes "disjoint M" "maps M a t" "maps M a t'"
  shows "t = t'"
proof -
  from assms obtain e e' where e: "e \<in># M" "covers a e" "t = translate e a" "e' \<in># M" "covers a e'" "t' = translate e' a"
    by (auto simp: maps_def)
  from assms(1) have "size (filter_mset (covers a) M) \<le> 1" by (simp add: disjoint_def)
  moreover from e have "e \<in># filter_mset (covers a) M" "e' \<in># filter_mset (covers a) M" by simp_all
  ultimately have "e = e'"
    by (metis Suc_le_mono le_zero_eq One_nat_def insert_DiffM size_add_mset size_eq_0_iff_empty empty_not_add_mset multi_member_last set_mset_single add_mset_eq_single insert_noteq_member)
  with e show ?thesis by simp
qed

lemma disjoint_add_maps:
  "disjoint (add_mset e R) \<Longrightarrow> covers a e \<Longrightarrow> \<not> maps R a t"
  by (fastforce simp: disjoint_def maps_def filter_mset_eq_mempty_iff dest: spec [of _ a])

section \<open>The store of entries\<close>

definition ok :: "nat multiset \<Rightarrow> vma_entry multiset \<Rightarrow> vma_mem \<Rightarrow> bool" where
  "ok X M m \<longleftrightarrow> counted (X + image_mset backing M) m \<and> (\<forall>e. e \<in># M \<longrightarrow> e_ok m e) \<and> disjoint M"

lemma okD:
  assumes "ok X M m"
  shows "counted (X + image_mset backing M) m" "e \<in># M \<Longrightarrow> e_ok m e" "disjoint M"
  using assms by (auto simp: ok_def)

lemma e_ok_attrs: "e_ok m e \<Longrightarrow> attrs m' (backing e) = attrs m (backing e) \<Longrightarrow> e_ok m' e"
  by (simp add: e_ok_def)

text \<open>A backing that is still held keeps its content, and no reference to another one appears.\<close>

definition kept :: "nat multiset \<Rightarrow> vma_entry multiset \<Rightarrow> vma_mem \<Rightarrow> vma_entry multiset \<Rightarrow> vma_mem \<Rightarrow> bool" where
  "kept X M m M' m' \<longleftrightarrow> backing ` set_mset M' \<subseteq> backing ` set_mset M \<and>
     (\<forall>q. q \<in># X \<or> q \<in> backing ` set_mset M' \<longrightarrow> attrs m' q = attrs m q)"

lemma kept_refl [simp]: "kept X M m M m" by (simp add: kept_def)

lemma kept_trans: "kept X M m M1 m1 \<Longrightarrow> kept X M1 m1 M2 m2 \<Longrightarrow> kept X M m M2 m2"
  unfolding kept_def by (metis subsetD subset_trans)

lemma ok_remove:
  assumes "ok X (add_mset e R) m"
  shows "ok X R (backing_put (backing e) m)" "kept X (add_mset e R) m R (backing_put (backing e) m)"
proof -
  have rc: "counted (add_mset (backing e) (X + image_mset backing R)) m" using okD(1) [OF assms] by simp
  have "e_ok (backing_put (backing e) m) x" if "x \<in># R" for x
    using okD(2) [OF assms, of x] that backings.put_content [OF rc, of "backing x"] by (auto intro: e_ok_attrs)
  moreover have "disjoint R" using okD(3) [OF assms] disjoint_subset [of R "{#e#}"] by simp
  ultimately show "ok X R (backing_put (backing e) m)" using backings.put_counted [OF rc] by (simp add: ok_def)
  show "kept X (add_mset e R) m R (backing_put (backing e) m)"
    using backings.put_content [OF rc] by (auto simp: kept_def)
qed

lemma ok_replace:
  assumes "ok X (add_mset e R) m" "piece e e'"
  shows "ok X (add_mset e' R) m" "kept X (add_mset e R) m (add_mset e' R) m"
proof -
  have "disjoint (R + {#e'#})"
    using okD(3) [OF assms(1)] by (rule disjoint_replace) (auto dest: piece_covers [OF assms(2)])
  moreover have "backing e' = backing e" using assms(2) by (simp add: piece_def)
  ultimately show "ok X (add_mset e' R) m" "kept X (add_mset e R) m (add_mset e' R) m"
    using assms piece_e_ok [OF assms(2)] by (auto simp: ok_def kept_def)
qed

lemma ok_split:
  assumes "ok X (add_mset e R) m" "piece e e1" "piece e e2" "\<And>a. \<not> (covers a e1 \<and> covers a e2)"
  shows "ok X (add_mset e2 (add_mset e1 R)) (backing_get (backing e) m)"
    "kept X (add_mset e R) m (add_mset e2 (add_mset e1 R)) (backing_get (backing e) m)"
proof -
  have p: "backing e \<in># X + image_mset backing (add_mset e R)" by simp
  note g = backings.get_counted [OF okD(1) [OF assms(1)] p] backings.get_content [OF okD(1) [OF assms(1)] p]
  have b: "backing e1 = backing e" "backing e2 = backing e" using assms(2,3) by (simp_all add: piece_def)
  have "disjoint (R + {#e1, e2#})"
    using okD(3) [OF assms(1)]
  proof (rule disjoint_replace)
    fix a
    show "size (filter_mset (covers a) {#e1, e2#}) \<le> (if covers a e then 1 else 0)"
      using assms(4) [of a] piece_covers [OF assms(2), of a] piece_covers [OF assms(3), of a] by simp
  qed
  moreover have "e_ok (backing_get (backing e) m) x" if "x \<in># add_mset e2 (add_mset e1 R)" for x
  proof -
    have "e_ok m x"
      using that okD(2) [OF assms(1)] piece_e_ok [OF assms(2)] piece_e_ok [OF assms(3)] by auto
    with g(2) show ?thesis by (auto intro: e_ok_attrs)
  qed
  ultimately show "ok X (add_mset e2 (add_mset e1 R)) (backing_get (backing e) m)"
    using g b by (simp add: ok_def add_mset_commute)
  show "kept X (add_mset e R) m (add_mset e2 (add_mset e1 R)) (backing_get (backing e) m)"
    using g(2) b by (simp add: kept_def)
qed

lemma covers_head: "hi \<le> guest_last e \<Longrightarrow> covers a (e\<lparr>guest_last := hi\<rparr>) \<longleftrightarrow> covers a e \<and> a < hi"
  by (auto simp: covers_def in_range_def)

lemma covers_tail: "guest_first e \<le> lo \<Longrightarrow> covers a (tail_from lo e) \<longleftrightarrow> covers a e \<and> lo \<le> a"
  by (auto simp: covers_def in_range_def)

lemma piece_head: "guest_first e < hi \<Longrightarrow> hi \<le> guest_last e \<Longrightarrow> piece e (e\<lparr>guest_last := hi\<rparr>)"
  by (simp add: piece_def)

lemma piece_tail: "guest_first e \<le> lo \<Longrightarrow> lo < guest_last e \<Longrightarrow> piece e (tail_from lo e)"
  by (simp add: piece_def tail_from_def)

lemma translate_head [simp]: "translate (e\<lparr>guest_last := hi\<rparr>) a = translate e a"
  by (simp add: translate_def)

lemma translate_tail [simp]: "translate (tail_from lo e) a = translate e a"
  by (simp add: translate_def tail_from_def)

section \<open>Unmapping\<close>

definition cleared :: "u64 \<Rightarrow> u64 \<Rightarrow> vma_entry multiset \<Rightarrow> vma_entry multiset \<Rightarrow> bool" where
  "cleared lo hi M M' \<longleftrightarrow>
    (\<forall>a t. (\<not> in_range lo hi a \<longrightarrow> maps M' a t = maps M a t) \<and> (maps M' a t \<longrightarrow> maps M a t))"

lemma cleared_refl [simp]: "cleared lo hi M M" by (simp add: cleared_def)

lemma cleared_trans: "cleared lo hi M M' \<Longrightarrow> cleared lo hi M' M'' \<Longrightarrow> cleared lo hi M M''"
  unfolding cleared_def by blast

definition strict :: "u64 \<Rightarrow> u64 \<Rightarrow> vma_entry \<Rightarrow> bool" where
  "strict lo hi e \<longleftrightarrow> lo > guest_first e \<and> hi < guest_last e"

lemma cleared_remove:
  assumes "lo \<le> guest_first e" "guest_last e \<le> hi"
  shows "cleared lo hi (add_mset e R) R"
  using assms by (auto simp: cleared_def maps_add covers_def in_range_def)

lemma cleared_split:
  assumes "strict lo hi e" "lo \<le> hi"
  shows "cleared lo hi (add_mset e R) (add_mset (tail_from hi e) (add_mset (e\<lparr>guest_last := lo\<rparr>) R))"
  using assms by (auto simp: cleared_def maps_add strict_def covers_head covers_tail in_range_def)

lemma cleared_tail:
  assumes "lo \<le> guest_first e" "guest_first e \<le> hi"
  shows "cleared lo hi (add_mset e R) (add_mset (tail_from hi e) R)"
  using assms by (auto simp: cleared_def maps_add covers_tail in_range_def) (auto simp: covers_def in_range_def)

lemma cleared_head:
  assumes "guest_last e \<le> hi" "lo \<le> guest_last e"
  shows "cleared lo hi (add_mset e R) (add_mset (e\<lparr>guest_last := lo\<rparr>) R)"
  using assms by (auto simp: cleared_def maps_add covers_head in_range_def) (auto simp: covers_def in_range_def)

definition frame :: "vma_ledger \<Rightarrow> vma_ledger \<Rightarrow> bool" where
  "frame l l' \<longleftrightarrow> current l' = current l \<and> retired l' = retired l \<and> generation l' = generation l \<and> capacity l \<le> capacity l'"

definition room :: "vma_ledger \<Rightarrow> bool" where
  "room l \<longleftrightarrow> length (entries l) \<le> capacity l"

text \<open>What a run of the loop from a state may end in.\<close>

definition unmap_result ::
  "nat multiset \<Rightarrow> u64 \<Rightarrow> u64 \<Rightarrow> vma_ledger \<times> vma_mem \<Rightarrow> bool \<Rightarrow> vma_ledger \<Rightarrow> vma_mem \<Rightarrow> bool" where
  "unmap_result X lo hi lm r l' m' \<longleftrightarrow> (case lm of (l, m) \<Rightarrow>
     ok X (mset (entries l')) m' \<and> kept X (mset (entries l)) m (mset (entries l')) m' \<and> room l' \<and> frame l l' \<and> cleared lo hi (mset (entries l)) (mset (entries l')) \<and>
     length (entries l') \<le> length (entries l) + length (filter (strict lo hi) (entries l)) \<and>
     (length (entries l) + length (filter (strict lo hi) (entries l)) \<le> capacity l \<longrightarrow> r \<and> capacity l' = capacity l) \<and>
     (r \<longrightarrow> (\<forall>e \<in> set (entries l'). \<not> overlaps lo hi e)))"

text \<open>One iteration replaces the state by one that is at least as good; \<open>s\<close> counts the splits left.\<close>

lemma unmap_result_step:
  assumes "unmap_result X lo hi (l1, m1) r l' m'" "frame l l1"
    "kept X (mset (entries l)) m (mset (entries l1)) m1" "cleared lo hi (mset (entries l)) (mset (entries l1))"
    "length (entries l1) + length (filter (strict lo hi) (entries l1))
       \<le> length (entries l) + length (filter (strict lo hi) (entries l))"
    "length (entries l) + length (filter (strict lo hi) (entries l)) \<le> capacity l \<Longrightarrow> capacity l1 = capacity l"
  shows "unmap_result X lo hi (l, m) r l' m'"
  using assms cleared_trans [OF assms(4)] kept_trans [OF assms(3)] by (auto simp: unmap_result_def frame_def)

lemma grow_fits: "n \<le> capacity l \<Longrightarrow> grow h l n = Some l"
  by (simp add: grow_def)

lemma grow_capacity_ge: "grow_capacity cap n = Some c \<Longrightarrow> cap \<noteq> 0 \<Longrightarrow> n \<le> c \<and> cap \<le> c"
proof (induction cap n rule: grow_capacity.induct)
  case (1 cap n)
  from "1.IH" "1.prems" show ?case
    by (auto simp: grow_capacity.simps [of cap n] split: if_splits)
qed

lemma grow_room: "grow h l n = Some l1 \<Longrightarrow> n \<le> capacity l1 \<and> frame l l1 \<and> entries l1 = entries l"
  by (auto simp: grow_def frame_def split: if_splits option.splits dest!: grow_capacity_ge)

lemma not_strict_piece [simp]:
  "\<not> strict lo hi (e\<lparr>guest_last := lo\<rparr>)" "\<not> strict lo hi (tail_from hi e)" if "lo \<le> hi"
  using that by (auto simp: strict_def)

lemma nth_swap_remove: "j < i \<Longrightarrow> i < length xs \<Longrightarrow> swap_remove i xs ! j = xs ! j"
  by (simp add: swap_remove_def nth_butlast)

lemma strict_count_mset: "length (filter P xs) = size (filter_mset P (mset xs))"
  by (metis mset_filter size_mset)

lemma unmap_result_update:
  assumes u: "unmap_result X lo hi (l\<lparr>entries := (entries l)[i := y]\<rparr>, m) r l' m'"
    and b: "backing y = backing (entries l ! i)"
    and i: "i < length (entries l)" and ns: "\<not> strict lo hi y"
    and c: "\<And>R. cleared lo hi (add_mset (entries l ! i) R) (add_mset y R)"
  shows "unmap_result X lo hi (l, m) r l' m'"
proof -
  note ms = mset_swap_remove [OF i] and up = mset_update_nth [OF i mset_swap_remove [OF i], of y]
  have "cleared lo hi (mset (entries l)) (mset (entries (l\<lparr>entries := (entries l)[i := y]\<rparr>)))"
    using c [of "mset (swap_remove i (entries l))"] ms up by simp
  moreover have "length (filter (strict lo hi) ((entries l)[i := y])) \<le> length (filter (strict lo hi) (entries l))"
    unfolding strict_count_mset ms up using ns by simp
  ultimately show ?thesis
    using ms up b by (intro unmap_result_step [OF u]) (simp_all add: frame_def kept_def)
qed

lemma unmap_from_done:
  "\<not> i < length (entries l) \<Longrightarrow> unmap_from h lo hi i (l, m) = (True, l, m)"
  by (subst unmap_from.simps) (auto simp: Let_def dest: leD)

lemma unmap_from_skip:
  "i < length (entries l) \<Longrightarrow> \<not> overlaps lo hi (entries l ! i) \<Longrightarrow>
    unmap_from h lo hi i (l, m) = unmap_from h lo hi (Suc i) (l, m)"
  by (subst unmap_from.simps) (auto simp: Let_def dest: leD)

lemma unmap_from_drop:
  "i < length (entries l) \<Longrightarrow> overlaps lo hi (entries l ! i) \<Longrightarrow>
    lo \<le> guest_first (entries l ! i) \<and> guest_last (entries l ! i) \<le> hi \<Longrightarrow>
    unmap_from h lo hi i (l, m) =
      unmap_from h lo hi i (l\<lparr>entries := swap_remove i (entries l)\<rparr>, backing_put (backing (entries l ! i)) m)"
  by (subst unmap_from.simps) (auto simp: Let_def dest: leD)

lemma unmap_from_split:
  "i < length (entries l) \<Longrightarrow> overlaps lo hi (entries l ! i) \<Longrightarrow> strict lo hi (entries l ! i) \<Longrightarrow>
    unmap_from h lo hi i (l, m) =
      (case grow h l (length (entries l) + 1) of
         None \<Rightarrow> (False, l, m)
       | Some l1 \<Rightarrow>
           unmap_from h lo hi (Suc i)
             (append_entry (tail_from hi (entries l ! i))
               (l1\<lparr>entries := (entries l1)[i := (entries l ! i)\<lparr>guest_last := lo\<rparr>]\<rparr>,
                backing_get (backing (entries l ! i)) m)))"
  by (subst unmap_from.simps) (auto simp: Let_def strict_def dest: leD)

lemma unmap_from_tail:
  "i < length (entries l) \<Longrightarrow> overlaps lo hi (entries l ! i) \<Longrightarrow>
    lo \<le> guest_first (entries l ! i) \<Longrightarrow> \<not> guest_last (entries l ! i) \<le> hi \<Longrightarrow>
    unmap_from h lo hi i (l, m) =
      unmap_from h lo hi (Suc i) (l\<lparr>entries := (entries l)[i := tail_from hi (entries l ! i)]\<rparr>, m)"
  by (subst unmap_from.simps) (auto simp: Let_def dest: leD)

lemma unmap_from_head:
  "i < length (entries l) \<Longrightarrow> overlaps lo hi (entries l ! i) \<Longrightarrow>
    \<not> lo \<le> guest_first (entries l ! i) \<Longrightarrow> \<not> hi < guest_last (entries l ! i) \<Longrightarrow>
    unmap_from h lo hi i (l, m) =
      unmap_from h lo hi (Suc i) (l\<lparr>entries := (entries l)[i := (entries l ! i)\<lparr>guest_last := lo\<rparr>]\<rparr>, m)"
  by (subst unmap_from.simps) (auto simp: Let_def dest: leD)

lemma unmap_from_ok:
  assumes "unmap_from h lo hi i (l, m) = (r, l', m')" "ok X (mset (entries l)) m" "room l" "lo \<le> hi"
    "\<forall>j < min i (length (entries l)). \<not> overlaps lo hi (entries l ! j)"
  shows "unmap_result X lo hi (l, m) r l' m'"
  using assms
proof (induction h lo hi i "(l, m)" arbitrary: l m rule: unmap_from.induct)
  case (1 h lo hi i l m)
  let ?es = "entries l" let ?e = "?es ! i" let ?R = "mset (swap_remove i ?es)"
  show ?case
  proof (cases "i < length ?es")
    case False
    with "1.prems" show ?thesis
      by (auto simp: unmap_from_done unmap_result_def frame_def in_set_conv_nth)
  next
    case i: True
    then have ms: "mset ?es = add_mset ?e ?R" by (rule mset_swap_remove)
    have up: "mset (?es[i := y]) = add_mset y ?R" for y using i ms by (rule mset_update_nth)
    have nov: "j < i \<Longrightarrow> \<not> overlaps lo hi (?es ! j)" for j using "1.prems"(5) i by simp
    have okR: "ok X (add_mset ?e ?R) m" using "1.prems"(2) ms by simp
    have eok: "e_ok m ?e" using okD(2) [OF "1.prems"(2), of ?e] i by simp
    then have ne: "guest_first ?e < guest_last ?e" by (simp add: e_ok_def)
    consider (skip) "\<not> overlaps lo hi ?e"
      | (drop) "overlaps lo hi ?e" "lo \<le> guest_first ?e \<and> hi \<ge> guest_last ?e"
      | (split) "overlaps lo hi ?e" "strict lo hi ?e"
      | (tail) "overlaps lo hi ?e" "lo \<le> guest_first ?e" "\<not> hi \<ge> guest_last ?e"
      | (head) "overlaps lo hi ?e" "\<not> lo \<le> guest_first ?e" "\<not> hi < guest_last ?e"
      by (cases "overlaps lo hi ?e"; cases "lo \<le> guest_first ?e"; cases "hi \<ge> guest_last ?e")
         (auto simp: strict_def not_le)
    then show ?thesis
    proof cases
      case skip
      have "unmap_from h lo hi (Suc i) (l, m) = (r, l', m')"
        using "1.prems"(1) i skip by (simp add: unmap_from_skip)
      with "1.hyps"(1) [OF i refl skip] "1.prems" skip nov show ?thesis
        by (auto simp: less_Suc_eq)
    next
      case drop
      let ?l = "l\<lparr>entries := swap_remove i ?es\<rparr>"
      have "unmap_from h lo hi i (?l, backing_put (backing ?e) m) = (r, l', m')"
        using "1.prems"(1) i drop by (simp add: unmap_from_drop)
      moreover have "ok X (mset (entries ?l)) (backing_put (backing ?e) m)"
        using ok_remove(1) [OF okR] by simp
      moreover have "\<forall>j < min i (length (entries ?l)). \<not> overlaps lo hi (entries ?l ! j)"
        using nov i by (auto simp: nth_swap_remove)
      ultimately have "unmap_result X lo hi (?l, backing_put (backing ?e) m) r l' m'"
        using "1.prems"(3,4) i by (intro "1.hyps"(2) [OF i refl _ drop(2)]) (use drop in \<open>auto simp: room_def\<close>)
      then show ?thesis
        by (rule unmap_result_step)
           (use ms drop ok_remove(2) [OF okR] cleared_remove [of lo ?e hi ?R] in \<open>auto simp: frame_def strict_count_mset\<close>)
    next
      case split
      show ?thesis
      proof (cases "grow h l (length ?es + 1)")
        case None
        have "0 < length (filter (strict lo hi) ?es)"
          using i split(2) by (auto simp: filter_empty_conv)
        then have "length ?es + length (filter (strict lo hi) ?es) \<le> capacity l \<Longrightarrow> length ?es + 1 \<le> capacity l"
          by linarith
        with None have "\<not> length ?es + length (filter (strict lo hi) ?es) \<le> capacity l"
          using grow_fits [of "length ?es + 1" l h] by auto
        with None "1.prems" i split show ?thesis
          by (auto simp: unmap_from_split unmap_result_def frame_def)
      next
        case (Some l1)
        note g = grow_room [OF Some]
        let ?l = "l1\<lparr>entries := ?es[i := ?e\<lparr>guest_last := lo\<rparr>] @ [tail_from hi ?e]\<rparr>"
        have ap: "append_entry (tail_from hi ?e)
            (l1\<lparr>entries := (entries l1)[i := ?e\<lparr>guest_last := lo\<rparr>]\<rparr>, backing_get (backing ?e) m) =
            (?l, backing_get (backing ?e) m)"
          using g by (simp add: append_entry_def)
        have run: "unmap_from h lo hi (Suc i) (?l, backing_get (backing ?e) m) = (r, l', m')"
          using "1.prems"(1) i split Some ap by (simp add: unmap_from_split)
        have m1: "mset (entries ?l) = add_mset (tail_from hi ?e) (add_mset (?e\<lparr>guest_last := lo\<rparr>) ?R)"
          using up by simp
        have "piece ?e (?e\<lparr>guest_last := lo\<rparr>)" "piece ?e (tail_from hi ?e)"
          "\<And>a. \<not> (covers a (?e\<lparr>guest_last := lo\<rparr>) \<and> covers a (tail_from hi ?e))"
          using split(2) "1.prems"(4)
          by (auto simp: strict_def covers_head covers_tail intro!: piece_head piece_tail)
        note sp = ok_split [OF okR this]
        have okl: "ok X (mset (entries ?l)) (backing_get (backing ?e) m)"
          and k: "kept X (mset ?es) m (mset (entries ?l)) (backing_get (backing ?e) m)"
          unfolding m1 ms using sp by auto
        have novl: "\<forall>j < min (Suc i) (length (entries ?l)). \<not> overlaps lo hi (entries ?l ! j)"
          using nov i by (auto simp: less_Suc_eq nth_append overlaps_def)
        have u: "unmap_result X lo hi (?l, backing_get (backing ?e) m) r l' m'"
          by (rule "1.hyps"(3) [OF i refl _ _ _ Some ap run okl _ "1.prems"(4) novl])
             (use split "1.prems"(3) g in \<open>auto simp: room_def strict_def\<close>)
        have f: "frame l ?l" using g by (simp add: frame_def)
        have c: "cleared lo hi (mset ?es) (mset (entries ?l))"
          unfolding m1 ms using split(2) "1.prems"(4) by (rule cleared_split)
        have n: "length (filter (strict lo hi) (entries ?l)) + 1 = length (filter (strict lo hi) ?es)"
          unfolding strict_count_mset m1 ms using split(2) "1.prems"(4) by simp
        have le: "length (entries ?l) = length ?es + 1" by simp
        have cap: "length ?es + 1 \<le> capacity l \<Longrightarrow> capacity ?l = capacity l"
          using Some grow_fits [of "length ?es + 1" l h] by simp
        show ?thesis
        proof (rule unmap_result_step [OF u f k c])
          show "length (entries ?l) + length (filter (strict lo hi) (entries ?l))
              \<le> length ?es + length (filter (strict lo hi) ?es)"
            using n le by linarith
        qed (rule cap, use n in linarith)
      qed
    next
      case tail
      let ?l = "l\<lparr>entries := ?es[i := tail_from hi ?e]\<rparr>"
      have run: "unmap_from h lo hi (Suc i) (?l, m) = (r, l', m')"
        using "1.prems"(1) i tail by (simp add: unmap_from_tail)
      have okl: "ok X (mset (entries ?l)) m"
        using up ok_replace(1) [OF okR piece_tail, of hi] "1.prems"(4) tail by (simp add: overlaps_def not_le order_less_imp_le)
      have novl: "\<forall>j < min (Suc i) (length (entries ?l)). \<not> overlaps lo hi (entries ?l ! j)"
        using nov i by (auto simp: less_Suc_eq nth_list_update)
      have "unmap_result X lo hi (?l, m) r l' m'"
        by (rule "1.hyps"(4) [OF i refl _ _ _ _ run okl _ "1.prems"(4) novl])
           (use tail "1.prems"(3) in \<open>auto simp: room_def\<close>)
      then show ?thesis
        by (rule unmap_result_update) (use i tail "1.prems"(4) in \<open>auto simp: overlaps_def intro!: cleared_tail\<close>)
    next
      case head
      let ?l = "l\<lparr>entries := ?es[i := ?e\<lparr>guest_last := lo\<rparr>]\<rparr>"
      have run: "unmap_from h lo hi (Suc i) (?l, m) = (r, l', m')"
        using "1.prems"(1) i head by (simp add: unmap_from_head)
      have okl: "ok X (mset (entries ?l)) m"
        using up ok_replace(1) [OF okR piece_head, of lo] "1.prems"(4) head by (simp add: overlaps_def not_le not_less order_less_imp_le)
      have novl: "\<forall>j < min (Suc i) (length (entries ?l)). \<not> overlaps lo hi (entries ?l ! j)"
        using nov i by (auto simp: less_Suc_eq nth_list_update overlaps_def)
      have "unmap_result X lo hi (?l, m) r l' m'"
        by (rule "1.hyps"(5) [OF i refl _ _ _ _ run okl _ "1.prems"(4) novl])
           (use head "1.prems"(3) in \<open>auto simp: room_def\<close>)
      then show ?thesis
        by (rule unmap_result_update) (use i head "1.prems"(4) in \<open>auto simp: overlaps_def intro!: cleared_head\<close>)
    qed
  qed
qed

end
