(* ===== verification/Vma_Ledger.thy ===== *)
theory Vma_Ledger
  imports Vma_Store
begin

text \<open>
  The ledger around the store: what a publication does (\<open>publish_ok\<close>), the invariant every
  operation keeps (\<open>ledger_ok\<close>: exact counts, entries within their backings, room in the array, an
  even generation), what a guest address stands for (\<open>sees\<close>), and the effect of unmapping and of
  protecting a range, entry by entry (\<open>paint\<close>), and of installing one entry.
\<close>

section \<open>The ledger\<close>

definition held :: "vma_ledger \<Rightarrow> nat multiset" where
  "held l = (case current l of None \<Rightarrow> {#} | Some s \<Rightarrow> mset (backings s)) + (\<Sum>s\<leftarrow>retired l. mset (backings s))"

definition ledger_ok :: "nat multiset \<Rightarrow> vma_ledger \<Rightarrow> vma_mem \<Rightarrow> bool" where
  "ledger_ok X l m \<longleftrightarrow> ok (X + held l) (mset (entries l)) m \<and> room l \<and> even (unat (generation l))"

definition published :: "vma_ledger \<Rightarrow> vma_mem \<Rightarrow> bool" where
  "published l m \<longleftrightarrow>
    (case current l of
       None \<Rightarrow> entries l = []
     | Some s \<Rightarrow> views s = sort_key v_first (map (view_of m) (entries l)) \<and> backings s = map backing (entries l))"

lemma attrs_eqD:
  assumes "attrs m' p = attrs m p"
  shows "(heap m' p = None) = (heap m p = None)"
    "heap m p = Some b \<Longrightarrow> \<exists>b'. heap m' p = Some b' \<and> b'\<lparr>references := 0\<rparr> = b\<lparr>references := 0\<rparr>"
  using assms by (auto simp: attrs_def split: option.splits)

lemma attrs_fields:
  assumes "(b'::vma_backing)\<lparr>references := 0\<rparr> = b\<lparr>references := 0\<rparr>"
  shows "mapping b' = mapping b" "blen b' = blen b" "device b' = device b" "inode b' = inode b"
    "file_offset b' = file_offset b" "retained b' = retained b" "writable b' = writable b" "borrowed b' = borrowed b"
  using arg_cong [OF assms, of mapping] arg_cong [OF assms, of blen] arg_cong [OF assms, of device]
    arg_cong [OF assms, of inode] arg_cong [OF assms, of file_offset] arg_cong [OF assms, of retained]
    arg_cong [OF assms, of writable] arg_cong [OF assms, of borrowed]
  by simp_all

lemma view_of_attrs:
  assumes "attrs m' (backing e) = attrs m (backing e)"
  shows "view_of m' e = view_of m e"
proof (cases "heap m (backing e)")
  case None
  with attrs_eqD(1) [OF assms] show ?thesis by (simp add: view_of_def host_first_def)
next
  case (Some b)
  with attrs_eqD(2) [OF assms] obtain b' where "heap m' (backing e) = Some b'" "mapping b' = mapping b"
    using attrs_fields(1) by blast
  with Some show ?thesis by (simp add: view_of_def host_first_def)
qed

lemma even_add_2: "even (unat (g + 2 :: u64)) = even (unat g)"
  by (simp add: unat_word_ariths dvd_mod_iff)

lemma swap_current_fields [simp]:
  "entries (swap_current s l) = entries l" "capacity (swap_current s l) = capacity l"
  "current (swap_current s l) = s" "generation (swap_current s l) = generation l + 2"
  by (simp_all add: swap_current_def)

lemma held_swap_current:
  "held (swap_current s l) = (case s of None \<Rightarrow> {#} | Some s \<Rightarrow> mset (backings s)) + held l"
  by (simp add: held_def swap_current_def split: option.splits)

lemma publish_ok:
  assumes "ok (X + held l) (mset (entries l)) m" "room l" "even (unat (generation l))" "length (entries l) \<le> cap"
    "publish_locked cap l m = (l', m')"
  shows "ledger_ok X l' m'" "published l' m'" "entries l' = entries l" "capacity l' = capacity l"
    "kept (X + held l) (mset (entries l)) m (mset (entries l')) m'" "held l' = mset (map backing (entries l)) + held l"
    "generation l' = generation l + 2"
proof -
  let ?ps = "map backing (entries l)" let ?m = "fold backing_get ?ps m"
  let ?s = "\<lparr>views = sort_key v_first (map (view_of m) (entries l)), backings = ?ps\<rparr>"
  from assms(4,5) have l': "l' = swap_current (Some ?s) l" and m': "m' = ?m"
    by (simp_all add: publish_locked_def Let_def)
  let ?R = "X + held l + image_mset backing (mset (entries l))"
  have "set ?ps \<subseteq> set_mset ?R" by auto
  note g = backings.get_fold [OF okD(1) [OF assms(1)] this]
  show h: "held l' = mset ?ps + held l" by (simp add: l' held_swap_current)
  have "e_ok ?m e" if "e \<in> set (entries l)" for e
    using okD(2) [OF assms(1), of e] that g by (auto intro: e_ok_attrs)
  with g okD(3) [OF assms(1)] have "ok (X + held l') (mset (entries l)) ?m"
    by (simp add: ok_def h ac_simps)
  then show "ledger_ok X l' m'"
    using assms(2,3) by (simp add: ledger_ok_def l' m' even_add_2 room_def)
  have "view_of ?m e = view_of m e" for e
    using g by (intro view_of_attrs) blast
  then have "map (view_of ?m) (entries l) = map (view_of m) (entries l)" by simp
  then show "published l' m'" by (simp only: published_def l' m' swap_current_fields option.case vma_snapshot.simps)
  from g show "kept (X + held l) (mset (entries l)) m (mset (entries l')) m'"
    by (simp add: kept_def l' m')
qed (use assms(5) in \<open>auto simp: publish_locked_def Let_def\<close>)

section \<open>What a guest address stands for\<close>

datatype identity = Host u64 | File u64 u64 u64

text \<open>The byte behind an address: a byte of the host for a borrowed range, a byte of a file
  otherwise.\<close>

definition ident :: "vma_backing \<Rightarrow> u64 \<Rightarrow> identity" where
  "ident b off = (if borrowed b then Host (mapping b + off) else File (device b) (inode b) (file_offset b + off))"

definition describe :: "vma_mem \<Rightarrow> nat \<times> u64 \<times> u32 \<times> u32 \<Rightarrow> (identity \<times> u32 \<times> u32) option" where
  "describe m t = (case t of (p, off, prot, fl) \<Rightarrow> map_option (\<lambda>b. (ident b off, prot, fl)) (attrs m p))"

definition sees :: "vma_entry multiset \<Rightarrow> vma_mem \<Rightarrow> u64 \<Rightarrow> identity \<times> u32 \<times> u32 \<Rightarrow> bool" where
  "sees M m a x \<longleftrightarrow> (\<exists>t. maps M a t \<and> describe m t = Some x)"

lemma describe_kept:
  assumes "kept X M m M' m'" "maps M' a t"
  shows "describe m' t = describe m t"
  using assms by (auto simp: kept_def maps_def translate_def describe_def split: prod.splits)

lemma sees_unique: "disjoint M \<Longrightarrow> sees M m a x \<Longrightarrow> sees M m a y \<Longrightarrow> x = y"
  unfolding sees_def by (metis maps_unique option.inject)

lemma sees_cleared:
  assumes "cleared lo hi M M'" "kept X M m M' m'" "\<forall>e. e \<in># M' \<longrightarrow> \<not> overlaps lo hi e"
  shows "sees M' m' a x \<longleftrightarrow> sees M m a x \<and> \<not> in_range lo hi a"
proof -
  have "\<not> maps M' a t" if "in_range lo hi a" for t
    using assms(3) that by (auto simp: maps_def covers_def in_range_def overlaps_def)
  with assms(1) have "maps M' a t \<longleftrightarrow> maps M a t \<and> \<not> in_range lo hi a" for t
    unfolding cleared_def by blast
  then show ?thesis using describe_kept [OF assms(2)] unfolding sees_def by metis
qed

section \<open>Unmapping a range\<close>

lemma strict_once:
  assumes "disjoint (mset es)" "lo \<le> hi"
  shows "length (filter (strict lo hi) es) \<le> 1"
proof -
  have "size (filter_mset (strict lo hi) M) \<le> size (filter_mset (covers lo) M)" for M
    using assms(2) by (induction M) (auto simp: strict_def covers_def in_range_def)
  with assms(1) show ?thesis
    unfolding strict_count_mset disjoint_def by (meson order_trans)
qed

lemma no_wrap:
  assumes "\<not> lo > - 1 - (len :: u64)"
  shows "unat (lo + len) = unat lo + unat len" "lo \<le> lo + len"
proof -
  have "unat (- 1 - len) = 2 ^ 64 - 1 - unat len"
    by (subst unat_sub) (simp_all add: word_n1_ge unsigned_minus_1_eq_mask mask_eq_exp_minus_1)
  with assms have "unat lo + unat len < 2 ^ 64"
    using unat_u64_less [of len] by (simp add: word_less_nat_alt)
  then show "unat (lo + len) = unat lo + unat len" by (simp add: unat_word_ariths)
  then show "lo \<le> lo + len" by (simp add: word_le_nat_alt)
qed

lemma grow_ok:
  assumes "grow h l n = Some l1"
  shows "entries l1 = entries l" "held l1 = held l" "published l1 m = published l m"
    "current l1 = current l" "generation l1 = generation l" "retired l1 = retired l"
    "n \<le> capacity l1" "ledger_ok X l m \<Longrightarrow> ledger_ok X l1 m"
proof -
  note g = grow_room [OF assms]
  from g show *: "entries l1 = entries l" "current l1 = current l" "generation l1 = generation l"
    "n \<le> capacity l1" "retired l1 = retired l" by (auto simp: frame_def)
  from * show h: "held l1 = held l" "published l1 m = published l m"
    by (simp_all add: held_def published_def split: option.split)
  from g * h show "ledger_ok X l m \<Longrightarrow> ledger_ok X l1 m" by (simp add: frame_def ledger_ok_def room_def)
qed

lemma frame_held: "frame l l' \<Longrightarrow> held l' = held l"
  by (simp add: frame_def held_def)

lemma ledger_okD:
  assumes "ledger_ok X l m"
  shows "ok (X + held l) (mset (entries l)) m" "room l" "even (unat (generation l))"
  using assms by (simp_all add: ledger_ok_def)

text \<open>The loop followed by a publication, when the array and the snapshot have room for one more entry.\<close>

lemma unmap_publish_ok:
  assumes l: "ledger_ok X l m" and le: "lo \<le> hi" and cap: "length (entries l) + 1 \<le> capacity l"
    and u: "unmap_locked h lo hi (l, m) = (r, l2, m2)"
  shows "r" "length (entries l2) \<le> length (entries l) + 1" "capacity l2 = capacity l"
    "unmap_result (X + held l) lo hi (l, m) True l2 m2" "held l2 = held l" "generation l2 = generation l"
    "\<And>a x. sees (mset (entries l2)) m2 a x \<longleftrightarrow> sees (mset (entries l)) m a x \<and> \<not> in_range lo hi a"
proof -
  have ur: "unmap_result (X + held l) lo hi (l, m) r l2 m2"
    using u ledger_okD [OF l] le by (intro unmap_from_ok [of h lo hi 0 l m]) (simp_all add: unmap_locked_def)
  have "length (filter (strict lo hi) (entries l)) \<le> 1"
    using okD(3) [OF ledger_okD(1) [OF l]] le by (rule strict_once)
  with ur cap show r: "r" and "length (entries l2) \<le> length (entries l) + 1" "capacity l2 = capacity l"
    by (auto simp: unmap_result_def)
  from ur r show ur': "unmap_result (X + held l) lo hi (l, m) True l2 m2" by simp
  then have "frame l l2" by (simp add: unmap_result_def)
  then show "held l2 = held l" "generation l2 = generation l"
    by (rule frame_held) (use \<open>frame l l2\<close> in \<open>simp add: frame_def\<close>)
  from ur' show "sees (mset (entries l2)) m2 a x \<longleftrightarrow> sees (mset (entries l)) m a x \<and> \<not> in_range lo hi a" for a x
    by (intro sees_cleared [of _ _ _ _ "X + held l"]) (auto simp: unmap_result_def)
qed

definition op_ok ::
  "nat multiset \<Rightarrow> vma_ledger \<Rightarrow> vma_mem \<Rightarrow> vma_errno option \<Rightarrow> vma_ledger \<Rightarrow> vma_mem \<Rightarrow> bool" where
  "op_ok X l m r l' m' \<longleftrightarrow> ledger_ok X l' m' \<and> (r = None \<longrightarrow> published l' m') \<and>
     (\<forall>q. q \<in># X \<longrightarrow> attrs m' q = attrs m q) \<and>
     (r \<noteq> None \<longrightarrow> entries l' = entries l \<and> current l' = current l \<and> retired l' = retired l \<and>
        generation l' = generation l \<and> heap m' = heap m) \<and>
     (r = None \<longrightarrow> generation l' = generation l + 2)"

lemma op_ok_refused:
  assumes "ledger_ok X l m" "grow h l n = Some l1"
  shows "op_ok X l m (Some e) l1 m"
  using assms grow_ok [OF assms(2)] by (simp add: op_ok_def)

lemma op_ok_refl: "ledger_ok X l m \<Longrightarrow> op_ok X l m (Some e) l m"
  by (simp add: op_ok_def)

lemma vma_unmap_ok:
  assumes "ledger_ok X l m" "vma_unmap h gfirst len (l, m) = (r, l', m')" "len \<noteq> 0"
  shows "op_ok X l m r l' m'"
    "r = None \<Longrightarrow> sees (mset (entries l')) m' a x \<longleftrightarrow>
        sees (mset (entries l)) m a x \<and> \<not> in_range gfirst (gfirst + len) a"
    "r = None \<Longrightarrow> kept X (mset (entries l)) m (mset (entries l')) m'"
proof -
  have "op_ok X l m r l' m' \<and> (r = None \<longrightarrow> (\<forall>a x. sees (mset (entries l')) m' a x \<longleftrightarrow>
        sees (mset (entries l)) m a x \<and> \<not> in_range gfirst (gfirst + len) a) \<and>
      kept X (mset (entries l)) m (mset (entries l')) m')"
  proof (cases "gfirst > - 1 - len \<or> grow h l (length (entries l) + 1) = None")
    case True
    with assms show ?thesis by (auto simp: vma_unmap_def op_ok_refl split: if_splits)
  next
    case False
    then obtain l1 where w: "\<not> gfirst > - 1 - len" and g: "grow h l (length (entries l) + 1) = Some l1" by auto
    note gk = grow_ok [OF g]
    show ?thesis
    proof (cases "snapshot_allocate h (length (entries l) + 1)")
      case None
      with assms w g op_ok_refused [OF assms(1) g, of V_ENOMEM] show ?thesis by (auto simp: vma_unmap_def)
    next
      case (Some cap)
      obtain fin l2 m2 where u: "unmap_locked h gfirst (gfirst + len) (l1, m) = (fin, l2, m2)" by (metis prod_cases3)
      have l1: "ledger_ok X l1 m" and cap1: "length (entries l1) + 1 \<le> capacity l1" using gk assms(1) by auto
      note ur = unmap_publish_ok [OF l1 no_wrap(2) [OF w] cap1 u]
      from Some have cap: "cap = length (entries l) + 1" by (auto simp: snapshot_allocate_def split: if_splits)
      from assms(2,3) w g Some u ur(1) have p: "publish_locked cap l2 m2 = (l', m')" and r: "r = None"
        by (auto simp: vma_unmap_def)
      have ok2: "ok (X + held l2) (mset (entries l2)) m2" "room l2" "even (unat (generation l2))"
        "length (entries l2) \<le> cap"
        using ur ledger_okD [OF l1] gk cap by (auto simp: unmap_result_def)
      note pk = publish_ok [OF ok2 p]
      have k: "kept (X + held l1) (mset (entries l1)) m (mset (entries l')) m'"
        using ur(4,5) pk(5) by (auto simp: unmap_result_def intro: kept_trans)
      have sk: "sees (mset (entries l')) m' a x \<longleftrightarrow> sees (mset (entries l2)) m2 a x" for a x
        unfolding sees_def pk(3) using describe_kept [OF pk(5)] pk(3) by metis
      have "kept X (mset (entries l)) m (mset (entries l')) m'" using k gk(1) by (auto simp: kept_def)
      with r pk ur(6,7) gk sk show ?thesis by (auto simp: op_ok_def kept_def)
    qed
  qed
  then show "op_ok X l m r l' m'"
    "r = None \<Longrightarrow> sees (mset (entries l')) m' a x \<longleftrightarrow>
        sees (mset (entries l)) m a x \<and> \<not> in_range gfirst (gfirst + len) a"
    "r = None \<Longrightarrow> kept X (mset (entries l)) m (mset (entries l')) m'" by blast+
qed

section \<open>Protecting a range\<close>

text \<open>The entries an entry is cut into, the first of which stays in its slot.\<close>

definition paint :: "u64 \<Rightarrow> u64 \<Rightarrow> u32 \<Rightarrow> vma_entry \<Rightarrow> vma_entry list" where
  "paint lo hi prot e =
    (if \<not> overlaps lo hi e then [e]
     else (if lo > guest_first e then [e\<lparr>guest_last := lo\<rparr>] else []) @
       [(tail_from (max lo (guest_first e)) e)\<lparr>guest_last := min hi (guest_last e), protection := prot\<rparr>] @
       (if hi < guest_last e then [tail_from hi e] else []))"

definition cuts :: "u64 \<Rightarrow> u64 \<Rightarrow> vma_entry \<Rightarrow> nat" where
  "cuts lo hi e = (if guest_first e < lo \<and> lo < guest_last e then 1 else 0) +
     (if guest_first e < hi \<and> hi < guest_last e then 1 else 0)"

lemma paint_ne [simp]: "paint lo hi prot e \<noteq> []"
  by (simp add: paint_def)

lemma length_paint: "lo < hi \<Longrightarrow> length (paint lo hi prot e) = 1 + cuts lo hi e"
  by (auto simp: paint_def cuts_def overlaps_def)

lemma tail_from_self [simp]: "tail_from (guest_first e) e = e"
  by (simp add: tail_from_def)

lemma protect_one_paint:
  assumes "i < length (entries l)" "e = entries l ! i" "lo < hi"
    "length (entries l) + cuts lo hi e \<le> capacity l"
  shows "protect_one lo hi prot i (l, m) =
    (l\<lparr>entries := (entries l)[i := hd (paint lo hi prot e)] @ tl (paint lo hi prot e)\<rparr>,
     (backing_get (backing e) ^^ cuts lo hi e) m)"
  using assms
  by (auto simp: protect_one_def Let_def paint_def cuts_def append_entry_def overlaps_def max_def min_def not_le
      split: if_splits)

definition recolor :: "u64 \<Rightarrow> u64 \<Rightarrow> u32 \<Rightarrow> u64 \<Rightarrow> nat \<times> u64 \<times> u32 \<times> u32 \<Rightarrow> nat \<times> u64 \<times> u32 \<times> u32" where
  "recolor lo hi prot a t =
    (case t of (p, off, pr, fl) \<Rightarrow> (p, off, if in_range lo hi a then prot else pr, fl))"

lemma maps_none [simp]: "\<not> maps {#} a t"
  by (simp add: maps_def)

lemma maps_paint:
  assumes "lo < hi" "guest_first e < guest_last e"
  shows "maps (mset (paint lo hi prot e)) a t \<longleftrightarrow> covers a e \<and> t = recolor lo hi prot a (translate e a)"
proof (cases "overlaps lo hi e")
  case False
  then have "covers a e \<Longrightarrow> \<not> in_range lo hi a"
    by (auto simp: overlaps_def covers_def in_range_def)
  with False show ?thesis
    by (auto simp: paint_def maps_add maps_def recolor_def translate_def)
next
  case True
  let ?mid = "(tail_from (max lo (guest_first e)) e)\<lparr>guest_last := min hi (guest_last e), protection := prot\<rparr>"
  have mid: "covers a ?mid \<longleftrightarrow> covers a e \<and> in_range lo hi a" "translate ?mid a = (case translate e a of (p, off, pr, fl) \<Rightarrow> (p, off, prot, fl))"
    by (auto simp: covers_def in_range_def translate_def tail_from_def)
  have hd: "covers a (e\<lparr>guest_last := lo\<rparr>) \<longleftrightarrow> covers a e \<and> a < lo" "covers a (tail_from hi e) \<longleftrightarrow> covers a e \<and> hi \<le> a"
    using True by (auto simp: covers_def in_range_def overlaps_def)
  have tr: "recolor lo hi prot a (translate e a) = (if in_range lo hi a then translate ?mid a else translate e a)"
    unfolding mid by (simp add: recolor_def translate_def)
  have "maps (mset (paint lo hi prot e)) a t \<longleftrightarrow>
      (guest_first e < lo \<and> covers a (e\<lparr>guest_last := lo\<rparr>) \<and> t = translate e a) \<or>
      (covers a ?mid \<and> t = translate ?mid a) \<or>
      (hi < guest_last e \<and> covers a (tail_from hi e) \<and> t = translate e a)"
    using True by (auto simp: paint_def maps_add)
  also have "\<dots> \<longleftrightarrow> covers a e \<and> t = (if in_range lo hi a then translate ?mid a else translate e a)"
    unfolding mid(1) hd by (auto simp: covers_def in_range_def)
  finally show ?thesis unfolding tr .
qed

lemma ok_paint:
  assumes "ok X (add_mset e R) m" "lo < hi"
  shows "ok X (mset (paint lo hi prot e) + R) ((backing_get (backing e) ^^ cuts lo hi e) m)"
    "kept X (add_mset e R) m (mset (paint lo hi prot e) + R) ((backing_get (backing e) ^^ cuts lo hi e) m)"
proof -
  let ?g = "backing_get (backing e)"
  let ?mid = "(tail_from (max lo (guest_first e)) e)\<lparr>guest_last := min hi (guest_last e), protection := prot\<rparr>"
  have ne: "guest_first e < guest_last e" using okD(2) [OF assms(1)] by (simp add: e_ok_def)
  have "ok X (mset (paint lo hi prot e) + R) ((?g ^^ cuts lo hi e) m) \<and>
    kept X (add_mset e R) m (mset (paint lo hi prot e) + R) ((?g ^^ cuts lo hi e) m)"
  proof (cases "overlaps lo hi e")
    case False
    then have "cuts lo hi e = 0" using assms(2) by (auto simp: cuts_def overlaps_def)
    with False assms show ?thesis by (simp add: paint_def)
  next
    case True
    then have b: "hi > guest_first e" "lo < guest_last e" by (auto simp: overlaps_def)
    have pm: "piece e ?mid" using b ne assms(2) by (auto simp: piece_def tail_from_def)
    consider (all) "lo \<le> guest_first e" "guest_last e \<le> hi" | (left) "lo \<le> guest_first e" "hi < guest_last e"
      | (right) "guest_first e < lo" "guest_last e \<le> hi" | (mid) "guest_first e < lo" "hi < guest_last e"
      by fastforce
    then show ?thesis
    proof cases
      case all
      then have "paint lo hi prot e = [?mid]" "cuts lo hi e = 0" using True by (auto simp: paint_def cuts_def)
      with ok_replace [OF assms(1) pm] show ?thesis by simp
    next
      case left
      have pt: "piece e (tail_from hi e)" using b left by (intro piece_tail) auto
      have "\<not> (covers a ?mid \<and> covers a (tail_from hi e))" for a
        by (auto simp: covers_def in_range_def)
      note sp = ok_split [OF assms(1) pm pt this]
      from left have "paint lo hi prot e = [?mid, tail_from hi e]" "cuts lo hi e = 1"
        using True b by (auto simp: paint_def cuts_def)
      with sp show ?thesis by (simp add: add_mset_commute)
    next
      case right
      have pt: "piece e (e\<lparr>guest_last := lo\<rparr>)" using b right by (intro piece_head) auto
      have "\<not> (covers a (e\<lparr>guest_last := lo\<rparr>) \<and> covers a ?mid)" for a
        using right by (auto simp: covers_def in_range_def)
      note sp = ok_split [OF assms(1) pt pm this]
      from right have "paint lo hi prot e = [e\<lparr>guest_last := lo\<rparr>, ?mid]" "cuts lo hi e = 1"
        using True b by (auto simp: paint_def cuts_def)
      with sp show ?thesis by (simp add: add_mset_commute)
    next
      case mid
      let ?r = "tail_from lo e"
      have p1: "piece e (e\<lparr>guest_last := lo\<rparr>)" "piece e ?r" using b mid by (auto intro!: piece_head piece_tail)
      have d1: "\<not> (covers a (e\<lparr>guest_last := lo\<rparr>) \<and> covers a ?r)" for a
        using mid by (auto simp: covers_def in_range_def)
      note s1 = ok_split [OF assms(1) p1 d1]
      have p2: "piece ?r ?mid" using b mid assms(2) by (auto simp: piece_def tail_from_def)
      have p3: "piece ?r (tail_from hi e)" using b mid assms(2) by (auto simp: piece_def tail_from_def)
      have d2: "\<not> (covers a ?mid \<and> covers a (tail_from hi e))" for a
        by (auto simp: covers_def in_range_def)
      note s2 = ok_split [OF s1(1) p2 p3 d2]
      from mid have "paint lo hi prot e = [e\<lparr>guest_last := lo\<rparr>, ?mid, tail_from hi e]" "cuts lo hi e = Suc (Suc 0)"
        using True b assms(2) by (auto simp: paint_def cuts_def)
      with s2 kept_trans [OF s1(2)] show ?thesis by (simp add: add_mset_commute)
    qed
  qed
  then show "ok X (mset (paint lo hi prot e) + R) ((?g ^^ cuts lo hi e) m)"
    "kept X (add_mset e R) m (mset (paint lo hi prot e) + R) ((?g ^^ cuts lo hi e) m)" by auto
qed

lemma cuts_sum:
  assumes "disjoint (mset es)" "lo < hi"
  shows "(\<Sum>e\<leftarrow>es. cuts lo hi e) \<le> 2"
proof -
  have le: "(\<Sum>e\<leftarrow>es. cuts lo hi e) \<le> size (filter_mset (covers lo) (mset es)) + size (filter_mset (covers hi) (mset es))"
    by (induction es) (auto simp: cuts_def covers_def in_range_def)
  moreover have "size (filter_mset (covers lo) (mset es)) \<le> 1" "size (filter_mset (covers hi) (mset es)) \<le> 1"
    using assms(1) unfolding disjoint_def by blast+
  ultimately show ?thesis by linarith
qed

lemma protect_fold:
  assumes "ok X (mset (entries l)) m" "lo < hi" "n \<le> length (entries l)"
    "length (entries l) + (\<Sum>e\<leftarrow>entries l. cuts lo hi e) \<le> capacity l"
    "fold (protect_one lo hi prot) [0..<n] (l, m) = (l', m')"
  shows "\<exists>xs. l' = l\<lparr>entries := xs\<rparr> \<and> drop n (take (length (entries l)) xs) = drop n (entries l) \<and>
    length xs = length (entries l) + (\<Sum>e\<leftarrow>take n (entries l). cuts lo hi e) \<and>
    mset xs = (\<Sum>e\<leftarrow>take n (entries l). mset (paint lo hi prot e)) + mset (drop n (entries l)) \<and>
    ok X (mset xs) m' \<and> kept X (mset (entries l)) m (mset xs) m'"
  using assms(3,5)
proof (induction n arbitrary: l' m')
  case 0
  with assms show ?case by (intro exI [of _ "entries l"]) simp
next
  case (Suc n)
  obtain l1 m1 where s: "fold (protect_one lo hi prot) [0..<n] (l, m) = (l1, m1)" by (metis prod.exhaust)
  let ?es = "entries l" let ?e = "?es ! n"
  from Suc.prems have n: "n < length ?es" by simp
  from Suc.IH [OF _ s] n obtain xs where xs: "l1 = l\<lparr>entries := xs\<rparr>" "drop n (take (length ?es) xs) = drop n ?es"
    "length xs = length ?es + (\<Sum>e\<leftarrow>take n ?es. cuts lo hi e)"
    "mset xs = (\<Sum>e\<leftarrow>take n ?es. mset (paint lo hi prot e)) + mset (drop n ?es)"
    "ok X (mset xs) m1" "kept X (mset ?es) m (mset xs) m1" by auto
  have nx: "n < length xs" using n xs(3) by simp
  have e: "xs ! n = ?e"
    using arg_cong [OF xs(2), of "\<lambda>ys. ys ! 0"] n nx by simp
  have tk: "take (Suc n) ?es = take n ?es @ [?e]" and dr: "drop n ?es = ?e # drop (Suc n) ?es"
    using n by (simp_all add: take_Suc_conv_app_nth Cons_nth_drop_Suc)
  have "(\<Sum>e\<leftarrow>take (Suc n) ?es. cuts lo hi e) \<le> (\<Sum>e\<leftarrow>?es. cuts lo hi e)"
    by (metis append_take_drop_id map_append sum_list.append le_add1)
  then have room: "length xs + cuts lo hi ?e \<le> capacity l"
    using assms(4) xs(3) unfolding tk by simp
  let ?R = "mset (swap_remove n xs)"
  have ms: "mset xs = add_mset ?e ?R" using mset_swap_remove [OF nx] e by simp
  have up: "mset (xs[n := y]) = add_mset y ?R" for y using nx ms e by (intro mset_update_nth) simp_all
  let ?p = "paint lo hi prot ?e"
  let ?ys = "xs[n := hd ?p] @ tl ?p" let ?m = "(backing_get (backing ?e) ^^ cuts lo hi ?e) m1"
  have "protect_one lo hi prot n (l1, m1) = (l1\<lparr>entries := ?ys\<rparr>, ?m)"
    using protect_one_paint [of n l1 ?e lo hi prot m1] nx e assms(2) room xs(1) by simp
  with Suc.prems(2) s have l': "l' = l\<lparr>entries := ?ys\<rparr>" and m': "m' = ?m" using xs(1) by simp_all
  have ys: "mset ?ys = mset ?p + ?R"
    using up [of "hd ?p"] by (cases ?p) simp_all
  have "ok X (mset ?ys) m'" "kept X (mset xs) m1 (mset ?ys) m'"
    using ok_paint [of X ?e ?R m1 lo hi prot] xs(5) assms(2) unfolding ms ys m' by simp_all
  moreover have "mset ?ys = (\<Sum>e\<leftarrow>take (Suc n) ?es. mset (paint lo hi prot e)) + mset (drop (Suc n) ?es)"
    using xs(4) ms unfolding ys tk dr by simp
  moreover have "drop (Suc n) (take (length ?es) ?ys) = drop (Suc n) ?es"
    using arg_cong [OF xs(2), of "drop 1"] n xs(3) by (simp add: take_update_swap)
  moreover have "length ?ys = length ?es + (\<Sum>e\<leftarrow>take (Suc n) ?es. cuts lo hi e)"
    unfolding tk using xs(3) length_paint [OF assms(2), of prot ?e] by simp
  ultimately show ?case using l' xs(6) kept_trans by blast
qed

lemma maps_sum_list:
  "maps (\<Sum>e\<leftarrow>es. f e) a t \<longleftrightarrow> (\<exists>e \<in> set es. maps (f e) a t)"
  by (induction es) (auto simp: maps_union)

lemma maps_mset: "maps (mset es) a t \<longleftrightarrow> (\<exists>e \<in> set es. covers a e \<and> t = translate e a)"
  by (auto simp: maps_def)

lemma snapshot_allocateD: "snapshot_allocate h n = Some c \<Longrightarrow> c = n"
  by (auto simp: snapshot_allocate_def split: if_splits)

lemma sees_kept:
  assumes "kept X M m M' m'"
  shows "sees M' m' a x = sees M' m a x"
  unfolding sees_def using describe_kept [OF assms] by metis

lemma vma_protect_ok:
  assumes "ledger_ok X l m" "vma_protect h gfirst len prot (l, m) = (r, l', m')"
  shows "op_ok X l m r l' m'"
    "r = None \<Longrightarrow> sees (mset (entries l')) m' a (i, p, f) \<longleftrightarrow>
        (\<exists>p0. sees (mset (entries l)) m a (i, p0, f) \<and> p = (if in_range gfirst (gfirst + len) a then prot else p0))"
    "r = None \<Longrightarrow> kept X (mset (entries l)) m (mset (entries l')) m'"
proof -
  have "op_ok X l m r l' m' \<and> (r = None \<longrightarrow> (\<forall>a i p f. sees (mset (entries l')) m' a (i, p, f) \<longleftrightarrow>
        (\<exists>p0. sees (mset (entries l)) m a (i, p0, f) \<and> p = (if in_range gfirst (gfirst + len) a then prot else p0))) \<and>
      kept X (mset (entries l)) m (mset (entries l')) m')"
  proof (cases "len = 0 \<or> gfirst > - 1 - len \<or> grow h l (length (entries l) + 2) = None")
    case True
    with assms show ?thesis by (auto simp: vma_protect_def op_ok_refl split: if_splits)
  next
    case False
    then obtain l1 where w: "\<not> gfirst > - 1 - len" and z: "len \<noteq> 0"
      and g: "grow h l (length (entries l) + 2) = Some l1" by auto
    note gk = grow_ok [OF g]
    show ?thesis
    proof (cases "snapshot_allocate h (length (entries l) + 2)")
      case None
      with assms w z g op_ok_refused [OF assms(1) g, of V_ENOMEM] show ?thesis by (auto simp: vma_protect_def)
    next
      case (Some cap)
      let ?hi = "gfirst + len" let ?es = "entries l"
      have lt: "gfirst < ?hi" using no_wrap(1) [OF w] z by (simp add: word_less_nat_alt unat_gt_0)
      have l1: "ledger_ok X l1 m" using gk assms(1) by simp
      obtain l2 m2 where f: "protect_entries gfirst ?hi prot (l1, m) = (l2, m2)" by (metis prod.exhaust)
      have two: "(\<Sum>e\<leftarrow>?es. cuts gfirst ?hi e) \<le> 2"
        using okD(3) [OF ledger_okD(1) [OF assms(1)]] lt by (rule cuts_sum)
      from protect_fold [OF ledger_okD(1) [OF l1] lt order_refl, of prot l2 m2] f two gk
      obtain xs where xs: "l2 = l1\<lparr>entries := xs\<rparr>"
        "length xs = length ?es + (\<Sum>e\<leftarrow>?es. cuts gfirst ?hi e)"
        "mset xs = (\<Sum>e\<leftarrow>?es. mset (paint gfirst ?hi prot e))"
        "ok (X + held l) (mset xs) m2" "kept (X + held l) (mset ?es) m (mset xs) m2"
        by (auto simp: protect_entries_def)
      from assms(2) w z g Some f have p: "publish_locked cap l2 m2 = (l', m')" and r: "r = None"
        by (auto simp: vma_protect_def)
      have h2: "held l2 = held l" using gk by (simp add: xs(1) held_def)
      have "ok (X + held l2) (mset (entries l2)) m2" "room l2" "even (unat (generation l2))"
        "length (entries l2) \<le> cap"
        using xs(4) two xs(2) gk ledger_okD(3) [OF assms(1)] snapshot_allocateD [OF Some] unfolding h2
        by (auto simp: xs(1) room_def)
      note pk = publish_ok [OF this p]
      have k: "kept (X + held l) (mset ?es) m (mset (entries l')) m'"
        using xs(5) pk(3,5) unfolding h2 by (auto simp: xs(1) intro: kept_trans)
      have mp: "maps (mset (entries l')) a t \<longleftrightarrow> (\<exists>t0. maps (mset ?es) a t0 \<and> t = recolor gfirst ?hi prot a t0)" for a t
      proof -
        have "\<forall>e \<in> set ?es. guest_first e < guest_last e"
          using okD(2) [OF ledger_okD(1) [OF assms(1)]] by (simp add: e_ok_def)
        then have "maps (mset xs) a t \<longleftrightarrow> (\<exists>e \<in> set ?es. covers a e \<and> t = recolor gfirst ?hi prot a (translate e a))"
          unfolding xs(3) maps_sum_list using maps_paint [OF lt] by blast
        moreover have "mset (entries l') = mset xs" using pk(3) by (simp add: xs(1))
        ultimately show ?thesis by (simp only: maps_mset) blast
      qed
      have ds: "describe m (recolor gfirst ?hi prot a t) = Some (i, p, f) \<longleftrightarrow>
          (\<exists>p0. describe m t = Some (i, p0, f) \<and> p = (if in_range gfirst ?hi a then prot else p0))" for a t i p f
        by (auto simp: describe_def recolor_def split: prod.splits)
      have sk: "sees (mset (entries l')) m' a x \<longleftrightarrow> sees (mset (entries l')) m a x" for a x
        by (rule sees_kept [OF k])
      have "sees (mset (entries l')) m' a (i, p, f) \<longleftrightarrow>
          (\<exists>p0. sees (mset ?es) m a (i, p0, f) \<and> p = (if in_range gfirst ?hi a then prot else p0))" for a i p f
        unfolding sk unfolding sees_def mp using ds by blast
      with r pk k gk show ?thesis by (auto simp: op_ok_def kept_def xs(1))
    qed
  qed
  then show "op_ok X l m r l' m'"
    "r = None \<Longrightarrow> sees (mset (entries l')) m' a (i, p, f) \<longleftrightarrow>
        (\<exists>p0. sees (mset (entries l)) m a (i, p0, f) \<and> p = (if in_range gfirst (gfirst + len) a then prot else p0))"
    "r = None \<Longrightarrow> kept X (mset (entries l)) m (mset (entries l')) m'"
    by blast+
qed

section \<open>Installing an entry\<close>

lemma ledger_drop:
  assumes "ledger_ok (add_mset p X) l m"
  shows "ledger_ok X l (backing_put p m)" "published l m \<Longrightarrow> published l (backing_put p m)"
    "kept X (mset (entries l)) m (mset (entries l)) (backing_put p m)"
proof -
  let ?R = "X + held l + image_mset backing (mset (entries l))"
  from ledger_okD [OF assms] have o: "ok (add_mset p X + held l) (mset (entries l)) m" by simp
  have c: "counted (add_mset p ?R) m" using okD(1) [OF o] by simp
  note b = backings.put_counted [OF c] backings.put_content [OF c]
  have "e_ok (backing_put p m) e" if "e \<in> set (entries l)" for e
    using okD(2) [OF o, of e] that b(2) [of "backing e"] by (auto intro: e_ok_attrs)
  with b okD(3) [OF o] assms show "ledger_ok X l (backing_put p m)" by (simp add: ledger_ok_def ok_def)
  show "kept X (mset (entries l)) m (mset (entries l)) (backing_put p m)"
    using b(2) by (auto simp: kept_def)
  have vw: "map (view_of (backing_put p m)) (entries l) = map (view_of m) (entries l)"
    using b(2) by (auto intro!: view_of_attrs)
  show "published l m \<Longrightarrow> published l (backing_put p m)"
    by (simp only: published_def vw)
qed

definition fits :: "nat \<Rightarrow> vma_ledger \<Rightarrow> vma_entry \<Rightarrow> bool" where
  "fits cap l e \<longleftrightarrow>
    (let n = length (entries l) + length (filter (strict (guest_first e) (guest_last e)) (entries l)) + 1
     in n \<le> capacity l \<and> n \<le> cap)"

lemma install_entry_ok:
  assumes l: "ledger_ok (add_mset (backing e) X) l m" and e: "e_ok m e" and f: "fits cap l e"
    and i: "install_entry h cap e (l, m) = (l', m')"
  shows "ledger_ok X l' m'" "published l' m'" "generation l' = generation l + 2"
    "\<forall>q. q \<in># X \<longrightarrow> attrs m' q = attrs m q"
    "\<And>a x. sees (mset (entries l')) m' a x \<longleftrightarrow>
       (if covers a e then describe m (translate e a) = Some x else sees (mset (entries l)) m a x)"
    "\<forall>q \<in> backing ` set (entries l'). attrs m' q = attrs m q \<and> (q = backing e \<or> q \<in> backing ` set (entries l))"
proof -
  let ?lo = "guest_first e" let ?hi = "guest_last e" let ?p = "backing e"
  let ?X = "add_mset ?p X + held l"
  from e have le: "?lo \<le> ?hi" by (simp add: e_ok_def order_less_imp_le)
  obtain r l2 m2 where u: "unmap_locked h ?lo ?hi (l, m) = (r, l2, m2)" by (metis prod_cases3)
  have ur: "unmap_result ?X ?lo ?hi (l, m) r l2 m2"
    using u ledger_okD [OF l] le by (intro unmap_from_ok [of h ?lo ?hi 0 l m]) (simp_all add: unmap_locked_def)
  with f have r: "r" and room: "length (entries l2) + 1 \<le> capacity l2" "length (entries l2) + 1 \<le> cap"
    by (auto simp: unmap_result_def fits_def Let_def)
  from ur r have o2: "ok ?X (mset (entries l2)) m2" and k2: "kept ?X (mset (entries l)) m (mset (entries l2)) m2"
    and c2: "cleared ?lo ?hi (mset (entries l)) (mset (entries l2))" and fr: "frame l l2"
    and no: "\<forall>e \<in> set (entries l2). \<not> overlaps ?lo ?hi e" by (auto simp: unmap_result_def)
  from frame_held [OF fr] have h2: "held l2 = held l" .
  let ?m = "backing_get ?p m2"
  let ?l = "l2\<lparr>entries := entries l2 @ [e]\<rparr>"
  have ap: "append_entry e (l2, ?m) = (?l, ?m)" using room by (simp add: append_entry_def)
  obtain l3 m3 where p: "publish_locked cap ?l ?m = (l3, m3)" by (metis prod.exhaust)
  from i u ap p have res: "l' = l3" "m' = backing_put ?p m3" by (auto simp: install_entry_def)
  have pin: "?p \<in># ?X + image_mset backing (mset (entries l2))" by simp
  note g = backings.get_counted [OF okD(1) [OF o2] pin] backings.get_content [OF okD(1) [OF o2] pin]
  have nc: "\<not> covers a e'" if "covers a e" "e' \<in> set (entries l2)" for a e'
    using no that by (auto simp: overlaps_def covers_def in_range_def)
  then have dis: "disjoint (mset (entries ?l))"
    using okD(3) [OF o2] unfolding disjoint_def by (auto simp: filter_mset_eq_mempty_iff)
  have eo: "e_ok ?m x" if "x \<in> set (entries ?l)" for x
  proof -
    have "attrs ?m ?p = attrs m ?p" using g(2) k2 by (simp add: kept_def)
    with e have "e_ok ?m e" by (auto intro: e_ok_attrs)
    moreover have "e_ok ?m x" if "x \<in> set (entries l2)"
      using okD(2) [OF o2, of x] that g(2) by (auto intro: e_ok_attrs)
    ultimately show ?thesis using that by auto
  qed
  have hl: "held ?l = held l" using h2 by (simp add: held_def)
  have "ok (add_mset ?p X + held ?l) (mset (entries ?l)) ?m" unfolding hl
    using g(1) dis eo by (simp add: ok_def)
  moreover have "room ?l" "even (unat (generation ?l))" "length (entries ?l) \<le> cap"
    using room fr ledger_okD(3) [OF l] by (auto simp: room_def frame_def)
  ultimately have pk: "ledger_ok (add_mset ?p X) l3 m3" "published l3 m3" "entries l3 = entries ?l"
      "kept (add_mset ?p X + held ?l) (mset (entries ?l)) ?m (mset (entries l3)) m3" "generation l3 = generation ?l + 2"
    using publish_ok [OF _ _ _ _ p, of "add_mset ?p X"] by blast+
  note d = ledger_drop [OF pk(1)]
  show "ledger_ok X l' m'" "published l' m'" "generation l' = generation l + 2"
    unfolding res using d pk fr by (auto simp: frame_def)
  have at: "attrs m' q = attrs m q" if "q \<in># X \<or> q \<in> backing ` set (entries l')" for q
  proof -
    from that have "attrs m' q = attrs m3 q" using d(3) by (auto simp: kept_def res)
    also have "attrs m3 q = attrs ?m q" using pk(3,4) that by (auto simp: kept_def res)
    also have "attrs ?m q = attrs m2 q" by (rule g(2))
    also have "attrs m2 q = attrs m q" using k2 pk(3) that by (auto simp: kept_def res)
    finally show ?thesis .
  qed
  then show "\<forall>q. q \<in># X \<longrightarrow> attrs m' q = attrs m q"
    "\<forall>q \<in> backing ` set (entries l'). attrs m' q = attrs m q \<and> (q = backing e \<or> q \<in> backing ` set (entries l))"
    using k2 by (auto simp: res pk(3) kept_def)
  have dk: "describe m' t = describe m t" if "maps (mset (entries l')) a t" for a t
    using that at by (auto simp: maps_def translate_def describe_def split: prod.splits)
  have nm: "\<not> maps (mset (entries l2)) a t" if "covers a e" for a t
    using nc that by (auto simp: maps_def)
  have mp: "maps (mset (entries l')) a t \<longleftrightarrow> (if covers a e then t = translate e a else maps (mset (entries l)) a t)" for a t
  proof -
    have "\<not> covers a e \<Longrightarrow> maps (mset (entries l2)) a t \<longleftrightarrow> maps (mset (entries l)) a t"
      using c2 unfolding cleared_def covers_def by blast
    with nm [of a t] show ?thesis by (auto simp: res pk(3) maps_add)
  qed
  show "sees (mset (entries l')) m' a x \<longleftrightarrow>
       (if covers a e then describe m (translate e a) = Some x else sees (mset (entries l)) m a x)" for a x
    unfolding sees_def using dk mp by (metis (full_types))
qed

end
