(* ===== verification/Vma_Shared.thy ===== *)
theory Vma_Shared
  imports Vma_Ledger
begin

text \<open>
  Direct and shared mappings.  Coalescing stops at a range that absorbs every backing of the file it
  touches (\<open>coalesce_closed\<close>); the aliases of the absorbed backings move to the new canonical one
  without changing what any address stands for (\<open>rebind_ledger_ok\<close>), so that backings of one file
  never touch (\<open>canonical\<close>).
\<close>

section \<open>Mapping host memory directly\<close>

lemma fresh_backing:
  assumes "ledger_ok X l m" "heap m p = None" "references b = 1"
  shows "ledger_ok (add_mset p X) l (m\<lparr>heap := (heap m)(p \<mapsto> b)\<rparr>)"
    "q \<noteq> p \<Longrightarrow> attrs (m\<lparr>heap := (heap m)(p \<mapsto> b)\<rparr>) q = attrs m q"
    "p \<notin># X" "p \<notin> backing ` set (entries l)"
proof -
  let ?m = "m\<lparr>heap := (heap m)(p \<mapsto> b)\<rparr>"
  let ?R = "X + held l + image_mset backing (mset (entries l))"
  from ledger_okD [OF assms(1)] have o: "ok (X + held l) (mset (entries l)) m" by simp
  from okD(1) [OF o] have c: "rc_ok ?R m" "\<not> fault m" by (simp_all add: counted_def)
  from rc_ok_None [OF c(1) assms(2)] have z: "count ?R p = 0" .
  then show "p \<notin># X" and pe: "p \<notin> backing ` set (entries l)" by (auto simp: count_eq_zero_iff)
  show at: "q \<noteq> p \<Longrightarrow> attrs ?m q = attrs m q" for q by (simp add: attrs_def)
  have "rc_ok (add_mset p ?R) ?m"
    using rc_ok_None [OF c(1)] rc_ok_Some [OF c(1)] z assms(3) by (intro rc_okI) (auto split: if_splits)
  moreover have "e_ok ?m e" if "e \<in> set (entries l)" for e
    using okD(2) [OF o, of e] at [of "backing e"] that pe by (auto intro: e_ok_attrs)
  ultimately show "ledger_ok (add_mset p X) l ?m"
    using assms(1) okD(3) [OF o] c(2) by (simp add: ledger_ok_def ok_def counted_def)
qed

text \<open>What the host promises: a new backing is a fresh cell.\<close>

definition host_ok :: "vma_host \<Rightarrow> vma_mem \<Rightarrow> bool" where
  "host_ok h m \<longleftrightarrow> (\<forall>p. new_backing h = Some p \<longrightarrow> heap m p = None) \<and> (\<forall>fd. fstat_of h fd \<noteq> Some (0, 0))"

lemma map_direct_ok:
  assumes "ledger_ok X l m" "host_ok h m" "map_direct h gfirst len prot hfirst (l, m) = (r, l', m')"
    and strict: "filter (strict gfirst (gfirst + len)) (entries l) = []"
  shows "op_ok X l m r l' m'"
    "r = None \<Longrightarrow> sees (mset (entries l')) m' a x \<longleftrightarrow>
       (if in_range gfirst (gfirst + len) a then x = (Host (hfirst + (a - gfirst)), prot, VMA_DIRECT)
        else sees (mset (entries l)) m a x)"
    "r = None \<Longrightarrow> q \<in> backing ` set (entries l') \<Longrightarrow>
       q \<in> backing ` set (entries l) \<and> attrs m' q = attrs m q \<or>
       q \<notin> backing ` set (entries l) \<and> new_backing h = Some q \<and>
         (\<exists>b. attrs m' q = Some b \<and> borrowed b \<and> device b = 0 \<and> inode b = 0)"
proof -
  have "op_ok X l m r l' m' \<and> (r = None \<longrightarrow> (\<forall>a x. sees (mset (entries l')) m' a x \<longleftrightarrow>
       (if in_range gfirst (gfirst + len) a then x = (Host (hfirst + (a - gfirst)), prot, VMA_DIRECT)
        else sees (mset (entries l)) m a x)) \<and>
      (\<forall>q \<in> backing ` set (entries l'). q \<in> backing ` set (entries l) \<and> attrs m' q = attrs m q \<or>
       q \<notin> backing ` set (entries l) \<and> new_backing h = Some q \<and>
         (\<exists>b. attrs m' q = Some b \<and> borrowed b \<and> device b = 0 \<and> inode b = 0)))"
  proof (cases "len = 0 \<or> gfirst > - 1 - len \<or> len > - 1 - hfirst \<or> grow h l (length (entries l) + 1) = None")
    case True
    with assms show ?thesis by (auto simp: map_direct_def op_ok_refl split: if_splits)
  next
    case False
    then obtain l1 where w: "\<not> gfirst > - 1 - len" "\<not> len > - 1 - hfirst" and z: "len \<noteq> 0"
      and g: "grow h l (length (entries l) + 1) = Some l1" by auto
    note gk = grow_ok [OF g]
    show ?thesis
    proof (cases "snapshot_allocate h (length (entries l) + 1) = None \<or> new_backing h = None")
      case True
      with assms w z g op_ok_refused [OF assms(1) g, of V_ENOMEM] show ?thesis
        by (auto simp: map_direct_def split: option.splits)
    next
      case False
      then obtain cap p where cp: "snapshot_allocate h (length (entries l) + 1) = Some cap" "new_backing h = Some p"
        by auto
      define b where "b = \<lparr>mapping = hfirst, blen = len, references = 1, device = 0, inode = 0, file_offset = 0,
                 retained = - 1, writable = False, borrowed = True\<rparr>"
      define m1 where "m1 = m\<lparr>heap := (heap m)(p \<mapsto> b)\<rparr>"
      let ?e = "\<lparr>guest_first = gfirst, guest_last = gfirst + len, backing_offset = 0,
                 protection = prot, flags = VMA_DIRECT, backing = p\<rparr>"
      from cp assms(2) have pn: "heap m p = None" by (simp add: host_ok_def)
      have "references b = 1" by (simp add: b_def)
      note fb = fresh_backing [OF assms(1) pn this, folded m1_def]
      have l1: "ledger_ok (add_mset (backing ?e) X) l1 m1" using fb(1) gk(8) by simp
      have am: "attrs m1 p = Some (b\<lparr>references := 0\<rparr>)" by (simp add: m1_def attrs_def)
      have "gfirst < gfirst + len" using no_wrap(1) [OF w(1)] z by (simp add: word_less_nat_alt unat_gt_0)
      then have e: "e_ok m1 ?e" using unat_u64_less [of len] am by (simp add: e_ok_def b_def)
      have f: "fits cap l1 ?e" using strict gk(1,7) snapshot_allocateD [OF cp(1)] by (simp add: fits_def)
      have i: "install_entry h cap ?e (l1, m1) = (l', m')" and r: "r = None"
        using assms(3) w z g cp by (auto simp: map_direct_def m1_def b_def)
      note io = install_entry_ok [OF l1 e f i]
      have "attrs m1 q = attrs m q" if "q \<in># X" for q using fb(2,3) that by metis
      with io(1-4) gk(5) r have op: "op_ok X l m r l' m'" by (simp add: op_ok_def)
      have s: "sees (mset (entries l1)) m1 a x \<longleftrightarrow> sees (mset (entries l)) m a x" for a x
        unfolding gk(1)
      proof (rule sees_kept)
        show "kept {#} (mset (entries l)) m (mset (entries l)) m1"
          using fb(2,4) by (auto simp: kept_def image_iff)
      qed
      have "describe m1 (translate ?e a) = Some x \<longleftrightarrow> x = (Host (hfirst + (a - gfirst)), prot, VMA_DIRECT)" for a x
        by (auto simp: describe_def translate_def am b_def ident_def)
      moreover have "\<forall>q \<in> backing ` set (entries l'). q \<in> backing ` set (entries l) \<and> attrs m' q = attrs m q \<or>
       q \<notin> backing ` set (entries l) \<and> new_backing h = Some q \<and>
         (\<exists>b. attrs m' q = Some b \<and> borrowed b \<and> device b = 0 \<and> inode b = 0)"
      proof
        fix q assume "q \<in> backing ` set (entries l')"
        with io(6) have q: "attrs m' q = attrs m1 q" "q = p \<or> q \<in> backing ` set (entries l)" using gk(1) by auto
        show "q \<in> backing ` set (entries l) \<and> attrs m' q = attrs m q \<or>
            q \<notin> backing ` set (entries l) \<and> new_backing h = Some q \<and>
            (\<exists>b. attrs m' q = Some b \<and> borrowed b \<and> device b = 0 \<and> inode b = 0)"
        proof (cases "q = p")
          case True
          with q(1) am fb(4) cp(2) show ?thesis by (simp add: b_def)
        next
          case False
          with q fb(2) show ?thesis by simp
        qed
      qed
      ultimately show ?thesis using op io(5) s by (simp add: covers_def)
    qed
  qed
  then show "op_ok X l m r l' m'"
    "r = None \<Longrightarrow> sees (mset (entries l')) m' a x \<longleftrightarrow>
       (if in_range gfirst (gfirst + len) a then x = (Host (hfirst + (a - gfirst)), prot, VMA_DIRECT)
        else sees (mset (entries l)) m a x)"
    "r = None \<Longrightarrow> q \<in> backing ` set (entries l') \<Longrightarrow>
       q \<in> backing ` set (entries l) \<and> attrs m' q = attrs m q \<or>
       q \<notin> backing ` set (entries l) \<and> new_backing h = Some q \<and>
         (\<exists>b. attrs m' q = Some b \<and> borrowed b \<and> device b = 0 \<and> inode b = 0)" by blast+
qed

section \<open>Coalescing\<close>

text \<open>A backing of the same file that touches the range lies in it.\<close>

definition absorbed :: "u64 \<Rightarrow> u64 \<Rightarrow> vma_backing \<Rightarrow> coalesced \<Rightarrow> bool" where
  "absorbed dev ino b c \<longleftrightarrow> (device b = dev \<and> inode b = ino \<and> touches (canon_first c) (canon_last c) b \<longrightarrow>
     canon_first c \<le> file_offset b \<and> file_offset b + blen b \<le> canon_last c)"

lemma coalesce_one_still:
  assumes "\<not> expanded (coalesce_one rw dev ino b c)"
  shows "\<not> expanded c \<and> canon_first (coalesce_one rw dev ino b c) = canon_first c \<and>
    canon_last (coalesce_one rw dev ino b c) = canon_last c \<and> absorbed dev ino b c"
  using assms by (auto simp: coalesce_one_def absorbed_def Let_def split: if_splits)

lemma coalesce_one_grows:
  "canon_first (coalesce_one rw dev ino b c) \<le> canon_first c \<and> canon_last c \<le> canon_last (coalesce_one rw dev ino b c)"
  by (auto simp: coalesce_one_def Let_def)

lemma coalesce_fold_still:
  assumes "\<not> expanded (fold (coalesce_one rw dev ino) bs c)"
  shows "\<not> expanded c \<and> canon_first (fold (coalesce_one rw dev ino) bs c) = canon_first c \<and>
    canon_last (fold (coalesce_one rw dev ino) bs c) = canon_last c \<and> (\<forall>b \<in> set bs. absorbed dev ino b c)"
  using assms
proof (induction bs arbitrary: c)
  case (Cons b bs)
  let ?c = "coalesce_one rw dev ino b c"
  from Cons have s: "\<not> expanded ?c" "canon_first (fold (coalesce_one rw dev ino) bs ?c) = canon_first ?c"
    "canon_last (fold (coalesce_one rw dev ino) bs ?c) = canon_last ?c" "\<forall>b \<in> set bs. absorbed dev ino b ?c" by auto
  from coalesce_one_still [OF s(1)] s show ?case by (auto simp: absorbed_def)
qed simp

lemma coalesce_fold_grows:
  "canon_first (fold (coalesce_one rw dev ino) bs c) \<le> canon_first c \<and>
   canon_last c \<le> canon_last (fold (coalesce_one rw dev ino) bs c)"
proof (induction bs arbitrary: c)
  case (Cons b bs)
  from Cons [of "coalesce_one rw dev ino b c"] coalesce_one_grows [of rw dev ino b c]
  show ?case by (auto intro: order_trans)
qed simp

lemma coalesce_closed:
  "canon_first (coalesce rw dev ino bs c) \<le> canon_first c \<and> canon_last c \<le> canon_last (coalesce rw dev ino bs c) \<and>
   (\<forall>b \<in> set bs. absorbed dev ino b (coalesce rw dev ino bs c))"
proof (induction rw dev ino bs c rule: coalesce.induct)
  case (1 rw dev ino bs c)
  let ?c = "coalesce_pass rw dev ino bs c"
  have g: "canon_first ?c \<le> canon_first c \<and> canon_last c \<le> canon_last ?c"
    using coalesce_fold_grows [of rw dev ino bs "c\<lparr>expanded := False\<rparr>"] by (simp add: coalesce_pass_def)
  show ?case
  proof (cases "expanded ?c")
    case True
    with "1.IH" [OF refl True] g show ?thesis by (auto simp: coalesce.simps [of rw dev ino bs c] Let_def)
  next
    case False
    from coalesce_fold_still [of rw dev ino bs "c\<lparr>expanded := False\<rparr>"] False
    have "\<forall>b \<in> set bs. absorbed dev ino b ?c" by (auto simp: coalesce_pass_def absorbed_def)
    with False g show ?thesis by (simp add: coalesce.simps [of rw dev ino bs c] Let_def)
  qed
qed

lemma round_up_ge:
  assumes "\<not> x > - 1 - (k :: u64)"
  shows "x \<le> (x + k) AND NOT k"
proof -
  have "(x + k) AND k \<le> k" by (rule word_and_le1)
  then have le: "unat ((x + k) AND k) \<le> unat k" by (simp add: word_le_nat_alt)
  have "((x + k) AND k) AND ((x + k) AND NOT k) = 0" "((x + k) AND k) OR ((x + k) AND NOT k) = x + k"
    by (rule bit_word_eqI, auto simp: bit_simps)+
  then have "((x + k) AND k) + ((x + k) AND NOT k) = x + k"
    using word_plus_and_or [of "(x + k) AND k" "(x + k) AND NOT k"] by simp
  then have e: "(x + k) AND NOT k = (x + k) - ((x + k) AND k)" by (simp add: algebra_simps eq_diff_eq)
  have "(x + k) AND k \<le> x + k" by (rule word_and_le2)
  then have "unat ((x + k) AND NOT k) = unat (x + k) - unat ((x + k) AND k)"
    unfolding e by (simp add: unat_sub word_le_nat_alt)
  with le no_wrap(1) [OF assms] show ?thesis by (simp add: word_le_nat_alt)
qed

section \<open>Rebinding the entries of an absorbed backing\<close>

definition absorbs :: "u64 \<Rightarrow> u64 \<Rightarrow> u64 \<Rightarrow> u64 \<Rightarrow> vma_backing \<Rightarrow> bool" where
  "absorbs dev ino cf cl b \<longleftrightarrow> device b = dev \<and> inode b = ino \<and> touches cf cl b"

definition rebound :: "(nat \<Rightarrow> vma_backing option) \<Rightarrow> u64 \<Rightarrow> u64 \<Rightarrow> u64 \<Rightarrow> u64 \<Rightarrow> nat \<Rightarrow> vma_entry \<Rightarrow> vma_entry" where
  "rebound A dev ino cf cl p e =
    (case A (backing e) of
       None \<Rightarrow> e
     | Some b \<Rightarrow> if absorbs dev ino cf cl b
         then e\<lparr>backing := p, backing_offset := file_offset b + backing_offset e - cf\<rparr> else e)"

lemma absorbs_references [simp]: "absorbs dev ino cf cl (b\<lparr>references := n\<rparr>) = absorbs dev ino cf cl b"
  by (simp add: absorbs_def touches_def)

lemma covers_rebound [simp]: "covers a (rebound A dev ino cf cl p e) = covers a e"
  by (auto simp: rebound_def covers_def split: option.splits)

lemma rebind_step:
  assumes "counted (add_mset p (add_mset (backing e) R)) m"
  shows "rebind_one dev ino cf cl p e m =
      (rebound (attrs m) dev ino cf cl p e,
       if rebound (attrs m) dev ino cf cl p e = e then snd (rebind_one dev ino cf cl p e m)
       else backing_put (backing e) (backing_get p m))"
    "counted (add_mset p (add_mset (backing (rebound (attrs m) dev ino cf cl p e)) R)) (snd (rebind_one dev ino cf cl p e m))"
    "q \<in># add_mset p (add_mset (backing (rebound (attrs m) dev ino cf cl p e)) R) \<Longrightarrow>
      attrs (snd (rebind_one dev ino cf cl p e m)) q = attrs m q"
proof -
  from backings.live [OF assms, of "backing e"] obtain b where b: "heap m (backing e) = Some b"
    by (auto simp: attrs_def)
  have mv: "counted (add_mset p (add_mset p R)) (backing_put (backing e) (backing_get p m)) \<and>
    (x \<in># add_mset p (add_mset p R) \<longrightarrow> attrs (backing_put (backing e) (backing_get p m)) x = attrs m x)" for x
    using backings.get_put [of "backing e" "add_mset p R" m p x] assms by (simp add: add_mset_commute)
  show "rebind_one dev ino cf cl p e m =
      (rebound (attrs m) dev ino cf cl p e,
       if rebound (attrs m) dev ino cf cl p e = e then snd (rebind_one dev ino cf cl p e m)
       else backing_put (backing e) (backing_get p m))"
    using b by (auto simp: rebind_one_def rebound_def attrs_def absorbs_def touches_def)
  show "counted (add_mset p (add_mset (backing (rebound (attrs m) dev ino cf cl p e)) R)) (snd (rebind_one dev ino cf cl p e m))"
    using b mv assms by (auto simp: rebind_one_def rebound_def attrs_def absorbs_def touches_def)
  show "q \<in># add_mset p (add_mset (backing (rebound (attrs m) dev ino cf cl p e)) R) \<Longrightarrow>
      attrs (snd (rebind_one dev ino cf cl p e m)) q = attrs m q"
    using b mv [of q] by (auto simp: rebind_one_def rebound_def attrs_def absorbs_def touches_def split: if_splits)
qed

lemma rebound_cong: "A (backing e) = A' (backing e) \<Longrightarrow> rebound A dev ino cf cl p e = rebound A' dev ino cf cl p e"
  by (simp add: rebound_def)

lemma rebind_all:
  assumes "counted (add_mset p (R + image_mset backing (mset es))) m"
    "rebind dev ino cf cl p es m = (es', m')"
  shows "es' = map (rebound (attrs m) dev ino cf cl p) es \<and>
    counted (add_mset p (R + image_mset backing (mset es'))) m' \<and>
    (\<forall>q \<in># add_mset p (R + image_mset backing (mset es')). attrs m' q = attrs m q)"
  using assms
proof (induction es arbitrary: R m es' m')
  case (Cons e es)
  let ?r = "rebound (attrs m) dev ino cf cl p"
  obtain e1 m1 where o: "rebind_one dev ino cf cl p e m = (e1, m1)" by (metis prod.exhaust)
  obtain es2 m2 where s: "rebind dev ino cf cl p es m1 = (es2, m2)" by (metis prod.exhaust)
  from Cons.prems(2) o s have r: "es' = e1 # es2" "m' = m2" by simp_all
  have c: "counted (add_mset p (add_mset (backing e) (R + image_mset backing (mset es)))) m"
    using Cons.prems(1) by simp
  note st = rebind_step [OF c, where dev = dev and ino = ino and cf = cf and cl = cl]
  from st(1) o have e1: "e1 = ?r e" by simp
  have c1: "counted (add_mset p (add_mset (backing e1) R + image_mset backing (mset es))) m1"
    using st(2) o e1 by simp
  have a1: "attrs m1 q = attrs m q" if "q \<in># add_mset p (add_mset (backing e1) (R + image_mset backing (mset es)))" for q
    using st(3) [of q] o e1 that by simp
  from Cons.IH [OF c1 s] have ih: "es2 = map (rebound (attrs m1) dev ino cf cl p) es"
    "counted (add_mset p (add_mset (backing e1) R + image_mset backing (mset es2))) m2"
    "\<forall>q \<in># add_mset p (add_mset (backing e1) R + image_mset backing (mset es2)). attrs m2 q = attrs m1 q" by auto
  have es2: "es2 = map ?r es"
    unfolding ih(1) using a1 by (intro map_cong refl rebound_cong) auto
  have "attrs m2 q = attrs m q" if q: "q \<in># add_mset p (R + image_mset backing (mset (e1 # es2)))" for q
  proof -
    have "attrs m2 q = attrs m1 q" using ih(3) q by auto
    also have "\<dots> = attrs m q"
      using q by (intro a1) (auto simp: es2 rebound_def split: option.splits if_splits)
    finally show ?thesis .
  qed
  with ih(2) es2 e1 r show ?case by simp
qed simp

lemma sees_mset: "sees (mset es) m a x \<longleftrightarrow> (\<exists>e \<in> set es. covers a e \<and> describe m (translate e a) = Some x)"
  unfolding sees_def maps_mset by blast

text \<open>The files behind a set of backings are covered canonically: two backings of one file do not even
  touch, so that every byte of a file has one host address.\<close>

definition canonical :: "nat set \<Rightarrow> vma_mem \<Rightarrow> bool" where
  "canonical B m \<longleftrightarrow>
    (\<forall>p \<in> B. \<forall>b. attrs m p = Some b \<longrightarrow> borrowed b \<longrightarrow> device b = 0 \<and> inode b = 0) \<and>
    (\<forall>p \<in> B. \<forall>q \<in> B. \<forall>b c. attrs m p = Some b \<longrightarrow> attrs m q = Some c \<longrightarrow> \<not> borrowed b \<longrightarrow> \<not> borrowed c \<longrightarrow>
       device b = device c \<longrightarrow> inode b = inode c \<longrightarrow> p \<noteq> q \<longrightarrow>
       file_offset b + blen b < file_offset c \<or> file_offset c + blen c < file_offset b)"

lemma canonicalD:
  assumes "canonical B m" "p \<in> B" "q \<in> B" "attrs m p = Some b" "attrs m q = Some c" "\<not> borrowed b" "\<not> borrowed c"
    "device b = device c" "inode b = inode c" "p \<noteq> q"
  shows "file_offset b + blen b < file_offset c \<or> file_offset c + blen c < file_offset b"
  using assms unfolding canonical_def by blast

lemma canonical_mono:
  assumes "canonical B m" "B' \<subseteq> B" "\<And>q. q \<in> B' \<Longrightarrow> attrs m' q = attrs m q"
  shows "canonical B' m'"
proof -
  from assms(2,3) have "p \<in> B' \<Longrightarrow> p \<in> B \<and> attrs m' p = attrs m p" for p by auto
  with assms(1) show ?thesis unfolding canonical_def by metis
qed

lemma rebound_e_ok:
  assumes "e_ok m e" "attrs m (backing e) = Some b" "cf \<le> file_offset b" "file_offset b + blen b \<le> cl" "cf < cl"
    "attrs m2 p = Some b'" "blen b' = cl - cf" "file_offset b' = cf"
  shows "e_ok m2 (e\<lparr>backing := p, backing_offset := file_offset b + backing_offset e - cf\<rparr>)"
proof -
  from assms(1,2) have e: "guest_first e < guest_last e"
    "unat (backing_offset e) + unat (guest_last e - guest_first e) \<le> unat (blen b)"
    "unat (file_offset b) + unat (blen b) < 2 ^ 64" by (auto simp: e_ok_def)
  then have s: "unat (file_offset b + backing_offset e) = unat (file_offset b) + unat (backing_offset e)"
    "unat (file_offset b + blen b) = unat (file_offset b) + unat (blen b)"
    by (simp_all add: unat_word_ariths)
  have "unat (file_offset b + backing_offset e - cf) = unat (file_offset b) + unat (backing_offset e) - unat cf"
    using assms(3) s by (subst unat_sub) (simp_all add: word_le_nat_alt)
  moreover have "unat (cl - cf) = unat cl - unat cf"
    using assms(5) by (intro unat_sub) simp
  ultimately show ?thesis
    using e s assms(3-8) unat_u64_less [of cl] by (simp add: e_ok_def word_le_nat_alt word_less_nat_alt)
qed

lemma ledger_ok_unmapped [simp]:
  "ledger_ok X l (m\<lparr>unmapped := u\<rparr>) = ledger_ok X l m" "attrs (m\<lparr>unmapped := u\<rparr>) = attrs m"
  by (simp_all add: ledger_ok_def ok_def counted_def rc_ok_def e_ok_def attrs_def fun_eq_iff)

lemma check_live_ok:
  assumes "ledger_ok X l m"
  shows "check_live (map backing (entries l)) m = m"
proof -
  have "heap m (backing e) \<noteq> None" if "e \<in> set (entries l)" for e
    using okD(2) [OF ledger_okD(1) [OF assms], of e] that by (auto simp: e_ok_def attrs_def)
  then show ?thesis by (auto simp: check_live_def list_all_iff)
qed

lemma attrs_heap: "attrs m p = Some b \<longleftrightarrow> (\<exists>b'. heap m p = Some b' \<and> b = b'\<lparr>references := 0\<rparr>)"
  by (auto simp: attrs_def)

lemma absorbed_entry:
  assumes "e \<in> set (entries l)" "attrs m (backing e) = Some b" "absorbs dev ino (canon_first c) (canon_last c) b"
    "\<forall>b \<in> set (candidates l m). absorbed dev ino b c"
  shows "canon_first c \<le> file_offset b \<and> file_offset b + blen b \<le> canon_last c"
proof -
  from assms(2) obtain b' where b': "heap m (backing e) = Some b'" "b = b'\<lparr>references := 0\<rparr>"
    by (auto simp: attrs_heap)
  with assms(1) have "b' \<in> set (candidates l m)"
    by (auto simp: candidates_def List.map_filter_def intro!: image_eqI [of _ _ e])
  with assms(3,4) b' show ?thesis by (auto simp: absorbed_def absorbs_def touches_def)
qed

lemma disjoint_rebound: "disjoint (mset (map (rebound A dev ino cf cl p) es)) = disjoint (mset es)"
proof -
  have "size (filter_mset (covers a) (mset (map (rebound A dev ino cf cl p) es))) = size (filter_mset (covers a) (mset es))" for a
    by (induction es) auto
  then show ?thesis by (simp add: disjoint_def)
qed

lemma describe_rebound:
  assumes "attrs m (backing e) = Some b" "attrs m2 (backing (rebound (attrs m) dev ino cf cl p e)) =
      (if absorbs dev ino cf cl b then Some b' else Some b)"
    "borrowed b \<longrightarrow> device b = 0 \<and> inode b = 0" "(dev, ino) \<noteq> (0, 0)"
    "device b' = dev" "inode b' = ino" "file_offset b' = cf" "\<not> borrowed b'"
  shows "describe m2 (translate (rebound (attrs m) dev ino cf cl p e) a) = describe m (translate e a)"
  using assms by (auto simp: describe_def translate_def rebound_def ident_def absorbs_def split: if_splits)

text \<open>The state after every alias of the new extent has been moved to the canonical backing \<open>p\<close>.\<close>

lemma rebind_ledger_ok:
  assumes l: "ledger_ok X l m" and pn: "heap m p = None" and cn: "canonical (backing ` set (entries l)) m"
    and b: "references b = 1" "device b = dev" "inode b = ino" "\<not> borrowed b" "(dev, ino) \<noteq> (0, 0)"
      "file_offset b = canon_first c" "blen b = canon_last c - canon_first c" "canon_first c < canon_last c"
    and ab: "\<forall>b \<in> set (candidates l m). absorbed dev ino b c"
    and r: "rebind dev ino (canon_first c) (canon_last c) p (entries l) (m\<lparr>heap := (heap m)(p \<mapsto> b)\<rparr>) = (es, m2)"
  shows "ledger_ok (add_mset p X) (l\<lparr>entries := es\<rparr>) m2" "length es = length (entries l)"
    "attrs m2 p = Some (b\<lparr>references := 0\<rparr>)" "\<And>q. q \<in># X \<Longrightarrow> attrs m2 q = attrs m q"
    "canonical (insert p (backing ` set es)) m2"
    "\<And>a x. sees (mset es) m2 a x = sees (mset (entries l)) m a x"
proof -
  define m1 where "m1 = m\<lparr>heap := (heap m)(p \<mapsto> b)\<rparr>"
  let ?f = "rebound (attrs m1) dev ino (canon_first c) (canon_last c) p"
  let ?abs = "absorbs dev ino (canon_first c) (canon_last c)"
  note fb = fresh_backing [OF l pn b(1), folded m1_def]
  have o1: "ok (add_mset p X + held l) (mset (entries l)) m1" using ledger_okD(1) [OF fb(1)] .
  have cnt: "counted (add_mset p (X + held l + image_mset backing (mset (entries l)))) m1"
    using okD(1) [OF o1] by simp
  from rebind_all [OF cnt r [folded m1_def]] have es: "es = map ?f (entries l)"
    and c2: "counted (add_mset p (X + held l + image_mset backing (mset es))) m2"
    and a2: "\<And>q. q = p \<or> q \<in># X \<or> q \<in># held l \<or> q \<in> backing ` set es \<Longrightarrow> attrs m2 q = attrs m1 q" by auto
  have p1: "attrs m1 p = Some (b\<lparr>references := 0\<rparr>)" by (simp add: m1_def attrs_def)
  then show p2: "attrs m2 p = Some (b\<lparr>references := 0\<rparr>)" using a2 by simp
  show len: "length es = length (entries l)" by (simp add: es)
  show "attrs m2 q = attrs m q" if "q \<in># X" for q using a2 [of q] fb(2,3) that by metis
  have old: "attrs m1 (backing e) = attrs m (backing e) \<and> e_ok m e \<and> backing e \<noteq> p" if "e \<in> set (entries l)" for e
  proof -
    have "backing e \<noteq> p" using that fb(4) by auto
    with that fb(2) okD(2) [OF ledger_okD(1) [OF l], of e] show ?thesis by simp
  qed
  have fe: "\<exists>bo. attrs m (backing e) = Some bo \<and>
      (?abs bo \<longrightarrow> ?f e = e\<lparr>backing := p, backing_offset := file_offset bo + backing_offset e - canon_first c\<rparr> \<and>
          backing (?f e) = p \<and> canon_first c \<le> file_offset bo \<and> file_offset bo + blen bo \<le> canon_last c) \<and>
      (\<not> ?abs bo \<longrightarrow> ?f e = e \<and> attrs m2 (backing e) = Some bo)" if "e \<in> set (entries l)" for e
  proof -
    from old [OF that] obtain bo where bo: "attrs m (backing e) = Some bo" "attrs m1 (backing e) = Some bo"
      by (auto simp: e_ok_def)
    show ?thesis
    proof (cases "?abs bo")
      case True
      with absorbed_entry [OF that bo(1) True ab] bo show ?thesis by (simp add: rebound_def)
    next
      case False
      then have "?f e = e" using bo by (simp add: rebound_def)
      with that have "backing e \<in> backing ` set es" unfolding es by force
      with a2 bo False \<open>?f e = e\<close> show ?thesis by auto
    qed
  qed
  have "e_ok m2 (?f e)" if "e \<in> set (entries l)" for e
  proof -
    from fe [OF that] obtain bo where bo: "attrs m (backing e) = Some bo"
      "?abs bo \<Longrightarrow> ?f e = e\<lparr>backing := p, backing_offset := file_offset bo + backing_offset e - canon_first c\<rparr> \<and>
          canon_first c \<le> file_offset bo \<and> file_offset bo + blen bo \<le> canon_last c"
      "\<not> ?abs bo \<Longrightarrow> ?f e = e \<and> attrs m2 (backing e) = Some bo" by blast
    show ?thesis
    proof (cases "?abs bo")
      case True
      with bo(2) have t: "?f e = e\<lparr>backing := p, backing_offset := file_offset bo + backing_offset e - canon_first c\<rparr>"
        "canon_first c \<le> file_offset bo" "file_offset bo + blen bo \<le> canon_last c" by simp_all
      show ?thesis unfolding t(1)
        by (rule rebound_e_ok [OF _ bo(1) t(2,3) b(8) p2]) (use old [OF that] b in simp_all)
    next
      case False
      with bo old [OF that] show ?thesis by (auto intro: e_ok_attrs)
    qed
  qed
  then have "\<forall>e \<in> set es. e_ok m2 e" by (auto simp: es)
  moreover have "disjoint (mset es)" unfolding es disjoint_rebound using okD(3) [OF o1] .
  moreover have "held (l\<lparr>entries := es\<rparr>) = held l" by (simp add: held_def)
  ultimately show "ledger_ok (add_mset p X) (l\<lparr>entries := es\<rparr>) m2"
    using c2 l len by (auto simp: ledger_ok_def ok_def room_def)
  have keep: "x = p \<and> attrs m2 x = Some (b\<lparr>references := 0\<rparr>) \<or>
      x \<noteq> p \<and> x \<in> backing ` set (entries l) \<and> (\<exists>bo. attrs m2 x = Some bo \<and> attrs m x = Some bo \<and> \<not> ?abs bo)"
    if x: "x \<in> insert p (backing ` set es)" for x
  proof (cases "x = p")
    case False
    with x obtain e where e: "e \<in> set (entries l)" "x = backing (?f e)" by (auto simp: es)
    from fe [OF e(1)] obtain bo where bo: "attrs m (backing e) = Some bo"
      "?abs bo \<Longrightarrow> backing (?f e) = p" "\<not> ?abs bo \<Longrightarrow> backing (?f e) = backing e \<and> attrs m2 (backing e) = Some bo"
      by metis
    from bo(2) e(2) False have "\<not> ?abs bo" by auto
    with bo e False show ?thesis by auto
  qed (simp add: p2)
  have cl: "file_offset b + blen b = canon_last c" using b by simp
  show "canonical (insert p (backing ` set es)) m2"
    unfolding canonical_def
  proof (intro conjI ballI allI impI)
    fix x bx assume "x \<in> insert p (backing ` set es)" "attrs m2 x = Some bx" "borrowed bx"
    with keep [of x] b(4) cn show "device bx = 0" "inode bx = 0" by (auto simp: canonical_def)
  next
    fix x y bx bz
    assume *: "x \<in> insert p (backing ` set es)" "y \<in> insert p (backing ` set es)" "attrs m2 x = Some bx"
      "attrs m2 y = Some bz" "\<not> borrowed bx" "\<not> borrowed bz" "device bx = device bz" "inode bx = inode bz" "x \<noteq> y"
    from keep [OF *(1)] keep [OF *(2)] * show
      "file_offset bx + blen bx < file_offset bz \<or> file_offset bz + blen bz < file_offset bx"
    proof (elim disjE conjE exE, goal_cases)
      case (4 b1 b2)
      with canonicalD [OF cn, of x y bx bz] show ?case by simp
    qed (use b cl in \<open>auto simp: absorbs_def touches_def\<close>)
  qed
  have dr: "describe m2 (translate (?f e) a) = describe m (translate e a)" if "e \<in> set (entries l)" for e a
  proof -
    from fe [OF that] obtain bo where bo: "attrs m (backing e) = Some bo" "\<not> ?abs bo \<Longrightarrow> attrs m2 (backing e) = Some bo" by blast
    have f: "?f e = rebound (attrs m) dev ino (canon_first c) (canon_last c) p e"
      using old [OF that] by (intro rebound_cong) simp
    have "borrowed bo \<longrightarrow> device bo = 0 \<and> inode bo = 0" using cn that bo(1) by (auto simp: canonical_def)
    then show ?thesis unfolding f
      using bo p2 b(2-6) by (intro describe_rebound [where b' = "b\<lparr>references := 0\<rparr>"]) (auto simp: rebound_def)
  qed
  show "sees (mset es) m2 a x = sees (mset (entries l)) m a x" for a x
    unfolding sees_mset es using dr by simp
qed

text \<open>What a successful shared mapping does.\<close>

definition shared_result ::
  "nat multiset \<Rightarrow> vma_ledger \<Rightarrow> vma_mem \<Rightarrow> u64 \<Rightarrow> u64 \<Rightarrow> u32 \<Rightarrow> u64 \<Rightarrow> u64 \<Rightarrow> u64 \<Rightarrow> vma_errno option \<Rightarrow>
   vma_ledger \<Rightarrow> vma_mem \<Rightarrow> bool" where
  "shared_result X l m gfirst len prot offset dev ino r l' m' \<longleftrightarrow> op_ok X l m r l' m' \<and>
     (r = None \<longrightarrow> canonical (backing ` set (entries l')) m' \<and>
       (\<forall>a x. sees (mset (entries l')) m' a x \<longleftrightarrow>
         (if in_range gfirst (gfirst + len) a then x = (File dev ino (offset + (a - gfirst)), prot, VMA_SHARED)
          else sees (mset (entries l)) m a x)))"

lemma map_shared_extent_ok:
  assumes l: "ledger_ok X l m" and cn: "canonical (backing ` set (entries l)) m" and h: "host_ok h m"
    and z: "len \<noteq> 0" and w: "\<not> gfirst > - 1 - len" "\<not> offset > - 1 - len" and dv: "(dev, ino) \<noteq> (0, 0)"
    and ab: "\<forall>b \<in> set (candidates l m). absorbed dev ino b c"
    and c: "canon_first c \<le> offset" "offset + len \<le> canon_last c"
    and cap: "length (entries l) + 2 \<le> capacity l" "length (entries l) + 2 \<le> cap"
    and r: "map_shared_extent h cap gfirst len prot offset dev ino c (l, m) = (r, l', m')"
  shows "shared_result X l m gfirst len prot offset dev ino r l' m'"
proof (cases "canon_last c \<le> canon_first c \<or> canon_first c > INT64_MAX \<or>
    map_file h (canon_ref c) (canon_last c - canon_first c) (canon_first c) (canon_writable c) = None \<or>
    new_backing h = None \<or> dup_fd h (canon_ref c) = None")
  case True
  have "r \<noteq> None \<and> l' = l \<and> (\<exists>u. m' = m\<lparr>unmapped := u\<rparr>)"
    using r True by (auto simp: map_shared_extent_def Let_def split: if_splits option.splits intro: exI [of _ "unmapped m"])
  with l show ?thesis by (auto simp: shared_result_def op_ok_def)
next
  case False
  then obtain addr p kept where ok: "\<not> canon_last c \<le> canon_first c" "\<not> canon_first c > INT64_MAX"
    "map_file h (canon_ref c) (canon_last c - canon_first c) (canon_first c) (canon_writable c) = Some addr"
    "new_backing h = Some p" "dup_fd h (canon_ref c) = Some kept" by auto
  define b where "b = \<lparr>mapping = addr, blen = canon_last c - canon_first c, references = 1, device = dev, inode = ino,
    file_offset = canon_first c, retained = kept, writable = canon_writable c, borrowed = False\<rparr>"
  obtain es m2 where rb: "rebind dev ino (canon_first c) (canon_last c) p (entries l) (m\<lparr>heap := (heap m)(p \<mapsto> b)\<rparr>) = (es, m2)"
    by (metis prod.exhaust)
  let ?e = "\<lparr>guest_first = gfirst, guest_last = gfirst + len, backing_offset = offset - canon_first c,
    protection = prot, flags = VMA_SHARED, backing = p\<rparr>"
  have i: "install_entry h cap ?e (l\<lparr>entries := es\<rparr>, m2) = (l', m')" and none: "r = None"
    using r ok rb by (simp_all add: map_shared_extent_def Let_def b_def)
  have pn: "heap m p = None" using h ok(4) by (simp add: host_ok_def)
  have lt: "canon_first c < canon_last c" using ok(1) by simp
  have "references b = 1" "device b = dev" "inode b = ino" "\<not> borrowed b"
    "file_offset b = canon_first c" "blen b = canon_last c - canon_first c" by (simp_all add: b_def)
  note bs = this(1-4) dv this(5-6) lt
  note rl = rebind_ledger_ok [OF l pn cn bs ab rb]
  have l2: "ledger_ok (add_mset (backing ?e) X) (l\<lparr>entries := es\<rparr>) m2" using rl(1) by simp
  have "gfirst < gfirst + len" using no_wrap(1) [OF w(1)] z by (simp add: word_less_nat_alt unat_gt_0)
  moreover have "unat (offset - canon_first c) + unat len \<le> unat (canon_last c - canon_first c)"
    using c lt no_wrap(1) [OF w(2)] by (simp add: unat_sub word_le_nat_alt order_less_imp_le)
  moreover have "unat (canon_first c) + unat (canon_last c - canon_first c) = unat (canon_last c)"
    using lt by (simp add: unat_sub word_less_nat_alt order_less_imp_le)
  ultimately have e: "e_ok m2 ?e"
    using rl(3) unat_u64_less [of "canon_last c"] by (simp add: e_ok_def b_def)
  have "length (filter (strict gfirst (gfirst + len)) es) \<le> 1"
    using okD(3) [OF ledger_okD(1) [OF rl(1)]] no_wrap(2) [OF w(1)] by (intro strict_once) simp_all
  then have f: "fits cap (l\<lparr>entries := es\<rparr>) ?e" using cap rl(2) by (simp add: fits_def)
  note io = install_entry_ok [OF l2 e f i]
  have op: "op_ok X l m r l' m'" using io(1-4) rl(4) none by (simp add: op_ok_def)
  have "canonical (backing ` set (entries l')) m'"
    using rl(5) by (rule canonical_mono) (use io(6) in auto)
  moreover have "describe m2 (translate ?e a) = Some x \<longleftrightarrow>
      x = (File dev ino (offset + (a - gfirst)), prot, VMA_SHARED)" for a x
    using rl(3) by (auto simp: describe_def translate_def ident_def b_def)
  ultimately show ?thesis using op io(5) rl(6) by (simp add: shared_result_def covers_def)
qed

lemma map_shared_ok:
  assumes l: "ledger_ok X l m" and cn: "canonical (backing ` set (entries l)) m" and h: "host_ok h m"
    and r: "map_shared h gfirst len prot fd offset host_page (l, m) = (r, l', m')"
  shows "op_ok X l m r l' m'"
    "r = None \<Longrightarrow> \<exists>dev ino. fstat_of h fd = Some (dev, ino) \<and>
      shared_result X l m gfirst len prot offset dev ino r l' m'"
proof -
  have "(r = None \<longrightarrow> (\<exists>dev ino. fstat_of h fd = Some (dev, ino) \<and>
      shared_result X l m gfirst len prot offset dev ino r l' m')) \<and> op_ok X l m r l' m'"
  proof (cases "(fd < 0 \<or> len = 0 \<or> gfirst > - 1 - len \<or> offset > INT64_MAX \<or> \<not> power_of_two host_page \<or>
         gfirst AND 4095 \<noteq> 0 \<or> offset AND 4095 \<noteq> 0) \<or> fstat_of h fd = None")
    case True
    with r l show ?thesis by (auto simp: map_shared_def op_ok_refl split: if_splits)
  next
    case False
    then obtain dev ino where fs: "fstat_of h fd = Some (dev, ino)" by auto
    let ?head = "offset AND (host_page - 1)"
    show ?thesis
    proof (cases "(len > - 1 - ?head \<or> len + ?head > - 1 - (host_page - 1) \<or> offset > - 1 - len) \<or>
        grow h l (length (entries l) + 2) = None")
      case True
      with r l fs False show ?thesis by (auto simp: map_shared_def Let_def op_ok_refl split: if_splits)
    next
      case nw: False
      then obtain l1 where g: "grow h l (length (entries l) + 2) = Some l1" by auto
      note gk = grow_ok [OF g]
      show ?thesis
      proof (cases "snapshot_allocate h (length (entries l) + 2) = None \<or> offset + len > - 1 - (host_page - 1)")
        case True
        with r fs False nw g op_ok_refused [OF l g, of V_ENOMEM] show ?thesis
          by (auto simp: map_shared_def Let_def split: option.splits)
      next
        case al: False
        then obtain cap where cap: "snapshot_allocate h (length (entries l) + 2) = Some cap" by auto
        define c where "c = coalesce (prot AND VMA_WRITE \<noteq> 0) dev ino (candidates l m)
          \<lparr>canon_first = offset - ?head, canon_last = (offset + len + host_page - 1) AND NOT (host_page - 1),
           canon_writable = prot AND VMA_WRITE \<noteq> 0, canon_ref = fd, expanded = False\<rparr>"
        have run: "map_shared_extent h cap gfirst len prot offset dev ino c (l1, m) = (r, l', m')"
          using r fs False nw g al cap by (simp add: map_shared_def Let_def c_def check_live_ok [OF l])
        note cc = coalesce_closed [of "prot AND VMA_WRITE \<noteq> 0" dev ino "candidates l m" "\<lparr>canon_first = offset - ?head,
            canon_last = (offset + len + host_page - 1) AND NOT (host_page - 1),
            canon_writable = prot AND VMA_WRITE \<noteq> 0, canon_ref = fd, expanded = False\<rparr>", folded c_def, simplified]
        have "offset - ?head \<le> offset"
          using word_and_le2 [of offset "host_page - 1"] by (simp add: word_le_nat_alt unat_sub)
        with cc have c1: "canon_first c \<le> offset" by auto
        have "offset + len \<le> (offset + len + (host_page - 1)) AND NOT (host_page - 1)"
          using al by (intro round_up_ge) simp
        with cc have c2: "offset + len \<le> canon_last c" by (auto simp: algebra_simps)
        have l1: "ledger_ok X l1 m" using gk l by simp
        have "shared_result X l1 m gfirst len prot offset dev ino r l' m'"
          by (rule map_shared_extent_ok [OF l1 _ h _ _ _ _ _ c1 c2 _ _ run])
             (use cn False nw h fs cc gk(1,7) snapshot_allocateD [OF cap] in \<open>auto simp: host_ok_def candidates_def\<close>)
        then have "shared_result X l m gfirst len prot offset dev ino r l' m'"
          using gk by (simp add: shared_result_def op_ok_def)
        with fs show ?thesis by (auto simp: shared_result_def)
      qed
    qed
  qed
  then show "op_ok X l m r l' m'" "r = None \<Longrightarrow> \<exists>dev ino. fstat_of h fd = Some (dev, ino) \<and>
      shared_result X l m gfirst len prot offset dev ino r l' m'" by blast+
qed

end
