(* ===== verification/Vma_Resolve.thy ===== *)
theory Vma_Resolve
  imports Vma_Ledger
begin

text \<open>
  Readers of a published snapshot: the sorted views are the entries, the binary search finds the entry
  of an address, and the span of an instruction-fetch answer is exact.
\<close>

section \<open>Sorted views\<close>

definition view_at :: "u64 \<Rightarrow> vma_view \<Rightarrow> bool" where
  "view_at a v \<longleftrightarrow> in_range (v_first v) (v_last v) a"

definition views_ok :: "vma_view list \<Rightarrow> bool" where
  "views_ok vs \<longleftrightarrow> (\<forall>i j. i < j \<longrightarrow> j < length vs \<longrightarrow> v_last (vs ! i) \<le> v_first (vs ! j)) \<and>
     (\<forall>i < length vs. v_first (vs ! i) < v_last (vs ! i))"

lemma views_okD:
  assumes "views_ok vs"
  shows "i < j \<Longrightarrow> j < length vs \<Longrightarrow> v_last (vs ! i) \<le> v_first (vs ! j)"
    "i < length vs \<Longrightarrow> v_first (vs ! i) < v_last (vs ! i)"
  using assms by (auto simp: views_ok_def)

lemma two_hits:
  assumes "i < j" "j < length xs" "P (xs ! i)" "P (xs ! j)"
  shows "2 \<le> length (filter P xs)"
proof -
  have "{i, j} \<subseteq> {k. k < length xs \<and> P (xs ! k)}" using assms by auto
  moreover have "finite {k. k < length xs \<and> P (xs ! k)}" by simp
  ultimately have "card {i, j} \<le> card {k. k < length xs \<and> P (xs ! k)}" by (rule card_mono [rotated])
  with assms(1) show ?thesis by (simp add: length_filter_conv_card)
qed

lemma view_of_covers [simp]: "view_at a (view_of m e) = covers a e"
  by (simp add: view_at_def view_of_def covers_def)

lemma size_filter_map: "size (filter_mset P (mset (map f xs))) = length (filter (\<lambda>x. P (f x)) xs)"
  by (induction xs) auto

lemma published_views:
  assumes "ok X (mset (entries l)) m" "published l m"
  shows "mset (current_views l) = mset (map (view_of m) (entries l))" "views_ok (current_views l)"
proof -
  let ?vs = "current_views l" let ?es = "entries l"
  have vs: "?vs = sort_key v_first (map (view_of m) ?es)"
    using assms(2) by (auto simp: published_def current_views_def split: option.splits)
  then show ms: "mset ?vs = mset (map (view_of m) ?es)" by simp
  have one: "length (filter (view_at a) ?vs) \<le> 1" for a
  proof -
    have "length (filter (view_at a) ?vs) = size (filter_mset (view_at a) (mset ?vs))" by (metis mset_filter size_mset)
    also have "\<dots> = length (filter (covers a) ?es)" unfolding ms
      by (simp only: size_filter_map view_of_covers)
    also have "\<dots> \<le> 1" using okD(3) [OF assms(1)] unfolding strict_count_mset disjoint_def by blast
    finally show ?thesis .
  qed
  have lt: "v_first v < v_last v" if "v \<in> set ?vs" for v
  proof -
    from that have "v \<in> view_of m ` set ?es" by (simp add: vs)
    with okD(2) [OF assms(1)] show ?thesis by (auto simp: view_of_def e_ok_def)
  qed
  show "views_ok ?vs"
    unfolding views_ok_def
  proof (intro conjI allI impI)
    fix i j assume ij: "i < j" "j < length ?vs"
    have "sorted (map v_first ?vs)" by (simp add: vs)
    then have le: "v_first (?vs ! i) \<le> v_first (?vs ! j)"
      using ij by (simp add: sorted_iff_nth_mono)
    show "v_last (?vs ! i) \<le> v_first (?vs ! j)"
    proof (rule ccontr)
      assume "\<not> v_last (?vs ! i) \<le> v_first (?vs ! j)"
      with le lt [of "?vs ! j"] ij have "view_at (v_first (?vs ! j)) (?vs ! i)" "view_at (v_first (?vs ! j)) (?vs ! j)"
        by (simp_all add: view_at_def in_range_def)
      from two_hits [of i j ?vs "view_at (v_first (?vs ! j))", OF ij this] one [of "v_first (?vs ! j)"]
      show False by simp
    qed
  next
    fix i assume "i < length ?vs"
    then show "v_first (?vs ! i) < v_last (?vs ! i)" by (intro lt) simp
  qed
qed

section \<open>The binary search\<close>

definition found :: "vma_view list \<Rightarrow> u64 \<Rightarrow> nat + nat \<Rightarrow> bool" where
  "found vs a r = (case r of
     Inr i \<Rightarrow> i < length vs \<and> view_at a (vs ! i)
   | Inl k \<Rightarrow> k \<le> length vs \<and> (\<forall>i < k. v_last (vs ! i) \<le> a) \<and> (\<forall>i < length vs. k \<le> i \<longrightarrow> a < v_first (vs ! i)))"

lemma find_view_found:
  assumes "views_ok vs" "low \<le> high" "high \<le> length vs" "\<forall>i < low. v_last (vs ! i) \<le> a"
    "\<forall>i < length vs. high \<le> i \<longrightarrow> a < v_first (vs ! i)"
  shows "found vs a (find_view vs a low high)"
  using assms
proof (induction vs a low high rule: find_view.induct)
  case (1 vs a low high)
  let ?mid = "low + (high - low) div 2"
  show ?case
  proof (cases "low < high")
    case False
    then have "find_view vs a low high = Inl low" by (subst find_view.simps) simp
    with False "1.prems" show ?thesis by (auto simp: found_def)
  next
    case True
    then have mid: "low \<le> ?mid" "?mid < high" by auto
    have below: "v_last (vs ! i) \<le> v_first (vs ! ?mid)" if "i < ?mid" for i
      using "1.prems"(1,3) mid that by (auto simp: views_ok_def)
    have above: "v_last (vs ! ?mid) \<le> v_first (vs ! i) \<and> v_first (vs ! i) < v_last (vs ! i)" if "?mid < i" "i < length vs" for i
      using "1.prems"(1) that by (auto simp: views_ok_def)
    have self: "v_first (vs ! ?mid) < v_last (vs ! ?mid)" using "1.prems"(1,3) mid by (auto simp: views_ok_def)
    consider (lt) "a < v_first (vs ! ?mid)" | (ge) "\<not> a < v_first (vs ! ?mid)" "v_last (vs ! ?mid) \<le> a"
      | (hit) "\<not> a < v_first (vs ! ?mid)" "\<not> v_last (vs ! ?mid) \<le> a" by blast
    then show ?thesis
    proof cases
      case lt
      have "\<forall>i < length vs. ?mid \<le> i \<longrightarrow> a < v_first (vs ! i)"
      proof (intro allI impI)
        fix i assume i: "i < length vs" "?mid \<le> i"
        show "a < v_first (vs ! i)"
        proof (cases "i = ?mid")
          case False
          with above [of i] i self lt show ?thesis by auto
        qed (use lt in simp)
      qed
      from "1.IH"(1) [OF True refl refl lt "1.prems"(1) mid(1) _ "1.prems"(4) this] mid "1.prems"(3) lt True
      show ?thesis by (simp add: find_view.simps [of vs a low high] Let_def)
    next
      case ge
      have "\<forall>i < ?mid + 1. v_last (vs ! i) \<le> a"
      proof (intro allI impI)
        fix i assume i: "i < ?mid + 1"
        show "v_last (vs ! i) \<le> a"
        proof (cases "i = ?mid")
          case False
          with below [of i] i self ge(2) show ?thesis by auto
        qed (use ge in simp)
      qed
      from "1.IH"(2) [OF True refl refl ge "1.prems"(1) _ "1.prems"(3) this "1.prems"(5)] mid ge True
      show ?thesis by (simp add: find_view.simps [of vs a low high] Let_def)
    next
      case hit
      with True have "find_view vs a low high = Inr ?mid" by (subst find_view.simps) (simp add: Let_def)
      with hit mid "1.prems"(3) show ?thesis by (auto simp: found_def view_at_def in_range_def)
    qed
  qed
qed

lemma find_view_all:
  assumes "views_ok vs"
  shows "found vs a (find_view vs a 0 (length vs))"
  using assms by (intro find_view_found) auto

lemma found_unique:
  assumes "views_ok vs" "found vs a r" "i < length vs" "view_at a (vs ! i)"
  shows "r = Inr i"
proof (cases r)
  case (Inl k)
  with assms(2-4) have False
    by (cases "i < k") (auto simp: found_def view_at_def in_range_def not_less leD)
  then show ?thesis ..
next
  case (Inr j)
  with assms have "\<not> i < j" "\<not> j < i"
    by (auto simp: found_def view_at_def in_range_def views_ok_def) (meson leD order_le_less_trans)+
  with Inr show ?thesis by simp
qed

text \<open>Looking an address up in the published views is looking it up among the entries.\<close>

lemma view_lookup:
  assumes "ok X (mset (entries l)) m" "published l m"
  shows "e \<in> set (entries l) \<Longrightarrow> covers a e \<Longrightarrow>
      \<exists>i. find_view (current_views l) a 0 (length (current_views l)) = Inr i \<and> i < length (current_views l) \<and>
        current_views l ! i = view_of m e"
    "\<forall>e \<in> set (entries l). \<not> covers a e \<Longrightarrow>
      \<exists>k. find_view (current_views l) a 0 (length (current_views l)) = Inl k"
proof -
  let ?vs = "current_views l"
  note pv = published_views [OF assms]
  from arg_cong [OF pv(1), of set_mset] have st: "set ?vs = view_of m ` set (entries l)" by simp
  note f = find_view_all [OF pv(2), of a]
  { assume e: "e \<in> set (entries l)" "covers a e"
    then have "view_of m e \<in> set ?vs" by (simp add: st)
    then obtain i where i: "i < length ?vs" "?vs ! i = view_of m e" by (auto simp: in_set_conv_nth)
    with found_unique [OF pv(2) f i(1)] e
    show "\<exists>i. find_view ?vs a 0 (length ?vs) = Inr i \<and> i < length ?vs \<and> ?vs ! i = view_of m e" by simp }
  assume no: "\<forall>e \<in> set (entries l). \<not> covers a e"
  have "\<not> view_at a v" if "v \<in> set ?vs" for v using that no by (auto simp: st)
  then show "\<exists>k. find_view ?vs a 0 (length ?vs) = Inl k"
    using f by (cases "find_view ?vs a 0 (length ?vs)") (auto simp: found_def)
qed

lemma resolve_entries:
  assumes "ok X (mset (entries l)) m" "published l m" "\<not> a > - 1 - len"
  shows "\<forall>e \<in> set (entries l). \<not> covers a e \<Longrightarrow> resolve l a len required = Inr None"
    "e \<in> set (entries l) \<Longrightarrow> covers a e \<Longrightarrow> resolve l a len required =
      (if protection e AND required \<noteq> required then Inl V_EACCES
       else if len > guest_last e - a then Inl V_EFAULT
       else Inr (Some \<lparr>r_host = host_first m e + (a - guest_first e), contiguous = guest_last e - a,
                       r_protection = protection e, r_flags = flags e\<rparr>))"
proof -
  show "\<forall>e \<in> set (entries l). \<not> covers a e \<Longrightarrow> resolve l a len required = Inr None"
    using view_lookup(2) [OF assms(1,2), of a] assms(3) by (auto simp: resolve_def)
  assume e: "e \<in> set (entries l)" "covers a e"
  from view_lookup(1) [OF assms(1,2) e] assms(3) show "resolve l a len required =
      (if protection e AND required \<noteq> required then Inl V_EACCES
       else if len > guest_last e - a then Inl V_EFAULT
       else Inr (Some \<lparr>r_host = host_first m e + (a - guest_first e), contiguous = guest_last e - a,
                       r_protection = protection e, r_flags = flags e\<rparr>))"
    by (auto simp: resolve_def Let_def view_of_def algebra_simps)
qed

text \<open>The span of an instruction-fetch answer.\<close>

lemma span_entries:
  assumes "ok X (mset (entries l)) m" "published l m" "resolve_exec_span l a = Inr (hit, lo, hi, delta)"
    "in_range lo hi x"
  shows "if hit then \<exists>e \<in> set (entries l). guest_first e = lo \<and> guest_last e = hi \<and> covers a e \<and> covers x e \<and>
        protection e AND VMA_EXEC \<noteq> 0 \<and> x + delta = host_first m e + (x - guest_first e)
      else \<forall>e \<in> set (entries l). \<not> covers a e \<and> \<not> covers x e"
proof -
  let ?vs = "current_views l"
  note pv = published_views [OF assms(1,2)]
  from arg_cong [OF pv(1), of set_mset] have st: "set ?vs = view_of m ` set (entries l)" by simp
  note f = find_view_all [OF pv(2), of a]
  show ?thesis
  proof (cases "find_view ?vs a 0 (length ?vs)")
    case (Inr i)
    with f have i: "i < length ?vs" "view_at a (?vs ! i)" by (auto simp: found_def)
    then have "?vs ! i \<in> view_of m ` set (entries l)" using st nth_mem by blast
    then obtain e where e: "e \<in> set (entries l)" "?vs ! i = view_of m e" by auto
    from assms(3) Inr e(2) have "hit" "lo = guest_first e" "hi = guest_last e" "protection e AND VMA_EXEC \<noteq> 0"
      "delta = host_first m e - guest_first e"
      by (auto simp: resolve_exec_span_def Let_def view_of_def split: if_splits)
    with e i(2) assms(4) show ?thesis by (auto simp: covers_def algebra_simps)
  next
    case (Inl k)
    with f have k: "k \<le> length ?vs" "\<forall>i < k. v_last (?vs ! i) \<le> a" "\<forall>i < length ?vs. k \<le> i \<longrightarrow> a < v_first (?vs ! i)"
      by (auto simp: found_def)
    from assms(3) Inl have r: "\<not> hit" "lo = (if k \<noteq> 0 then v_last (?vs ! (k - 1)) else 0)"
      "hi = (if k \<noteq> length ?vs then v_first (?vs ! k) else - 1)" by (auto simp: resolve_exec_span_def Let_def)
    have "\<not> view_at y (?vs ! i)" if "i < length ?vs" "y = a \<or> y = x" for i y
    proof (cases "i < k")
      case True
      have "v_last (?vs ! i) \<le> v_last (?vs ! (k - 1))"
      proof (cases "i = k - 1")
        case False
        with True k(1) pv(2) have "v_last (?vs ! i) \<le> v_first (?vs ! (k - 1))" "v_first (?vs ! (k - 1)) < v_last (?vs ! (k - 1))"
          by (auto simp: views_ok_def)
        then show ?thesis by simp
      qed simp
      with True k(2) r(2) assms(4) that show ?thesis by (auto simp: view_at_def in_range_def)
    next
      case False
      have "v_first (?vs ! k) \<le> v_first (?vs ! i)"
      proof (cases "i = k")
        case False
        with \<open>\<not> i < k\<close> that(1) pv(2) have "v_last (?vs ! k) \<le> v_first (?vs ! i)" "v_first (?vs ! k) < v_last (?vs ! k)"
          by (auto simp: views_ok_def)
        then show ?thesis by simp
      qed simp
      with False k(3) r(3) assms(4) that show ?thesis by (auto simp: view_at_def in_range_def)
    qed
    then have "\<not> view_at y v" if "v \<in> set ?vs" "y = a \<or> y = x" for v y
      using that by (metis in_set_conv_nth)
    then have "\<not> covers y e" if "e \<in> set (entries l)" "y = a \<or> y = x" for y e
      using that st by (metis image_eqI view_of_covers)
    with r(1) show ?thesis by auto
  qed
qed

lemma overlap_scan_iff:
  assumes "views_ok vs" "lo < hi"
  shows "overlap_scan lo hi vs \<longleftrightarrow> (\<exists>v \<in> set vs. v_first v < hi \<and> lo < v_last v)"
  using assms(1)
proof (induction vs)
  case (Cons v vs)
  have ok: "views_ok vs" unfolding views_ok_def
  proof (intro conjI allI impI)
    fix i j assume "i < j" "j < length vs"
    with views_okD(1) [OF Cons.prems, of "Suc i" "Suc j"] show "v_last (vs ! i) \<le> v_first (vs ! j)" by simp
  next
    fix i assume "i < length vs"
    with views_okD(2) [OF Cons.prems, of "Suc i"] show "v_first (vs ! i) < v_last (vs ! i)" by simp
  qed
  have v: "v_first v < v_last v" using views_okD(2) [OF Cons.prems, of 0] by simp
  have "v_last v \<le> v_first w" if w: "w \<in> set vs" for w
  proof -
    from w obtain i where "i < length vs" "vs ! i = w" by (auto simp: in_set_conv_nth)
    with views_okD(1) [OF Cons.prems, of 0 "Suc i"] show ?thesis by simp
  qed
  with Cons.IH [OF ok] v show ?case by (auto simp: not_less) (meson leD order_trans order_less_imp_le)+
qed simp

end
