(* ===== verification/Vma_Plan.thy ===== *)
theory Vma_Plan
  imports Vma_Shared Vma_Resolve
begin

text \<open>
  The operations built on the ledger: two-phase plans (\<open>prepare\<close>, then \<open>commit\<close> or \<open>abort\<close>), the
  operations on the process-wide ledger, pins of a backing, and the queries over entries (export,
  description, copies through the canonical backing, executable aliases).  A plan holds the lock of
  the live ledger between its two phases, so that the live ledger does not change in between.
  \<open>grow_ok n\<close> tells whether an array of \<open>n\<close> alias ranges can be allocated.
\<close>

section \<open>Plans\<close>

definition stage_copy :: "vma_host \<Rightarrow> vma_ledger \<times> vma_mem \<Rightarrow> (vma_ledger \<times> vma_mem) option" where
  "stage_copy h lm =
    (case lm of (l, m) \<Rightarrow>
      (case grow h vma_init (length (entries l)) of
         None \<Rightarrow> None
       | Some s \<Rightarrow> Some (s\<lparr>entries := entries l\<rparr>, fold backing_get (map backing (entries l)) m)))"

definition vma_abort :: "vma_ledger \<Rightarrow> vma_mem \<Rightarrow> vma_mem" where
  "vma_abort staged m = snd (vma_destroy (staged, m))"

text \<open>The staged ledger of a new plan, or the error; on error everything staged has been released.\<close>

definition prepare_with ::
  "vma_host \<Rightarrow> (vma_ledger \<times> vma_mem \<Rightarrow> vma_result) \<Rightarrow> vma_ledger \<times> vma_mem \<Rightarrow> (vma_errno + vma_ledger) \<times> vma_mem" where
  "prepare_with h action lm =
    (case lm of (l, m) \<Rightarrow>
      if \<not> plan_ok h then (Inl V_ENOMEM, m)
      else case stage_copy h (l, m) of
        None \<Rightarrow> (Inl V_ENOMEM, vma_abort vma_init m)
      | Some (s, m1) \<Rightarrow>
        (case action (s, m1) of
           (None, s2, m2) \<Rightarrow> (Inr s2, m2)
         | (Some e, s2, m2) \<Rightarrow> (Inl e, vma_abort s2 m2)))"

definition prepare_shared ::
  "vma_host \<Rightarrow> bool \<Rightarrow> u64 \<Rightarrow> u64 \<Rightarrow> u32 \<Rightarrow> int \<Rightarrow> u64 \<Rightarrow> u64 \<Rightarrow> vma_ledger \<times> vma_mem \<Rightarrow>
   (vma_errno + vma_ledger) \<times> vma_mem" where
  "prepare_shared h fail_next gfirst len prot fd offset host_page lm =
    (if fail_next then (Inl V_ENOMEM, snd lm)
     else prepare_with h (map_shared h gfirst len prot fd offset host_page) lm)"

definition prepare_protect ::
  "vma_host \<Rightarrow> u64 \<Rightarrow> u64 \<Rightarrow> u32 \<Rightarrow> vma_ledger \<times> vma_mem \<Rightarrow> (vma_errno + vma_ledger) \<times> vma_mem" where
  "prepare_protect h gfirst len prot lm = prepare_with h (vma_protect h gfirst len prot) lm"

text \<open>A plan that exists already takes a further change into its staged ledger.\<close>

definition global_prepare_protect ::
  "vma_host \<Rightarrow> u64 \<Rightarrow> u64 \<Rightarrow> u32 \<Rightarrow> vma_ledger option \<Rightarrow> vma_ledger \<times> vma_mem \<Rightarrow> (vma_errno + vma_ledger) \<times> vma_mem" where
  "global_prepare_protect h gfirst len prot plan lm =
    (case plan of
       Some s \<Rightarrow>
         (case vma_protect h gfirst len prot (s, snd lm) of
            (None, s2, m2) \<Rightarrow> (Inr s2, m2)
          | (Some e, s2, m2) \<Rightarrow> (Inl e, m2))
     | None \<Rightarrow> prepare_protect h gfirst len prot lm)"

text \<open>A direct mapping keeps the plan when it fails: the result is the error with the staged ledger.\<close>

definition global_prepare_direct ::
  "vma_host \<Rightarrow> u64 \<Rightarrow> u64 \<Rightarrow> u32 \<Rightarrow> u64 \<Rightarrow> vma_ledger option \<Rightarrow> vma_ledger \<times> vma_mem \<Rightarrow>
   vma_errno option \<times> vma_ledger option \<times> vma_mem" where
  "global_prepare_direct h gfirst len prot hfirst plan lm =
    (case plan of
       Some s \<Rightarrow> (case map_direct h gfirst len prot hfirst (s, snd lm) of (r, s2, m2) \<Rightarrow> (r, Some s2, m2))
     | None \<Rightarrow>
         if \<not> plan_ok h then (Some V_ENOMEM, None, snd lm)
         else case stage_copy h lm of
           None \<Rightarrow> (Some V_ENOMEM, None, vma_abort vma_init (snd lm))
         | Some sm \<Rightarrow> (case map_direct h gfirst len prot hfirst sm of (r, s2, m2) \<Rightarrow> (r, Some s2, m2)))"

definition vma_commit :: "vma_ledger \<Rightarrow> vma_ledger \<times> vma_mem \<Rightarrow> vma_ledger \<times> vma_mem" where
  "vma_commit staged lm =
    (case lm of (live, m) \<Rightarrow>
      (live\<lparr>entries := entries staged, capacity := capacity staged,
            generation := generation live + 2, current := current staged,
            retired := rev (retired staged) @
              (case current live of None \<Rightarrow> retired live | Some old \<Rightarrow> old # retired live)\<rparr>,
       put_all (entries live) m))"

section \<open>The process-wide ledger\<close>

definition global_restore_shared ::
  "vma_host \<Rightarrow> u64 \<Rightarrow> u64 \<Rightarrow> u32 \<Rightarrow> int \<Rightarrow> u64 \<Rightarrow> u64 \<Rightarrow> vma_ledger \<times> vma_mem \<Rightarrow> vma_result" where
  "global_restore_shared h gfirst len prot fd offset host_page lm =
    (let construction = prot OR VMA_WRITE in
     case map_shared h gfirst len construction fd offset host_page lm of
       (Some e, l1, m1) \<Rightarrow> (Some e, l1, m1)
     | (None, l1, m1) \<Rightarrow>
         if construction = prot then (None, l1, m1) else vma_protect h gfirst len prot (l1, m1))"

text \<open>\<open>None\<close>: the process aborts.\<close>

definition global_reset :: "vma_host \<Rightarrow> vma_ledger \<times> vma_mem \<Rightarrow> (vma_ledger \<times> vma_mem) option" where
  "global_reset h lm =
    (case lm of (l, m) \<Rightarrow>
      (case snapshot_allocate h 0 of
         None \<Rightarrow> None
       | Some cap \<Rightarrow> Some (vma_reclaim (publish_locked cap (l\<lparr>entries := []\<rparr>) (put_all (entries l) m)))))"

definition global_active :: "vma_ledger \<Rightarrow> bool" where
  "global_active l = (case current l of None \<Rightarrow> False | Some s \<Rightarrow> views s \<noteq> [])"

section \<open>Pins\<close>

record vma_pin =
  p_host :: u64
  p_contiguous :: u64
  p_protection :: u32
  p_flags :: u32
  token :: "nat option"

definition entry_at :: "u64 \<Rightarrow> vma_entry list \<Rightarrow> vma_entry option" where
  "entry_at a es = List.find (\<lambda>e. \<not> (a < guest_first e \<or> a \<ge> guest_last e)) es"

fun gap_to_next :: "u64 \<Rightarrow> vma_entry list \<Rightarrow> u64 \<Rightarrow> u64" where
  "gap_to_next a [] n = n"
| "gap_to_next a (e # es) n =
    gap_to_next a es
      (if guest_first e > a \<and> guest_first e - a < n then guest_first e - a else n)"

definition pin_data ::
  "u64 \<Rightarrow> u64 \<Rightarrow> u32 \<Rightarrow> vma_ledger \<times> vma_mem \<Rightarrow> (vma_errno + bool \<times> vma_pin) \<times> vma_mem" where
  "pin_data a len required lm =
    (case lm of (l, m) \<Rightarrow>
      if len = 0 \<or> a > - 1 - len then (Inl V_EINVAL, m)
      else case entry_at a (entries l) of
        Some e \<Rightarrow>
          if protection e AND required \<noteq> required then (Inl V_EACCES, m)
          else
            (let available = guest_last e - a in
             (Inr (True, \<lparr>p_host = host_first m e + (a - guest_first e),
                          p_contiguous = (if available > len then len else available),
                          p_protection = protection e, p_flags = flags e, token = Some (backing e)\<rparr>),
              backing_get (backing e) m))
      | None \<Rightarrow>
          (Inr (False, \<lparr>p_host = a, p_contiguous = gap_to_next a (entries l) len,
                        p_protection = VMA_READ OR VMA_WRITE OR VMA_EXEC, p_flags = 0, token = None\<rparr>), m))"

definition unpin :: "vma_pin \<Rightarrow> vma_mem \<Rightarrow> vma_mem" where
  "unpin pin m = (case token pin of None \<Rightarrow> m | Some p \<Rightarrow> backing_put p m)"

section \<open>Executable aliases\<close>

type_synonym ranges = "(u64 \<times> u64) list"

text \<open>The growing array of ranges; \<open>None\<close> is the overflow flag.\<close>

definition push_range :: "(nat \<Rightarrow> bool) \<Rightarrow> u64 \<times> u64 \<Rightarrow> (ranges \<times> nat) option \<Rightarrow> (ranges \<times> nat) option" where
  "push_range grow_ok r st =
    (case st of
       None \<Rightarrow> None
     | Some (rs, cap) \<Rightarrow>
         if length rs \<noteq> cap then Some (rs @ [r], cap)
         else
           (let next = (if cap \<noteq> 0 then cap * 2 else 8) in
            if next > SIZE_MAX div 16 \<or> \<not> grow_ok next then None else Some (rs @ [r], next)))"

definition visited :: "(ranges \<times> nat) option \<Rightarrow> ranges" where
  "visited st = (case st of None \<Rightarrow> [(0, - 1)] | Some (rs, _) \<Rightarrow> rs)"

definition alias_range :: "u64 \<Rightarrow> u64 \<Rightarrow> u64 \<Rightarrow> u64 \<Rightarrow> u64 \<Rightarrow> (u64 \<times> u64) option" where
  "alias_range source_offset source_last gfirst glast offset =
    (let alias_last = offset + (glast - gfirst);
         lo = (if source_offset > offset then source_offset else offset);
         hi = (if source_last < alias_last then source_last else alias_last)
     in if hi \<le> lo then None
        else Some (gfirst + (lo - offset), gfirst + (lo - offset) + (hi - lo)))"

definition push_alias ::
  "(nat \<Rightarrow> bool) \<Rightarrow> (u64 \<times> u64) option \<Rightarrow> (ranges \<times> nat) option \<Rightarrow> (ranges \<times> nat) option" where
  "push_alias grow_ok r st = (case r of None \<Rightarrow> st | Some x \<Rightarrow> push_range grow_ok x st)"

definition visit_exec_aliases_pin ::
  "(nat \<Rightarrow> bool) \<Rightarrow> vma_pin \<Rightarrow> u64 \<Rightarrow> u64 \<Rightarrow> vma_ledger \<times> vma_mem \<Rightarrow> ranges" where
  "visit_exec_aliases_pin grow_ok pin offset len lm =
    (case (token pin, lm) of
       (None, _) \<Rightarrow> []
     | (Some p, l, m) \<Rightarrow>
         if len = 0 \<or> offset > p_contiguous pin \<or> len > p_contiguous pin - offset then []
         else
           (let source_offset = p_host pin - (case heap m p of None \<Rightarrow> 0 | Some b \<Rightarrow> mapping b) + offset in
            visited (fold (\<lambda>e st.
                if backing e \<noteq> p \<or> protection e AND VMA_EXEC = 0 then st
                else push_alias grow_ok
                  (alias_range source_offset (source_offset + len) (guest_first e) (guest_last e) (backing_offset e)) st)
              (entries l) (Some ([], 0)))))"

text \<open>The first view that ends beyond the address.\<close>

function first_view_after :: "vma_view list \<Rightarrow> u64 \<Rightarrow> nat \<Rightarrow> nat \<Rightarrow> nat" where
  "first_view_after vs a low high =
    (if low < high then
       (let middle = low + (high - low) div 2 in
        if v_last (vs ! middle) \<le> a then first_view_after vs a (middle + 1) high
        else first_view_after vs a low middle)
     else low)"
  by pat_completeness auto
termination
  by (relation "measure (\<lambda>(vs, a, low, high). high - low)") auto

declare first_view_after.simps [simp del]

fun visit_sources ::
  "(nat \<Rightarrow> bool) \<Rightarrow> u64 \<Rightarrow> u64 \<Rightarrow> vma_view list \<Rightarrow> vma_view list \<Rightarrow> bool \<times> (ranges \<times> nat) option \<Rightarrow>
   bool \<times> (ranges \<times> nat) option" where
  "visit_sources grow_ok gfirst glast all [] st = st"
| "visit_sources grow_ok gfirst glast all (sv # svs) (matched, st) =
    (if v_first sv \<ge> glast then (matched, st)
     else
       (let lo = (if gfirst > v_first sv then gfirst else v_first sv);
            hi = (if glast < v_last sv then glast else v_last sv)
        in if hi \<le> lo then visit_sources grow_ok gfirst glast all svs (matched, st)
           else
             (let source_offset = v_offset sv + (lo - v_first sv);
                  st' = fold (\<lambda>av st.
                      if v_backing av \<noteq> v_backing sv \<or> v_protection av AND VMA_EXEC = 0 then st
                      else push_alias grow_ok
                        (alias_range source_offset (source_offset + (hi - lo)) (v_first av) (v_last av) (v_offset av)) st)
                    all st
              in case st' of
                   None \<Rightarrow> (True, None)
                 | Some _ \<Rightarrow> visit_sources grow_ok gfirst glast all svs (True, st'))))"

definition visit_exec_aliases :: "(nat \<Rightarrow> bool) \<Rightarrow> u64 \<Rightarrow> u64 \<Rightarrow> vma_ledger \<Rightarrow> bool \<times> ranges" where
  "visit_exec_aliases grow_ok gfirst glast l =
    (if glast \<le> gfirst then (False, [])
     else case current l of
       None \<Rightarrow> (False, [])
     | Some s \<Rightarrow>
         (case visit_sources grow_ok gfirst glast (views s)
                 (drop (first_view_after (views s) gfirst 0 (length (views s))) (views s)) (False, Some ([], 0)) of
            (matched, st) \<Rightarrow> (matched, visited st)))"

definition has_exec_alias_file :: "u64 \<Rightarrow> u64 \<Rightarrow> u64 \<Rightarrow> u64 \<Rightarrow> vma_ledger \<times> vma_mem \<Rightarrow> bool" where
  "has_exec_alias_file dev ino offset len lm =
    (case lm of (l, m) \<Rightarrow>
      if len = 0 \<or> offset > - 1 - len then False
      else list_ex (\<lambda>e. case heap m (backing e) of
          None \<Rightarrow> False
        | Some b \<Rightarrow>
            protection e AND VMA_EXEC \<noteq> 0 \<and> device b = dev \<and> inode b = ino \<and>
            (let lo = file_offset b + backing_offset e; hi = lo + (guest_last e - guest_first e)
             in offset < hi \<and> offset + len > lo))
        (entries l))"

section \<open>Descriptions and copies\<close>

record vma_descriptor =
  d_first :: u64
  d_length :: u64
  d_device :: u64
  d_inode :: u64
  d_offset :: u64
  d_protection :: u32
  d_flags :: u32

definition descriptor_of :: "vma_mem \<Rightarrow> vma_entry \<Rightarrow> vma_descriptor option" where
  "descriptor_of m e =
    (if flags e AND VMA_DIRECT \<noteq> 0 then None
     else map_option (\<lambda>b. \<lparr>d_first = guest_first e, d_length = guest_last e - guest_first e, d_device = device b,
       d_inode = inode b, d_offset = file_offset b + backing_offset e, d_protection = protection e, d_flags = flags e\<rparr>)
       (heap m (backing e)))"

definition global_export :: "nat \<Rightarrow> vma_ledger \<times> vma_mem \<Rightarrow> nat \<times> vma_descriptor list" where
  "global_export cap lm =
    (case lm of (l, m) \<Rightarrow>
      (length (filter (\<lambda>e. flags e AND VMA_DIRECT = 0) (entries l)),
       take cap (List.map_filter (descriptor_of m) (entries l))))"

definition global_describe :: "u64 \<Rightarrow> vma_ledger \<times> vma_mem \<Rightarrow> vma_descriptor option" where
  "global_describe a lm =
    (case lm of (l, m) \<Rightarrow> (case entry_at a (entries l) of None \<Rightarrow> None | Some e \<Rightarrow> descriptor_of m e))"

text \<open>A copy through the canonical backing is a sequence of transfers \<open>(host address, buffer offset, size)\<close>;
  the flag tells whether the whole range was reached (otherwise EFAULT, after those transfers).\<close>

function copy_from ::
  "vma_ledger \<times> vma_mem \<Rightarrow> u64 \<Rightarrow> u64 \<Rightarrow> u64 \<Rightarrow> bool \<times> (u64 \<times> u64 \<times> u64) list" where
  "copy_from lm guest len pos =
    (if pos \<noteq> len then
       (case entry_at (guest + pos) (entries (fst lm)) of
          None \<Rightarrow> (False, [])
        | Some e \<Rightarrow>
            (let available = guest_last e - (guest + pos);
                 chunk = (if available > len - pos then len - pos else available)
             in case copy_from lm guest len (pos + chunk) of
                  (fine, ts) \<Rightarrow> (fine, (host_first (snd lm) e + (guest + pos - guest_first e), pos, chunk) # ts)))
     else (True, []))"
  by pat_completeness auto

lemma entry_at_SomeD:
  assumes "entry_at a es = Some e"
  shows "e \<in> set es" "covers a e"
  using assms by (auto simp: entry_at_def find_Some_iff covers_def in_range_def)

lemma entry_at_None: "entry_at a es = None \<longleftrightarrow> (\<forall>e \<in> set es. \<not> covers a e)"
  by (auto simp: entry_at_def find_None_iff covers_def in_range_def)

lemma chunk_shrinks:
  assumes "0 < (c :: u64)" "c \<le> len - pos"
  shows "unat (len - (pos + c)) < unat (len - pos)"
proof -
  have e: "len - (pos + c) = len - pos - c" by simp
  have "unat (len - pos - c) = unat (len - pos) - unat c" using assms(2) by (rule unat_sub)
  with assms show ?thesis unfolding e by (simp add: word_less_nat_alt word_le_nat_alt)
qed

lemma chunk_bounds:
  assumes "a < (b :: u64)" "pos \<noteq> len"
  shows "0 < (if b - a > len - pos then len - pos else b - a)"
    "(if b - a > len - pos then len - pos else b - a) \<le> len - pos"
  using assms by (auto simp: word_neq_0_conv [symmetric])

termination copy_from
proof (relation "measure (\<lambda>(lm, guest, len, pos). unat (len - pos))", goal_cases)
  case (2 lm guest len pos e available chunk)
  then have "guest + pos < guest_last e" by (auto dest!: entry_at_SomeD simp: covers_def in_range_def)
  from chunk_shrinks [OF chunk_bounds [OF this 2(1)]] show ?case unfolding 2(3,4) by simp
qed simp

declare copy_from.simps [simp del]

definition global_copy :: "u64 \<Rightarrow> u64 \<Rightarrow> vma_ledger \<times> vma_mem \<Rightarrow> vma_errno option \<times> (u64 \<times> u64 \<times> u64) list" where
  "global_copy guest len lm =
    (if guest > - 1 - len then (Some V_EINVAL, [])
     else case copy_from lm guest len 0 of (fine, ts) \<Rightarrow> (if fine then None else Some V_EFAULT, ts))"

end
