(* ===== verification/Vma_Transactions.thy ===== *)
theory Vma_Transactions
  imports Vma_Plan
begin

text \<open>
  Plans as transactions.  A staged ledger shares the backings of the live one; an abandoned plan gives
  every reference back, so that the heap is what it was (\<open>vma_abort_ok\<close>), and a committed one becomes
  the live ledger (\<open>vma_commit_ok\<close>).
\<close>

section \<open>Plans are transactions\<close>

definition refs :: "vma_ledger \<Rightarrow> nat multiset" where
  "refs l = held l + image_mset backing (mset (entries l))"

lemma ledger_ok_counted: "ledger_ok X l m \<Longrightarrow> counted (X + refs l) m"
  by (auto simp: ledger_ok_def ok_def refs_def ac_simps)

lemma ledger_ok_elsewhere:
  assumes "ledger_ok X l m" "counted (Y + refs l) m'" "\<And>q. q \<in># refs l \<Longrightarrow> attrs m' q = attrs m q"
  shows "ledger_ok Y l m'" "published l m \<Longrightarrow> published l m'"
    "canonical (backing ` set (entries l)) m \<Longrightarrow> canonical (backing ` set (entries l)) m'"
    "sees (mset (entries l)) m' a x = sees (mset (entries l)) m a x"
proof -
  have at: "attrs m' (backing e) = attrs m (backing e)" if "e \<in> set (entries l)" for e
    using assms(3) that by (simp add: refs_def)
  have "e_ok m' e" if "e \<in> set (entries l)" for e
    using okD(2) [OF ledger_okD(1) [OF assms(1)], of e] at [OF that] that by (auto intro: e_ok_attrs)
  with assms(1,2) show "ledger_ok Y l m'" by (auto simp: ledger_ok_def ok_def refs_def ac_simps)
  have vw: "map (view_of m') (entries l) = map (view_of m) (entries l)"
    using at by (auto intro!: view_of_attrs)
  show "published l m \<Longrightarrow> published l m'" by (simp only: published_def vw)
  show "canonical (backing ` set (entries l)) m \<Longrightarrow> canonical (backing ` set (entries l)) m'"
    by (erule canonical_mono) (use at in auto)
  show "sees (mset (entries l)) m' a x = sees (mset (entries l)) m a x"
    by (rule sees_kept [of "{#}" "mset (entries l)" m]) (use at in \<open>auto simp: kept_def\<close>)
qed

text \<open>Counts determine the heap: with the same holders and the same contents it is the same heap.\<close>

lemma counted_heap_eq:
  assumes "counted R m" "counted R m'" "\<And>q. q \<in># R \<Longrightarrow> attrs m' q = attrs m q"
  shows "heap m' = heap m"
proof
  fix p
  from assms(1,2) have c: "rc_ok R m" "rc_ok R m'" by (simp_all add: counted_def)
  show "heap m' p = heap m p"
  proof (cases "p \<in># R")
    case True
    from rc_ok_live [OF c(1) True] rc_ok_live [OF c(2) True] obtain b b' where
      b: "heap m p = Some b" "references b = count R p" "heap m' p = Some b'" "references b' = count R p" by auto
    with assms(3) [OF True] have "b'\<lparr>references := 0\<rparr> = b\<lparr>references := 0\<rparr>" by (simp add: attrs_def)
    then have "b' = b" using b(2,4) by (cases b; cases b') simp
    with b show ?thesis by simp
  next
    case False
    then have "count R p = 0" by (simp add: count_eq_zero_iff)
    with rc_ok_Some [OF c(1), of p] rc_ok_Some [OF c(2), of p] show ?thesis
      by (cases "heap m p"; cases "heap m' p") auto
  qed
qed

lemma put_all_ok:
  assumes "counted (Y + image_mset backing (mset es)) m"
  shows "counted Y (put_all es m) \<and> (q \<in># Y \<longrightarrow> attrs (put_all es m) q = attrs m q)"
proof -
  have "counted (Y + mset (map backing (rev es))) m" using assms by simp
  from backings.put_fold [OF this, of q] show ?thesis by (simp add: put_all_def)
qed

lemma vma_destroy_ok:
  assumes "counted (Y + refs s) m" "vma_destroy (s, m) = (s', m')"
  shows "counted Y m' \<and> (q \<in># Y \<longrightarrow> attrs m' q = attrs m q)" "entries s' = []" "refs s' = {#}" "capacity s' = 0"
    "generation s' = generation s + 2" "current s' = None"
proof -
  let ?c = "case current s of None \<Rightarrow> {#} | Some s \<Rightarrow> mset (backings s)"
  let ?r = "\<Sum>s\<leftarrow>retired s. mset (backings s)"
  let ?m1 = "put_all (entries s) m" let ?m2 = "free_current (current s) ?m1"
  have r: "refs s = ?c + ?r + image_mset backing (mset (entries s))" by (simp add: refs_def held_def)
  have "counted ((Y + ?r + ?c) + image_mset backing (mset (entries s))) m" using assms(1) unfolding r by (simp add: ac_simps)
  note p1 = put_all_ok [OF this]
  have p2: "counted (Y + ?r) ?m2 \<and> (q \<in># Y + ?r \<longrightarrow> attrs ?m2 q = attrs ?m1 q)" for q
  proof (cases "current s")
    case None
    with p1 show ?thesis by (simp add: free_current_def)
  next
    case (Some cs)
    with p1 backings.put_fold [of "Y + ?r" "backings cs" ?m1 q] show ?thesis
      by (simp add: free_current_def snapshot_free_def)
  qed
  have m': "m' = fold snapshot_free (retired s) ?m2" using assms(2) by (simp add: vma_destroy_def)
  have "counted Y m' \<and> (q \<in># Y \<longrightarrow> attrs m' q = attrs ?m2 q)"
    using backings.put_folds [of Y backings "retired s" ?m2 q] p2 unfolding m' snapshot_free_folds by simp
  with p1 [of q] p2 [of q] show "counted Y m' \<and> (q \<in># Y \<longrightarrow> attrs m' q = attrs m q)" by auto
  show "entries s' = []" "refs s' = {#}" "capacity s' = 0" "generation s' = generation s + 2" "current s' = None"
    using assms(2) by (auto simp: vma_destroy_def refs_def held_def)
qed

lemma vma_init_ok:
  "refs vma_init = {#}" "entries vma_init = []" "even (unat (generation vma_init))" "held vma_init = {#}"
  by (simp_all add: vma_init_def refs_def held_def)

lemma vma_abort_ok:
  assumes "ledger_ok X l m" "ledger_ok (X + refs l) s m1" "\<And>q. q \<in># X + refs l \<Longrightarrow> attrs m1 q = attrs m q"
  shows "heap (vma_abort s m1) = heap m" "fault (vma_abort s m1) = fault m"
proof -
  obtain s' m' where d: "vma_destroy (s, m1) = (s', m')" by (metis prod.exhaust)
  have c: "counted (X + refs l) m" using assms(1) by (rule ledger_ok_counted)
  from vma_destroy_ok(1) [OF ledger_ok_counted [OF assms(2)] d] have m': "counted (X + refs l) m'"
    "\<And>q. q \<in># X + refs l \<Longrightarrow> attrs m' q = attrs m1 q" by auto
  with assms(3) c show "heap (vma_abort s m1) = heap m"
    by (intro counted_heap_eq [of "X + refs l"]) (auto simp: vma_abort_def d)
  from c m'(1) show "fault (vma_abort s m1) = fault m" by (simp add: vma_abort_def d counted_def)
qed

lemma stage_copy_ok:
  assumes l: "ledger_ok X l m" and s: "stage_copy h (l, m) = Some (s, m1)"
  shows "ledger_ok (X + refs l) s m1" "entries s = entries l" "held s = {#}" "generation s = 2"
    "\<And>q. q \<in># X + refs l \<Longrightarrow> attrs m1 q = attrs m q"
proof -
  from s obtain s0 where g: "grow h vma_init (length (entries l)) = Some s0"
    and s1: "s = s0\<lparr>entries := entries l\<rparr>" "m1 = fold backing_get (map backing (entries l)) m"
    by (auto simp: stage_copy_def split: option.splits)
  note gk = grow_ok [OF g]
  show e: "entries s = entries l" by (simp add: s1)
  have cs: "capacity s = capacity s0" "generation s = generation s0" by (simp_all add: s1)
  show h: "held s = {#}" using gk(4,6) by (simp add: s1 held_def vma_init_def)
  show "generation s = 2" using gk(5) by (simp add: s1 vma_init_def)
  have sub: "set (map backing (entries l)) \<subseteq> set_mset (X + refs l)" by (auto simp: refs_def)
  note f = backings.get_fold [OF ledger_ok_counted [OF l] sub, folded s1(2)]
  then show at: "\<And>q. q \<in># X + refs l \<Longrightarrow> attrs m1 q = attrs m q" by blast
  have "e_ok m1 x" if "x \<in> set (entries l)" for x
    using okD(2) [OF ledger_okD(1) [OF l], of x] f that by (auto intro: e_ok_attrs)
  with f okD(3) [OF ledger_okD(1) [OF l]] gk(5,7) show "ledger_ok (X + refs l) s m1"
    using cs by (auto simp: ledger_ok_def ok_def h e room_def vma_init_def)
qed

text \<open>What preparing an action promises: either a staged ledger on which the action succeeded, the live
  ledger untouched, or an error, and then the whole memory is as it was.\<close>

lemma prepare_with_ok:
  assumes l: "ledger_ok X l m" and p: "prepare_with h action (l, m) = (r, m')"
    and act: "\<And>s m1 e s2 m2. stage_copy h (l, m) = Some (s, m1) \<Longrightarrow> action (s, m1) = (e, s2, m2) \<Longrightarrow>
       op_ok (X + refs l) s m1 e s2 m2"
  shows "r = Inl e \<Longrightarrow> heap m' = heap m \<and> fault m' = fault m"
    "r = Inr s2 \<Longrightarrow> \<exists>s m1. stage_copy h (l, m) = Some (s, m1) \<and> action (s, m1) = (None, s2, m') \<and>
       op_ok (X + refs l) s m1 None s2 m' \<and> (\<forall>q. q \<in># X + refs l \<longrightarrow> attrs m' q = attrs m q)"
proof -
  have "(case r of Inl e \<Rightarrow> heap m' = heap m \<and> fault m' = fault m
    | Inr s2 \<Rightarrow> \<exists>s m1. stage_copy h (l, m) = Some (s, m1) \<and> action (s, m1) = (None, s2, m') \<and>
       op_ok (X + refs l) s m1 None s2 m' \<and> (\<forall>q. q \<in># X + refs l \<longrightarrow> attrs m' q = attrs m q))"
  proof (cases "plan_ok h")
    case False
    with p show ?thesis by (auto simp: prepare_with_def)
  next
    case pk: True
    show ?thesis
    proof (cases "stage_copy h (l, m)")
      case None
      with p pk show ?thesis
        by (auto simp: prepare_with_def vma_abort_def vma_destroy_def vma_init_def put_all_def free_current_def)
    next
      case (Some sm)
      obtain s m1 where sm: "sm = (s, m1)" by (metis prod.exhaust)
      obtain e s2 m2 where a: "action (s, m1) = (e, s2, m2)" by (metis prod_cases3)
      note sc = stage_copy_ok [OF l Some [unfolded sm]]
      note ao = act [OF Some [unfolded sm] a]
      from ao sc(5) have at: "\<And>q. q \<in># X + refs l \<Longrightarrow> attrs m2 q = attrs m q" by (auto simp: op_ok_def)
      show ?thesis
      proof (cases e)
        case None
        with p pk Some sm a ao at show ?thesis by (auto simp: prepare_with_def)
      next
        case e: (Some er)
        with p pk Some sm a have "r = Inl er" "m' = vma_abort s2 m2" by (auto simp: prepare_with_def)
        with vma_abort_ok [OF l _ at] ao show ?thesis by (simp add: op_ok_def)
      qed
    qed
  qed
  then show "r = Inl e \<Longrightarrow> heap m' = heap m \<and> fault m' = fault m"
    "r = Inr s2 \<Longrightarrow> \<exists>s m1. stage_copy h (l, m) = Some (s, m1) \<and> action (s, m1) = (None, s2, m') \<and>
       op_ok (X + refs l) s m1 None s2 m' \<and> (\<forall>q. q \<in># X + refs l \<longrightarrow> attrs m' q = attrs m q)" by auto
qed

lemma vma_commit_ok:
  assumes l: "even (unat (generation l))" and s: "ledger_ok (X + refs l) s m" and c: "vma_commit s (l, m) = (l', m')"
  shows "ledger_ok X l' m'" "published s m \<Longrightarrow> published l' m'" "entries l' = entries s"
    "canonical (backing ` set (entries s)) m \<Longrightarrow> canonical (backing ` set (entries l')) m'"
    "sees (mset (entries l')) m' a x = sees (mset (entries s)) m a x"
    "generation l' = generation l + 2" "q \<in># X \<Longrightarrow> attrs m' q = attrs m q"
proof -
  from c have l': "entries l' = entries s" "capacity l' = capacity s" "current l' = current s"
    "generation l' = generation l + 2" and m': "m' = put_all (entries l) m"
    and rt: "retired l' = rev (retired s) @ (case current l of None \<Rightarrow> retired l | Some old \<Rightarrow> old # retired l)"
    by (auto simp: vma_commit_def)
  have rv: "(\<Sum>x\<leftarrow>rev xs. f x) = (\<Sum>x\<leftarrow>xs. f x)" for f :: "vma_snapshot \<Rightarrow> nat multiset" and xs
    by (induction xs) (simp_all add: ac_simps)
  have h: "held l' = held s + held l"
    by (simp add: held_def l' rt rv ac_simps split: option.split)
  let ?Y = "X + held l + refs s"
  have "counted (?Y + image_mset backing (mset (entries l))) m"
    using ledger_ok_counted [OF s] by (simp add: refs_def ac_simps)
  from put_all_ok [OF this, folded m'] have ct: "counted ?Y m'"
    and at: "\<And>q. q \<in># ?Y \<Longrightarrow> attrs m' q = attrs m q" by auto
  show "entries l' = entries s" "generation l' = generation l + 2" by (fact l')+
  show "attrs m' q = attrs m q" if "q \<in># X" using at that by simp
  have "ledger_ok (X + held l) s m'"
    using ledger_ok_elsewhere(1) [OF s _ at] ct by simp
  then show "ledger_ok X l' m'"
    using l by (simp add: ledger_ok_def l' h room_def even_add_2 ac_simps)
  note el = ledger_ok_elsewhere [OF s ct at]
  have "published l' m' = published s m'" by (cases "current s") (simp_all add: published_def l')
  with el(2) show "published s m \<Longrightarrow> published l' m'" by simp
  show "canonical (backing ` set (entries s)) m \<Longrightarrow> canonical (backing ` set (entries l')) m'"
    using el(3) by (simp add: l')
  show "sees (mset (entries l')) m' a x = sees (mset (entries s)) m a x" using el(4) by (simp add: l')
qed

end
