(* ===== verification/Vma_World.thy ===== *)
theory Vma_World
  imports Vma_Transactions
begin

text \<open>
  The ledger of a process as a state machine: every operation, with the pins in flight and the plan under
  way, is a step of \<open>vma_step\<close>, and every step keeps \<open>vma_inv\<close>.
\<close>

section \<open>Reclaiming and resetting\<close>

lemma vma_reclaim_ok:
  assumes "ledger_ok X l m" "vma_reclaim (l, m) = (l', m')"
  shows "ledger_ok X l' m'" "published l m \<Longrightarrow> published l' m'" "entries l' = entries l" "retired l' = []"
    "q \<in># X + image_mset backing (mset (entries l)) \<Longrightarrow> attrs m' q = attrs m q"
proof -
  let ?c = "case current l of None \<Rightarrow> {#} | Some s \<Rightarrow> mset (backings s)"
  let ?Y = "X + ?c + image_mset backing (mset (entries l))"
  from assms(2) have l': "l' = l\<lparr>retired := []\<rparr>" and m': "m' = fold snapshot_free (retired l) m"
    by (auto simp: vma_reclaim_def)
  have "counted (?Y + (\<Sum>s\<leftarrow>retired l. mset (backings s))) m"
    using ledger_ok_counted [OF assms(1)] by (simp add: refs_def held_def ac_simps)
  from backings.put_folds [OF this] have f: "counted ?Y m'" "\<And>q. q \<in># ?Y \<Longrightarrow> attrs m' q = attrs m q"
    unfolding m' snapshot_free_folds by auto
  have h: "held l' = ?c" by (simp add: held_def l')
  have at: "attrs m' (backing e) = attrs m (backing e)" if "e \<in> set (entries l)" for e
    using f(2) that by simp
  have "e_ok m' e" if "e \<in> set (entries l)" for e
    using okD(2) [OF ledger_okD(1) [OF assms(1)], of e] at [OF that] that by (auto intro: e_ok_attrs)
  moreover have "counted (X + held l' + image_mset backing (mset (entries l))) m'"
    using f(1) unfolding h by (simp add: ac_simps)
  ultimately show "ledger_ok X l' m'"
    using assms(1) by (auto simp: ledger_ok_def ok_def room_def l')
  have vw: "map (view_of m') (entries l) = map (view_of m) (entries l)"
    using at by (auto intro!: view_of_attrs)
  have "published l' m' = published l m'" by (cases "current l") (simp_all add: published_def l')
  moreover have "published l m' = published l m" by (simp only: published_def vw)
  ultimately show "published l m \<Longrightarrow> published l' m'" by simp
  show "entries l' = entries l" "retired l' = []" by (simp_all add: l')
  show "q \<in># X + image_mset backing (mset (entries l)) \<Longrightarrow> attrs m' q = attrs m q" using f(2) by auto
qed

lemma global_reset_ok:
  assumes "ledger_ok X l m" "global_reset h (l, m) = Some (l', m')"
  shows "ledger_ok X l' m'" "published l' m'" "entries l' = []" "refs l' = {#}"
    "q \<in># X \<Longrightarrow> attrs m' q = attrs m q"
proof -
  let ?l = "l\<lparr>entries := []\<rparr>" let ?m = "put_all (entries l) m"
  from assms(2) obtain cap l1 m1 where p: "publish_locked cap ?l ?m = (l1, m1)" and r: "vma_reclaim (l1, m1) = (l', m')"
    unfolding global_reset_def by (cases "snapshot_allocate h 0"; cases "publish_locked (the (snapshot_allocate h 0)) ?l ?m") auto
  have "counted ((X + held l) + image_mset backing (mset (entries l))) m"
    using okD(1) [OF ledger_okD(1) [OF assms(1)]] .
  from put_all_ok [OF this] have c: "counted (X + held l) ?m" "\<And>q. q \<in># X + held l \<Longrightarrow> attrs ?m q = attrs m q" by auto
  have h: "held ?l = held l" by (simp add: held_def)
  have "ok (X + held ?l) (mset (entries ?l)) ?m" using c(1) h by (simp add: ok_def disjoint_def)
  then have pk: "ledger_ok X l1 m1" "published l1 m1" "entries l1 = []"
    "kept (X + held ?l) (mset (entries ?l)) ?m (mset (entries l1)) m1"
    using publish_ok [OF _ _ _ _ p, of X] ledger_okD [OF assms(1)] by (auto simp: room_def)
  have cur: "\<exists>s. current l1 = Some s \<and> backings s = []" using p by (auto simp: publish_locked_def Let_def)
  note rk = vma_reclaim_ok [OF pk(1) r]
  show "ledger_ok X l' m'" "published l' m'" "entries l' = []" using rk pk by auto
  have "current l' = current l1" using r by (auto simp: vma_reclaim_def)
  with cur rk(4) \<open>entries l' = []\<close> show "refs l' = {#}" by (auto simp: refs_def held_def)
  assume q: "q \<in># X"
  with rk(5) [of q] have "attrs m' q = attrs m1 q" by simp
  also have "attrs m1 q = attrs ?m q" using pk(4) q by (simp add: kept_def)
  also have "\<dots> = attrs m q" using c(2) q by simp
  finally show "attrs m' q = attrs m q" .
qed

section \<open>The ledger of a process\<close>

text \<open>The pins held by system calls in flight, and the plan under way, if any: whether its last action
  succeeded, and its staged ledger.\<close>

record vma_world =
  ledger :: vma_ledger
  memory :: vma_mem
  pins :: "nat multiset"
  plan :: "(bool \<times> vma_ledger) option"

definition vma_inv :: "vma_world \<Rightarrow> bool" where
  "vma_inv w \<longleftrightarrow>
    ledger_ok (pins w + (case plan w of None \<Rightarrow> {#} | Some (_, s) \<Rightarrow> refs s)) (ledger w) (memory w) \<and>
    published (ledger w) (memory w) \<and> canonical (backing ` set (entries (ledger w))) (memory w) \<and>
    (case plan w of
       None \<Rightarrow> True
     | Some (good, s) \<Rightarrow> ledger_ok (pins w + refs (ledger w)) s (memory w) \<and>
         canonical (backing ` set (entries s)) (memory w) \<and> (good \<longrightarrow> published s (memory w)))"

text \<open>No entry properly contains the range on both sides.\<close>

definition not_inside :: "u64 \<Rightarrow> u64 \<Rightarrow> vma_ledger \<Rightarrow> bool" where
  "not_inside gfirst len l \<longleftrightarrow> filter (strict gfirst (gfirst + len)) (entries l) = []"

inductive vma_step :: "vma_world \<Rightarrow> vma_world \<Rightarrow> bool" where
  map_shared: "plan w = None \<Longrightarrow> host_ok h (memory w) \<Longrightarrow>
    map_shared h gfirst len prot fd offset host_page (ledger w, memory w) = (r, l', m') \<Longrightarrow>
    vma_step w (w\<lparr>ledger := l', memory := m'\<rparr>)"
| map_direct: "plan w = None \<Longrightarrow> host_ok h (memory w) \<Longrightarrow> not_inside gfirst len (ledger w) \<Longrightarrow>
    map_direct h gfirst len prot hfirst (ledger w, memory w) = (r, l', m') \<Longrightarrow>
    vma_step w (w\<lparr>ledger := l', memory := m'\<rparr>)"
| unmap: "plan w = None \<Longrightarrow> vma_unmap h gfirst len (ledger w, memory w) = (r, l', m') \<Longrightarrow>
    vma_step w (w\<lparr>ledger := l', memory := m'\<rparr>)"
| protect: "plan w = None \<Longrightarrow> vma_protect h gfirst len prot (ledger w, memory w) = (r, l', m') \<Longrightarrow>
    vma_step w (w\<lparr>ledger := l', memory := m'\<rparr>)"
| reclaim: "plan w = None \<Longrightarrow> vma_reclaim (ledger w, memory w) = (l', m') \<Longrightarrow>
    vma_step w (w\<lparr>ledger := l', memory := m'\<rparr>)"
| reset: "plan w = None \<Longrightarrow> global_reset h (ledger w, memory w) = Some (l', m') \<Longrightarrow>
    vma_step w (w\<lparr>ledger := l', memory := m'\<rparr>)"
| pin: "plan w = None \<Longrightarrow> pin_data a len required (ledger w, memory w) = (Inr (b, p), m') \<Longrightarrow>
    vma_step w (w\<lparr>memory := m', pins := (case token p of None \<Rightarrow> pins w | Some t \<Rightarrow> add_mset t (pins w))\<rparr>)"
| unpin: "plan w = None \<Longrightarrow> token p = Some t \<Longrightarrow> t \<in># pins w \<Longrightarrow>
    vma_step w (w\<lparr>memory := unpin p (memory w), pins := pins w - {#t#}\<rparr>)"
| prepare_shared: "plan w = None \<Longrightarrow> host_ok h (memory w) \<Longrightarrow>
    prepare_shared h f gfirst len prot fd offset host_page (ledger w, memory w) = (Inr s, m') \<Longrightarrow>
    vma_step w (w\<lparr>memory := m', plan := Some (True, s)\<rparr>)"
| prepare_protect: "plan w = None \<Longrightarrow> prepare_protect h gfirst len prot (ledger w, memory w) = (Inr s, m') \<Longrightarrow>
    vma_step w (w\<lparr>memory := m', plan := Some (True, s)\<rparr>)"
| plan_protect: "plan w = Some (True, s) \<Longrightarrow> vma_protect h gfirst len prot (s, memory w) = (r, s', m') \<Longrightarrow>
    vma_step w (w\<lparr>memory := m', plan := Some (r = None, s')\<rparr>)"
| plan_direct: "plan w = Some (True, s) \<Longrightarrow> host_ok h (memory w) \<Longrightarrow> not_inside gfirst len s \<Longrightarrow>
    map_direct h gfirst len prot hfirst (s, memory w) = (r, s', m') \<Longrightarrow>
    vma_step w (w\<lparr>memory := m', plan := Some (r = None, s')\<rparr>)"
| commit: "plan w = Some (True, s) \<Longrightarrow> vma_commit s (ledger w, memory w) = (l', m') \<Longrightarrow>
    vma_step w (w\<lparr>ledger := l', memory := m', plan := None\<rparr>)"
| abort: "plan w = Some (g, s) \<Longrightarrow>
    vma_step w (w\<lparr>memory := vma_abort s (memory w), plan := None\<rparr>)"

inductive_cases vma_stepE: "vma_step w w'"

lemma op_ok_keeps:
  assumes "op_ok X l m r l' m'" "published l m" "canonical (backing ` set (entries l)) m"
    "r = None \<Longrightarrow> canonical (backing ` set (entries l')) m'"
  shows "ledger_ok X l' m'" "published l' m'" "canonical (backing ` set (entries l')) m'"
proof -
  show "ledger_ok X l' m'" using assms(1) by (simp add: op_ok_def)
  have same: "published l' m' \<and> canonical (backing ` set (entries l')) m'" if "r \<noteq> None"
  proof -
    from assms(1) that have e: "entries l' = entries l" "current l' = current l" "heap m' = heap m"
      by (auto simp: op_ok_def)
    then have v: "attrs m' = attrs m" "view_of m' = view_of m"
      by (auto simp: attrs_def view_of_def host_first_def fun_eq_iff)
    have "published l' m' = published l m" by (simp only: published_def e v)
    with e v assms(2,3) show ?thesis by (simp add: canonical_def)
  qed
  with assms(1,4) show "published l' m'" "canonical (backing ` set (entries l')) m'"
    by (cases r; auto simp: op_ok_def)+
qed

lemma canonical_kept:
  assumes "kept X M m M' m'" "canonical (backing ` set_mset M) m"
  shows "canonical (backing ` set_mset M') m'"
  using assms(2) by (rule canonical_mono) (use assms(1) in \<open>auto simp: kept_def\<close>)

lemma canonical_direct:
  assumes "canonical B m" "\<And>q. q \<in> B' \<Longrightarrow> q \<in> B \<and> attrs m' q = attrs m q \<or>
    (\<exists>b. attrs m' q = Some b \<and> borrowed b \<and> device b = 0 \<and> inode b = 0)"
  shows "canonical B' m'"
  unfolding canonical_def
proof (intro conjI ballI allI impI)
  fix p b assume "p \<in> B'" "attrs m' p = Some b" "borrowed b"
  with assms(2) [of p] assms(1) show "device b = 0" "inode b = 0" unfolding canonical_def by auto
next
  fix p q b c
  assume *: "p \<in> B'" "q \<in> B'" "attrs m' p = Some b" "attrs m' q = Some c" "\<not> borrowed b" "\<not> borrowed c"
    "device b = device c" "inode b = inode c" "p \<noteq> q"
  then have "p \<in> B" "q \<in> B" "attrs m p = Some b" "attrs m q = Some c" using assms(2) [of p] assms(2) [of q] by auto
  from canonicalD [OF assms(1) this *(5-9)]
  show "file_offset b + blen b < file_offset c \<or> file_offset c + blen c < file_offset b" .
qed

text \<open>Each operation, on a ledger in its state.\<close>

lemmas unmap_keeps = op_ok_keeps [OF vma_unmap_ok(1)]

lemma vma_unmap_nothing: "vma_unmap h gfirst 0 (l, m) = (r, l', m') \<Longrightarrow> l' = l \<and> m' = m"
  by (auto simp: vma_unmap_def split: if_splits)

lemma ledger_ops_keep:
  assumes l: "ledger_ok X l m" "published l m" "canonical (backing ` set (entries l)) m"
  shows "host_ok h m \<Longrightarrow> map_shared h gfirst len prot fd offset host_page (l, m) = (r, l', m') \<Longrightarrow>
      ledger_ok X l' m' \<and> published l' m' \<and> canonical (backing ` set (entries l')) m'"
    "vma_unmap h gfirst len (l, m) = (r, l', m') \<Longrightarrow>
      ledger_ok X l' m' \<and> published l' m' \<and> canonical (backing ` set (entries l')) m'"
proof -
  show "ledger_ok X l' m' \<and> published l' m' \<and> canonical (backing ` set (entries l')) m'"
    if "host_ok h m" "map_shared h gfirst len prot fd offset host_page (l, m) = (r, l', m')"
    using op_ok_keeps [OF map_shared_ok(1) [OF l(1,3) that] l(2,3)] map_shared_ok(2) [OF l(1,3) that]
    by (auto simp: shared_result_def)
  assume u: "vma_unmap h gfirst len (l, m) = (r, l', m')"
  show "ledger_ok X l' m' \<and> published l' m' \<and> canonical (backing ` set (entries l')) m'"
  proof (cases "len = 0")
    case True
    with u l vma_unmap_nothing show ?thesis by blast
  next
    case False
    note uk = vma_unmap_ok [OF l(1) u False]
    have "r = None \<Longrightarrow> canonical (backing ` set (entries l')) m'"
      using canonical_kept [OF uk(3)] l(3) by simp
    from op_ok_keeps [OF uk(1) l(2,3) this] show ?thesis by blast
  qed
qed

lemma protect_keeps:
  assumes l: "ledger_ok X l m" "canonical (backing ` set (entries l)) m"
    and p: "vma_protect h gfirst len prot (l, m) = (r, l', m')"
  shows "ledger_ok X l' m' \<and> canonical (backing ` set (entries l')) m' \<and>
    (published l m \<or> r = None \<longrightarrow> published l' m') \<and> (\<forall>q. q \<in># X \<longrightarrow> attrs m' q = attrs m q)"
proof -
  note pk = vma_protect_ok [OF l(1) p]
  have "r = None \<Longrightarrow> canonical (backing ` set (entries l')) m'"
    using canonical_kept [OF pk(3)] l(2) by simp
  moreover have "r \<noteq> None \<Longrightarrow> canonical (backing ` set (entries l')) m'"
    using pk(1) l(2) by (simp add: op_ok_def canonical_def attrs_def)
  moreover have "published l m \<Longrightarrow> published l' m'"
    using op_ok_keeps(2) [OF pk(1) _ l(2)] calculation(1) by blast
  ultimately show ?thesis using pk(1) by (auto simp: op_ok_def)
qed

lemma direct_keeps:
  assumes l: "ledger_ok X l m" "canonical (backing ` set (entries l)) m" and h: "host_ok h m"
    and n: "not_inside gfirst len l" and d: "map_direct h gfirst len prot hfirst (l, m) = (r, l', m')"
  shows "ledger_ok X l' m' \<and> canonical (backing ` set (entries l')) m' \<and>
    (published l m \<or> r = None \<longrightarrow> published l' m') \<and> (\<forall>q. q \<in># X \<longrightarrow> attrs m' q = attrs m q)"
proof -
  note dk = map_direct_ok [OF l(1) h d n [unfolded not_inside_def]]
  have "r = None \<Longrightarrow> canonical (backing ` set (entries l')) m'"
    by (rule canonical_direct [OF l(2)]) (use dk(3) in blast)
  moreover have "r \<noteq> None \<Longrightarrow> canonical (backing ` set (entries l')) m'"
    using dk(1) l(2) by (simp add: op_ok_def canonical_def attrs_def)
  moreover have "published l m \<Longrightarrow> published l' m'"
    using op_ok_keeps(2) [OF dk(1) _ l(2)] calculation(1) by blast
  ultimately show ?thesis using dk(1) by (auto simp: op_ok_def)
qed

lemma vma_invD:
  assumes "vma_inv w"
  shows "plan w = None \<Longrightarrow> ledger_ok (pins w) (ledger w) (memory w)"
    "plan w = Some (g, s) \<Longrightarrow> ledger_ok (pins w + refs s) (ledger w) (memory w)"
    "plan w = Some (g, s) \<Longrightarrow> ledger_ok (pins w + refs (ledger w)) s (memory w)"
    "plan w = Some (g, s) \<Longrightarrow> canonical (backing ` set (entries s)) (memory w)"
    "plan w = Some (True, s) \<Longrightarrow> published s (memory w)"
    "published (ledger w) (memory w)" "canonical (backing ` set (entries (ledger w))) (memory w)"
  using assms by (auto simp: vma_inv_def)

text \<open>A step of the staged ledger leaves the live one alone.\<close>

lemma staged_step:
  assumes w: "vma_inv w" "plan w = Some (g, s)"
    and s': "ledger_ok (pins w + refs (ledger w)) s' m'" "canonical (backing ` set (entries s')) m'"
      "good \<longrightarrow> published s' m'" "\<And>q. q \<in># pins w + refs (ledger w) \<Longrightarrow> attrs m' q = attrs (memory w) q"
  shows "vma_inv (w\<lparr>memory := m', plan := Some (good, s')\<rparr>)"
proof -
  note v = vma_invD [OF w(1)]
  have "counted ((pins w + refs s') + refs (ledger w)) m'"
    using ledger_ok_counted [OF s'(1)] by (simp add: ac_simps)
  from ledger_ok_elsewhere [OF v(2) [OF w(2)] this] s' v(6,7) show ?thesis
    by (simp add: vma_inv_def)
qed

lemma prepared:
  assumes w: "vma_inv w" "plan w = None"
    and s': "ledger_ok (pins w + refs (ledger w)) s' m'" "canonical (backing ` set (entries s')) m'"
      "published s' m'" "\<And>q. q \<in># pins w + refs (ledger w) \<Longrightarrow> attrs m' q = attrs (memory w) q"
  shows "vma_inv (w\<lparr>memory := m', plan := Some (True, s')\<rparr>)"
proof -
  note v = vma_invD [OF w(1)]
  have "counted ((pins w + refs s') + refs (ledger w)) m'"
    using ledger_ok_counted [OF s'(1)] by (simp add: ac_simps)
  from ledger_ok_elsewhere [OF v(1) [OF w(2)] this] s' v(6,7) show ?thesis
    by (simp add: vma_inv_def)
qed

lemma stage_copy_canonical:
  assumes "ledger_ok X l m" "stage_copy h (l, m) = Some (s, m1)" "canonical (backing ` set (entries l)) m"
  shows "canonical (backing ` set (entries s)) m1"
  using assms(3) by (rule canonical_mono) (use stage_copy_ok [OF assms(1,2)] in \<open>auto simp: refs_def\<close>)

lemma host_ok_staged: "ledger_ok X l m \<Longrightarrow> host_ok h m \<Longrightarrow> stage_copy h (l, m) = Some (s, m1) \<Longrightarrow> host_ok h m1"
proof -
  assume l: "ledger_ok X l m" and h: "host_ok h m" and s: "stage_copy h (l, m) = Some (s, m1)"
  have "heap m1 p = None" if "heap m p = None" for p
  proof -
    have c: "counted (X + refs l) m" using l by (rule ledger_ok_counted)
    with that have z: "count (X + refs l) p = 0" by (auto simp: counted_def dest: rc_ok_None)
    have "counted (X + refs l + refs s) m1" using ledger_ok_counted [OF stage_copy_ok(1) [OF l s]] .
    moreover have "count (refs s) p = 0"
      using z stage_copy_ok(2,3) [OF l s] by (simp add: refs_def)
    ultimately have "heap m1 p = None"
      using z rc_ok_Some [of "X + refs l + refs s" m1 p] by (cases "heap m1 p") (auto simp: counted_def)
    then show ?thesis .
  qed
  with h show ?thesis by (simp add: host_ok_def)
qed

lemma prepare_shared_ok:
  assumes l: "ledger_ok X l m" "canonical (backing ` set (entries l)) m" and h: "host_ok h m"
    and p: "prepare_shared h f gfirst len prot fd offset host_page (l, m) = (r, m')"
  shows "r = Inl e \<Longrightarrow> heap m' = heap m \<and> fault m' = fault m"
    "r = Inr s' \<Longrightarrow> ledger_ok (X + refs l) s' m' \<and> canonical (backing ` set (entries s')) m' \<and> published s' m' \<and>
      (\<forall>q. q \<in># X + refs l \<longrightarrow> attrs m' q = attrs m q) \<and>
      (\<exists>s m1 dev ino. stage_copy h (l, m) = Some (s, m1) \<and> fstat_of h fd = Some (dev, ino) \<and>
         shared_result (X + refs l) s m1 gfirst len prot offset dev ino None s' m')"
proof -
  let ?act = "map_shared h gfirst len prot fd offset host_page"
  have act: "op_ok (X + refs l) s m1 e s2 m2" if "stage_copy h (l, m) = Some (s, m1)" "?act (s, m1) = (e, s2, m2)"
    for s m1 e s2 m2
    using map_shared_ok(1) [OF stage_copy_ok(1) [OF l(1) that(1)] stage_copy_canonical [OF l(1) that(1) l(2)] host_ok_staged [OF l(1) h that(1)] that(2)] .
  show "r = Inl e \<Longrightarrow> heap m' = heap m \<and> fault m' = fault m"
    using p prepare_with_ok(1) [OF l(1), where action = ?act and h = h, OF _ act]
    by (cases f) (auto simp: prepare_shared_def)
  assume r: "r = Inr s'"
  with p have pw: "prepare_with h ?act (l, m) = (Inr s', m')" by (auto simp: prepare_shared_def split: if_splits)
  from prepare_with_ok(2) [OF l(1) pw act refl] obtain s m1 where sm: "stage_copy h (l, m) = Some (s, m1)"
    "?act (s, m1) = (None, s', m')" "op_ok (X + refs l) s m1 None s' m'" "\<forall>q. q \<in># X + refs l \<longrightarrow> attrs m' q = attrs m q"
    by blast
  from map_shared_ok(2) [OF stage_copy_ok(1) [OF l(1) sm(1)] stage_copy_canonical [OF l(1) sm(1) l(2)] host_ok_staged [OF l(1) h sm(1)] sm(2) refl]
  have "\<exists>dev ino. fstat_of h fd = Some (dev, ino) \<and> shared_result (X + refs l) s m1 gfirst len prot offset dev ino None s' m'" .
  with sm show "ledger_ok (X + refs l) s' m' \<and> canonical (backing ` set (entries s')) m' \<and> published s' m' \<and>
      (\<forall>q. q \<in># X + refs l \<longrightarrow> attrs m' q = attrs m q) \<and>
      (\<exists>s m1 dev ino. stage_copy h (l, m) = Some (s, m1) \<and> fstat_of h fd = Some (dev, ino) \<and>
         shared_result (X + refs l) s m1 gfirst len prot offset dev ino None s' m')"
    by (auto simp: shared_result_def op_ok_def)
qed

lemma prepare_protect_ok:
  assumes l: "ledger_ok X l m" "canonical (backing ` set (entries l)) m"
    and p: "prepare_protect h gfirst len prot (l, m) = (r, m')"
  shows "r = Inl e \<Longrightarrow> heap m' = heap m \<and> fault m' = fault m"
    "r = Inr s' \<Longrightarrow> ledger_ok (X + refs l) s' m' \<and> canonical (backing ` set (entries s')) m' \<and> published s' m' \<and>
      (\<forall>q. q \<in># X + refs l \<longrightarrow> attrs m' q = attrs m q)"
proof -
  let ?act = "vma_protect h gfirst len prot"
  have act: "op_ok (X + refs l) s m1 e s2 m2" if "stage_copy h (l, m) = Some (s, m1)" "?act (s, m1) = (e, s2, m2)"
    for s m1 e s2 m2
    using vma_protect_ok(1) [OF stage_copy_ok(1) [OF l(1) that(1)] that(2)] .
  have pw: "prepare_with h ?act (l, m) = (r, m')" using p by (simp add: prepare_protect_def)
  show "r = Inl e \<Longrightarrow> heap m' = heap m \<and> fault m' = fault m"
    using prepare_with_ok(1) [OF l(1) pw act] by blast
  assume r: "r = Inr s'"
  from prepare_with_ok(2) [OF l(1) pw act r] obtain s m1 where sm: "stage_copy h (l, m) = Some (s, m1)"
    "?act (s, m1) = (None, s', m')" "op_ok (X + refs l) s m1 None s' m'" "\<forall>q. q \<in># X + refs l \<longrightarrow> attrs m' q = attrs m q"
    by blast
  from protect_keeps [OF stage_copy_ok(1) [OF l(1) sm(1)] stage_copy_canonical [OF l(1) sm(1) l(2)] sm(2)] sm(4)
  show "ledger_ok (X + refs l) s' m' \<and> canonical (backing ` set (entries s')) m' \<and> published s' m' \<and>
      (\<forall>q. q \<in># X + refs l \<longrightarrow> attrs m' q = attrs m q)" by simp
qed

lemma ledger_pin:
  assumes "ledger_ok X l m" "p \<in># X + refs l"
  shows "ledger_ok (add_mset p X) l (backing_get p m)" "published l m \<Longrightarrow> published l (backing_get p m)"
    "canonical (backing ` set (entries l)) m \<Longrightarrow> canonical (backing ` set (entries l)) (backing_get p m)"
proof -
  note c = ledger_ok_counted [OF assms(1)]
  have g: "counted (add_mset p X + refs l) (backing_get p m)" using backings.get_counted [OF c assms(2)] by simp
  note el = ledger_ok_elsewhere [OF assms(1) g backings.get_content [OF c assms(2)]]
  show "ledger_ok (add_mset p X) l (backing_get p m)" "published l m \<Longrightarrow> published l (backing_get p m)"
    "canonical (backing ` set (entries l)) m \<Longrightarrow> canonical (backing ` set (entries l)) (backing_get p m)"
    using el by auto
qed

lemma pin_data_cases:
  assumes "pin_data a len required (l, m) = (Inr (b, p), m')"
  shows "b \<Longrightarrow> \<exists>e \<in> set (entries l). covers a e \<and> token p = Some (backing e) \<and> m' = backing_get (backing e) m \<and>
      p_host p = host_first m e + (a - guest_first e) \<and> protection e AND required = required \<and>
      p_contiguous p = min len (guest_last e - a)"
    "\<not> b \<Longrightarrow> token p = None \<and> m' = m \<and> p_host p = a \<and> (\<forall>e \<in> set (entries l). \<not> covers a e)"
  using assms
  by (auto simp: pin_data_def Let_def min_def split: if_splits option.splits dest: entry_at_SomeD entry_at_None [THEN iffD1])

lemma vma_step_inv:
  assumes "vma_step w w'" "vma_inv w"
  shows "vma_inv w'"
  using assms
proof (cases rule: vma_step.cases)
  case (map_shared h gfirst len prot fd offset host_page r l' m')
  with ledger_ops_keep(1) [OF vma_invD(1,6,7) [OF assms(2)]] show ?thesis by (auto simp: vma_inv_def)
next
  case (map_direct h gfirst len prot hfirst r l' m')
  with direct_keeps [OF vma_invD(1,7) [OF assms(2)]] vma_invD(6) [OF assms(2)] show ?thesis
    by (auto simp: vma_inv_def)
next
  case (unmap h gfirst len r l' m')
  with ledger_ops_keep(2) [OF vma_invD(1,6,7) [OF assms(2)]] show ?thesis by (auto simp: vma_inv_def)
next
  case (protect h gfirst len prot r l' m')
  with protect_keeps [OF vma_invD(1,7) [OF assms(2)]] vma_invD(6) [OF assms(2)] show ?thesis
    by (auto simp: vma_inv_def)
next
  case (reclaim l' m')
  note v = vma_invD [OF assms(2)]
  note rk = vma_reclaim_ok [OF v(1) [OF reclaim(2)] reclaim(3)]
  have "canonical (backing ` set (entries l')) m'"
    using v(7) by (rule canonical_mono) (use rk in auto)
  with rk v(6) reclaim show ?thesis by (simp add: vma_inv_def)
next
  case (reset h l' m')
  note rk = global_reset_ok [OF vma_invD(1) [OF assms(2) reset(2)] reset(3)]
  with reset show ?thesis by (simp add: vma_inv_def canonical_def)
next
  case (pin a len required b p m')
  note v = vma_invD [OF assms(2)]
  show ?thesis
  proof (cases b)
    case True
    from pin_data_cases(1) [OF pin(3) True] obtain e where e: "e \<in> set (entries (ledger w))" "token p = Some (backing e)"
      "m' = backing_get (backing e) (memory w)" by auto
    then have "backing e \<in># pins w + refs (ledger w)" by (auto simp: refs_def)
    from ledger_pin [OF v(1) [OF pin(2)] this] v(6,7) e pin(1,2) show ?thesis by (simp add: vma_inv_def)
  next
    case False
    with pin_data_cases(2) [OF pin(3)] pin(1,2) assms(2) show ?thesis by (simp add: vma_inv_def)
  qed
next
  case (unpin p t)
  note v = vma_invD [OF assms(2)]
  have "ledger_ok (add_mset t (pins w - {#t#})) (ledger w) (memory w)" using v(1) unpin by simp
  note d = ledger_drop [OF this]
  have "canonical (backing ` set (entries (ledger w))) (backing_put t (memory w))"
    using canonical_kept [OF d(3)] v(7) by simp
  with d v(6) unpin show ?thesis by (simp add: vma_inv_def unpin_def)
next
  case (prepare_shared h f gfirst len prot fd offset host_page s m')
  note v = vma_invD [OF assms(2)]
  note ps = prepare_shared_ok(2) [OF v(1) [OF prepare_shared(2)] v(7) prepare_shared(3,4) refl]
  from prepared [OF assms(2) prepare_shared(2)] ps show ?thesis unfolding prepare_shared(1) by blast
next
  case (prepare_protect h gfirst len prot s m')
  note v = vma_invD [OF assms(2)]
  note ps = prepare_protect_ok(2) [OF v(1) [OF prepare_protect(2)] v(7) prepare_protect(3) refl]
  from prepared [OF assms(2) prepare_protect(2)] ps show ?thesis unfolding prepare_protect(1) by blast
next
  case (plan_protect s h gfirst len prot r s' m')
  note v = vma_invD [OF assms(2)]
  note pk = protect_keeps [OF v(3,4) [OF plan_protect(2)] plan_protect(3)]
  from pk v(5) [OF plan_protect(2)] show ?thesis
    unfolding plan_protect(1) by (intro staged_step [OF assms(2) plan_protect(2)]) auto
next
  case (plan_direct s h gfirst len hfirst prot r s' m')
  note v = vma_invD [OF assms(2)]
  note pk = direct_keeps [OF v(3,4) [OF plan_direct(2)] plan_direct(3,4,5)]
  from pk v(5) [OF plan_direct(2)] show ?thesis
    unfolding plan_direct(1) by (intro staged_step [OF assms(2) plan_direct(2)]) auto
next
  case (commit s l' m')
  note v = vma_invD [OF assms(2)]
  have "even (unat (generation (ledger w)))" using ledger_okD(3) [OF v(2) [OF commit(2)]] .
  note ck = vma_commit_ok [OF this v(3) [OF commit(2)] commit(3)]
  from ck(1,2,4) v(4,5) [OF commit(2)] commit(1) show ?thesis by (simp add: vma_inv_def)
next
  case (abort g s)
  note v = vma_invD [OF assms(2)]
  obtain s' m' where d: "vma_destroy (s, memory w) = (s', m')" by (metis prod.exhaust)
  note dk = vma_destroy_ok(1) [OF ledger_ok_counted [OF v(3) [OF abort(2)]] d]
  then have c: "counted (pins w + refs (ledger w)) m'" and
    at: "\<And>q. q \<in># refs (ledger w) \<Longrightarrow> attrs m' q = attrs (memory w) q" by auto
  from ledger_ok_elsewhere [OF v(2) [OF abort(2)] c at] v(6,7) abort(1) d show ?thesis
    by (simp add: vma_inv_def vma_abort_def)
qed

end
