(* ===== verification/Vma_Safety.thy ===== *)
theory Vma_Safety
  imports Vma_World
begin

text \<open>
  Properties of the ledger in every reachable state: memory safety, coherence of aliases, the exact effect
  of each mapping operation, and the overflow of a direct mapping inside an existing entry.
\<close>

section \<open>How many entries an unmapping leaves\<close>

definition inside :: "u64 \<Rightarrow> u64 \<Rightarrow> vma_entry \<Rightarrow> bool" where
  "inside lo hi e \<longleftrightarrow> overlaps lo hi e \<and> lo \<le> guest_first e \<and> guest_last e \<le> hi"

lemma not_overlaps_plain: "\<not> overlaps lo hi e \<Longrightarrow> lo \<le> hi \<Longrightarrow> \<not> inside lo hi e \<and> \<not> strict lo hi e"
  by (auto simp: inside_def strict_def overlaps_def)

lemma unmap_from_length:
  assumes "unmap_from h lo hi i (l, m) = (True, l', m')" "lo \<le> hi"
    "\<forall>j < min i (length (entries l)). \<not> overlaps lo hi (entries l ! j)"
  shows "length (entries l') + length (filter (inside lo hi) (entries l)) =
    length (entries l) + length (filter (strict lo hi) (entries l))"
  using assms
proof (induction h lo hi i "(l, m)" arbitrary: l m rule: unmap_from.induct)
  case (1 h lo hi i l m)
  let ?es = "entries l" let ?e = "?es ! i" let ?R = "mset (swap_remove i ?es)"
  let ?n = "\<lambda>es. length (filter (inside lo hi) es)" let ?s = "\<lambda>es. length (filter (strict lo hi) es)"
  show ?case
  proof (cases "i < length ?es")
    case False
    with "1.prems" have "\<forall>e \<in> set ?es. \<not> overlaps lo hi e" by (auto simp: in_set_conv_nth)
    then have "?n ?es = 0" "?s ?es = 0" using "1.prems"(2) not_overlaps_plain by (auto simp: filter_empty_conv)
    with False "1.prems"(1) show ?thesis by (simp add: unmap_from_done)
  next
    case i: True
    have ms: "mset ?es = add_mset ?e ?R" using i by (rule mset_swap_remove)
    have up: "mset (?es[i := y]) = add_mset y ?R" for y using i ms by (rule mset_update_nth)
    have nov: "j < i \<Longrightarrow> \<not> overlaps lo hi (?es ! j)" for j using "1.prems"(3) i by simp
    consider (skip) "\<not> overlaps lo hi ?e"
      | (drop) "overlaps lo hi ?e" "lo \<le> guest_first ?e \<and> hi \<ge> guest_last ?e"
      | (split) "overlaps lo hi ?e" "strict lo hi ?e"
      | (tail) "overlaps lo hi ?e" "lo \<le> guest_first ?e" "\<not> hi \<ge> guest_last ?e"
      | (head) "overlaps lo hi ?e" "\<not> lo \<le> guest_first ?e" "\<not> hi < guest_last ?e"
      by (cases "overlaps lo hi ?e"; cases "lo \<le> guest_first ?e"; cases "hi \<ge> guest_last ?e")
         (auto simp: strict_def not_le)
    then show ?thesis
    proof cases
      case skip
      have "unmap_from h lo hi (Suc i) (l, m) = (True, l', m')"
        using "1.prems"(1) i skip by (simp add: unmap_from_skip)
      with "1.hyps"(1) [OF i refl skip] "1.prems" skip nov show ?thesis by (auto simp: less_Suc_eq)
    next
      case drop
      let ?l = "l\<lparr>entries := swap_remove i ?es\<rparr>"
      have run: "unmap_from h lo hi i (?l, backing_put (backing ?e) m) = (True, l', m')"
        using "1.prems"(1) i drop by (simp add: unmap_from_drop)
      have novl: "\<forall>j < min i (length (entries ?l)). \<not> overlaps lo hi (entries ?l ! j)"
        using nov i by (auto simp: nth_swap_remove)
      have "length (entries l') + ?n (entries ?l) = length (entries ?l) + ?s (entries ?l)"
        by (rule "1.hyps"(2) [OF i refl _ drop(2) run "1.prems"(2) novl]) (simp add: drop(1))
      moreover have "?n ?es = Suc (?n (entries ?l))" "?s ?es = ?s (entries ?l)"
        unfolding strict_count_mset ms using drop by (auto simp: inside_def strict_def)
      moreover have "length ?es = Suc (length (entries ?l))" using i by simp
      ultimately show ?thesis by linarith
    next
      case split
      from "1.prems"(1) i split obtain l1 where g: "grow h l (length ?es + 1) = Some l1"
        by (auto simp: unmap_from_split split: option.splits)
      let ?l = "l1\<lparr>entries := ?es[i := ?e\<lparr>guest_last := lo\<rparr>] @ [tail_from hi ?e]\<rparr>"
      let ?m = "if length ?es < capacity l1 then backing_get (backing ?e) m else (backing_get (backing ?e) m)\<lparr>fault := True\<rparr>"
      have ap: "append_entry (tail_from hi ?e)
          (l1\<lparr>entries := (entries l1)[i := ?e\<lparr>guest_last := lo\<rparr>]\<rparr>, backing_get (backing ?e) m) = (?l, ?m)"
        using grow_ok(1) [OF g] by (simp add: append_entry_def)
      have run: "unmap_from h lo hi (Suc i) (?l, ?m) = (True, l', m')"
        using "1.prems"(1) i split g ap by (simp add: unmap_from_split)
      have novl: "\<forall>j < min (Suc i) (length (entries ?l)). \<not> overlaps lo hi (entries ?l ! j)"
        using nov i by (auto simp: less_Suc_eq nth_append overlaps_def)
      have "length (entries l') + ?n (entries ?l) = length (entries ?l) + ?s (entries ?l)"
        by (rule "1.hyps"(3) [OF i refl _ _ _ g ap run "1.prems"(2) novl]) (use split in \<open>auto simp: strict_def\<close>)
      moreover have "mset (entries ?l) = add_mset (tail_from hi ?e) (add_mset (?e\<lparr>guest_last := lo\<rparr>) ?R)"
        using up by simp
      then have "?n ?es = ?n (entries ?l)" "?s ?es = Suc (?s (entries ?l))"
        unfolding strict_count_mset ms using split "1.prems"(2) by (auto simp: inside_def strict_def overlaps_def)
      moreover have "length (entries ?l) = Suc (length ?es)" by simp
      ultimately show ?thesis by simp
    next
      case tail
      let ?l = "l\<lparr>entries := ?es[i := tail_from hi ?e]\<rparr>"
      have run: "unmap_from h lo hi (Suc i) (?l, m) = (True, l', m')"
        using "1.prems"(1) i tail by (simp add: unmap_from_tail)
      have novl: "\<forall>j < min (Suc i) (length (entries ?l)). \<not> overlaps lo hi (entries ?l ! j)"
        using nov i by (auto simp: less_Suc_eq nth_list_update)
      have "length (entries l') + ?n (entries ?l) = length (entries ?l) + ?s (entries ?l)"
        by (rule "1.hyps"(4) [OF i refl _ _ _ _ run "1.prems"(2) novl]) (use tail in auto)
      moreover have "?n ?es = ?n (entries ?l)" "?s ?es = ?s (entries ?l)"
        unfolding strict_count_mset ms using up [of "tail_from hi ?e"] tail "1.prems"(2)
        by (auto simp: inside_def strict_def overlaps_def)
      ultimately show ?thesis by simp
    next
      case head
      let ?l = "l\<lparr>entries := ?es[i := ?e\<lparr>guest_last := lo\<rparr>]\<rparr>"
      have run: "unmap_from h lo hi (Suc i) (?l, m) = (True, l', m')"
        using "1.prems"(1) i head by (simp add: unmap_from_head)
      have novl: "\<forall>j < min (Suc i) (length (entries ?l)). \<not> overlaps lo hi (entries ?l ! j)"
        using nov i by (auto simp: less_Suc_eq nth_list_update overlaps_def)
      have "length (entries l') + ?n (entries ?l) = length (entries ?l) + ?s (entries ?l)"
        by (rule "1.hyps"(5) [OF i refl _ _ _ _ run "1.prems"(2) novl]) (use head in auto)
      moreover have "?n ?es = ?n (entries ?l)" "?s ?es = ?s (entries ?l)"
        unfolding strict_count_mset ms using up [of "?e\<lparr>guest_last := lo\<rparr>"] head "1.prems"(2)
        by (auto simp: inside_def strict_def overlaps_def)
      ultimately show ?thesis by simp
    qed
  qed
qed

lemma backing_put_fault [simp]: "fault m \<Longrightarrow> fault (backing_put p m)"
  by (auto simp: backing_put_def release_backing_def split: option.split)

section \<open>A small world\<close>

definition start_memory :: vma_mem where
  "start_memory = \<lparr>heap = (\<lambda>_. None), fault = False, unmapped = [], closed_fds = []\<rparr>"

definition start_world :: vma_world where
  "start_world = \<lparr>ledger = vma_init, memory = start_memory, pins = {#}, plan = None\<rparr>"

definition example_host :: "nat \<Rightarrow> vma_host" where
  "example_host p = \<lparr>plan_ok = True, realloc_ok = True, snapshot_ok = True, fstat_of = (\<lambda>_. Some (1, 2)),
     map_file = (\<lambda>_ _ _ _. Some 0x7000000), new_backing = Some p, dup_fd = (\<lambda>_. Some 9)\<rparr>"

definition example_entry :: vma_entry where
  "example_entry = \<lparr>guest_first = 0x10000, guest_last = 0x14000, backing_offset = 0, protection = 3,
     flags = VMA_DIRECT, backing = 0\<rparr>"

definition example_ledger :: vma_ledger where
  "example_ledger = \<lparr>entries = [example_entry], capacity = 8,
     current = Some \<lparr>views = [\<lparr>v_first = 0x10000, v_last = 0x14000, host_delta = 0x8f0000, v_backing = 0,
       v_offset = 0, v_protection = 3, v_flags = VMA_DIRECT\<rparr>], backings = [0]\<rparr>, retired = [], generation = 4\<rparr>"

definition example_memory :: vma_mem where
  "example_memory = start_memory\<lparr>heap := [0 \<mapsto> \<lparr>mapping = 0x900000, blen = 0x4000, references = 2, device = 0,
     inode = 0, file_offset = 0, retained = - 1, writable = False, borrowed = True\<rparr>]\<rparr>"

definition example_world :: vma_world where
  "example_world = \<lparr>ledger = example_ledger, memory = example_memory, pins = {#}, plan = None\<rparr>"

lemma grow_from_init: "realloc_ok h \<Longrightarrow> n \<le> 8 \<Longrightarrow> grow h vma_init n = Some (if n = 0 then vma_init else vma_init\<lparr>capacity := 8\<rparr>)"
  by (auto simp: grow_def vma_init_def grow_capacity.simps [of 8])

lemma example_map:
  "map_direct (example_host 0) 0x10000 0x4000 3 0x900000 (vma_init, start_memory) = (None, example_ledger, example_memory)"
proof -
  have g: "grow (example_host 0) vma_init 1 = Some (vma_init\<lparr>capacity := 8\<rparr>)"
    by (simp add: grow_from_init example_host_def)
  have s: "snapshot_allocate (example_host 0) 1 = Some 1" "new_backing (example_host 0) = Some 0"
    by (simp_all add: snapshot_allocate_def SIZE_MAX_def example_host_def)
  have u: "entries l = [] \<Longrightarrow> unmap_locked h lo hi (l, m) = (True, l, m)" for h lo hi l m
    by (simp add: unmap_locked_def unmap_from_done)
  have e: "length (entries vma_init) + 1 = 1" by (simp add: vma_init_def)
  have i: "install_entry (example_host 0) 1 example_entry (vma_init\<lparr>capacity := 8\<rparr>,
      start_memory\<lparr>heap := (heap start_memory)(0 \<mapsto> \<lparr>mapping = 0x900000, blen = 0x4000, references = 1, device = 0,
        inode = 0, file_offset = 0, retained = - 1, writable = False, borrowed = True\<rparr>)\<rparr>) = (example_ledger, example_memory)"
    unfolding install_entry_def
    by (subst u) (simp_all add: vma_init_def append_entry_def publish_locked_def swap_current_def
        backing_get_def backing_put_def view_of_def host_first_def example_ledger_def example_memory_def
        example_entry_def start_memory_def Let_def fun_eq_iff)
  show ?thesis
    using i unfolding example_entry_def
    by (simp only: map_direct_def prod.case e g s option.case Let_def) simp
qed

lemma start_inv: "vma_inv start_world"
  by (simp add: vma_inv_def start_world_def ledger_ok_def ok_def counted_def rc_ok_def start_memory_def vma_init_def
      held_def disjoint_def room_def published_def canonical_def)

lemma example_step: "vma_step start_world example_world"
proof -
  have h: "host_ok (example_host 0) (memory start_world)"
    by (simp add: host_ok_def example_host_def start_world_def start_memory_def)
  have n: "not_inside 0x10000 0x4000 (ledger start_world)" "plan start_world = None"
    by (simp_all add: not_inside_def start_world_def vma_init_def)
  have "map_direct (example_host 0) 0x10000 0x4000 3 0x900000 (ledger start_world, memory start_world) =
      (None, example_ledger, example_memory)" using example_map by (simp add: start_world_def)
  from vma_step.map_direct [OF n(2) h n(1) this] show ?thesis by (simp add: start_world_def example_world_def)
qed

lemma example_inv: "vma_inv example_world"
  using example_step start_inv by (rule vma_step_inv)

lemma vma_reachable_inv:
  assumes "vma_step\<^sup>*\<^sup>* w w'" "vma_inv w"
  shows "vma_inv w'"
  using assms by (induction rule: rtranclp_induct) (auto intro: vma_step_inv)

definition guest_sees :: "vma_world \<Rightarrow> u64 \<Rightarrow> identity \<times> u32 \<times> u32 \<Rightarrow> bool" where
  "guest_sees w a x \<longleftrightarrow> sees (mset (entries (ledger w))) (memory w) a x"

definition all_refs :: "vma_world \<Rightarrow> nat multiset" where
  "all_refs w = pins w + refs (ledger w) + (case plan w of None \<Rightarrow> {#} | Some (_, s) \<Rightarrow> refs s)"

lemma vma_inv_counted:
  assumes "vma_inv w"
  shows "counted (all_refs w) (memory w)"
proof -
  from assms have "ledger_ok (pins w + (case plan w of None \<Rightarrow> {#} | Some (_, s) \<Rightarrow> refs s)) (ledger w) (memory w)"
    by (simp add: vma_inv_def)
  from ledger_ok_counted [OF this] show ?thesis by (simp add: all_refs_def ac_simps)
qed

section \<open>Properties\<close>



text \<open>Claim C6.  Aliases stay coherent.  In every reachable state two guest addresses that stand for
  the same byte of a file resolve to the same host address, whatever order the overlapping ranges of
  the file were mapped in: they all go through one canonical backing.\<close>

theorem vma_aliases_coherent:
  assumes "vma_step\<^sup>*\<^sup>* start_world w" "plan w = None"
    "guest_sees w a (File dev ino off, p, f)" "guest_sees w a' (File dev ino off, p', f')"
    "resolve (ledger w) a 0 0 = Inr (Some r)" "resolve (ledger w) a' 0 0 = Inr (Some r')"
  shows "r_host r = r_host r'"
proof -
  note v = vma_invD [OF vma_reachable_inv [OF assms(1) start_inv]]
  let ?l = "ledger w" let ?m = "memory w"
  note l = v(1) [OF assms(2)]
  have o: "ok (pins w + held ?l) (mset (entries ?l)) ?m" using ledger_okD(1) [OF l] .
  have look: "\<exists>e b. e \<in> set (entries ?l) \<and> attrs ?m (backing e) = Some b \<and> \<not> borrowed b \<and> device b = dev \<and> inode b = ino \<and>
      file_offset b + (backing_offset e + (x - guest_first e)) = off \<and>
      r_host rx = mapping b + (backing_offset e + (x - guest_first e)) \<and>
      unat (backing_offset e + (x - guest_first e)) < unat (blen b) \<and> unat (file_offset b) + unat (blen b) < 2 ^ 64"
    if s: "guest_sees w x (File dev ino off, q, g)" and r: "resolve ?l x 0 0 = Inr (Some rx)" for x q g rx
  proof -
    from s obtain e where e: "e \<in> set (entries ?l)" "covers x e" "describe ?m (translate e x) = Some (File dev ino off, q, g)"
      by (auto simp: guest_sees_def sees_mset)
    then obtain b where b: "attrs ?m (backing e) = Some b" "ident b (backing_offset e + (x - guest_first e)) = File dev ino off"
      by (auto simp: describe_def translate_def)
    then have f: "\<not> borrowed b" "device b = dev" "inode b = ino"
      "file_offset b + (backing_offset e + (x - guest_first e)) = off"
      by (auto simp: ident_def add.assoc split: if_splits)
    have "\<not> x > - 1 - 0" by (simp add: word_n1_ge not_less)
    from resolve_entries(2) [OF o v(6) this e(1,2), of 0] r have "r_host rx = host_first ?m e + (x - guest_first e)"
      by (auto split: if_splits)
    moreover from b(1) have "host_first ?m e = mapping b + backing_offset e"
      by (auto simp: host_first_def attrs_heap)
    ultimately have rh: "r_host rx = mapping b + (backing_offset e + (x - guest_first e))" by (simp add: add.assoc)
    have ek: "unat (backing_offset e) + unat (guest_last e - guest_first e) \<le> unat (blen b)"
      "unat (file_offset b) + unat (blen b) < 2 ^ 64"
      using okD(2) [OF o, of e] e(1) b(1) by (auto simp: e_ok_def)
    have "unat (x - guest_first e) < unat (guest_last e - guest_first e)"
      using e(2) by (auto simp: covers_def in_range_def unat_sub word_le_nat_alt word_less_nat_alt)
    then have "unat (backing_offset e + (x - guest_first e)) < unat (blen b)"
      using ek(1) unat_u64_less [of "blen b"] by (simp add: unat_word_ariths)
    with e b f rh ek show ?thesis by blast
  qed
  from look [OF assms(3,5)] look [OF assms(4,6)] obtain e b e' b' where
    e: "e \<in> set (entries ?l)" "attrs ?m (backing e) = Some b" "\<not> borrowed b" "device b = dev" "inode b = ino"
      "file_offset b + (backing_offset e + (a - guest_first e)) = off"
      "r_host r = mapping b + (backing_offset e + (a - guest_first e))"
      "unat (backing_offset e + (a - guest_first e)) < unat (blen b)" "unat (file_offset b) + unat (blen b) < 2 ^ 64" and
    e': "e' \<in> set (entries ?l)" "attrs ?m (backing e') = Some b'" "\<not> borrowed b'" "device b' = dev" "inode b' = ino"
      "file_offset b' + (backing_offset e' + (a' - guest_first e')) = off"
      "r_host r' = mapping b' + (backing_offset e' + (a' - guest_first e'))"
      "unat (backing_offset e' + (a' - guest_first e')) < unat (blen b')" "unat (file_offset b') + unat (blen b') < 2 ^ 64"
    by blast
  have same: "backing e = backing e'"
  proof (rule ccontr)
    assume ne: "backing e \<noteq> backing e'"
    from canonicalD [OF v(7) _ _ e(2) e'(2) e(3) e'(3) _ _ ne] e e'
    have ap: "file_offset b + blen b < file_offset b' \<or> file_offset b' + blen b' < file_offset b" by auto
    have "unat off = unat (file_offset b) + unat (backing_offset e + (a - guest_first e))"
      using e(8,9) by (simp add: e(6) [symmetric] unat_word_ariths)
    moreover have "unat off = unat (file_offset b') + unat (backing_offset e' + (a' - guest_first e'))"
      using e'(8,9) by (simp add: e'(6) [symmetric] unat_word_ariths)
    moreover have "unat (file_offset b + blen b) = unat (file_offset b) + unat (blen b)"
      "unat (file_offset b' + blen b') = unat (file_offset b') + unat (blen b')"
      using e(9) e'(9) by (simp_all add: unat_word_ariths)
    ultimately show False using ap e(8) e'(8) by (auto simp: word_less_nat_alt)
  qed
  with e e' have "b = b'" by simp
  with e(6,7) e'(6,7) show ?thesis by (metis add_left_imp_eq)
qed

definition file_backing :: "u64 \<Rightarrow> nat \<Rightarrow> vma_backing" where
  "file_backing len n = \<lparr>mapping = 0x7000000, blen = len, references = n, device = 1, inode = 2, file_offset = 0,
     retained = 9, writable = True, borrowed = False\<rparr>"

definition file_view :: "u64 \<Rightarrow> nat \<Rightarrow> u64 \<Rightarrow> vma_entry" where
  "file_view lo p off = \<lparr>guest_first = lo, guest_last = lo + 0x2000, backing_offset = off, protection = 7,
     flags = VMA_SHARED, backing = p\<rparr>"

definition file_snapshot :: "vma_mem \<Rightarrow> vma_entry list \<Rightarrow> vma_snapshot" where
  "file_snapshot m es = \<lparr>views = map (view_of m) es, backings = map backing es\<rparr>"

definition file_memory1 :: vma_mem where
  "file_memory1 = start_memory\<lparr>heap := [0 \<mapsto> file_backing 0x2000 2]\<rparr>"

definition file_memory2 :: vma_mem where
  "file_memory2 = start_memory\<lparr>heap := [0 \<mapsto> file_backing 0x2000 1, 1 \<mapsto> file_backing 0x3000 4]\<rparr>"

definition file_ledger1 :: vma_ledger where
  "file_ledger1 = \<lparr>entries = [file_view 0x20000 0 0], capacity = 8,
     current = Some (file_snapshot file_memory1 [file_view 0x20000 0 0]), retired = [], generation = 4\<rparr>"

definition file_ledger2 :: vma_ledger where
  "file_ledger2 = \<lparr>entries = [file_view 0x20000 1 0, file_view 0x30000 1 0x1000], capacity = 8,
     current = Some (file_snapshot file_memory2 [file_view 0x20000 1 0, file_view 0x30000 1 0x1000]),
     retired = [file_snapshot file_memory1 [file_view 0x20000 0 0]], generation = 6\<rparr>"

lemmas example_defs = file_backing_def file_view_def file_snapshot_def file_memory1_def file_memory2_def
  file_ledger1_def file_ledger2_def start_memory_def example_host_def vma_init_def

lemma example_snapshot_allocate: "n \<le> 8 \<Longrightarrow> snapshot_allocate (example_host p) n = Some n"
  by (simp add: snapshot_allocate_def SIZE_MAX_def example_host_def)

lemma unmap_nothing:
  assumes "\<forall>e \<in> set (entries l). \<not> overlaps lo hi e"
  shows "unmap_locked h lo hi (l, m) = (True, l, m)"
proof -
  have "unmap_from h lo hi i (l, m) = (True, l, m)" if "i \<le> length (entries l)" for i
    using that
  proof (induction "length (entries l) - i" arbitrary: i)
    case 0
    then show ?case by (simp add: unmap_from_done)
  next
    case (Suc n)
    then have "i < length (entries l)" "\<not> overlaps lo hi (entries l ! i)" using assms by auto
    with Suc show ?case by (simp add: unmap_from_skip)
  qed
  then show ?thesis by (simp add: unmap_locked_def)
qed

lemma example_install1:
  "install_entry (example_host 0) 2 (file_view 0x20000 0 0)
     (vma_init\<lparr>capacity := 8\<rparr>, start_memory\<lparr>heap := [0 \<mapsto> file_backing 0x2000 1]\<rparr>) = (file_ledger1, file_memory1)"
  unfolding install_entry_def
  by (subst unmap_nothing) (simp_all add: example_defs append_entry_def publish_locked_def swap_current_def
      backing_get_def backing_put_def view_of_def host_first_def Let_def fun_eq_iff)

lemma example_shared1:
  "map_shared (example_host 0) 0x20000 0x2000 7 5 0 0x1000 (vma_init, start_memory) = (None, file_ledger1, file_memory1)"
proof -
  have g: "grow (example_host 0) vma_init (Suc (Suc 0)) = Some (vma_init\<lparr>capacity := 8\<rparr>)"
    by (simp add: grow_from_init example_host_def)
  have e: "entries vma_init = []" "candidates vma_init start_memory = []"
      "check_live [] start_memory = start_memory"
    by (simp_all add: vma_init_def candidates_def List.map_filter_def check_live_def)
  have c: "coalesce True 1 2 [] \<lparr>canon_first = 0, canon_last = 0x2000, canon_writable = True, canon_ref = 5, expanded = False\<rparr> =
      \<lparr>canon_first = 0, canon_last = 0x2000, canon_writable = True, canon_ref = 5, expanded = False\<rparr>"
    by (simp add: coalesce.simps coalesce_pass_def)
  have x: "map_shared_extent (example_host 0) 2 0x20000 0x2000 7 0 1 2
      \<lparr>canon_first = 0, canon_last = 0x2000, canon_writable = True, canon_ref = 5, expanded = False\<rparr>
      (vma_init\<lparr>capacity := 8\<rparr>, start_memory) = (None, file_ledger1, file_memory1)"
    using example_install1
    by (simp add: map_shared_extent_def INT64_MAX_def example_host_def file_backing_def file_view_def vma_init_def
        start_memory_def)
  have fs: "fstat_of (example_host 0) 5 = Some (1, 2)" by (simp add: example_host_def)
  show ?thesis
    using x [unfolded numeral_2_eq_2 numeral_3_eq_3] c by (simp add: map_shared_def fs e g example_snapshot_allocate INT64_MAX_def power_of_two_def VMA_WRITE_def Let_def)
qed

lemma example_install2:
  "install_entry (example_host 1) 3 (file_view 0x30000 1 0x1000)
     (file_ledger1\<lparr>entries := [file_view 0x20000 1 0]\<rparr>,
      start_memory\<lparr>heap := [0 \<mapsto> file_backing 0x2000 1, 1 \<mapsto> file_backing 0x3000 2]\<rparr>) = (file_ledger2, file_memory2)"
  unfolding install_entry_def
  by (subst unmap_nothing) (simp_all add: example_defs append_entry_def publish_locked_def swap_current_def overlaps_def
      backing_get_def backing_put_def view_of_def host_first_def Let_def fun_eq_iff)

lemma example_shared2:
  "map_shared (example_host 1) 0x30000 0x2000 7 5 0x1000 0x1000 (file_ledger1, file_memory1) =
     (None, file_ledger2, file_memory2)"
proof -
  let ?c = "\<lparr>canon_first = 0, canon_last = 0x3000, canon_writable = True, canon_ref = 5, expanded = False\<rparr>"
  have e: "entries file_ledger1 = [file_view 0x20000 0 0]" "capacity file_ledger1 = 8"
      "candidates file_ledger1 file_memory1 = [file_backing 0x2000 2]"
      "check_live [backing (file_view 0x20000 0 0)] file_memory1 = file_memory1"
    by (simp_all add: example_defs candidates_def List.map_filter_def check_live_def)
  have g: "grow (example_host p) file_ledger1 (Suc (Suc (Suc 0))) = Some file_ledger1" for p by (simp add: grow_def e)
  have c: "coalesce True 1 2 [file_backing 0x2000 2]
      \<lparr>canon_first = 0x1000, canon_last = 0x3000, canon_writable = True, canon_ref = 5, expanded = False\<rparr> = ?c"
    by (simp add: coalesce.simps coalesce_pass_def coalesce_one_def touches_def file_backing_def)
  have rb: "rebind 1 2 0 0x3000 1 [file_view 0x20000 0 0]
      (file_memory1\<lparr>heap := (heap file_memory1)(1 \<mapsto> file_backing 0x3000 1)\<rparr>) =
      ([file_view 0x20000 1 0], start_memory\<lparr>heap := [0 \<mapsto> file_backing 0x2000 1, 1 \<mapsto> file_backing 0x3000 2]\<rparr>)"
    by (simp add: rebind_one_def example_defs touches_def backing_get_def backing_put_def fun_eq_iff)
  have x: "map_shared_extent (example_host 1) 3 0x30000 0x2000 7 0x1000 1 2 ?c (file_ledger1, file_memory1) =
      (None, file_ledger2, file_memory2)"
    using rb example_install2
    by (simp add: map_shared_extent_def INT64_MAX_def example_host_def file_backing_def file_view_def e(1))
  have fs: "fstat_of (example_host p) 5 = Some (1, 2)" for p by (simp add: example_host_def)
  show ?thesis
    using x [unfolded numeral_2_eq_2 numeral_3_eq_3] c by (simp add: map_shared_def fs e g example_snapshot_allocate INT64_MAX_def power_of_two_def
        VMA_WRITE_def Let_def)
qed

definition file_world :: vma_world where
  "file_world = \<lparr>ledger = file_ledger2, memory = file_memory2, pins = {#}, plan = None\<rparr>"

lemma file_world_reached: "vma_step\<^sup>*\<^sup>* start_world file_world"
proof -
  let ?w = "\<lparr>ledger = file_ledger1, memory = file_memory1, pins = {#}, plan = None\<rparr>"
  have h: "host_ok (example_host 0) (memory start_world)" "host_ok (example_host 1) (memory ?w)"
    by (simp_all add: host_ok_def start_world_def example_defs)
  have p: "plan start_world = None" "plan ?w = None" by (simp_all add: start_world_def)
  have m: "map_shared (example_host 0) 0x20000 0x2000 7 5 0 0x1000 (ledger start_world, memory start_world) =
      (None, file_ledger1, file_memory1)"
    "map_shared (example_host 1) 0x30000 0x2000 7 5 0x1000 0x1000 (ledger ?w, memory ?w) =
      (None, file_ledger2, file_memory2)"
    using example_shared1 example_shared2 by (simp_all add: start_world_def)
  from vma_step.map_shared [OF p(1) h(1) m(1)] vma_step.map_shared [OF p(2) h(2) m(2)]
  have "vma_step start_world ?w" "vma_step ?w file_world" by (simp_all add: start_world_def file_world_def)
  then show ?thesis by auto
qed

theorem vma_aliases_coherent_witness:
  "\<exists>r r'. resolve (ledger file_world) 0x21000 0 0 = Inr (Some r) \<and>
     resolve (ledger file_world) 0x30000 0 0 = Inr (Some r') \<and> r_host r = r_host r'"
proof -
  have s: "guest_sees file_world 0x21000 (File 1 2 0x1000, 7, VMA_SHARED)"
    "guest_sees file_world 0x30000 (File 1 2 0x1000, 7, VMA_SHARED)"
    unfolding guest_sees_def file_world_def file_ledger2_def vma_world.simps vma_ledger.simps sees_mset
    by (simp_all add: example_defs covers_def in_range_def describe_def translate_def attrs_def ident_def)
  have v: "current_views file_ledger2 = map (view_of file_memory2) [file_view 0x20000 1 0, file_view 0x30000 1 0x1000]"
    by (simp add: current_views_def file_ledger2_def file_snapshot_def)
  obtain r r' where r: "resolve (ledger file_world) 0x21000 0 0 = Inr (Some r)"
    "resolve (ledger file_world) 0x30000 0 0 = Inr (Some r')"
    by (simp add: resolve_def file_world_def v find_view.simps view_of_def file_view_def Let_def)
  have "plan file_world = None" by (simp add: file_world_def)
  from vma_aliases_coherent [OF file_world_reached this s r] r show ?thesis by blast
qed

text \<open>Claim C7.  Unmapping is exact: a successful \<open>munmap\<close> removes the addresses of its range and
  changes what no other address stands for, however the range cuts the entries; a failing one changes
  nothing.\<close>

theorem unmap_exact:
  assumes "vma_step\<^sup>*\<^sup>* start_world w" "plan w = None"
    "vma_unmap h gfirst len (ledger w, memory w) = (r, l', m')"
  shows "(r = None \<longrightarrow> (\<forall>a x. guest_sees (w\<lparr>ledger := l', memory := m'\<rparr>) a x \<longleftrightarrow>
      guest_sees w a x \<and> \<not> in_range gfirst (gfirst + len) a)) \<and>
    (r \<noteq> None \<longrightarrow> entries l' = entries (ledger w) \<and> heap m' = heap (memory w))"
proof -
  note v = vma_invD [OF vma_reachable_inv [OF assms(1) start_inv]]
  show ?thesis
  proof (cases "len = 0")
    case True
    with assms(3) have "l' = ledger w \<and> m' = memory w" using vma_unmap_nothing by blast
    with True show ?thesis by (auto simp: guest_sees_def in_range_def not_less)
  next
    case False
    note u = vma_unmap_ok [OF v(1) [OF assms(2)] assms(3) False]
    from u(1,2) show ?thesis by (auto simp: guest_sees_def op_ok_def)
  qed
qed

theorem unmap_exact_witness:
  "\<exists>l' m'. vma_unmap (example_host 1) 0x11000 0x1000 (ledger example_world, memory example_world) = (None, l', m') \<and>
     \<not> guest_sees (example_world\<lparr>ledger := l', memory := m'\<rparr>) 0x11000 (Host 0x901000, 3, VMA_DIRECT)"
proof -
  have r: "vma_step\<^sup>*\<^sup>* start_world example_world" using example_step by (rule r_into_rtranclp)
  have p: "plan example_world = None" by (simp add: example_world_def)
  obtain q l' m' where u: "vma_unmap (example_host 1) 0x11000 0x1000 (ledger example_world, memory example_world) = (q, l', m')"
    by (metis prod_cases3)
  have "q = None"
    using u
    by (simp add: vma_unmap_def example_world_def example_ledger_def example_snapshot_allocate grow_def unmap_locked_def
        example_entry_def unmap_from.simps overlaps_def Let_def append_entry_def split: prod.splits)
  with unmap_exact [OF r p u] u show ?thesis by (auto simp: in_range_def)
qed

text \<open>Claim C8.  Protecting is exact: a successful \<open>mprotect\<close> gives the addresses of its range the
  new protection, keeps every other protection and what every address stands for; a failing one
  changes nothing.\<close>

theorem protect_exact:
  assumes "vma_step\<^sup>*\<^sup>* start_world w" "plan w = None"
    "vma_protect h gfirst len prot (ledger w, memory w) = (r, l', m')"
  shows "(r = None \<longrightarrow> (\<forall>a i p f. guest_sees (w\<lparr>ledger := l', memory := m'\<rparr>) a (i, p, f) \<longleftrightarrow>
      (\<exists>p0. guest_sees w a (i, p0, f) \<and> p = (if in_range gfirst (gfirst + len) a then prot else p0)))) \<and>
    (r \<noteq> None \<longrightarrow> entries l' = entries (ledger w) \<and> heap m' = heap (memory w))"
proof -
  note v = vma_invD [OF vma_reachable_inv [OF assms(1) start_inv]]
  note u = vma_protect_ok [OF v(1) [OF assms(2)] assms(3)]
  from u(1,2) show ?thesis by (auto simp: guest_sees_def op_ok_def)
qed

theorem protect_exact_witness:
  "\<exists>l' m'. vma_protect (example_host 1) 0x11000 0x1000 1 (ledger example_world, memory example_world) = (None, l', m') \<and>
     guest_sees (example_world\<lparr>ledger := l', memory := m'\<rparr>) 0x11000 (Host 0x901000, 1, VMA_DIRECT)"
proof -
  have r: "vma_step\<^sup>*\<^sup>* start_world example_world" using example_step by (rule r_into_rtranclp)
  have p: "plan example_world = None" by (simp add: example_world_def)
  obtain q l' m' where u: "vma_protect (example_host 1) 0x11000 0x1000 1 (ledger example_world, memory example_world) = (q, l', m')"
    by (metis prod_cases3)
  have q: "q = None"
    using u by (simp add: vma_protect_def example_world_def example_ledger_def snapshot_allocate_def SIZE_MAX_def
        example_host_def grow_def split: prod.splits)
  have s: "guest_sees example_world 0x11000 (Host 0x901000, 3, VMA_DIRECT)"
    unfolding guest_sees_def example_world_def example_ledger_def vma_world.simps vma_ledger.simps sees_mset
    by (simp add: example_entry_def example_memory_def start_memory_def covers_def in_range_def describe_def
        translate_def attrs_def ident_def)
  from protect_exact [OF r p u] q have "guest_sees (example_world\<lparr>ledger := l', memory := m'\<rparr>) 0x11000 (Host 0x901000, 1, VMA_DIRECT)
      \<longleftrightarrow> (\<exists>p0. guest_sees example_world 0x11000 (Host 0x901000, p0, VMA_DIRECT) \<and>
        1 = (if in_range 0x11000 (0x11000 + 0x1000) (0x11000 :: u64) then 1 else p0))" by blast
  with s q u show ?thesis by (auto simp: in_range_def)
qed

text \<open>Claim C9.  A shared file mapping is exact: when it succeeds, each address of its range stands for
  its byte of the file \<open>fstat\<close> names, with the requested protection, and every other address stands for
  what it stood for, although its entry may have moved to a larger canonical backing; when it fails,
  nothing has changed.\<close>

theorem map_shared_exact:
  assumes "vma_step\<^sup>*\<^sup>* start_world w" "plan w = None" "host_ok h (memory w)"
    "map_shared h gfirst len prot fd offset host_page (ledger w, memory w) = (r, l', m')"
  shows "(r = None \<longrightarrow> (\<exists>dev ino. fstat_of h fd = Some (dev, ino) \<and>
      (\<forall>a x. guest_sees (w\<lparr>ledger := l', memory := m'\<rparr>) a x \<longleftrightarrow>
        (if in_range gfirst (gfirst + len) a then x = (File dev ino (offset + (a - gfirst)), prot, VMA_SHARED)
         else guest_sees w a x)))) \<and>
    (r \<noteq> None \<longrightarrow> entries l' = entries (ledger w) \<and> heap m' = heap (memory w))"
proof -
  note v = vma_invD [OF vma_reachable_inv [OF assms(1) start_inv]]
  note u = map_shared_ok [OF v(1) [OF assms(2)] v(7) assms(3,4)]
  from u(1) have "r \<noteq> None \<Longrightarrow> entries l' = entries (ledger w) \<and> heap m' = heap (memory w)" by (simp add: op_ok_def)
  moreover have "r = None \<Longrightarrow> \<exists>dev ino. fstat_of h fd = Some (dev, ino) \<and>
      (\<forall>a x. guest_sees (w\<lparr>ledger := l', memory := m'\<rparr>) a x \<longleftrightarrow>
        (if in_range gfirst (gfirst + len) a then x = (File dev ino (offset + (a - gfirst)), prot, VMA_SHARED)
         else guest_sees w a x))"
    using u(2) by (auto simp: shared_result_def guest_sees_def)
  ultimately show ?thesis by blast
qed

theorem map_shared_exact_witness:
  "guest_sees (start_world\<lparr>ledger := file_ledger1, memory := file_memory1\<rparr>) 0x20800 (File 1 2 0x800, 7, VMA_SHARED)"
proof -
  have h: "host_ok (example_host 0) (memory start_world)" "plan start_world = None"
    by (simp_all add: host_ok_def start_world_def example_defs)
  have m: "map_shared (example_host 0) 0x20000 0x2000 7 5 0 0x1000 (ledger start_world, memory start_world) =
      (None, file_ledger1, file_memory1)" using example_shared1 by (simp add: start_world_def)
  from map_shared_exact [OF rtranclp.rtrancl_refl h(2,1) m] obtain dev ino where
    d: "fstat_of (example_host 0) 5 = Some (dev, ino)" and
    s: "\<forall>a x. guest_sees (start_world\<lparr>ledger := file_ledger1, memory := file_memory1\<rparr>) a x \<longleftrightarrow>
        (if in_range 0x20000 (0x20000 + 0x2000) a then x = (File dev ino (0 + (a - 0x20000)), 7, VMA_SHARED)
         else guest_sees start_world a x)" by blast
  from d have "dev = 1" "ino = 2" by (simp_all add: example_host_def)
  with s [THEN spec [of _ "0x20800"], THEN spec [of _ "(File 1 2 0x800, 7, VMA_SHARED)"]] show ?thesis by (simp add: in_range_def)
qed

text \<open>A direct mapping is exact as long as its range does not fall strictly inside an
  existing entry: each address of the range then stands for its host byte, every other address for what
  it stood for.\<close>

theorem map_direct_exact:
  assumes "vma_step\<^sup>*\<^sup>* start_world w" "plan w = None" "host_ok h (memory w)" "not_inside gfirst len (ledger w)"
    "map_direct h gfirst len prot hfirst (ledger w, memory w) = (r, l', m')"
  shows "\<not> fault m' \<and> (r = None \<longrightarrow> (\<forall>a x. guest_sees (w\<lparr>ledger := l', memory := m'\<rparr>) a x \<longleftrightarrow>
        (if in_range gfirst (gfirst + len) a then x = (Host (hfirst + (a - gfirst)), prot, VMA_DIRECT)
         else guest_sees w a x))) \<and>
    (r \<noteq> None \<longrightarrow> entries l' = entries (ledger w) \<and> heap m' = heap (memory w))"
proof -
  note v = vma_invD [OF vma_reachable_inv [OF assms(1) start_inv]]
  note u = map_direct_ok [OF v(1) [OF assms(2)] assms(3,5) assms(4) [unfolded not_inside_def]]
  have "\<not> fault m'" using u(1) ledger_ok_counted by (auto simp: op_ok_def counted_def)
  with u(1,2) show ?thesis by (simp add: guest_sees_def op_ok_def)
qed

theorem map_direct_exact_witness:
  "guest_sees (start_world\<lparr>ledger := example_ledger, memory := example_memory\<rparr>) 0x12000 (Host 0x902000, 3, VMA_DIRECT)"
proof -
  have h: "host_ok (example_host 0) (memory start_world)" "plan start_world = None"
    "not_inside 0x10000 0x4000 (ledger start_world)"
    by (simp_all add: host_ok_def start_world_def example_host_def start_memory_def not_inside_def vma_init_def)
  have m: "map_direct (example_host 0) 0x10000 0x4000 3 0x900000 (ledger start_world, memory start_world) =
      (None, example_ledger, example_memory)" using example_map by (simp add: start_world_def)
  from map_direct_exact [OF rtranclp.rtrancl_refl h(2,1,3) m] show ?thesis by (simp add: in_range_def)
qed

text \<open>Claim C10.  A direct mapping whose range falls strictly inside an existing entry writes past the
  arrays it reserved.  It reserves one entry and a snapshot of one item more than there are entries, but
  unmapping the range splits that entry in two and the mapping itself is a third one: \<open>map_direct\<close>
  reports success and the fault flag is up.\<close>

theorem map_direct_inside_overflows:
  assumes "vma_step\<^sup>*\<^sup>* start_world w" "plan w = None" "host_ok h (memory w)" "\<not> not_inside gfirst len (ledger w)"
    "map_direct h gfirst len prot hfirst (ledger w, memory w) = (None, l', m')"
  shows "fault m'"
proof -
  note v = vma_invD [OF vma_reachable_inv [OF assms(1) start_inv]]
  let ?l = "ledger w" let ?m = "memory w" let ?hi = "gfirst + len"
  from assms(5) obtain l1 cap p where g: "grow h ?l (length (entries ?l) + 1) = Some l1"
    and cp: "snapshot_allocate h (length (entries ?l) + 1) = Some cap" "new_backing h = Some p"
    and w: "\<not> gfirst > - 1 - len" "len \<noteq> 0"
    by (auto simp: map_direct_def split: if_splits option.splits)
  note gk = grow_ok [OF g]
  define m1 where "m1 = ?m\<lparr>heap := (heap ?m)(p \<mapsto> \<lparr>mapping = hfirst, blen = len, references = 1, device = 0, inode = 0,
      file_offset = 0, retained = - 1, writable = False, borrowed = True\<rparr>)\<rparr>"
  let ?e = "\<lparr>guest_first = gfirst, guest_last = ?hi, backing_offset = 0, protection = prot, flags = VMA_DIRECT, backing = p\<rparr>"
  have i: "install_entry h cap ?e (l1, m1) = (l', m')"
    using assms(5) g cp w by (auto simp: map_direct_def m1_def split: if_splits)
  note o = ledger_okD(1) [OF v(1) [OF assms(2)]]
  note dis = okD(3) [OF o]
  have le: "gfirst \<le> ?hi" using no_wrap(2) [OF w(1)] .
  from assms(4) obtain e0 where e0: "e0 \<in> set (entries ?l)" "strict gfirst ?hi e0"
    by (auto simp: not_inside_def filter_empty_conv)
  have "\<not> inside gfirst ?hi e" if "e \<in> set (entries ?l)" for e
  proof
    assume ie: "inside gfirst ?hi e"
    have lt: "guest_first e < guest_last e" using okD(2) [OF o, of e] that by (simp add: e_ok_def)
    with ie e0(2) have c: "covers (guest_first e) e" "covers (guest_first e) e0" "e \<noteq> e0"
      by (auto simp: inside_def strict_def covers_def in_range_def overlaps_def)
    from that e0(1) obtain i j where ij: "i < length (entries ?l)" "entries ?l ! i = e" "j < length (entries ?l)" "entries ?l ! j = e0"
      by (auto simp: in_set_conv_nth)
    with c(3) have "i < j \<or> j < i" by (metis linorder_neqE_nat)
    then have "2 \<le> length (filter (covers (guest_first e)) (entries ?l))"
      using two_hits [of i j "entries ?l" "covers (guest_first e)"] two_hits [of j i "entries ?l" "covers (guest_first e)"] ij c
      by auto
    with dis show False unfolding strict_count_mset disjoint_def by (metis Suc_1 not_less_eq_eq)
  qed
  then have n0: "length (filter (inside gfirst ?hi) (entries ?l)) = 0" by (auto simp: filter_empty_conv)
  have s1: "length (filter (strict gfirst ?hi) (entries ?l)) \<noteq> 0" using e0 by (auto simp: filter_empty_conv)
  obtain r l2 m2 where u: "unmap_locked h gfirst ?hi (l1, m1) = (r, l2, m2)" by (metis prod_cases3)
  have "ledger_ok (add_mset p (pins w)) l1 m1"
    using fresh_backing(1) [OF v(1) [OF assms(2)]] assms(3) cp(2) gk(8) by (simp add: host_ok_def m1_def)
  from unmap_publish_ok(1) [OF this le _ u] gk(1,7) have r: "r" by simp
  have "length (entries l2) + length (filter (inside gfirst ?hi) (entries l1)) =
      length (entries l1) + length (filter (strict gfirst ?hi) (entries l1))"
    using u r le by (intro unmap_from_length [of h gfirst ?hi 0 l1 m1 l2 m2]) (simp_all add: unmap_locked_def)
  with n0 s1 have len: "length (entries l2) \<ge> length (entries ?l) + 1" unfolding gk(1) by linarith
  obtain l3 m3 where a: "append_entry ?e (l2, backing_get p m2) = (l3, m3)" by (metis prod.exhaust)
  then have "length (entries l3) = length (entries l2) + 1" by (auto simp: append_entry_def)
  moreover obtain l4 m4 where p: "publish_locked cap l3 m3 = (l4, m4)" by (metis prod.exhaust)
  ultimately have "fault m4"
    using len snapshot_allocateD [OF cp(1)] by (auto simp: publish_locked_def Let_def)
  then show ?thesis using i u a p by (auto simp: install_entry_def)
qed

theorem map_direct_inside_overflows_witness:
  "\<exists>l' m'. map_direct (example_host 1) 0x11000 0x1000 3 0x500000 (ledger example_world, memory example_world) = (None, l', m') \<and>
     fault m'"
proof -
  have r: "vma_step\<^sup>*\<^sup>* start_world example_world" using example_step by (rule r_into_rtranclp)
  have p: "plan example_world = None" "host_ok (example_host 1) (memory example_world)"
    "\<not> not_inside 0x11000 0x1000 (ledger example_world)"
    by (simp_all add: example_world_def host_ok_def example_host_def example_memory_def start_memory_def
        not_inside_def example_ledger_def example_entry_def strict_def)
  obtain q l' m' where u: "map_direct (example_host 1) 0x11000 0x1000 3 0x500000 (ledger example_world, memory example_world) = (q, l', m')"
    by (metis prod_cases3)
  moreover have "q = None"
    using u by (simp add: map_direct_def example_world_def example_ledger_def snapshot_allocate_def SIZE_MAX_def
        example_host_def grow_def)
  ultimately show ?thesis using map_direct_inside_overflows [OF r p] by blast
qed

end
