(* ===== verification/Vma_Readers.thy ===== *)
theory Vma_Readers
  imports Vma_Safety
begin

text \<open>
  Readers, plans, destruction and pins, in every reachable state: lookups are exact, a plan is all or
  nothing, nothing leaks, and the executable aliases of pinned bytes are found.
\<close>

section \<open>Readers\<close>

lemma vma_inv_ok:
  assumes "vma_inv w"
  shows "\<exists>X. ledger_ok X (ledger w) (memory w)" "published (ledger w) (memory w)"
  using assms by (auto simp: vma_inv_def)

text \<open>Claim C11.  The lock-free lookup is exact: in every reachable state, the binary search over the
  published snapshot answers as a search through the entries would.  An address that no entry covers is
  reported as unmapped; a covered one yields the host address of its byte, the bytes left to the end of
  its entry, the protection and the flags, unless the entry lacks a required protection (EACCES) or ends
  too early (EFAULT).\<close>

theorem resolve_exact:
  assumes "vma_step\<^sup>*\<^sup>* start_world w" "\<not> a > - 1 - len"
  shows "((\<forall>e \<in> set (entries (ledger w)). \<not> covers a e) \<longrightarrow> resolve (ledger w) a len required = Inr None) \<and>
    (\<forall>e \<in> set (entries (ledger w)). covers a e \<longrightarrow> resolve (ledger w) a len required =
      (if protection e AND required \<noteq> required then Inl V_EACCES
       else if len > guest_last e - a then Inl V_EFAULT
       else Inr (Some \<lparr>r_host = host_first (memory w) e + (a - guest_first e), contiguous = guest_last e - a,
                       r_protection = protection e, r_flags = flags e\<rparr>)))"
proof -
  note v = vma_inv_ok [OF vma_reachable_inv [OF assms(1) start_inv]]
  then obtain X where "ledger_ok X (ledger w) (memory w)" by blast
  note r = resolve_entries [OF ledger_okD(1) [OF this] v(2) assms(2)]
  show ?thesis by (intro conjI impI ballI r) auto
qed

theorem resolve_exact_witness:
  "resolve (ledger example_world) 0x12000 8 1 =
     Inr (Some \<lparr>r_host = 0x902000, contiguous = 0x2000, r_protection = 3, r_flags = VMA_DIRECT\<rparr>)"
proof -
  have r: "vma_step\<^sup>*\<^sup>* start_world example_world" using example_step by (rule r_into_rtranclp)
  have w: "\<not> (0x12000 :: u64) > - 1 - 8" by simp
  have e: "example_entry \<in> set (entries (ledger example_world))" "covers 0x12000 example_entry"
    by (simp_all add: example_world_def example_ledger_def example_entry_def covers_def in_range_def)
  from resolve_exact [OF r w, of 1] e have "resolve (ledger example_world) 0x12000 8 1 =
      (if protection example_entry AND 1 \<noteq> 1 then Inl V_EACCES
       else if 8 > guest_last example_entry - 0x12000 then Inl V_EFAULT
       else Inr (Some \<lparr>r_host = host_first (memory example_world) example_entry + (0x12000 - guest_first example_entry),
         contiguous = guest_last example_entry - 0x12000, r_protection = protection example_entry,
         r_flags = flags example_entry\<rparr>))" by blast
  then show ?thesis
    by (simp add: example_entry_def host_first_def example_world_def example_memory_def start_memory_def)
qed

text \<open>An instruction-fetch answer holds over its whole span: when the reader is told that the
  span maps with displacement \<open>delta\<close>, one executable entry covers exactly that span and every address
  of it lies \<open>delta\<close> away in the host; when it is told that the span is unmapped, no entry covers any
  address of it, nor the address asked about.\<close>

theorem exec_span_exact:
  assumes "vma_step\<^sup>*\<^sup>* start_world w" "resolve_exec_span (ledger w) a = Inr (hit, lo, hi, delta)" "in_range lo hi x"
  shows "if hit then \<exists>e \<in> set (entries (ledger w)). guest_first e = lo \<and> guest_last e = hi \<and> covers a e \<and>
        covers x e \<and> protection e AND VMA_EXEC \<noteq> 0 \<and> x + delta = host_first (memory w) e + (x - guest_first e)
      else \<forall>e \<in> set (entries (ledger w)). \<not> covers a e \<and> \<not> covers x e"
proof -
  note v = vma_inv_ok [OF vma_reachable_inv [OF assms(1) start_inv]]
  then obtain X where "ledger_ok X (ledger w) (memory w)" by blast
  from span_entries [OF ledger_okD(1) [OF this] v(2) assms(2,3)] show ?thesis .
qed

theorem exec_span_exact_witness:
  "resolve_exec_span (ledger example_world) 0x8000 = Inr (False, 0, 0x10000, 0) \<and>
   \<not> covers 0x9000 example_entry"
proof -
  have r: "vma_step\<^sup>*\<^sup>* start_world example_world" using example_step by (rule r_into_rtranclp)
  have s: "resolve_exec_span (ledger example_world) 0x8000 = Inr (False, 0, 0x10000, 0)"
    by (simp add: resolve_exec_span_def example_world_def example_ledger_def current_views_def find_view.simps)
  have "in_range 0 0x10000 (0x9000 :: u64)" by (simp add: in_range_def)
  with exec_span_exact [OF r s] have "\<forall>e \<in> set (entries (ledger example_world)). \<not> covers 0x9000 e" by auto
  moreover have "example_entry \<in> set (entries (ledger example_world))"
    by (simp add: example_world_def example_ledger_def)
  ultimately show ?thesis using s by blast
qed

section \<open>Plans\<close>

text \<open>Claim C12.  A plan is all or nothing.  Preparing a shared mapping never touches the live ledger; if
  it fails, or the plan is abandoned, the heap of backings is exactly what it was; if the plan is
  committed, the ledger maps what an immediate shared mapping would.\<close>

theorem plan_all_or_nothing:
  assumes "vma_step\<^sup>*\<^sup>* start_world w" "plan w = None" "host_ok h (memory w)"
    "prepare_shared h f gfirst len prot fd offset host_page (ledger w, memory w) = (r, m')"
  shows "(\<forall>e. r = Inl e \<longrightarrow> heap m' = heap (memory w)) \<and>
    (\<forall>s. r = Inr s \<longrightarrow> heap (vma_abort s m') = heap (memory w) \<and>
      (\<forall>l'' m''. vma_commit s (ledger w, m') = (l'', m'') \<longrightarrow>
        (\<exists>dev ino. fstat_of h fd = Some (dev, ino) \<and>
          (\<forall>a x. guest_sees (w\<lparr>ledger := l'', memory := m''\<rparr>) a x \<longleftrightarrow>
            (if in_range gfirst (gfirst + len) a then x = (File dev ino (offset + (a - gfirst)), prot, VMA_SHARED)
             else guest_sees w a x)))))"
proof -
  note v = vma_invD [OF vma_reachable_inv [OF assms(1) start_inv]]
  note l = v(1) [OF assms(2)]
  note p = prepare_shared_ok [OF l v(7) assms(3,4)]
  show ?thesis
  proof (intro conjI allI impI)
    show "heap m' = heap (memory w)" if "r = Inl e" for e using p(1) [OF that] by simp
    fix s assume r: "r = Inr s"
    note ps = p(2) [OF r]
    show "heap (vma_abort s m') = heap (memory w)" using vma_abort_ok(1) [OF l] ps by blast
    fix l'' m'' assume c: "vma_commit s (ledger w, m') = (l'', m'')"
    from ps obtain s0 m1 dev ino where sc: "stage_copy h (ledger w, memory w) = Some (s0, m1)"
      "fstat_of h fd = Some (dev, ino)"
      "shared_result (pins w + refs (ledger w)) s0 m1 gfirst len prot offset dev ino None s m'" by blast
    have same: "sees (mset (entries s0)) m1 a x = guest_sees w a x" for a x
    proof -
      have "kept {#} (mset (entries (ledger w))) (memory w) (mset (entries (ledger w))) m1"
        using stage_copy_ok(5) [OF l sc(1)] by (auto simp: kept_def refs_def)
      from sees_kept [OF this, of a x] stage_copy_ok(2) [OF l sc(1)] show ?thesis by (simp add: guest_sees_def)
    qed
    have "ledger_ok (pins w + refs (ledger w)) s m'" using ps by blast
    from vma_commit_ok(5) [OF ledger_okD(3) [OF l] this c]
    have "guest_sees (w\<lparr>ledger := l'', memory := m''\<rparr>) a x = sees (mset (entries s)) m' a x" for a x
      by (simp add: guest_sees_def)
    then show "\<exists>dev ino. fstat_of h fd = Some (dev, ino) \<and>
          (\<forall>a x. guest_sees (w\<lparr>ledger := l'', memory := m''\<rparr>) a x \<longleftrightarrow>
            (if in_range gfirst (gfirst + len) a then x = (File dev ino (offset + (a - gfirst)), prot, VMA_SHARED)
             else guest_sees w a x))"
      using sc(2,3) same by (auto simp: shared_result_def)
  qed
qed

theorem plan_all_or_nothing_witness:
  "\<exists>r m'. prepare_shared (example_host 1) True 0x30000 0x2000 7 5 0 0x1000 (ledger example_world, memory example_world) = (r, m') \<and>
     heap m' = heap (memory example_world)"
proof -
  have r: "vma_step\<^sup>*\<^sup>* start_world example_world" using example_step by (rule r_into_rtranclp)
  have p: "plan example_world = None" "host_ok (example_host 1) (memory example_world)"
    by (simp_all add: example_world_def host_ok_def example_host_def example_memory_def start_memory_def)
  have "prepare_shared (example_host 1) True 0x30000 0x2000 7 5 0 0x1000 (ledger example_world, memory example_world) =
      (Inl V_ENOMEM, memory example_world)" by (simp add: prepare_shared_def)
  from plan_all_or_nothing [OF r p this] this show ?thesis by blast
qed

text \<open>Nothing leaks: once no pin and no plan is left, destroying the ledger frees every
  backing, and so does resetting it, without a fault.\<close>

theorem destroy_frees_everything:
  assumes "vma_step\<^sup>*\<^sup>* start_world w" "plan w = None" "pins w = {#}"
  shows "(\<forall>p. heap (snd (vma_destroy (ledger w, memory w))) p = None) \<and>
    \<not> fault (snd (vma_destroy (ledger w, memory w))) \<and>
    (\<forall>h lm. global_reset h (ledger w, memory w) = Some lm \<longrightarrow> (\<forall>p. heap (snd lm) p = None) \<and> \<not> fault (snd lm))"
proof -
  note v = vma_invD [OF vma_reachable_inv [OF assms(1) start_inv]]
  have l: "ledger_ok {#} (ledger w) (memory w)" using v(1) [OF assms(2)] assms(3) by simp
  have none: "heap m p = None" if "counted {#} m" for m p
    using rc_ok_Some [of "{#}" m p] that by (cases "heap m p") (auto simp: counted_def)
  obtain l' m' where d: "vma_destroy (ledger w, memory w) = (l', m')" by (metis prod.exhaust)
  have "counted ({#} + refs (ledger w)) (memory w)" using ledger_ok_counted [OF l] by simp
  from vma_destroy_ok(1) [OF this d] have c: "counted {#} m'" by blast
  have "\<forall>h lm. global_reset h (ledger w, memory w) = Some lm \<longrightarrow> (\<forall>p. heap (snd lm) p = None) \<and> \<not> fault (snd lm)"
  proof (intro allI impI)
    fix h lm assume "global_reset h (ledger w, memory w) = Some lm"
    then have g: "global_reset h (ledger w, memory w) = Some (fst lm, snd lm)" by simp
    from ledger_ok_counted [OF global_reset_ok(1) [OF l g]] global_reset_ok(4) [OF l g]
    have "counted {#} (snd lm)" by simp
    with none show "(\<forall>p. heap (snd lm) p = None) \<and> \<not> fault (snd lm)" by (simp add: counted_def)
  qed
  with c none d show ?thesis by (simp add: counted_def)
qed

theorem destroy_frees_everything_witness:
  "heap (snd (vma_destroy (ledger file_world, memory file_world))) 1 = None"
proof -
  have "plan file_world = None" "pins file_world = {#}" by (simp_all add: file_world_def)
  from destroy_frees_everything [OF file_world_reached this] show ?thesis by blast
qed

section \<open>Executable aliases of a pin\<close>

definition exec_alias :: "vma_world \<Rightarrow> nat \<Rightarrow> u64 \<Rightarrow> u64 \<Rightarrow> u64 \<Rightarrow> bool" where
  "exec_alias w p lo hi x \<longleftrightarrow> (\<exists>e \<in> set (entries (ledger w)). backing e = p \<and> protection e AND VMA_EXEC \<noteq> 0 \<and>
     covers x e \<and> in_range lo hi (backing_offset e + (x - guest_first e)))"

lemma alias_range_exact:
  assumes e: "e_ok m e" and lt: "lo < hi"
  shows "(\<exists>f l. alias_range lo hi (guest_first e) (guest_last e) (backing_offset e) = Some (f, l) \<and> in_range f l x) \<longleftrightarrow>
    covers x e \<and> in_range lo hi (backing_offset e + (x - guest_first e))"
proof -
  let ?g = "guest_first e" let ?o = "backing_offset e" let ?n = "guest_last e - ?g"
  from e have ne: "?g < guest_last e" and "unat ?o + unat ?n < 2 ^ 64"
    using unat_u64_less by (auto simp: e_ok_def)
  then have on: "unat (?o + ?n) = unat ?o + unat ?n" and n: "unat ?n = unat (guest_last e) - unat ?g"
    by (simp_all add: unat_word_ariths unat_sub order_less_imp_le)
  define a where "a = (if lo > ?o then lo else ?o)"
  define b where "b = (if hi < ?o + ?n then hi else ?o + ?n)"
  have ab: "unat a = max (unat lo) (unat ?o)" "unat b = min (unat hi) (unat ?o + unat ?n)"
    using on by (auto simp: a_def b_def word_less_nat_alt)
  have r: "alias_range lo hi ?g (guest_last e) ?o = (if b \<le> a then None else Some (?g + (a - ?o), ?g + (a - ?o) + (b - a)))"
    by (simp add: alias_range_def Let_def a_def b_def)
  have lab: "unat lo < unat hi" "unat ?g < unat (guest_last e)" using lt ne by (simp_all add: word_less_nat_alt)
  have xo: "unat (?o + (x - ?g)) = unat ?o + (unat x - unat ?g)" if "covers x e"
  proof -
    from that have "?g \<le> x" "x < guest_last e" by (auto simp: covers_def in_range_def)
    then have "unat (x - ?g) = unat x - unat ?g" "unat x - unat ?g < unat ?n"
      using n lab by (auto simp: unat_sub word_le_nat_alt word_less_nat_alt)
    with \<open>unat ?o + unat ?n < 2 ^ 64\<close> show ?thesis by (simp add: unat_word_ariths)
  qed
  have gl: "unat (guest_last e) < 2 ^ 64" using unat_u64_less by simp
  show ?thesis
  proof (cases "b \<le> a")
    case True
    then have "\<not> (unat a < unat b)" by (simp add: word_le_nat_alt)
    moreover have "unat a < unat b" if "covers x e" "in_range lo hi (?o + (x - ?g))"
    proof -
      from that(1) have "unat ?g \<le> unat x" "unat x < unat (guest_last e)"
        by (auto simp: covers_def in_range_def word_le_nat_alt word_less_nat_alt)
      moreover from that(2) have "unat lo \<le> unat ?o + (unat x - unat ?g)" "unat ?o + (unat x - unat ?g) < unat hi"
        unfolding in_range_def word_le_nat_alt word_less_nat_alt xo [OF that(1)] by auto
      ultimately show ?thesis using ab n by auto
    qed
    ultimately show ?thesis using r True by auto
  next
    case False
    then have lt': "unat a < unat b" by (simp add: word_le_nat_alt)
    have ao: "unat (a - ?o) = unat a - unat ?o" "unat (b - a) = unat b - unat a"
      using ab lt' by (auto simp: unat_sub word_le_nat_alt)
    have f: "unat (?g + (a - ?o)) = unat ?g + (unat a - unat ?o)"
    proof (subst unat_word_ariths(1), subst ao(1), rule mod_less)
      from ab lt' have "unat ?o \<le> unat a" "unat a < unat ?o + unat ?n" by simp_all
      then have "unat ?g + (unat a - unat ?o) < unat (guest_last e)" using n lab by linarith
      with gl show "unat ?g + (unat a - unat ?o) < 2 ^ LENGTH(64)" by simp
    qed
    have "unat ?o \<le> unat a" "unat b \<le> unat ?o + unat ?n" using ab by simp_all
    then have "unat ?g + (unat a - unat ?o) + (unat b - unat a) = unat ?g + (unat b - unat ?o)"
      "unat ?g + (unat b - unat ?o) < 2 ^ 64" using lt' n gl lab by linarith+
    then have l: "unat (?g + (a - ?o) + (b - a)) = unat ?g + (unat b - unat ?o)"
      by (subst unat_word_ariths(1)) (simp add: f ao)
    have "in_range (?g + (a - ?o)) (?g + (a - ?o) + (b - a)) x \<longleftrightarrow>
        unat ?g + (unat a - unat ?o) \<le> unat x \<and> unat x < unat ?g + (unat b - unat ?o)"
      unfolding in_range_def word_le_nat_alt word_less_nat_alt f l ..
    also have "\<dots> \<longleftrightarrow> covers x e \<and> in_range lo hi (?o + (x - ?g))"
    proof
      assume *: "unat ?g + (unat a - unat ?o) \<le> unat x \<and> unat x < unat ?g + (unat b - unat ?o)"
      then have c: "covers x e" using ab n by (auto simp: covers_def in_range_def word_le_nat_alt word_less_nat_alt)
      have "in_range lo hi (?o + (x - ?g))"
        unfolding in_range_def word_le_nat_alt word_less_nat_alt xo [OF c] using * ab by auto
      with c show "covers x e \<and> in_range lo hi (?o + (x - ?g))" by simp
    next
      assume *: "covers x e \<and> in_range lo hi (?o + (x - ?g))"
      then have "unat lo \<le> unat ?o + (unat x - unat ?g)" "unat ?o + (unat x - unat ?g) < unat hi"
        unfolding in_range_def word_le_nat_alt word_less_nat_alt using xo by auto
      moreover from * have "unat ?g \<le> unat x" "unat x < unat (guest_last e)"
        by (auto simp: covers_def in_range_def word_le_nat_alt word_less_nat_alt)
      ultimately show "unat ?g + (unat a - unat ?o) \<le> unat x \<and> unat x < unat ?g + (unat b - unat ?o)"
        using ab n by auto
    qed
    finally show ?thesis using r False by auto
  qed
qed


lemma push_fold:
  "fold (\<lambda>e st. if skip e then st else push_alias g (rng e) st) es (Some (rs, c)) = None \<or>
   (\<exists>c'. fold (\<lambda>e st. if skip e then st else push_alias g (rng e) st) es (Some (rs, c)) =
     Some (rs @ concat (map (\<lambda>e. if skip e then [] else case rng e of None \<Rightarrow> [] | Some r \<Rightarrow> [r]) es), c'))"
proof (induction es arbitrary: rs c)
  case (Cons e es)
  have none: "fold (\<lambda>e st. if skip e then st else push_alias g (rng e) st) xs None = None" for xs
    by (induction xs) (auto simp: push_alias_def push_range_def split: option.split)
  show ?case
  proof (cases "skip e \<or> rng e = None")
    case True
    with Cons.IH [of rs c] show ?thesis by (auto simp: push_alias_def)
  next
    case False
    then obtain r where r: "\<not> skip e" "rng e = Some r" by auto
    then have "push_alias g (rng e) (Some (rs, c)) = None \<or> (\<exists>c'. push_alias g (rng e) (Some (rs, c)) = Some (rs @ [r], c'))"
      by (simp add: push_alias_def push_range_def Let_def)
    then show ?thesis
    proof
      assume "push_alias g (rng e) (Some (rs, c)) = None"
      with r none show ?thesis by simp
    next
      assume "\<exists>c'. push_alias g (rng e) (Some (rs, c)) = Some (rs @ [r], c')"
      then obtain c' where "push_alias g (rng e) (Some (rs, c)) = Some (rs @ [r], c')" ..
      with r Cons.IH [of "rs @ [r]" c'] show ?thesis by simp
    qed
  qed
qed simp

lemma visited_ranges:
  "visited (fold (\<lambda>e st. if skip e then st else push_alias g (rng e) st) es (Some ([], 0))) = [(0, - 1)] \<or>
   (\<forall>r. r \<in> set (visited (fold (\<lambda>e st. if skip e then st else push_alias g (rng e) st) es (Some ([], 0)))) \<longleftrightarrow>
     (\<exists>e \<in> set es. \<not> skip e \<and> rng e = Some r))"
  using push_fold [of skip g rng es "[]" 0] by (force simp: visited_def split: option.splits if_splits)

text \<open>Claim C13.  A write through a pin finds the translated code it makes stale: right after the pin is
  taken, the ranges reported for a part of the pinned bytes are exactly the guest addresses through which
  an executable entry maps one of those bytes, or, when the array of ranges cannot grow, the whole address
  space.\<close>

theorem pin_aliases_exact:
  assumes "vma_step\<^sup>*\<^sup>* start_world w" "pin_data a n required (ledger w, memory w) = (Inr (True, pin), m')"
    "offset \<le> p_contiguous pin" "len \<le> p_contiguous pin - offset" "0 < len"
  shows "\<exists>e0 \<in> set (entries (ledger w)). covers a e0 \<and>
    (visit_exec_aliases_pin grow_ok pin offset len (ledger w, m') = [(0, - 1)] \<or>
     (\<forall>x. (\<exists>(lo, hi) \<in> set (visit_exec_aliases_pin grow_ok pin offset len (ledger w, m')). in_range lo hi x) \<longleftrightarrow>
       exec_alias w (backing e0) (backing_offset e0 + (a - guest_first e0) + offset)
         (backing_offset e0 + (a - guest_first e0) + offset + len) x))"
proof -
  note v = vma_inv_ok [OF vma_reachable_inv [OF assms(1) start_inv]]
  then obtain X where ok: "ledger_ok X (ledger w) (memory w)" by blast
  from assms(2) obtain e0 where e0: "entry_at a (entries (ledger w)) = Some e0"
    and m': "m' = backing_get (backing e0) (memory w)" and ra: "\<not> a > - 1 - n" "n \<noteq> 0"
    and pin: "p_host pin = host_first (memory w) e0 + (a - guest_first e0)" "token pin = Some (backing e0)"
      "p_contiguous pin \<le> guest_last e0 - a"
    by (auto simp: pin_data_def Let_def split: if_splits option.splits)
  from entry_at_SomeD [OF e0] have mem: "e0 \<in> set (entries (ledger w))" and cov: "covers a e0" by auto
  have eok: "e_ok (memory w) e" if "e \<in> set (entries (ledger w))" for e
    using ledger_okD(1) [OF ok] that by (auto simp: ok_def)
  from eok [OF mem] obtain b where b: "heap (memory w) (backing e0) = Some b" and
    fit: "unat (backing_offset e0) + unat (guest_last e0 - guest_first e0) < 2 ^ 64"
    using unat_u64_less by (auto simp: e_ok_def attrs_def split: option.splits)
  have hb: "\<exists>b'. heap m' (backing e0) = Some b' \<and> mapping b' = mapping b"
    using b by (auto simp: m' backing_get_def split: if_splits)
  let ?so = "backing_offset e0 + (a - guest_first e0) + offset"
  have so: "p_host pin - (case heap m' (backing e0) of None \<Rightarrow> 0 | Some b \<Rightarrow> mapping b) + offset = ?so"
    using hb b pin(1) by (auto simp: host_first_def)
  from cov have "guest_first e0 \<le> a" "a < guest_last e0" by (auto simp: covers_def in_range_def)
  then have "unat (a - guest_first e0) + unat (guest_last e0 - a) = unat (guest_last e0 - guest_first e0)"
    by (simp add: unat_sub word_le_nat_alt word_less_nat_alt)
  moreover have "unat offset + unat len \<le> unat (guest_last e0 - a)"
    using assms(3,4) pin(3) by (auto simp: unat_sub word_le_nat_alt)
  ultimately have "unat (backing_offset e0) + unat (a - guest_first e0) + unat offset + unat len < 2 ^ 64"
    using fit by linarith
  moreover from assms(5) have "0 < unat len" by (simp add: word_less_nat_alt)
  ultimately have lt: "?so < ?so + len" by (simp add: word_less_nat_alt unat_word_ariths)
  define R :: "vma_entry \<Rightarrow> (u64 \<times> u64) option" where "R e = alias_range ?so (?so + len) (guest_first e) (guest_last e) (backing_offset e)" for e
  define skip :: "vma_entry \<Rightarrow> bool" where "skip e \<longleftrightarrow> backing e \<noteq> backing e0 \<or> protection e AND VMA_EXEC = 0" for e
  have len: "len \<noteq> 0" using assms(5) by auto
  have V: "visit_exec_aliases_pin grow_ok pin offset len (ledger w, m') =
      visited (fold (\<lambda>e st. if skip e then st else push_alias grow_ok (R e) st) (entries (ledger w)) (Some ([], 0)))"
    unfolding R_def skip_def visit_exec_aliases_pin_def pin(2) prod.case option.case Let_def so
    using assms(3,4) len by (simp only: not_less [symmetric] if_False simp_thms)
  have "(\<exists>e \<in> set (entries (ledger w)). \<not> skip e \<and> (\<exists>f l. R e = Some (f, l) \<and> in_range f l x)) \<longleftrightarrow>
      exec_alias w (backing e0) ?so (?so + len) x" for x
    using alias_range_exact [OF eok lt] unfolding R_def skip_def exec_alias_def by blast
  then have A: "(\<exists>(lo, hi) \<in> set rs. in_range lo hi x) \<longleftrightarrow> exec_alias w (backing e0) ?so (?so + len) x"
    if "\<forall>r. r \<in> set rs \<longleftrightarrow> (\<exists>e \<in> set (entries (ledger w)). \<not> skip e \<and> R e = Some r)" for x rs
    unfolding Bex_def split_paired_Ex prod.case that [rule_format] by blast
  from visited_ranges [of skip grow_ok R "entries (ledger w)"] have
    "visit_exec_aliases_pin grow_ok pin offset len (ledger w, m') = [(0, - 1)] \<or>
     (\<forall>x. (\<exists>(lo, hi) \<in> set (visit_exec_aliases_pin grow_ok pin offset len (ledger w, m')). in_range lo hi x) \<longleftrightarrow>
       exec_alias w (backing e0) ?so (?so + len) x)"
    unfolding V using A by blast
  with mem cov show ?thesis by blast
qed

theorem pin_aliases_exact_witness:
  "\<exists>pin m'. pin_data 0x21010 8 1 (ledger file_world, memory file_world) = (Inr (True, pin), m') \<and>
     visit_exec_aliases_pin (\<lambda>_. True) pin 0 8 (ledger file_world, m') = [(0x21010, 0x21018), (0x30010, 0x30018)] \<and>
     exec_alias file_world 1 0x1010 0x1018 0x30014"
proof -
  let ?e = "file_view 0x20000 1 0"
  have d: "entries (ledger file_world) = [?e, file_view 0x30000 1 0x1000]" by (simp add: file_world_def file_ledger2_def)
  obtain pin m' where p: "pin_data 0x21010 8 1 (ledger file_world, memory file_world) = (Inr (True, pin), m')"
    "p_contiguous pin = 8" "token pin = Some 1" "p_host pin = 0x7001010" "heap m' 1 = Some (file_backing 0x3000 5)"
    unfolding pin_data_def prod.case d
    by (simp add: entry_at_def example_defs file_world_def host_first_def backing_get_def)
  have v: "visit_exec_aliases_pin (\<lambda>_. True) pin 0 8 (ledger file_world, m') = [(0x21010, 0x21018), (0x30010, 0x30018)]"
    unfolding visit_exec_aliases_pin_def p prod.case option.case d
    by (simp add: file_backing_def file_view_def visited_def VMA_EXEC_def push_alias_def push_range_def alias_range_def SIZE_MAX_def)
  note c = pin_aliases_exact [OF file_world_reached p(1), of 0 8 "\<lambda>_. True", unfolded v p(2)]
  from c obtain e0 where "e0 \<in> set (entries (ledger file_world))" "covers 0x21010 e0" and
    x: "\<forall>x. (\<exists>(lo, hi) \<in> set [(0x21010, 0x21018), (0x30010, 0x30018)]. in_range lo hi x) \<longleftrightarrow>
      exec_alias file_world (backing e0) (backing_offset e0 + (0x21010 - guest_first e0) + 0)
         (backing_offset e0 + (0x21010 - guest_first e0) + 0 + 8) x" by auto
  then have "e0 = ?e" by (auto simp: d file_view_def covers_def in_range_def)
  with spec [OF x, of "0x30014"] have "exec_alias file_world 1 0x1010 0x1018 0x30014"
    by (simp add: file_view_def in_range_def)
  with p v show ?thesis by blast
qed

end
