(* ===== verification/Fd_Table.thy ===== *)
theory Fd_Table
  imports Husk_Prelude
begin

text \<open>
  The descriptor table of the Linux personality (\<open>linux_abi/context.c\<close> and the files it includes):
  descriptors (\<open>fd_entry\<close>) name open file descriptions (\<open>ofd_entry\<close>), which own a host handle or a typed
  object and the host mutex that serialises their I/O.  Every section that the C code runs under
  \<open>table_lock\<close> is one definition here; the calls it makes outside that lock stand between two sections.
  What the host services answer is an argument (\<open>fd_host\<close>), the host calls made are a list of
  \<open>host_event\<close>s, output pointers are not NULL, and the pointer-and-size guards of the C structures are
  left to the caller.
\<close>

section \<open>Status codes\<close>

datatype hl_status =
    S_OK | S_INVALID_ARGUMENT | S_ABI_MISMATCH | S_NOT_SUPPORTED | S_OUT_OF_MEMORY | S_RESOURCE_LIMIT
  | S_NOT_FOUND | S_ALREADY_EXISTS | S_PERMISSION_DENIED | S_WOULD_BLOCK | S_INTERRUPTED | S_IO
  | S_PLATFORM_FAILURE | S_CORRUPT | S_BUSY | S_NOT_DIRECTORY | S_IS_DIRECTORY | S_NAME_TOO_LONG
  | S_SYMLINK_LOOP | S_READ_ONLY | S_DISCONNECTED | S_PROCESS_LIMIT | S_CROSS_DEVICE | S_NOT_EMPTY
  | S_NO_SPACE | S_QUOTA | S_FILE_TOO_LARGE | S_TIMED_OUT | S_CONNECTION_REFUSED | S_CONNECTION_RESET
  | S_NETWORK_UNREACHABLE | S_ADDRESS_IN_USE

datatype linux_errno =
    ENOENT | EINTR | EIO | EBADF | EAGAIN | ENXIO | ENOMEM | EACCES | EFAULT | EBUSY | EEXIST | ENOTDIR
  | EISDIR | EINVAL | ENFILE | EMFILE | EFBIG | ENOSPC | ESPIPE | EPIPE | EROFS | ENAMETOOLONG | ENOSYS
  | ELOOP | ENOTEMPTY | EXDEV | EDQUOT | ETIMEDOUT | ECONNREFUSED | ECONNRESET | ENETUNREACH | EADDRINUSE
  | EOVERFLOW | ELIBBAD

fun errno_number :: "linux_errno \<Rightarrow> int" where
  "errno_number ENOENT = 2" | "errno_number EINTR = 4" | "errno_number EIO = 5" | "errno_number EBADF = 9"
| "errno_number EAGAIN = 11" | "errno_number ENXIO = 6" | "errno_number ENOMEM = 12"
| "errno_number EACCES = 13" | "errno_number EFAULT = 14" | "errno_number EBUSY = 16"
| "errno_number EEXIST = 17" | "errno_number ENOTDIR = 20" | "errno_number EISDIR = 21"
| "errno_number EINVAL = 22" | "errno_number ENFILE = 23" | "errno_number EMFILE = 24"
| "errno_number EFBIG = 27" | "errno_number ENOSPC = 28" | "errno_number ESPIPE = 29"
| "errno_number EPIPE = 32" | "errno_number EROFS = 30" | "errno_number ENAMETOOLONG = 36"
| "errno_number ENOSYS = 38" | "errno_number ELOOP = 40" | "errno_number ENOTEMPTY = 39"
| "errno_number EXDEV = 18" | "errno_number EDQUOT = 122" | "errno_number ETIMEDOUT = 110"
| "errno_number ECONNREFUSED = 111" | "errno_number ECONNRESET = 104" | "errno_number ENETUNREACH = 101"
| "errno_number EADDRINUSE = 98" | "errno_number EOVERFLOW = 75" | "errno_number ELIBBAD = 80"

definition fails :: "linux_errno \<Rightarrow> int" where
  "fails e = - errno_number e"

fun hl_linux_error :: "hl_status \<Rightarrow> int" where
  "hl_linux_error S_OK = 0"
| "hl_linux_error S_INTERRUPTED = fails EINTR"
| "hl_linux_error S_NOT_FOUND = fails EBADF"
| "hl_linux_error S_WOULD_BLOCK = fails EAGAIN"
| "hl_linux_error S_OUT_OF_MEMORY = fails ENOMEM"
| "hl_linux_error S_PERMISSION_DENIED = fails EACCES"
| "hl_linux_error S_BUSY = fails EBUSY"
| "hl_linux_error S_NOT_DIRECTORY = fails ENOTDIR"
| "hl_linux_error S_IS_DIRECTORY = fails EISDIR"
| "hl_linux_error S_NAME_TOO_LONG = fails ENAMETOOLONG"
| "hl_linux_error S_SYMLINK_LOOP = fails ELOOP"
| "hl_linux_error S_READ_ONLY = fails EROFS"
| "hl_linux_error S_ALREADY_EXISTS = fails EEXIST"
| "hl_linux_error S_RESOURCE_LIMIT = fails ENFILE"
| "hl_linux_error S_PROCESS_LIMIT = fails EMFILE"
| "hl_linux_error S_DISCONNECTED = fails EPIPE"
| "hl_linux_error S_CROSS_DEVICE = fails EXDEV"
| "hl_linux_error S_NOT_EMPTY = fails ENOTEMPTY"
| "hl_linux_error S_NO_SPACE = fails ENOSPC"
| "hl_linux_error S_QUOTA = fails EDQUOT"
| "hl_linux_error S_FILE_TOO_LARGE = fails EFBIG"
| "hl_linux_error S_TIMED_OUT = fails ETIMEDOUT"
| "hl_linux_error S_CONNECTION_REFUSED = fails ECONNREFUSED"
| "hl_linux_error S_CONNECTION_RESET = fails ECONNRESET"
| "hl_linux_error S_NETWORK_UNREACHABLE = fails ENETUNREACH"
| "hl_linux_error S_ADDRESS_IN_USE = fails EADDRINUSE"
| "hl_linux_error S_INVALID_ARGUMENT = fails EINVAL"
| "hl_linux_error S_ABI_MISMATCH = fails EINVAL"
| "hl_linux_error S_CORRUPT = fails EINVAL"
| "hl_linux_error S_NOT_SUPPORTED = fails ENOSYS"
| "hl_linux_error S_IO = fails EIO"
| "hl_linux_error S_PLATFORM_FAILURE = fails EIO"

section \<open>State\<close>

record fd_entry =
  fd_ofd :: u32
  descriptor_flags :: u32
  fd_generation :: u32

text \<open>An object adapter is named by a number; \<open>None\<close> is the NULL adapter of an ordinary host file.\<close>

record ofd_entry =
  host_handle :: u64
  ofd_offset :: u64
  status_flags :: u32
  ofd_references :: u32
  active_operations :: u32
  closing :: u32
  ofd_generation :: u32
  ofd_kind :: u32
  flock_token :: u64
  io_mutex :: u64
  object_ops :: "nat option"
  object_context :: u64

record linux_abi =
  abi :: u32
  fds :: "fd_entry list"
  ofds :: "ofd_entry list"
  ofd_watermark :: u32
  reserved_fds :: u32

definition HL_LINUX_ABI_VERSION :: u32 where "HL_LINUX_ABI_VERSION = 4"
definition HL_LINUX_FD_RESERVED :: u32 where "HL_LINUX_FD_RESERVED = - 1"
definition HL_LINUX_FD_LIMIT :: nat where "HL_LINUX_FD_LIMIT = 65536"
definition HL_LINUX_OFD_LIMIT :: nat where "HL_LINUX_OFD_LIMIT = 65536"
definition HL_LINUX_FD_CLOEXEC :: u32 where "HL_LINUX_FD_CLOEXEC = 1"
definition HL_LINUX_O_CLOEXEC :: u32 where "HL_LINUX_O_CLOEXEC = 0x80000"

text \<open>What the host services offer and answer in one operation.\<close>

record fd_host =
  has_sync :: bool
  has_files :: bool
  mutex_create :: "hl_status \<times> u64"
  mutex_lock :: hl_status
  mutex_unlock :: hl_status
  mutex_close :: hl_status
  object_close :: hl_status
  file_close :: hl_status
  process_id :: u32
  token_counter :: u32

datatype host_event =
    Mutex_Created u64
  | Mutex_Closed u64
  | Object_Retired nat u64
  | Object_Closed nat u64
  | File_Closed u64

definition fd_at :: "linux_abi \<Rightarrow> u32 \<Rightarrow> fd_entry" where
  "fd_at t fd = fds t ! unat fd"

definition ofd_at :: "linux_abi \<Rightarrow> u32 \<Rightarrow> ofd_entry" where
  "ofd_at t i = ofds t ! unat i"

definition set_fd :: "u32 \<Rightarrow> (fd_entry \<Rightarrow> fd_entry) \<Rightarrow> linux_abi \<Rightarrow> linux_abi" where
  "set_fd fd f t = t\<lparr>fds := (fds t)[unat fd := f (fd_at t fd)]\<rparr>"

definition set_ofd :: "u32 \<Rightarrow> (ofd_entry \<Rightarrow> ofd_entry) \<Rightarrow> linux_abi \<Rightarrow> linux_abi" where
  "set_ofd i f t = t\<lparr>ofds := (ofds t)[unat i := f (ofd_at t i)]\<rparr>"

definition fd_capacity :: "linux_abi \<Rightarrow> nat" where "fd_capacity t = length (fds t)"
definition ofd_capacity :: "linux_abi \<Rightarrow> nat" where "ofd_capacity t = length (ofds t)"

definition hl_linux_new_ofd_token :: "fd_host \<Rightarrow> u64" where
  "hl_linux_new_ofd_token h =
    (let token = push_bit 32 (ucast (process_id h)) OR ucast (token_counter h + 1)
     in if token \<noteq> 0 then token else 1)"

section \<open>Searches\<close>

fun scan_fds :: "fd_entry list \<Rightarrow> u32 \<Rightarrow> u32 option" where
  "scan_fds [] fd = None"
| "scan_fds (e # es) fd = (if fd_ofd e = 0 then Some fd else scan_fds es (fd + 1))"

definition hl_linux_find_fd :: "linux_abi \<Rightarrow> hl_status + u32" where
  "hl_linux_find_fd t = (case scan_fds (fds t) 0 of None \<Rightarrow> Inl S_RESOURCE_LIMIT | Some fd \<Rightarrow> Inr fd)"

definition hl_linux_find_fd_at_least :: "linux_abi \<Rightarrow> u32 \<Rightarrow> hl_status + u32" where
  "hl_linux_find_fd_at_least t minimum =
    (if unat minimum \<ge> fd_capacity t then Inl S_RESOURCE_LIMIT
     else case scan_fds (drop (unat minimum) (fds t)) minimum of None \<Rightarrow> Inl S_RESOURCE_LIMIT | Some fd \<Rightarrow> Inr fd)"

definition ofd_free :: "ofd_entry \<Rightarrow> bool" where
  "ofd_free e \<longleftrightarrow> ofd_references e = 0 \<and> active_operations e = 0 \<and> closing e = 0 \<and> io_mutex e = 0"

fun scan_ofds :: "ofd_entry list \<Rightarrow> u32 \<Rightarrow> u32 option" where
  "scan_ofds [] i = None"
| "scan_ofds (e # es) i = (if ofd_free e then Some i else scan_ofds es (i + 1))"

definition hl_linux_find_ofd :: "linux_abi \<Rightarrow> hl_status + u32 \<times> linux_abi" where
  "hl_linux_find_ofd t =
    (case scan_ofds (drop 1 (ofds t)) 1 of
       None \<Rightarrow> Inl S_RESOURCE_LIMIT
     | Some i \<Rightarrow> Inr (i, if i + 1 > ofd_watermark t then t\<lparr>ofd_watermark := i + 1\<rparr> else t))"

text \<open>The index of the open file description a descriptor names.\<close>

definition hl_linux_fd_get_unlocked :: "linux_abi \<Rightarrow> u32 \<Rightarrow> hl_status + u32" where
  "hl_linux_fd_get_unlocked t fd =
    (if unat fd \<ge> fd_capacity t \<or> fd_ofd (fd_at t fd) = 0 \<or> fd_ofd (fd_at t fd) = HL_LINUX_FD_RESERVED
     then Inl S_NOT_FOUND
     else let i = fd_ofd (fd_at t fd) in
       if unat i \<ge> ofd_capacity t \<or> ofd_references (ofd_at t i) = 0 then Inl S_CORRUPT else Inr i)"

section \<open>Creation and destruction\<close>

definition empty_fd :: fd_entry where
  "empty_fd = \<lparr>fd_ofd = 0, descriptor_flags = 0, fd_generation = 0\<rparr>"

definition empty_ofd :: ofd_entry where
  "empty_ofd = \<lparr>host_handle = 0, ofd_offset = 0, status_flags = 0, ofd_references = 0, active_operations = 0,
     closing = 0, ofd_generation = 0, ofd_kind = 0, flock_token = 0, io_mutex = 0, object_ops = None,
     object_context = 0\<rparr>"

text \<open>The storage is supplied zeroed by the caller.\<close>

definition hl_linux_abi_init :: "fd_host \<Rightarrow> nat \<Rightarrow> nat \<Rightarrow> hl_status + linux_abi" where
  "hl_linux_abi_init h fd_cap ofd_cap =
    (if fd_cap = 0 \<or> fd_cap > HL_LINUX_FD_LIMIT \<or> ofd_cap < 2 \<or> ofd_cap > HL_LINUX_OFD_LIMIT
     then Inl S_INVALID_ARGUMENT
     else if \<not> has_sync h then Inl S_NOT_SUPPORTED
     else Inr \<lparr>abi = HL_LINUX_ABI_VERSION, fds = replicate fd_cap empty_fd, ofds = replicate ofd_cap empty_ofd,
       ofd_watermark = 0, reserved_fds = 0\<rparr>)"

definition hl_linux_abi_destroy :: "linux_abi \<Rightarrow> hl_status \<times> linux_abi" where
  "hl_linux_abi_destroy t =
    (if abi t \<noteq> HL_LINUX_ABI_VERSION then (S_INVALID_ARGUMENT, t)
     else if list_ex (\<lambda>e. fd_ofd e = HL_LINUX_FD_RESERVED) (fds t) then (S_BUSY, t)
     else if list_ex (\<lambda>e. ofd_references e \<noteq> 0 \<or> active_operations e \<noteq> 0 \<or> closing e \<noteq> 0) (drop 1 (ofds t))
     then (S_BUSY, t)
     else (S_OK, t\<lparr>abi := 0\<rparr>))"

section \<open>Installation\<close>

text \<open>The mutex of a new description is created before the lock is taken and closed again when the
  installation fails.\<close>

definition with_new_mutex ::
  "fd_host \<Rightarrow> linux_abi \<Rightarrow> (u64 \<Rightarrow> hl_status + 'a \<times> linux_abi) \<Rightarrow> (hl_status + 'a) \<times> linux_abi \<times> host_event list" where
  "with_new_mutex h t section =
    (if \<not> has_sync h then (Inl S_NOT_SUPPORTED, t, [])
     else case mutex_create h of (st, m) \<Rightarrow>
       if st \<noteq> S_OK \<or> m = 0 then (Inl (if st = S_OK then S_RESOURCE_LIMIT else st), t, [])
       else case section m of
           Inl e \<Rightarrow> (Inl e, t, [Mutex_Created m, Mutex_Closed m])
         | Inr (x, t') \<Rightarrow> (Inr x, t', [Mutex_Created m]))"

definition fill_ofd :: "fd_host \<Rightarrow> u64 \<Rightarrow> u32 \<Rightarrow> u64 \<Rightarrow> ofd_entry \<Rightarrow> ofd_entry" where
  "fill_ofd h handle sflags m e =
    e\<lparr>host_handle := handle, status_flags := sflags, io_mutex := m, ofd_references := 1,
      ofd_generation := ofd_generation e + 1, flock_token := hl_linux_new_ofd_token h\<rparr>"

definition point_fd :: "u32 \<Rightarrow> u32 \<Rightarrow> fd_entry \<Rightarrow> fd_entry" where
  "point_fd i dflags e = e\<lparr>fd_ofd := i, descriptor_flags := dflags, fd_generation := fd_generation e + 1\<rparr>"

definition hl_linux_fd_install ::
  "fd_host \<Rightarrow> u64 \<Rightarrow> u32 \<Rightarrow> u32 \<Rightarrow> linux_abi \<Rightarrow> (hl_status + u32) \<times> linux_abi \<times> host_event list" where
  "hl_linux_fd_install h handle sflags dflags t =
    (if abi t \<noteq> HL_LINUX_ABI_VERSION \<or> handle = 0 then (Inl S_INVALID_ARGUMENT, t, [])
     else with_new_mutex h t (\<lambda>m.
       case hl_linux_find_fd t of
         Inl e \<Rightarrow> Inl e
       | Inr fd \<Rightarrow>
           (case hl_linux_find_ofd t of
              Inl e \<Rightarrow> Inl e
            | Inr (i, t1) \<Rightarrow> Inr (fd, set_fd fd (point_fd i dflags) (set_ofd i (fill_ofd h handle sflags m) t1)))))"

definition hl_linux_fd_install_at ::
  "fd_host \<Rightarrow> u32 \<Rightarrow> u64 \<Rightarrow> u32 \<Rightarrow> u32 \<Rightarrow> linux_abi \<Rightarrow> (hl_status + unit) \<times> linux_abi \<times> host_event list" where
  "hl_linux_fd_install_at h fd handle sflags dflags t =
    (if abi t \<noteq> HL_LINUX_ABI_VERSION \<or> unat fd \<ge> fd_capacity t \<or> handle = 0 then (Inl S_INVALID_ARGUMENT, t, [])
     else with_new_mutex h t (\<lambda>m.
       if fd_ofd (fd_at t fd) \<noteq> 0 then Inl S_ALREADY_EXISTS
       else case hl_linux_find_ofd t of
           Inl e \<Rightarrow> Inl e
         | Inr (i, t1) \<Rightarrow> Inr ((), set_fd fd (point_fd i dflags) (set_ofd i (fill_ofd h handle sflags m) t1))))"

text \<open>\<open>requested\<close> is \<open>None\<close> for the lowest free descriptor (UINT32_MAX in the code).\<close>

definition hl_linux_object_install_common ::
  "fd_host \<Rightarrow> u32 option \<Rightarrow> nat \<Rightarrow> u64 \<Rightarrow> u32 \<Rightarrow> u32 \<Rightarrow> u32 \<Rightarrow> linux_abi \<Rightarrow>
   (hl_status + u32) \<times> linux_abi \<times> host_event list" where
  "hl_linux_object_install_common h requested ops context kind sflags dflags t =
    (if abi t \<noteq> HL_LINUX_ABI_VERSION \<or> context = 0 \<or>
        (case requested of None \<Rightarrow> False | Some fd \<Rightarrow> unat fd \<ge> fd_capacity t)
     then (Inl S_INVALID_ARGUMENT, t, [])
     else with_new_mutex h t (\<lambda>m.
       case (case requested of
               None \<Rightarrow> hl_linux_find_fd t
             | Some fd \<Rightarrow> if fd_ofd (fd_at t fd) \<noteq> 0 then Inl S_ALREADY_EXISTS else Inr fd) of
         Inl e \<Rightarrow> Inl e
       | Inr fd \<Rightarrow>
           (case hl_linux_find_ofd t of
              Inl e \<Rightarrow> Inl e
            | Inr (i, t1) \<Rightarrow>
                Inr (fd, set_fd fd (point_fd i dflags) (set_ofd i (\<lambda>e.
                  \<lparr>host_handle = 0, ofd_offset = 0, status_flags = sflags, ofd_references = 1,
                   active_operations = 0, closing = 0, ofd_generation = ofd_generation e + 1, ofd_kind = kind,
                   flock_token = hl_linux_new_ofd_token h, io_mutex = m, object_ops = Some ops,
                   object_context = context\<rparr>) t1)))))"

definition hl_linux_object_install where
  "hl_linux_object_install h = hl_linux_object_install_common h None"

definition hl_linux_object_install_at where
  "hl_linux_object_install_at h fd = hl_linux_object_install_common h (Some fd)"

section \<open>Reservations\<close>

record fd_reservation =
  res_fd :: u32
  res_generation :: u32

definition hl_linux_fd_reserve_at :: "u32 \<Rightarrow> linux_abi \<Rightarrow> (hl_status + fd_reservation) \<times> linux_abi" where
  "hl_linux_fd_reserve_at fd t =
    (if abi t \<noteq> HL_LINUX_ABI_VERSION \<or> unat fd \<ge> fd_capacity t then (Inl S_INVALID_ARGUMENT, t)
     else if fd_ofd (fd_at t fd) \<noteq> 0 then (Inl S_ALREADY_EXISTS, t)
     else
       (let t1 = set_fd fd (\<lambda>e. \<lparr>fd_ofd = HL_LINUX_FD_RESERVED, descriptor_flags = 0, fd_generation = fd_generation e + 1\<rparr>) t
        in (Inr \<lparr>res_fd = fd, res_generation = fd_generation (fd_at t1 fd)\<rparr>,
            t1\<lparr>reserved_fds := reserved_fds t + 1\<rparr>)))"

definition drop_reserved :: "linux_abi \<Rightarrow> linux_abi" where
  "drop_reserved t = (if reserved_fds t \<noteq> 0 then t\<lparr>reserved_fds := reserved_fds t - 1\<rparr> else t)"

definition hl_linux_fd_cancel :: "fd_reservation \<Rightarrow> linux_abi \<Rightarrow> hl_status \<times> linux_abi" where
  "hl_linux_fd_cancel r t =
    (if abi t \<noteq> HL_LINUX_ABI_VERSION \<or> unat (res_fd r) \<ge> fd_capacity t then (S_INVALID_ARGUMENT, t)
     else if fd_ofd (fd_at t (res_fd r)) \<noteq> HL_LINUX_FD_RESERVED \<or>
             fd_generation (fd_at t (res_fd r)) \<noteq> res_generation r
     then (S_NOT_FOUND, t)
     else (S_OK, drop_reserved (set_fd (res_fd r) (\<lambda>e. e\<lparr>fd_ofd := 0\<rparr>) t)))"

definition hl_linux_fd_commit ::
  "fd_host \<Rightarrow> fd_reservation \<Rightarrow> u64 \<Rightarrow> u32 \<Rightarrow> u32 \<Rightarrow> linux_abi \<Rightarrow> (hl_status + unit) \<times> linux_abi \<times> host_event list" where
  "hl_linux_fd_commit h r handle sflags dflags t =
    (if handle = 0 then (Inl S_INVALID_ARGUMENT, t, [])
     else with_new_mutex h t (\<lambda>m.
       if unat (res_fd r) \<ge> fd_capacity t \<or> fd_ofd (fd_at t (res_fd r)) \<noteq> HL_LINUX_FD_RESERVED \<or>
          fd_generation (fd_at t (res_fd r)) \<noteq> res_generation r
       then Inl S_NOT_FOUND
       else case hl_linux_find_ofd t of
           Inl e \<Rightarrow> Inl e
         | Inr (i, t1) \<Rightarrow>
             Inr ((), drop_reserved (set_fd (res_fd r) (\<lambda>e. e\<lparr>fd_ofd := i, descriptor_flags := dflags\<rparr>)
               (set_ofd i (fill_ofd h handle sflags m) t1)))))"

record fd_snapshot =
  snap_fd :: u32
  snap_ofd :: u32
  snap_handle :: u64
  snap_offset :: u64
  snap_status_flags :: u32
  snap_descriptor_flags :: u32
  snap_descriptor_generation :: u32
  snap_ofd_generation :: u32
  snap_references :: u32
  snap_kind :: u32
  snap_token :: u64

definition hl_linux_fd_snapshot_get :: "linux_abi \<Rightarrow> u32 \<Rightarrow> hl_status + fd_snapshot" where
  "hl_linux_fd_snapshot_get t fd =
    (case hl_linux_fd_get_unlocked t fd of
       Inl e \<Rightarrow> Inl e
     | Inr i \<Rightarrow>
         (let f = fd_at t fd; e = ofd_at t i in
          Inr \<lparr>snap_fd = fd, snap_ofd = fd_ofd f, snap_handle = host_handle e, snap_offset = ofd_offset e,
               snap_status_flags = status_flags e, snap_descriptor_flags = descriptor_flags f,
               snap_descriptor_generation = fd_generation f, snap_ofd_generation = ofd_generation e,
               snap_references = ofd_references e, snap_kind = ofd_kind e, snap_token = flock_token e\<rparr>))"

section \<open>Duplication\<close>

definition add_reference :: "ofd_entry \<Rightarrow> ofd_entry" where
  "add_reference e = e\<lparr>ofd_references := ofd_references e + 1\<rparr>"

definition hl_linux_fd_dup :: "u32 \<Rightarrow> u32 \<Rightarrow> linux_abi \<Rightarrow> (hl_status + u32) \<times> linux_abi" where
  "hl_linux_fd_dup src dflags t =
    (case hl_linux_fd_get_unlocked t src of
       Inl e \<Rightarrow> (Inl e, t)
     | Inr i \<Rightarrow>
         (case hl_linux_find_fd t of
            Inl e \<Rightarrow> (Inl e, t)
          | Inr fd \<Rightarrow> (Inr fd, set_ofd i add_reference (set_fd fd (point_fd i dflags) t))))"

definition lookup_error :: "hl_status \<Rightarrow> int" where
  "lookup_error e = (if e = S_NOT_FOUND then fails EBADF else hl_linux_error e)"

definition hl_linux_fd_dup_at_least :: "u32 \<Rightarrow> u32 \<Rightarrow> u32 \<Rightarrow> linux_abi \<Rightarrow> int \<times> linux_abi" where
  "hl_linux_fd_dup_at_least src minimum dflags t =
    (case hl_linux_fd_get_unlocked t src of
       Inl e \<Rightarrow> (lookup_error e, t)
     | Inr i \<Rightarrow>
         (case hl_linux_find_fd_at_least t minimum of
            Inl e \<Rightarrow> (fails EMFILE, t)
          | Inr fd \<Rightarrow> (uint fd, set_ofd i add_reference (set_fd fd (point_fd i dflags) t))))"

definition hl_linux_dup :: "u32 \<Rightarrow> linux_abi \<Rightarrow> int \<times> linux_abi" where
  "hl_linux_dup fd = hl_linux_fd_dup_at_least fd 0 0"

section \<open>Finalisation\<close>

text \<open>The two sections of a finalisation.  The first waits while operations are in flight
  (\<open>Wait\<close>), then takes the host object out of the description; the second frees the slot.\<close>

datatype finalize_claim =
    Claim_Corrupt
  | Claim_Wait
  | Claimed u64 "(nat \<times> u64) option" linux_abi

definition claim_ofd :: "u32 \<Rightarrow> linux_abi \<Rightarrow> finalize_claim" where
  "claim_ofd i t =
    (let e = ofd_at t i in
     if ofd_references e \<noteq> 0 \<or> closing e = 0 then Claim_Corrupt
     else if active_operations e \<noteq> 0 then Claim_Wait
     else Claimed (host_handle e) (map_option (\<lambda>ops. (ops, object_context e)) (object_ops e))
       (set_ofd i (\<lambda>e. e\<lparr>host_handle := 0, ofd_offset := 0, status_flags := 0, ofd_kind := 0, object_ops := None,
          object_context := 0\<rparr>) t))"

definition release_ofd :: "u32 \<Rightarrow> u64 \<Rightarrow> linux_abi \<Rightarrow> hl_status \<times> linux_abi" where
  "release_ofd i m t =
    (let e = ofd_at t i in
     if ofd_references e \<noteq> 0 \<or> active_operations e \<noteq> 0 \<or> closing e = 0 \<or> io_mutex e \<noteq> m then (S_CORRUPT, t)
     else (S_OK, set_ofd i (\<lambda>e. e\<lparr>io_mutex := 0, closing := 0, ofd_generation := ofd_generation e + 1\<rparr>) t))"

definition first_failure :: "hl_status \<Rightarrow> hl_status \<Rightarrow> hl_status" where
  "first_failure st st' = (if st' \<noteq> S_OK \<and> st = S_OK then st' else st)"

text \<open>The whole finalisation, when no other thread runs between its sections: while operations are in
  flight it does not return (\<open>None\<close>), unless it could not take the mutex.  The result is the status, the
  host handle left to the caller, the table and the calls made.\<close>

definition hl_linux_ofd_finalize ::
  "fd_host \<Rightarrow> u32 \<Rightarrow> linux_abi \<Rightarrow> (hl_status \<times> u64 \<times> linux_abi \<times> host_event list) option" where
  "hl_linux_ofd_finalize h i t =
    (let m = io_mutex (ofd_at t i) in
     case claim_ofd i t of
       Claim_Corrupt \<Rightarrow> Some (S_CORRUPT, 0, t, [])
     | Claim_Wait \<Rightarrow> (if mutex_lock h \<noteq> S_OK then Some (mutex_lock h, 0, t, []) else None)
     | Claimed handle ob t1 \<Rightarrow>
         (let st1 = (case ob of None \<Rightarrow> mutex_lock h | Some _ \<Rightarrow> object_close h);
              st2 = (if mutex_lock h = S_OK then first_failure st1 (mutex_unlock h) else st1);
              st3 = first_failure st2 (mutex_close h);
              evs = (case ob of None \<Rightarrow> [] | Some (ops, ctx) \<Rightarrow> [Object_Closed ops ctx]) @ [Mutex_Closed m]
          in case release_ofd i m t1 of
               (S_OK, t2) \<Rightarrow> Some (st3, handle, t2, evs)
             | (st, t2) \<Rightarrow> Some (st, 0, t2, evs)))"

section \<open>Closing\<close>

text \<open>The section of \<open>close\<close>: what is left to do is to retire the object, and to finalise.\<close>

record close_plan =
  cp_ofd :: u32
  cp_retire :: "(nat \<times> u64) option"
  cp_finalize :: bool

definition close_locked :: "u32 \<Rightarrow> linux_abi \<Rightarrow> hl_status + close_plan \<times> linux_abi" where
  "close_locked fd t =
    (if unat fd \<ge> fd_capacity t \<or> fd_ofd (fd_at t fd) = 0 \<or> fd_ofd (fd_at t fd) = HL_LINUX_FD_RESERVED
     then Inl S_NOT_FOUND
     else let i = fd_ofd (fd_at t fd) in
       if unat i \<ge> ofd_capacity t then Inl S_CORRUPT
       else if ofd_references (ofd_at t i) = 0 then Inl S_CORRUPT
       else
         (let t1 = set_fd fd (\<lambda>e. \<lparr>fd_ofd = 0, descriptor_flags = 0, fd_generation = fd_generation e + 1\<rparr>) t;
              t2 = set_ofd i (\<lambda>e. e\<lparr>ofd_references := ofd_references e - 1\<rparr>) t1;
              final = (ofd_references (ofd_at t2 i) = 0);
              t3 = (if final then set_ofd i (\<lambda>e. e\<lparr>closing := 1\<rparr>) t2 else t2);
              e = ofd_at t3 i
          in Inr (\<lparr>cp_ofd = i,
                   cp_retire = (if final then map_option (\<lambda>ops. (ops, object_context e)) (object_ops e) else None),
                   cp_finalize = (final \<and> active_operations e = 0)\<rparr>, t3)))"

text \<open>\<open>retires\<close> tells which adapters have a retirement notification.\<close>

definition retire_events :: "(nat \<Rightarrow> bool) \<Rightarrow> (nat \<times> u64) option \<Rightarrow> host_event list" where
  "retire_events retires ob =
    (case ob of None \<Rightarrow> [] | Some (ops, ctx) \<Rightarrow> if retires ops then [Object_Retired ops ctx] else [])"

definition hl_linux_fd_close ::
  "fd_host \<Rightarrow> (nat \<Rightarrow> bool) \<Rightarrow> u32 \<Rightarrow> linux_abi \<Rightarrow> (hl_status \<times> u64 \<times> linux_abi \<times> host_event list) option" where
  "hl_linux_fd_close h retires fd t =
    (case close_locked fd t of
       Inl e \<Rightarrow> Some (e, 0, t, [])
     | Inr (p, t1) \<Rightarrow>
         if cp_finalize p then
           map_option (\<lambda>(st, handle, t2, evs). (st, handle, t2, retire_events retires (cp_retire p) @ evs))
             (hl_linux_ofd_finalize h (cp_ofd p) t1)
         else Some (S_OK, 0, t1, retire_events retires (cp_retire p)))"

definition hl_linux_close ::
  "fd_host \<Rightarrow> (nat \<Rightarrow> bool) \<Rightarrow> u32 \<Rightarrow> linux_abi \<Rightarrow> (int \<times> linux_abi \<times> host_event list) option" where
  "hl_linux_close h retires fd t =
    map_option (\<lambda>(st, handle, t1, evs).
      if st \<noteq> S_OK then (lookup_error st, t1, evs)
      else if handle = 0 then (0, t1, evs)
      else if \<not> has_files h then (fails ENOSYS, t1, evs)
      else ((if file_close h = S_OK then 0 else hl_linux_error (file_close h)), t1, evs @ [File_Closed handle]))
    (hl_linux_fd_close h retires fd t)"

section \<open>Replacement: dup2 and dup3\<close>

text \<open>The section of \<open>hl_linux_fd_replace\<close>: an error, or the table and the description whose last
  reference was displaced, if any.\<close>

definition replace_locked :: "u32 \<Rightarrow> u32 \<Rightarrow> u32 \<Rightarrow> linux_abi \<Rightarrow> int + u32 option \<times> linux_abi" where
  "replace_locked src target dflags t =
    (case hl_linux_fd_get_unlocked t src of
       Inl e \<Rightarrow> Inl (fails EBADF)
     | Inr i \<Rightarrow>
         if unat target \<ge> fd_capacity t then Inl (fails EBADF)
         else if src = target then Inr (None, t)
         else
           (let j = fd_ofd (fd_at t target) in
            if j \<noteq> 0 \<and> (unat j \<ge> ofd_capacity t \<or> ofd_references (ofd_at t j) = 0) then Inl (fails EIO)
            else
              (let t1 = (if j \<noteq> 0 then
                     set_ofd j (\<lambda>e. let e1 = e\<lparr>ofd_references := ofd_references e - 1\<rparr> in
                       if ofd_references e1 = 0 then e1\<lparr>closing := 1\<rparr> else e1) t
                   else t);
                   t2 = set_ofd i add_reference (set_fd target (point_fd i dflags) t1)
               in Inr (if j \<noteq> 0 \<and> ofd_references (ofd_at t2 j) = 0 then Some j else None, t2))))"

definition hl_linux_fd_replace ::
  "fd_host \<Rightarrow> u32 \<Rightarrow> u32 \<Rightarrow> u32 \<Rightarrow> bool \<Rightarrow> linux_abi \<Rightarrow> (int \<times> linux_abi \<times> host_event list) option" where
  "hl_linux_fd_replace h src target dflags reject_same t =
    (if src = target \<and> reject_same then Some (fails EINVAL, t, [])
     else case replace_locked src target dflags t of
         Inl e \<Rightarrow> Some (e, t, [])
       | Inr (None, t1) \<Rightarrow> Some (uint target, t1, [])
       | Inr (Some j, t1) \<Rightarrow>
           map_option (\<lambda>(st, handle, t2, evs).
               (uint target, t2, evs @ (if has_files h then [File_Closed handle] else [])))
             (hl_linux_ofd_finalize h j t1))"

definition hl_linux_dup2 where
  "hl_linux_dup2 h src target = hl_linux_fd_replace h src target 0 False"

definition hl_linux_dup3 ::
  "fd_host \<Rightarrow> u32 \<Rightarrow> u32 \<Rightarrow> u32 \<Rightarrow> linux_abi \<Rightarrow> (int \<times> linux_abi \<times> host_event list) option" where
  "hl_linux_dup3 h src target flags t =
    (if flags AND NOT HL_LINUX_O_CLOEXEC \<noteq> 0 then Some (fails EINVAL, t, [])
     else hl_linux_fd_replace h src target (if flags AND HL_LINUX_O_CLOEXEC \<noteq> 0 then HL_LINUX_FD_CLOEXEC else 0) True t)"

end
