(* ===== verification/Fd_Io.thy ===== *)
theory Fd_Io
  imports Fd_Table
begin

text \<open>
  Operations on open file descriptions: \<open>fcntl\<close>, the close-on-exec sweep, the table validator, pins on
  typed objects, and the I/O calls (\<open>descriptor_control.c\<close>, \<open>descriptor_lifecycle.c\<close>,
  \<open>object_access.c\<close>, \<open>stream_read.c\<close>, \<open>stream_write.c\<close>, \<open>file_control.c\<close>,
  \<open>file_metadata.c\<close>).  An I/O call looks the descriptor up and counts itself in under the lock
  (\<open>begin_operation\<close>), works on the description outside of it (a function of the entry), and counts itself
  out (\<open>end_operation\<close>).  Sizes are \<open>u64\<close>; of a buffer only its NULL-ness and its bytes appear; the host file
  services and the object adapters answer through the record \<open>io_host\<close>.
\<close>

section \<open>Constants\<close>

definition HL_LINUX_O_ACCMODE :: u32 where "HL_LINUX_O_ACCMODE = 3"
definition HL_LINUX_O_RDONLY :: u32 where "HL_LINUX_O_RDONLY = 0"
definition HL_LINUX_O_WRONLY :: u32 where "HL_LINUX_O_WRONLY = 1"
definition HL_LINUX_O_RDWR :: u32 where "HL_LINUX_O_RDWR = 2"
definition HL_LINUX_O_CREAT :: u32 where "HL_LINUX_O_CREAT = 0x40"
definition HL_LINUX_O_EXCL :: u32 where "HL_LINUX_O_EXCL = 0x80"
definition HL_LINUX_O_TRUNC :: u32 where "HL_LINUX_O_TRUNC = 0x200"
definition HL_LINUX_O_APPEND :: u32 where "HL_LINUX_O_APPEND = 0x400"
definition HL_LINUX_O_NONBLOCK :: u32 where "HL_LINUX_O_NONBLOCK = 0x800"
definition HL_LINUX_O_ASYNC :: u32 where "HL_LINUX_O_ASYNC = 0x2000"
definition HL_LINUX_O_DIRECT :: u32 where "HL_LINUX_O_DIRECT = 0x4000"
definition HL_LINUX_O_DIRECTORY :: u32 where "HL_LINUX_O_DIRECTORY = 0x10000"
definition HL_LINUX_O_NOFOLLOW :: u32 where "HL_LINUX_O_NOFOLLOW = 0x20000"
definition HL_LINUX_O_NOATIME :: u32 where "HL_LINUX_O_NOATIME = 0x40000"
definition HL_LINUX_O_PATH :: u32 where "HL_LINUX_O_PATH = 0x200000"

definition HL_LINUX_O_SETFL :: u32 where
  "HL_LINUX_O_SETFL = HL_LINUX_O_APPEND OR HL_LINUX_O_NONBLOCK OR HL_LINUX_O_DIRECT OR HL_LINUX_O_ASYNC OR HL_LINUX_O_NOATIME"

definition HL_LINUX_O_SETFL_HOST :: u32 where
  "HL_LINUX_O_SETFL_HOST = HL_LINUX_O_NONBLOCK OR HL_LINUX_O_DIRECT OR HL_LINUX_O_ASYNC OR HL_LINUX_O_NOATIME"

definition INT64_MAX :: u64 where "INT64_MAX = 0x7FFFFFFFFFFFFFFF"

definition hl_linux_host_stream_flags :: "u32 \<Rightarrow> u32" where
  "hl_linux_host_stream_flags f =
    (if f AND HL_LINUX_O_NONBLOCK \<noteq> 0 then 1 else 0) OR (if f AND HL_LINUX_O_DIRECT \<noteq> 0 then 8 else 0) OR
    (if f AND HL_LINUX_O_ASYNC \<noteq> 0 then 16 else 0) OR (if f AND HL_LINUX_O_NOATIME \<noteq> 0 then 32 else 0)"

definition hl_linux_status_flags_from_host_stream :: "u32 \<Rightarrow> u32" where
  "hl_linux_status_flags_from_host_stream f =
    (if f AND 1 \<noteq> 0 then HL_LINUX_O_NONBLOCK else 0) OR (if f AND 8 \<noteq> 0 then HL_LINUX_O_DIRECT else 0) OR
    (if f AND 16 \<noteq> 0 then HL_LINUX_O_ASYNC else 0) OR (if f AND 32 \<noteq> 0 then HL_LINUX_O_NOATIME else 0)"

section \<open>Host services and object adapters\<close>

record file_metadata =
  md_device :: u64
  md_object :: u64
  md_size :: u64
  md_allocated :: u64
  md_modified :: u64
  md_accessed :: u64
  md_changed :: u64
  md_created :: u64
  md_special :: u64
  md_links :: u64
  md_type :: u32
  md_permissions :: u32
  md_user :: u32
  md_group :: u32

record file_status =
  st_device :: u64
  st_object :: u64
  st_size :: u64
  st_blocks :: u64
  st_modified :: u64
  st_accessed :: u64
  st_changed :: u64
  st_created :: u64
  st_special :: u64
  st_links :: u64
  st_mode :: u32
  st_user :: u32
  st_group :: u32

text \<open>An absent function pointer is \<open>None\<close>; a host call takes the handle and answers a status and a value.\<close>

record io_host =
  io_files :: bool
  io_read :: "(u64 \<Rightarrow> u64 \<Rightarrow> hl_status \<times> u64) option"
  io_read_at :: "(u64 \<Rightarrow> u64 \<Rightarrow> u64 \<Rightarrow> hl_status \<times> u64) option"
  io_write_at :: "(u64 \<Rightarrow> u64 \<Rightarrow> u64 \<Rightarrow> hl_status \<times> u64) option"
  io_write :: "u64 \<Rightarrow> u64 \<Rightarrow> hl_status \<times> u64"
  io_append :: "u64 \<Rightarrow> u64 \<Rightarrow> hl_status \<times> u64"
  io_seek :: "(u64 \<Rightarrow> int \<Rightarrow> int \<Rightarrow> hl_status \<times> u64 \<times> u64) option"
  io_vector :: "nat \<Rightarrow> bool \<Rightarrow> (u64 \<Rightarrow> u64 \<Rightarrow> hl_status \<times> u64) option"
  io_control :: "nat \<Rightarrow> (u64 \<Rightarrow> u64 \<Rightarrow> hl_status) option"
  io_sync_range :: "(u64 \<Rightarrow> u64 \<Rightarrow> u64 \<Rightarrow> u32 \<Rightarrow> hl_status) option"
  io_sync_filesystem :: "(u64 \<Rightarrow> hl_status) option"
  io_metadata :: "(u64 \<Rightarrow> hl_status \<times> file_metadata) option"
  io_map_file :: "(u64 \<Rightarrow> hl_status) option"
  io_set_stream_flags :: "(u64 \<Rightarrow> u32 \<Rightarrow> hl_status \<times> u32) option"
  obj_read :: "nat \<Rightarrow> (u64 \<Rightarrow> u64 \<Rightarrow> int) option"
  obj_write :: "nat \<Rightarrow> (u64 \<Rightarrow> u64 \<Rightarrow> int) option"
  obj_status :: "nat \<Rightarrow> (u64 \<Rightarrow> int \<times> file_status) option"
  obj_set_flags :: "nat \<Rightarrow> (u64 \<Rightarrow> u32 \<Rightarrow> int \<times> u32) option"

section \<open>Operations in flight\<close>

definition begin_operation :: "(ofd_entry \<Rightarrow> linux_errno option) \<Rightarrow> u32 \<Rightarrow> linux_abi \<Rightarrow> int + u32 \<times> linux_abi" where
  "begin_operation guard fd t =
    (case hl_linux_fd_get_unlocked t fd of
       Inl e \<Rightarrow> Inl (lookup_error e)
     | Inr i \<Rightarrow>
         (case guard (ofd_at t i) of
            Some e \<Rightarrow> Inl (fails e)
          | None \<Rightarrow> Inr (i, set_ofd i (\<lambda>e. e\<lparr>active_operations := active_operations e + 1\<rparr>) t)))"

definition end_operation :: "u32 \<Rightarrow> linux_abi \<Rightarrow> linux_abi" where
  "end_operation i t = set_ofd i (\<lambda>e. e\<lparr>active_operations := active_operations e - 1\<rparr>) t"

definition run_operation ::
  "(ofd_entry \<Rightarrow> linux_errno option) \<Rightarrow> u32 \<Rightarrow> (ofd_entry \<Rightarrow> 'a \<times> ofd_entry) \<Rightarrow> (int \<Rightarrow> 'a) \<Rightarrow> linux_abi \<Rightarrow> 'a \<times> linux_abi" where
  "run_operation guard fd body err t =
    (case begin_operation guard fd t of
       Inl e \<Rightarrow> (err e, t)
     | Inr (i, t1) \<Rightarrow>
         (case body (ofd_at t1 i) of (r, e') \<Rightarrow> (r, end_operation i (set_ofd i (\<lambda>_. e') t1))))"

definition unguarded :: "ofd_entry \<Rightarrow> linux_errno option" where "unguarded e = None"

definition access_is :: "u32 \<Rightarrow> ofd_entry \<Rightarrow> bool" where
  "access_is mode e \<longleftrightarrow> status_flags e AND HL_LINUX_O_ACCMODE = mode"

definition not_read_only :: "ofd_entry \<Rightarrow> linux_errno option" where
  "not_read_only e = (if access_is HL_LINUX_O_RDONLY e then Some EBADF else None)"

text \<open>What a host transfer of at most \<open>size\<close> bytes is reported as.\<close>

definition transfer_result :: "hl_status \<times> u64 \<Rightarrow> u64 \<Rightarrow> int" where
  "transfer_result r bytes =
    (case r of (st, value) \<Rightarrow>
      if st \<noteq> S_OK then hl_linux_error st
      else if value > bytes \<or> value > INT64_MAX then fails EIO else uint value)"

definition advance :: "int \<Rightarrow> ofd_entry \<Rightarrow> ofd_entry" where
  "advance result e =
    (if result > 0 \<and> ofd_offset e \<le> - 1 - word_of_int result
     then e\<lparr>ofd_offset := ofd_offset e + word_of_int result\<rparr> else e)"

section \<open>Reading\<close>

definition hl_linux_pread64 :: "io_host \<Rightarrow> u32 \<Rightarrow> bool \<Rightarrow> u64 \<Rightarrow> u64 \<Rightarrow> linux_abi \<Rightarrow> int \<times> linux_abi" where
  "hl_linux_pread64 h fd null bytes offset t =
    (if bytes > INT64_MAX then (fails EINVAL, t)
     else run_operation unguarded fd
       (\<lambda>e. ((if status_flags e AND HL_LINUX_O_PATH \<noteq> 0 then fails EBADF
              else if access_is HL_LINUX_O_WRONLY e then fails EBADF
              else if bytes \<noteq> 0 \<and> null then fails EINVAL
              else if \<not> io_files h then fails ENOSYS
              else case io_read_at h of None \<Rightarrow> fails ENOSYS
                | Some f \<Rightarrow> transfer_result (f (host_handle e) offset bytes) bytes), e)) id t)"

definition read_body :: "io_host \<Rightarrow> bool \<Rightarrow> u64 \<Rightarrow> ofd_entry \<Rightarrow> int \<times> ofd_entry" where
  "read_body h null bytes e =
    (if status_flags e AND HL_LINUX_O_PATH \<noteq> 0 \<or> access_is HL_LINUX_O_WRONLY e then (fails EBADF, e)
     else if bytes \<noteq> 0 \<and> null then (fails EINVAL, e)
     else case object_ops e of
       Some ops \<Rightarrow> ((case obj_read h ops of None \<Rightarrow> fails ENOSYS | Some f \<Rightarrow> f (object_context e) bytes), e)
     | None \<Rightarrow>
         if \<not> io_files h then (fails ENOSYS, e)
         else case io_read h of None \<Rightarrow> (fails ENOSYS, e)
           | Some f \<Rightarrow>
               (let r = transfer_result (f (host_handle e) bytes) bytes in (r, advance r e)))"

definition hl_linux_read :: "io_host \<Rightarrow> u32 \<Rightarrow> bool \<Rightarrow> u64 \<Rightarrow> linux_abi \<Rightarrow> int \<times> linux_abi" where
  "hl_linux_read h fd null bytes t =
    (if bytes > INT64_MAX then (fails EINVAL, t)
     else run_operation unguarded fd (read_body h null bytes) id t)"

section \<open>Writing\<close>

definition hl_linux_pwrite64 :: "io_host \<Rightarrow> u32 \<Rightarrow> bool \<Rightarrow> u64 \<Rightarrow> u64 \<Rightarrow> linux_abi \<Rightarrow> int \<times> linux_abi" where
  "hl_linux_pwrite64 h fd null bytes offset t =
    (if bytes > INT64_MAX then (fails EINVAL, t)
     else run_operation not_read_only fd
       (\<lambda>e. ((if status_flags e AND HL_LINUX_O_PATH \<noteq> 0 then fails EBADF
              else if bytes \<noteq> 0 \<and> null then fails EINVAL
              else if \<not> io_files h then fails ENOSYS
              else case io_write_at h of None \<Rightarrow> fails ENOSYS
                | Some f \<Rightarrow> transfer_result (f (host_handle e) offset bytes) bytes), e)) id t)"

text \<open>After an appending write the offset is the end of the file, when the host can tell it.\<close>

definition seek_end :: "io_host \<Rightarrow> ofd_entry \<Rightarrow> ofd_entry" where
  "seek_end h e =
    (case io_seek h of None \<Rightarrow> e
     | Some f \<Rightarrow> (case f (host_handle e) 0 2 of (st, value, detail) \<Rightarrow>
         if st = S_OK then e\<lparr>ofd_offset := value\<rparr> else e))"

text \<open>The append mode is read under the lock, before the operation starts.\<close>

definition write_body :: "io_host \<Rightarrow> bool \<Rightarrow> u64 \<Rightarrow> ofd_entry \<Rightarrow> int \<times> ofd_entry" where
  "write_body h null bytes e =
    (let append = (status_flags e AND HL_LINUX_O_APPEND \<noteq> 0) in
     if bytes \<noteq> 0 \<and> null then (fails EINVAL, e)
     else case object_ops e of
       Some ops \<Rightarrow> ((case obj_write h ops of None \<Rightarrow> fails ENOSYS | Some f \<Rightarrow> f (object_context e) bytes), e)
     | None \<Rightarrow>
         if \<not> io_files h then (fails ENOSYS, e)
         else
           (let r = transfer_result ((if append then io_append h else io_write h) (host_handle e) bytes) bytes
            in (r, if r > 0 \<and> append then seek_end h e else advance r e)))"

definition hl_linux_write :: "io_host \<Rightarrow> u32 \<Rightarrow> bool \<Rightarrow> u64 \<Rightarrow> linux_abi \<Rightarrow> int \<times> linux_abi" where
  "hl_linux_write h fd null bytes t =
    (if bytes > INT64_MAX then (fails EINVAL, t)
     else run_operation not_read_only fd (write_body h null bytes) id t)"

section \<open>Vectors\<close>

text \<open>A vector is a list of \<open>(address, size)\<close>; the total size, unless it passes INT64_MAX or an address is NULL.\<close>

fun vector_total :: "(u64 \<times> u64) list \<Rightarrow> u64 \<Rightarrow> u64 option" where
  "vector_total [] whole = Some whole"
| "vector_total ((address, bytes) # vs) whole =
    (if bytes > INT64_MAX - whole \<or> bytes \<noteq> 0 \<and> address = 0 then None else vector_total vs (whole + bytes))"

definition vector_guard :: "nat \<Rightarrow> ofd_entry \<Rightarrow> linux_errno option" where
  "vector_guard opcode e =
    (let writing = (opcode = 1 \<or> opcode = 3) in
     if \<not> writing \<and> access_is HL_LINUX_O_WRONLY e then Some EBADF
     else if writing \<and> access_is HL_LINUX_O_RDONLY e then Some EBADF else None)"

definition vector_body :: "io_host \<Rightarrow> nat \<Rightarrow> u64 \<Rightarrow> u64 \<Rightarrow> ofd_entry \<Rightarrow> int \<times> ofd_entry" where
  "vector_body h opcode offset whole e =
    (let writing = (opcode = 1 \<or> opcode = 3);
         positioned = (opcode \<ge> 2);
         append = (\<not> positioned \<and> writing \<and> status_flags e AND HL_LINUX_O_APPEND \<noteq> 0)
     in if \<not> io_files h then (fails ENOSYS, e)
        else
          (let r = transfer_result (case io_vector h opcode append of
                  None \<Rightarrow> (S_NOT_SUPPORTED, 0) | Some f \<Rightarrow> f (host_handle e) offset) whole
           in (r, if r > 0 \<and> append then seek_end h e else if \<not> positioned then advance r e else e)))"

definition hl_linux_vector ::
  "io_host \<Rightarrow> u32 \<Rightarrow> bool \<Rightarrow> (u64 \<times> u64) list \<Rightarrow> u64 \<Rightarrow> nat \<Rightarrow> linux_abi \<Rightarrow> int \<times> linux_abi" where
  "hl_linux_vector h fd null vs offset opcode t =
    (if length vs > 1024 \<or> length vs \<noteq> 0 \<and> null then (fails EINVAL, t)
     else case vector_total vs 0 of None \<Rightarrow> (fails EINVAL, t)
       | Some whole \<Rightarrow> run_operation (vector_guard opcode) fd (vector_body h opcode offset whole) id t)"

definition hl_linux_readv where "hl_linux_readv h fd null vs = hl_linux_vector h fd null vs 0 0"
definition hl_linux_writev where "hl_linux_writev h fd null vs = hl_linux_vector h fd null vs 0 1"
definition hl_linux_preadv where "hl_linux_preadv h fd null vs offset = hl_linux_vector h fd null vs offset 2"
definition hl_linux_pwritev where "hl_linux_pwritev h fd null vs offset = hl_linux_vector h fd null vs offset 3"

section \<open>Truncation and synchronisation\<close>

definition control_guard :: "nat \<Rightarrow> ofd_entry \<Rightarrow> linux_errno option" where
  "control_guard opcode e = (if opcode = 0 \<and> access_is HL_LINUX_O_RDONLY e then Some EBADF else None)"

definition hl_linux_file_control :: "io_host \<Rightarrow> u32 \<Rightarrow> u64 \<Rightarrow> nat \<Rightarrow> linux_abi \<Rightarrow> int \<times> linux_abi" where
  "hl_linux_file_control h fd bytes opcode t =
    (if opcode = 0 \<and> bytes > INT64_MAX then (fails EINVAL, t)
     else run_operation (control_guard opcode) fd
       (\<lambda>e. ((if \<not> io_files h then fails ENOSYS
              else hl_linux_error (case io_control h opcode of
                None \<Rightarrow> S_NOT_SUPPORTED | Some f \<Rightarrow> f (host_handle e) bytes)), e)) id t)"

definition hl_linux_ftruncate where "hl_linux_ftruncate h fd bytes = hl_linux_file_control h fd bytes 0"
definition hl_linux_fsync where "hl_linux_fsync h fd = hl_linux_file_control h fd 0 1"
definition hl_linux_fdatasync where "hl_linux_fdatasync h fd = hl_linux_file_control h fd 0 2"

definition hl_linux_extended_sync ::
  "io_host \<Rightarrow> u32 \<Rightarrow> u64 \<Rightarrow> u64 \<Rightarrow> u32 \<Rightarrow> bool \<Rightarrow> linux_abi \<Rightarrow> int \<times> linux_abi" where
  "hl_linux_extended_sync h fd offset bytes flags filesystem t =
    run_operation unguarded fd
      (\<lambda>e. ((if \<not> io_files h then fails ENOSYS
             else if filesystem then
               hl_linux_error (case io_sync_filesystem h of None \<Rightarrow> S_NOT_SUPPORTED | Some f \<Rightarrow> f (host_handle e))
             else
               hl_linux_error (case io_sync_range h of None \<Rightarrow> S_NOT_SUPPORTED
                 | Some f \<Rightarrow> f (host_handle e) offset bytes flags)), e)) id t"

definition hl_linux_sync_range :: "io_host \<Rightarrow> u32 \<Rightarrow> u64 \<Rightarrow> u64 \<Rightarrow> u32 \<Rightarrow> linux_abi \<Rightarrow> int \<times> linux_abi" where
  "hl_linux_sync_range h fd offset bytes flags t =
    (if flags AND NOT 7 \<noteq> 0 then (fails EINVAL, t) else hl_linux_extended_sync h fd offset bytes flags False t)"

definition hl_linux_sync_filesystem where
  "hl_linux_sync_filesystem h fd = hl_linux_extended_sync h fd 0 0 0 True"

section \<open>Metadata and seeking\<close>

fun hl_linux_mode_type :: "nat \<Rightarrow> u32" where
  "hl_linux_mode_type ty =
    (if ty = 1 then 0x8000 else if ty = 2 then 0x4000 else if ty = 3 then 0xA000 else if ty = 4 then 0x2000
     else if ty = 5 then 0x6000 else if ty = 6 then 0x1000 else if ty = 7 then 0xC000 else 0)"

definition hl_linux_metadata_owned :: "io_host \<Rightarrow> ofd_entry \<Rightarrow> int + file_metadata" where
  "hl_linux_metadata_owned h e =
    (if \<not> io_files h then Inl (fails ENOSYS)
     else case io_metadata h of None \<Rightarrow> Inl (fails ENOSYS)
       | Some f \<Rightarrow> (case f (host_handle e) of (st, md) \<Rightarrow> if st = S_OK then Inr md else Inl (hl_linux_error st)))"

definition status_of_metadata :: "file_metadata \<Rightarrow> file_status" where
  "status_of_metadata md =
    \<lparr>st_device = md_device md, st_object = md_object md, st_size = md_size md, st_blocks = md_allocated md div 512,
     st_modified = md_modified md, st_accessed = md_accessed md, st_changed = md_changed md,
     st_created = md_created md, st_special = md_special md, st_links = md_links md,
     st_mode = hl_linux_mode_type (unat (md_type md)) OR (md_permissions md AND 0xFFF),
     st_user = md_user md, st_group = md_group md\<rparr>"

text \<open>The adapter of a typed object answers itself; its status is what it wrote into the output.  The result
  is an error, or 0 and the output.\<close>

definition fstat_body :: "io_host \<Rightarrow> ofd_entry \<Rightarrow> (int + int \<times> file_status) \<times> ofd_entry" where
  "fstat_body h e =
    ((case (case object_ops e of None \<Rightarrow> None | Some ops \<Rightarrow> obj_status h ops) of
        Some f \<Rightarrow> Inr (f (object_context e))
      | None \<Rightarrow> (case hl_linux_metadata_owned h e of Inl r \<Rightarrow> Inl r | Inr md \<Rightarrow> Inr (0, status_of_metadata md))), e)"

definition hl_linux_fstat :: "io_host \<Rightarrow> u32 \<Rightarrow> linux_abi \<Rightarrow> (int + int \<times> file_status) \<times> linux_abi" where
  "hl_linux_fstat h fd t = run_operation unguarded fd (fstat_body h) Inl t"

definition lseek_body :: "io_host \<Rightarrow> int \<Rightarrow> int \<Rightarrow> ofd_entry \<Rightarrow> int \<times> ofd_entry" where
  "lseek_body h offset whence e =
    (if whence < 0 \<or> whence > 4 then (fails EINVAL, e)
     else if offset < 0 \<and> (whence = 3 \<or> whence = 4) then (fails ENXIO, e)
     else if \<not> io_files h then (fails ENOSYS, e)
     else case io_seek h of None \<Rightarrow> (fails ENOSYS, e)
       | Some f \<Rightarrow>
           (case hl_linux_metadata_owned h e of Inl _ \<Rightarrow> (fails EIO, e)
            | Inr md \<Rightarrow>
                if md_type md \<noteq> 1 \<and> md_type md \<noteq> 5 \<and> md_type md \<noteq> 2 then (fails ESPIPE, e)
                else (case f (host_handle e) offset whence of (st, value, detail) \<Rightarrow>
                  if st \<noteq> S_OK then
                    ((if st = S_IO \<and> detail = 6 \<and> (whence = 3 \<or> whence = 4) then fails ENXIO else hl_linux_error st), e)
                  else if value > INT64_MAX then (fails EOVERFLOW, e)
                  else (uint value, e\<lparr>ofd_offset := value\<rparr>))))"

definition hl_linux_lseek :: "io_host \<Rightarrow> u32 \<Rightarrow> int \<Rightarrow> int \<Rightarrow> linux_abi \<Rightarrow> int \<times> linux_abi" where
  "hl_linux_lseek h fd offset whence t = run_operation unguarded fd (lseek_body h offset whence) id t"

text \<open>Mapping a file: only the host knows the mapping; a typed object cannot be mapped.\<close>

definition not_an_object :: "ofd_entry \<Rightarrow> linux_errno option" where
  "not_an_object e = (if object_ops e \<noteq> None then Some EINVAL else None)"

definition hl_linux_map_file :: "io_host \<Rightarrow> u32 \<Rightarrow> linux_abi \<Rightarrow> int \<times> linux_abi" where
  "hl_linux_map_file h fd t =
    (if abi t \<noteq> HL_LINUX_ABI_VERSION then (fails EINVAL, t)
     else case io_map_file h of None \<Rightarrow> (fails ENOSYS, t)
       | Some f \<Rightarrow> run_operation not_an_object fd (\<lambda>e. (hl_linux_error (f (host_handle e)), e)) id t)"

section \<open>fcntl\<close>

definition setfl_requested :: "ofd_entry \<Rightarrow> u64 \<Rightarrow> u32" where
  "setfl_requested e argument =
    (status_flags e AND NOT HL_LINUX_O_SETFL) OR (ucast argument AND HL_LINUX_O_SETFL)"

definition setfl_recorded :: "u32 \<Rightarrow> u32 \<Rightarrow> u32" where
  "setfl_recorded requested effective =
    (requested AND NOT HL_LINUX_O_SETFL_HOST) OR (effective AND HL_LINUX_O_SETFL_HOST)"

text \<open>F_SETFL on a description: through the adapter when it can, through the stream service of a host
  handle otherwise, and a plain record when there is neither.\<close>

definition setfl :: "io_host \<Rightarrow> u32 \<Rightarrow> u64 \<Rightarrow> linux_abi \<Rightarrow> int \<times> linux_abi" where
  "setfl h i argument t =
    (let e = ofd_at t i; requested = setfl_requested e argument;
         set = (\<lambda>f. set_ofd i (\<lambda>e. e\<lparr>status_flags := f\<rparr>))
     in case (case object_ops e of None \<Rightarrow> None | Some ops \<Rightarrow> obj_set_flags h ops) of
          Some f \<Rightarrow>
            (case f (object_context e) requested of (result, effective) \<Rightarrow>
              (result, if result = 0 then set (setfl_recorded requested effective) t else t))
        | None \<Rightarrow>
            if host_handle e \<noteq> 0 then
              (case io_set_stream_flags h of
                 None \<Rightarrow> (fails ENOSYS, t)
               | Some f \<Rightarrow>
                   (case f (host_handle e) (hl_linux_host_stream_flags requested) of (st, value) \<Rightarrow>
                     (hl_linux_error st,
                      if st = S_OK then set (setfl_recorded requested (hl_linux_status_flags_from_host_stream value)) t
                      else t)))
            else (0, set requested t))"

definition hl_linux_fcntl :: "io_host \<Rightarrow> u32 \<Rightarrow> int \<Rightarrow> u64 \<Rightarrow> linux_abi \<Rightarrow> int \<times> linux_abi" where
  "hl_linux_fcntl h fd command argument t =
    (if command = 0 \<or> command = 1030 then
       (if unat argument \<ge> fd_capacity t then (fails EINVAL, t)
        else hl_linux_fd_dup_at_least fd (ucast argument) (if command = 1030 then HL_LINUX_FD_CLOEXEC else 0) t)
     else case hl_linux_fd_get_unlocked t fd of
         Inl e \<Rightarrow> (lookup_error e, t)
       | Inr i \<Rightarrow>
           if command = 1 then (uint (descriptor_flags (fd_at t fd)), t)
           else if command = 2 then
             (0, set_fd fd (\<lambda>e. e\<lparr>descriptor_flags := ucast argument AND HL_LINUX_FD_CLOEXEC\<rparr>) t)
           else if command = 3 then (uint (status_flags (ofd_at t i)), t)
           else if command = 4 then setfl h i argument t
           else (fails EINVAL, t))"

section \<open>Close on exec\<close>

text \<open>Whether a close was attempted, the status, and the effects.\<close>

definition hl_linux_fd_exec ::
  "fd_host \<Rightarrow> (nat \<Rightarrow> bool) \<Rightarrow> u32 \<Rightarrow> linux_abi \<Rightarrow> (bool \<times> hl_status \<times> linux_abi \<times> host_event list) option" where
  "hl_linux_fd_exec h retires fd t =
    (if abi t \<noteq> HL_LINUX_ABI_VERSION then Some (False, S_INVALID_ARGUMENT, t, [])
     else if unat fd \<ge> fd_capacity t \<or> fd_ofd (fd_at t fd) = 0 \<or> fd_ofd (fd_at t fd) = HL_LINUX_FD_RESERVED
     then Some (False, S_NOT_FOUND, t, [])
     else if descriptor_flags (fd_at t fd) AND HL_LINUX_FD_CLOEXEC = 0 then Some (False, S_OK, t, [])
     else map_option (\<lambda>(st, handle, t1, evs).
         if st \<noteq> S_OK then (True, st, t1, evs)
         else if handle = 0 then (True, S_OK, t1, evs)
         else if \<not> has_files h then (True, S_NOT_SUPPORTED, t1, evs)
         else (True, file_close h, t1, evs @ [File_Closed handle]))
       (hl_linux_fd_close h retires fd t))"

definition exec_candidate :: "fd_entry \<Rightarrow> bool" where
  "exec_candidate e \<longleftrightarrow> fd_ofd e \<noteq> 0 \<and> fd_ofd e \<noteq> HL_LINUX_FD_RESERVED \<and> descriptor_flags e AND HL_LINUX_FD_CLOEXEC \<noteq> 0"

function exec_from ::
  "fd_host \<Rightarrow> (nat \<Rightarrow> bool) \<Rightarrow> nat \<Rightarrow> nat \<Rightarrow> linux_abi \<Rightarrow>
   (hl_status \<times> u32 list \<times> linux_abi \<times> host_event list) option" where
  "exec_from h retires cursor capacity t =
    (case List.find (\<lambda>c. exec_candidate (fds t ! c)) [cursor..<capacity] of
       None \<Rightarrow> Some (S_OK, [], t, [])
     | Some c \<Rightarrow>
         (case hl_linux_fd_exec h retires (of_nat c) t of
            None \<Rightarrow> None
          | Some (removed, st, t1, evs) \<Rightarrow>
              map_option (\<lambda>(st', closed, t2, evs').
                  (if st \<noteq> S_OK then st else st', (if removed then [of_nat c] else []) @ closed, t2, evs @ evs'))
                (exec_from h retires (c + 1) capacity t1)))"
  by pat_completeness auto
termination
  by (relation "measure (\<lambda>(h, retires, cursor, capacity, t). capacity - cursor)") (auto simp: find_Some_iff)

declare exec_from.simps [simp del]

definition hl_linux_fd_exec_all ::
  "fd_host \<Rightarrow> (nat \<Rightarrow> bool) \<Rightarrow> linux_abi \<Rightarrow> (hl_status \<times> u32 list \<times> linux_abi \<times> host_event list) option" where
  "hl_linux_fd_exec_all h retires t =
    (if abi t \<noteq> HL_LINUX_ABI_VERSION then Some (S_INVALID_ARGUMENT, [], t, [])
     else exec_from h retires 0 (fd_capacity t) t)"

section \<open>Validation\<close>

text \<open>How many descriptors name a description.\<close>

definition names :: "linux_abi \<Rightarrow> nat \<Rightarrow> nat" where
  "names t i = length (filter (\<lambda>e. unat (fd_ofd e) = i) (fds t))"

definition valid_ofd :: "nat \<Rightarrow> ofd_entry \<Rightarrow> bool" where
  "valid_ofd n e \<longleftrightarrow>
    \<not> (unat (ofd_references e) \<noteq> n \<or>
      (ofd_references e \<noteq> 0 \<and>
        ((object_ops e = None) = (host_handle e = 0) \<or> object_ops e \<noteq> None \<and> object_context e = 0 \<or>
         io_mutex e = 0 \<or> closing e \<noteq> 0)) \<or>
      (ofd_references e = 0 \<and> active_operations e = 0 \<and>
        (host_handle e \<noteq> 0 \<or> io_mutex e \<noteq> 0 \<or> closing e \<noteq> 0 \<or> object_ops e \<noteq> None \<or> object_context e \<noteq> 0)))"

definition hl_linux_abi_validate_fds :: "bool \<Rightarrow> linux_abi \<Rightarrow> hl_status" where
  "hl_linux_abi_validate_fds calloc_ok t =
    (if abi t \<noteq> HL_LINUX_ABI_VERSION then S_INVALID_ARGUMENT
     else if \<not> calloc_ok then S_OUT_OF_MEMORY
     else if list_ex (\<lambda>e. fd_ofd e \<noteq> 0 \<and> fd_ofd e \<noteq> HL_LINUX_FD_RESERVED \<and> unat (fd_ofd e) \<ge> ofd_capacity t) (fds t)
     then S_CORRUPT
     else if list_all (\<lambda>i. valid_ofd (names t i) (ofds t ! i)) [1..<ofd_capacity t] then S_OK
     else S_CORRUPT)"

section \<open>Pins on typed objects\<close>

record object_pin =
  pin_ofd :: u32
  pin_generation :: u32
  pin_ops :: nat
  pin_context :: u64

definition pin_entry :: "u32 \<Rightarrow> linux_abi \<Rightarrow> nat \<Rightarrow> object_pin \<times> linux_abi" where
  "pin_entry i t ops =
    (let e = ofd_at t i in
     (\<lparr>pin_ofd = i, pin_generation = ofd_generation e, pin_ops = ops, pin_context = object_context e\<rparr>,
      set_ofd i (\<lambda>e. e\<lparr>active_operations := active_operations e + 1\<rparr>) t))"

definition pin_fd_locked :: "u32 \<Rightarrow> linux_abi \<Rightarrow> hl_status + object_pin \<times> linux_abi" where
  "pin_fd_locked fd t =
    (case hl_linux_fd_get_unlocked t fd of
       Inl e \<Rightarrow> Inl e
     | Inr i \<Rightarrow> (case object_ops (ofd_at t i) of None \<Rightarrow> Inl S_NOT_SUPPORTED | Some ops \<Rightarrow> Inr (pin_entry i t ops)))"

text \<open>When the object's mutex cannot be taken, the pin is dropped again.\<close>

definition lock_pinned :: "hl_status \<Rightarrow> object_pin \<Rightarrow> linux_abi \<Rightarrow> (hl_status + object_pin) \<times> linux_abi" where
  "lock_pinned locked p t = (if locked = S_OK then (Inr p, t) else (Inl locked, end_operation (pin_ofd p) t))"

definition hl_linux_object_pin_fd :: "fd_host \<Rightarrow> u32 \<Rightarrow> linux_abi \<Rightarrow> (hl_status + object_pin) \<times> linux_abi" where
  "hl_linux_object_pin_fd h fd t =
    (case pin_fd_locked fd t of Inl e \<Rightarrow> (Inl e, t) | Inr (p, t1) \<Rightarrow> lock_pinned (mutex_lock h) p t1)"

definition pin_ofd_locked :: "u32 \<Rightarrow> u32 \<Rightarrow> linux_abi \<Rightarrow> hl_status + object_pin \<times> linux_abi" where
  "pin_ofd_locked i generation t =
    (if i = 0 \<or> unat i \<ge> ofd_capacity t then Inl S_INVALID_ARGUMENT
     else let e = ofd_at t i in
       if ofd_generation e \<noteq> generation \<or> ofd_references e = 0 \<or> closing e \<noteq> 0 then Inl S_NOT_FOUND
       else case object_ops e of None \<Rightarrow> Inl S_NOT_FOUND | Some ops \<Rightarrow> Inr (pin_entry i t ops))"

definition hl_linux_object_pin_ofd ::
  "fd_host \<Rightarrow> u32 \<Rightarrow> u32 \<Rightarrow> linux_abi \<Rightarrow> (hl_status + object_pin) \<times> linux_abi" where
  "hl_linux_object_pin_ofd h i generation t =
    (case pin_ofd_locked i generation t of Inl e \<Rightarrow> (Inl e, t) | Inr (p, t1) \<Rightarrow> lock_pinned (mutex_lock h) p t1)"

text \<open>The section shared by \<open>unpin\<close>, \<open>abandon\<close> and the fork plan: the flag asks for a finalisation.\<close>

definition unpin_locked :: "u32 \<Rightarrow> u32 \<Rightarrow> linux_abi \<Rightarrow> bool \<times> linux_abi" where
  "unpin_locked i generation t =
    (let e = ofd_at t i in
     if ofd_generation e = generation \<and> active_operations e \<noteq> 0 then
       (let t1 = end_operation i t; e1 = ofd_at t1 i
        in (active_operations e1 = 0 \<and> ofd_references e1 = 0 \<and> closing e1 \<noteq> 0, t1))
     else (False, t))"

definition hl_linux_object_unpin ::
  "fd_host \<Rightarrow> object_pin \<Rightarrow> linux_abi \<Rightarrow> (linux_abi \<times> host_event list) option" where
  "hl_linux_object_unpin h p t =
    (case unpin_locked (pin_ofd p) (pin_generation p) t of
       (True, t1) \<Rightarrow> map_option (\<lambda>(st, handle, t2, evs). (t2, evs)) (hl_linux_ofd_finalize h (pin_ofd p) t1)
     | (False, t1) \<Rightarrow> Some (t1, []))"

definition hl_linux_object_abandon where "hl_linux_object_abandon = hl_linux_object_unpin"

definition hl_linux_object_retired :: "object_pin \<Rightarrow> linux_abi \<Rightarrow> bool" where
  "hl_linux_object_retired p t \<longleftrightarrow>
    unat (pin_ofd p) \<ge> ofd_capacity t \<or> ofd_generation (ofd_at t (pin_ofd p)) \<noteq> pin_generation p \<or>
    ofd_references (ofd_at t (pin_ofd p)) = 0 \<or> closing (ofd_at t (pin_ofd p)) \<noteq> 0"

text \<open>Readiness, masked by the interests and the two conditions always reported (ERROR 8, HANGUP 16).\<close>

definition hl_linux_object_ready :: "(nat \<Rightarrow> (u64 \<Rightarrow> u32 \<Rightarrow> u32) option) \<Rightarrow> object_pin \<Rightarrow> u32 \<Rightarrow> u32" where
  "hl_linux_object_ready readiness p interests =
    (case readiness (pin_ops p) of None \<Rightarrow> 0
     | Some f \<Rightarrow> f (pin_context p) interests AND (interests OR 8 OR 16))"

section \<open>Opening\<close>

definition open_access :: "u32 \<Rightarrow> u32 option" where
  "open_access flags =
    (let mode = flags AND HL_LINUX_O_ACCMODE in
     if mode = HL_LINUX_O_RDONLY then Some 1 else if mode = HL_LINUX_O_WRONLY then Some 2
     else if mode = HL_LINUX_O_RDWR then Some 3 else None)"

definition open_modifiers :: "u32 \<Rightarrow> u32" where
  "open_modifiers flags =
    (if flags AND HL_LINUX_O_APPEND \<noteq> 0 then 4 else 0) OR (if flags AND HL_LINUX_O_NONBLOCK \<noteq> 0 then 16 else 0) OR
    (if flags AND HL_LINUX_O_NOFOLLOW \<noteq> 0 then 32 else 0) OR (if flags AND HL_LINUX_O_DIRECTORY \<noteq> 0 then 8 else 0) OR
    (if flags AND HL_LINUX_O_PATH \<noteq> 0 then 64 else 0)"

definition open_creation :: "u32 \<Rightarrow> u32" where
  "open_creation flags =
    (if flags AND HL_LINUX_O_CREAT \<noteq> 0 then 1 else 0) OR (if flags AND HL_LINUX_O_EXCL \<noteq> 0 then 2 else 0) OR
    (if flags AND HL_LINUX_O_TRUNC \<noteq> 0 then 4 else 0)"

definition open_supported :: u32 where
  "open_supported = HL_LINUX_O_ACCMODE OR HL_LINUX_O_CREAT OR HL_LINUX_O_EXCL OR HL_LINUX_O_TRUNC OR
     HL_LINUX_O_APPEND OR HL_LINUX_O_NONBLOCK OR HL_LINUX_O_NOFOLLOW OR HL_LINUX_O_DIRECTORY OR
     HL_LINUX_O_PATH OR HL_LINUX_O_CLOEXEC"

text \<open>\<open>open_rel directory access creation\<close> is the host's open (\<open>None\<close> when it has none); the directory is a
  given handle, the working directory (all ones), or the handle of a descriptor.\<close>

definition install_opened ::
  "fd_host \<Rightarrow> fd_reservation option \<Rightarrow> u32 \<Rightarrow> hl_status \<times> u64 \<Rightarrow> linux_abi \<Rightarrow> int \<times> linux_abi \<times> host_event list" where
  "install_opened h reservation flags opened t =
    (case opened of (st, handle) \<Rightarrow>
      if st \<noteq> S_OK then ((if st = S_NOT_FOUND then fails ENOENT else hl_linux_error st), t, [])
      else
        (let sflags = flags AND NOT HL_LINUX_O_CLOEXEC;
             dflags = (if flags AND HL_LINUX_O_CLOEXEC \<noteq> 0 then HL_LINUX_FD_CLOEXEC else 0)
         in case (case reservation of
               Some r \<Rightarrow> (case hl_linux_fd_commit h r handle sflags dflags t of
                   (Inl e, x) \<Rightarrow> (Inl e, x) | (Inr _, x) \<Rightarrow> (Inr (res_fd r), x))
             | None \<Rightarrow> hl_linux_fd_install h handle sflags dflags t) of
              (Inr fd, t1, evs) \<Rightarrow> (uint fd, t1, evs)
            | (Inl e, t1, evs) \<Rightarrow>
                ((if e = S_RESOURCE_LIMIT then fails EMFILE else hl_linux_error e), t1, evs @ [File_Closed handle])))"

definition hl_linux_openat_install ::
  "fd_host \<Rightarrow> (u64 \<Rightarrow> u32 \<Rightarrow> u32 \<Rightarrow> hl_status \<times> u64) option \<Rightarrow> fd_reservation option \<Rightarrow> int \<Rightarrow> u64 \<Rightarrow> nat \<Rightarrow> u32 \<Rightarrow>
   linux_abi \<Rightarrow> int \<times> linux_abi \<times> host_event list" where
  "hl_linux_openat_install h open_rel reservation directory_fd direct path_size flags t =
    (if path_size = 0 \<or> flags AND NOT open_supported \<noteq> 0 then (fails EINVAL, t, [])
     else case open_access flags of None \<Rightarrow> (fails EINVAL, t, [])
       | Some access \<Rightarrow>
         (if \<not> has_files h then (fails ENOSYS, t, [])
          else case open_rel of None \<Rightarrow> (fails ENOSYS, t, [])
            | Some f \<Rightarrow>
              (let do_open = (\<lambda>d. f d (access OR open_modifiers flags) (open_creation flags)) in
               if direct = 0 \<and> directory_fd \<noteq> - 100 then
                 (if directory_fd < 0 then (fails EBADF, t, [])
                  else case begin_operation unguarded (word_of_int directory_fd) t of
                      Inl _ \<Rightarrow> (fails EBADF, t, [])
                    | Inr (i, t1) \<Rightarrow>
                        install_opened h reservation flags (do_open (host_handle (ofd_at t1 i))) (end_operation i t1))
               else install_opened h reservation flags (do_open (if direct = 0 then - 1 else direct)) t)))"

definition hl_linux_openat where
  "hl_linux_openat h open_rel directory_fd path_size flags t =
    hl_linux_openat_install h open_rel None directory_fd 0 path_size flags t"

definition hl_linux_openat_reserved where
  "hl_linux_openat_reserved h open_rel r directory_fd path_size flags t =
    hl_linux_openat_install h open_rel (Some r) directory_fd 0 path_size flags t"

definition hl_linux_openat_handle_reserved where
  "hl_linux_openat_handle_reserved h open_rel r directory path_size flags t =
    (if directory = 0 then (fails EINVAL, t, [])
     else hl_linux_openat_install h open_rel (Some r) (- 100) directory path_size flags t)"

definition hl_linux_file_adopt_reserved ::
  "fd_host \<Rightarrow> fd_reservation \<Rightarrow> u64 \<Rightarrow> u32 \<Rightarrow> linux_abi \<Rightarrow> int \<times> linux_abi \<times> host_event list" where
  "hl_linux_file_adopt_reserved h r file flags t =
    (if file = 0 then (fails EINVAL, t, [])
     else case hl_linux_fd_commit h r file (flags AND NOT HL_LINUX_O_CLOEXEC)
         (if flags AND HL_LINUX_O_CLOEXEC \<noteq> 0 then HL_LINUX_FD_CLOEXEC else 0) t of
       (Inr _, t1, evs) \<Rightarrow> (uint (res_fd r), t1, evs)
     | (Inl e, t1, evs) \<Rightarrow> ((if e = S_RESOURCE_LIMIT then fails EMFILE else hl_linux_error e), t1, evs))"

end
