(* ===== verification/Fd_Slots.thy ===== *)
theory Fd_Slots
  imports Fd_Io "HOL-Library.Multiset"
begin

text \<open>
  The slots of the descriptor table: what a slot holds in each of its states (\<open>slot_ok\<close>), the shape of
  the table, the searches for a free descriptor and a free description, and the updates that fill a slot:
  installation and the life of a reservation.
\<close>

section \<open>Slots\<close>

text \<open>What a description holds: a host handle or a typed object.\<close>

definition content :: "ofd_entry \<Rightarrow> bool" where
  "content e \<longleftrightarrow> (object_ops e = None) \<noteq> (host_handle e = 0) \<and> (object_ops e \<noteq> None \<longrightarrow> object_context e \<noteq> 0)"

definition blank :: "ofd_entry \<Rightarrow> bool" where
  "blank e \<longleftrightarrow> host_handle e = 0 \<and> object_ops e = None \<and> object_context e = 0 \<and> ofd_offset e = 0 \<and> ofd_kind e = 0"

text \<open>A slot named by \<open>n\<close> descriptors, with \<open>a\<close> operations in flight, \<open>c\<close> finalisations about to claim it, \<open>d\<close>
  that have claimed it; \<open>s\<close> tells that its last operation ended after its last descriptor, with nobody left
  to finalise it.\<close>

definition slot_ok :: "ofd_entry \<Rightarrow> nat \<Rightarrow> nat \<Rightarrow> nat \<Rightarrow> nat \<Rightarrow> bool \<Rightarrow> bool" where
  "slot_ok e n a c d s \<longleftrightarrow> unat (ofd_references e) = n \<and> unat (active_operations e) = a \<and>
    (if n > 0 then closing e = 0 \<and> c = 0 \<and> d = 0 \<and> \<not> s \<and> io_mutex e \<noteq> 0 \<and> content e
     else if closing e = 0 then a = 0 \<and> c = 0 \<and> d = 0 \<and> \<not> s \<and> io_mutex e = 0 \<and> blank e
     else io_mutex e \<noteq> 0 \<and> c + d + (if s then 1 else 0) = (if a = 0 then 1 else 0) \<and>
          (if d = 0 then content e else blank e))"

record fd_world =
  table :: linux_abi
  ios :: "u32 multiset"
  pinned :: "(u32 \<times> u32) multiset"
  claims :: "u32 multiset"
  drains :: "(u32 \<times> u64 \<times> u64) multiset"
  stuck :: "u32 set"
  owned :: "u64 multiset"
  freed :: "u64 multiset"

definition flights :: "fd_world \<Rightarrow> u32 \<Rightarrow> nat" where
  "flights w i = count (ios w) i + count (image_mset fst (pinned w)) i"

definition live_slot :: "linux_abi \<Rightarrow> u32 \<Rightarrow> bool" where
  "live_slot t i \<longleftrightarrow> i \<noteq> 0 \<and> unat i < ofd_capacity t"

definition slots_ok :: "linux_abi \<Rightarrow> (u32 \<Rightarrow> nat) \<Rightarrow> (u32 \<Rightarrow> nat) \<Rightarrow> (u32 \<Rightarrow> nat) \<Rightarrow> u32 set \<Rightarrow> bool" where
  "slots_ok t A C D S \<longleftrightarrow>
    (\<forall>i. live_slot t i \<longrightarrow> slot_ok (ofd_at t i) (names t (unat i)) (A i) (C i) (D i) (i \<in> S))"

definition shape_ok :: "linux_abi \<Rightarrow> bool" where
  "shape_ok t \<longleftrightarrow> length (fds t) \<le> HL_LINUX_FD_LIMIT \<and> 2 \<le> length (ofds t) \<and> length (ofds t) \<le> HL_LINUX_OFD_LIMIT \<and>
    (\<forall>e \<in> set (fds t). fd_ofd e \<noteq> HL_LINUX_FD_RESERVED \<longrightarrow> unat (fd_ofd e) < length (ofds t)) \<and>
    unat (reserved_fds t) = names t (unat HL_LINUX_FD_RESERVED) \<and>
    (\<forall>i. live_slot t i \<longrightarrow> \<not> ofd_free (ofd_at t i) \<longrightarrow> unat i < unat (ofd_watermark t))"

definition handles :: "linux_abi \<Rightarrow> u64 multiset" where
  "handles t = filter_mset ((\<noteq>) 0) (mset (map host_handle (ofds t)))"

definition drained :: "(u32 \<times> u64 \<times> u64) multiset \<Rightarrow> u64 multiset" where
  "drained D = filter_mset ((\<noteq>) 0) (image_mset (\<lambda>(i, m, h). h) D)"

definition fd_inv :: "fd_world \<Rightarrow> bool" where
  "fd_inv w \<longleftrightarrow> shape_ok (table w) \<and>
    slots_ok (table w) (flights w) (count (claims w)) (count (image_mset fst (drains w))) (stuck w) \<and>
    (\<forall>i \<in># ios w. live_slot (table w) i) \<and>
    (\<forall>(i, g) \<in># pinned w. live_slot (table w) i \<and> ofd_generation (ofd_at (table w) i) = g) \<and>
    (\<forall>i \<in># claims w. live_slot (table w) i) \<and>
    (\<forall>(i, m, h) \<in># drains w. live_slot (table w) i \<and> io_mutex (ofd_at (table w) i) = m) \<and>
    (\<forall>i \<in> stuck w. live_slot (table w) i) \<and>
    owned w = handles (table w) + drained (drains w) + freed w"

section \<open>Accessors\<close>

lemma fd_simps [simp]:
  "fd_capacity (set_ofd i g t) = fd_capacity t" "fd_capacity (set_fd fd f t) = fd_capacity t"
  "ofd_capacity (set_ofd i g t) = ofd_capacity t" "ofd_capacity (set_fd fd f t) = ofd_capacity t"
  "fds (set_ofd i g t) = fds t" "ofds (set_fd fd f t) = ofds t"
  "length (fds (set_fd fd f t)) = length (fds t)" "length (ofds (set_ofd i g t)) = length (ofds t)"
  "fd_at (set_ofd i g t) fd = fd_at t fd" "ofd_at (set_fd fd f t) i = ofd_at t i"
  "reserved_fds (set_ofd i g t) = reserved_fds t" "reserved_fds (set_fd fd f t) = reserved_fds t"
  "ofd_watermark (set_ofd i g t) = ofd_watermark t" "ofd_watermark (set_fd fd f t) = ofd_watermark t"
  "names (set_ofd i g t) k = names t k"
  by (simp_all add: set_ofd_def set_fd_def fd_capacity_def ofd_capacity_def fd_at_def ofd_at_def names_def)

lemma table_simps [simp]:
  "fd_at (t\<lparr>ofd_watermark := x\<rparr>) fd = fd_at t fd" "fd_at (t\<lparr>reserved_fds := y\<rparr>) fd = fd_at t fd"
  "ofd_at (t\<lparr>ofd_watermark := x\<rparr>) i = ofd_at t i" "ofd_at (t\<lparr>reserved_fds := y\<rparr>) i = ofd_at t i"
  "fd_capacity (t\<lparr>ofd_watermark := x\<rparr>) = fd_capacity t" "fd_capacity (t\<lparr>reserved_fds := y\<rparr>) = fd_capacity t"
  "ofd_capacity (t\<lparr>ofd_watermark := x\<rparr>) = ofd_capacity t" "ofd_capacity (t\<lparr>reserved_fds := y\<rparr>) = ofd_capacity t"
  "names (t\<lparr>ofd_watermark := x\<rparr>) k = names t k" "names (t\<lparr>reserved_fds := y\<rparr>) k = names t k"
  "live_slot (t\<lparr>ofd_watermark := x\<rparr>) i = live_slot t i" "live_slot (t\<lparr>reserved_fds := y\<rparr>) i = live_slot t i"
  "handles (t\<lparr>ofd_watermark := x\<rparr>) = handles t" "handles (t\<lparr>reserved_fds := y\<rparr>) = handles t"
  by (simp_all add: fd_at_def ofd_at_def fd_capacity_def ofd_capacity_def names_def live_slot_def handles_def)

lemma live_slot_set [simp]: "live_slot (set_ofd i g t) j = live_slot t j" "live_slot (set_fd fd f t) j = live_slot t j"
  by (simp_all add: live_slot_def)

lemma handles_set_fd [simp]: "handles (set_fd fd f t) = handles t"
  by (simp add: handles_def)

lemma ofd_at_set_ofd:
  "unat i < ofd_capacity t \<Longrightarrow> ofd_at (set_ofd i g t) j = (if j = i then g (ofd_at t i) else ofd_at t j)"
  by (cases "j = i") (auto simp: set_ofd_def ofd_at_def ofd_capacity_def nth_list_update word_unat_eq_iff)

lemma fd_at_set_fd:
  "unat fd < fd_capacity t \<Longrightarrow> fd_at (set_fd fd f t) x = (if x = fd then f (fd_at t fd) else fd_at t x)"
  by (cases "x = fd") (auto simp: set_fd_def fd_at_def fd_capacity_def nth_list_update word_unat_eq_iff)

lemma names_set_fd:
  assumes "unat fd < fd_capacity t"
  shows "names (set_fd fd f t) k + (if unat (fd_ofd (fd_at t fd)) = k then 1 else 0) =
    names t k + (if unat (fd_ofd (f (fd_at t fd))) = k then 1 else 0)"
  using length_filter_update [of "unat fd" "fds t" "\<lambda>e. unat (fd_ofd e) = k" "f (fd_at t fd)"] assms
  by (simp add: names_def set_fd_def fd_at_def fd_capacity_def)

lemma handles_set_ofd:
  assumes "unat i < ofd_capacity t"
  shows "handles (set_ofd i g t) + filter_mset ((\<noteq>) 0) {#host_handle (ofd_at t i)#} =
    handles t + filter_mset ((\<noteq>) 0) {#host_handle (g (ofd_at t i))#}"
proof -
  have "mset (map host_handle ((ofds t)[unat i := x])) + {#host_handle (ofds t ! unat i)#} =
      mset (map host_handle (ofds t)) + {#host_handle x#}" for x
    using assms by (simp add: ofd_capacity_def map_update mset_update)
  from this [of "g (ofd_at t i)"] show ?thesis
    unfolding handles_def filter_union_mset [symmetric] by (simp add: set_ofd_def ofd_at_def)
qed

lemma handles_set_ofd_same:
  assumes "unat i < ofd_capacity t" "host_handle (g (ofd_at t i)) = host_handle (ofd_at t i)"
  shows "handles (set_ofd i g t) = handles t"
  using handles_set_ofd [OF assms(1), of g] assms(2) by simp

section \<open>Changing a slot, changing a descriptor\<close>

lemma slots_set_ofd:
  assumes "slots_ok t A C D S" "unat i < ofd_capacity t"
    "slot_ok (g (ofd_at t i)) (names t (unat i)) (A' i) (C' i) (D' i) (i \<in> S')"
    "\<And>j. j \<noteq> i \<Longrightarrow> A' j = A j \<and> C' j = C j \<and> D' j = D j \<and> (j \<in> S' \<longleftrightarrow> j \<in> S)"
  shows "slots_ok (set_ofd i g t) A' C' D' S'"
  unfolding slots_ok_def
proof (intro allI impI)
  fix j assume "live_slot (set_ofd i g t) j"
  then show "slot_ok (ofd_at (set_ofd i g t) j) (names (set_ofd i g t) (unat j)) (A' j) (C' j) (D' j) (j \<in> S')"
    using assms by (cases "j = i") (auto simp: ofd_at_set_ofd slots_ok_def)
qed

lemma shape_set_ofd:
  assumes "shape_ok t" "unat i < ofd_capacity t"
    "live_slot t i \<Longrightarrow> \<not> ofd_free (g (ofd_at t i)) \<Longrightarrow> unat i < unat (ofd_watermark t)"
  shows "shape_ok (set_ofd i g t)"
  using assms unfolding shape_ok_def by (simp add: ofd_at_set_ofd)

lemma slot_okD:
  assumes "slots_ok t A C D S" "live_slot t i"
  shows "slot_ok (ofd_at t i) (names t (unat i)) (A i) (C i) (D i) (i \<in> S)"
  using assms by (simp add: slots_ok_def)

lemma names_le: "names t k \<le> length (fds t)"
  by (simp add: names_def)

lemma names_pos: "unat fd < fd_capacity t \<Longrightarrow> 0 < names t (unat (fd_ofd (fd_at t fd)))"
  by (auto simp: names_def fd_at_def fd_capacity_def filter_empty_conv intro!: nth_mem)

section \<open>Searches\<close>

lemma scan_fds_Some:
  assumes "scan_fds es fd = Some x" "unat fd + length es \<le> 2 ^ 32"
  shows "unat fd \<le> unat x \<and> unat x < unat fd + length es \<and> fd_ofd (es ! (unat x - unat fd)) = 0 \<and>
    (\<forall>k < unat x - unat fd. fd_ofd (es ! k) \<noteq> 0)"
  using assms
proof (induction es fd rule: scan_fds.induct)
  case (2 e es fd)
  show ?case
  proof (cases "fd_ofd e = 0")
    case False
    from 2 False have s: "scan_fds es (fd + 1) = Some x" by simp
    then have ne: "es \<noteq> []" by auto
    have "unat fd + 1 < 2 ^ 32" using 2(3) ne by (cases es) auto
    then have u: "unat (fd + 1) = unat fd + 1" by (simp add: unat_word_ariths)
    from 2(1) [OF False s] 2(3) u have
      IH: "unat fd + 1 \<le> unat x" "unat x < unat fd + 1 + length es" "fd_ofd (es ! (unat x - (unat fd + 1))) = 0"
        "\<forall>k < unat x - (unat fd + 1). fd_ofd (es ! k) \<noteq> 0" by simp_all
    have "fd_ofd ((e # es) ! k) \<noteq> 0" if "k < unat x - unat fd" for k
      using IH(4) False that by (cases k) auto
    with IH show ?thesis by (auto simp: nth_Cons')
  qed (use 2 in simp)
qed simp

lemma scan_fds_None: "scan_fds es fd = None \<longleftrightarrow> (\<forall>e \<in> set es. fd_ofd e \<noteq> 0)"
  by (induction es fd rule: scan_fds.induct) auto

lemma scan_ofds_Some:
  assumes "scan_ofds es i = Some x" "unat i + length es \<le> 2 ^ 32"
  shows "unat i \<le> unat x \<and> unat x < unat i + length es \<and> ofd_free (es ! (unat x - unat i))"
  using assms
proof (induction es i rule: scan_ofds.induct)
  case (2 e es i)
  show ?case
  proof (cases "ofd_free e")
    case False
    from 2 False have s: "scan_ofds es (i + 1) = Some x" by simp
    then have ne: "es \<noteq> []" by auto
    have "unat i + 1 < 2 ^ 32" using 2(3) ne by (cases es) auto
    then have u: "unat (i + 1) = unat i + 1" by (simp add: unat_word_ariths)
    from 2(1) [OF False s] 2(3) u show ?thesis by (auto simp: nth_Cons')
  qed (use 2 in simp)
qed simp

lemma find_fd_Inr:
  assumes "hl_linux_find_fd t = Inr fd" "shape_ok t"
  shows "unat fd < fd_capacity t" "fd_ofd (fd_at t fd) = 0" "\<And>k. k < fd \<Longrightarrow> fd_ofd (fd_at t k) \<noteq> 0"
proof -
  from assms(1) have "scan_fds (fds t) 0 = Some fd" by (auto simp: hl_linux_find_fd_def split: option.splits)
  from scan_fds_Some [OF this] assms(2)
  show "unat fd < fd_capacity t" "fd_ofd (fd_at t fd) = 0" "\<And>k. k < fd \<Longrightarrow> fd_ofd (fd_at t k) \<noteq> 0"
    by (simp_all add: shape_ok_def HL_LINUX_FD_LIMIT_def fd_capacity_def fd_at_def word_less_nat_alt)
qed

lemma find_fd_at_least_Inr:
  assumes "hl_linux_find_fd_at_least t lo = Inr fd" "shape_ok t"
  shows "unat fd < fd_capacity t" "fd_ofd (fd_at t fd) = 0" "lo \<le> fd"
    "\<And>k. lo \<le> k \<Longrightarrow> k < fd \<Longrightarrow> fd_ofd (fd_at t k) \<noteq> 0"
proof -
  from assms(1) have l: "unat lo < length (fds t)" and s: "scan_fds (drop (unat lo) (fds t)) lo = Some fd"
    by (auto simp: hl_linux_find_fd_at_least_def fd_capacity_def not_le split: option.splits if_splits)
  have "length (fds t) \<le> 65536" using assms(2) by (simp add: shape_ok_def HL_LINUX_FD_LIMIT_def)
  with l have "unat lo + length (drop (unat lo) (fds t)) \<le> 2 ^ 32" by simp
  from scan_fds_Some [OF s this] l
  have le: "unat lo \<le> unat fd" and b: "unat fd < length (fds t)"
    "fd_ofd (fds t ! (unat lo + (unat fd - unat lo))) = 0"
    "\<forall>k < unat fd - unat lo. fd_ofd (fds t ! (unat lo + k)) \<noteq> 0" by auto
  from le have e: "unat lo + (unat fd - unat lo) = unat fd" by simp
  note a = le b [unfolded e]
  from a show "unat fd < fd_capacity t" "fd_ofd (fd_at t fd) = 0" "lo \<le> fd"
    by (simp_all add: fd_capacity_def fd_at_def word_le_nat_alt)
  show "fd_ofd (fd_at t k) \<noteq> 0" if "lo \<le> k" "k < fd" for k
    using a(4) [rule_format, of "unat k - unat lo"] that
    by (simp add: fd_at_def word_le_nat_alt word_less_nat_alt)
qed

lemma find_ofd_Inr:
  assumes "hl_linux_find_ofd t = Inr (i, t1)" "shape_ok t"
  shows "live_slot t i" "ofd_free (ofd_at t i)" "\<exists>x. t1 = t\<lparr>ofd_watermark := x\<rparr> \<and> unat i < unat x \<and> unat (ofd_watermark t) \<le> unat x"
proof -
  from assms(1) have s: "scan_ofds (drop 1 (ofds t)) 1 = Some i"
    and t1: "t1 = (if i + 1 > ofd_watermark t then t\<lparr>ofd_watermark := i + 1\<rparr> else t)"
    by (auto simp: hl_linux_find_ofd_def split: option.splits)
  have L: "2 \<le> length (ofds t)" "length (ofds t) \<le> 65536"
    using assms(2) by (simp_all add: shape_ok_def HL_LINUX_OFD_LIMIT_def)
  then have "unat (1 :: u32) + length (drop 1 (ofds t)) \<le> 2 ^ 32" by simp
  from scan_ofds_Some [OF s this] L
  have b: "1 \<le> unat i" "unat i < length (ofds t)" "ofd_free (drop 1 (ofds t) ! (unat i - 1))" by auto
  then have "ofd_free (ofds t ! unat i)" by simp
  note a = b(1,2) this L(2)
  then show "live_slot t i" "ofd_free (ofd_at t i)"
    by (auto simp: live_slot_def ofd_capacity_def ofd_at_def)
  have "unat (i + 1) = unat i + 1" using a by (simp add: unat_word_ariths)
  with t1 show "\<exists>x. t1 = t\<lparr>ofd_watermark := x\<rparr> \<and> unat i < unat x \<and> unat (ofd_watermark t) \<le> unat x"
    by (intro exI [of _ "if i + 1 > ofd_watermark t then i + 1 else ofd_watermark t"])
      (auto simp: word_less_nat_alt)
qed

lemma fd_get_Inr:
  assumes "hl_linux_fd_get_unlocked t fd = Inr i"
  shows "unat fd < fd_capacity t" "fd_ofd (fd_at t fd) = i" "live_slot t i" "i \<noteq> HL_LINUX_FD_RESERVED"
    "ofd_references (ofd_at t i) \<noteq> 0"
  using assms by (auto simp: hl_linux_fd_get_unlocked_def Let_def live_slot_def not_le split: if_splits)

section \<open>Table updates that keep the invariant\<close>

lemma set_fd_set_ofd: "set_fd fd f (set_ofd i g t) = set_ofd i g (set_fd fd f t)"
  by (simp add: set_fd_def set_ofd_def fd_at_def ofd_at_def)

lemma names_other:
  assumes "unat fd < fd_capacity t" "unat (fd_ofd (fd_at t fd)) \<noteq> k" "unat (fd_ofd (f (fd_at t fd))) \<noteq> k"
  shows "names (set_fd fd f t) k = names t k"
  using names_set_fd [OF assms(1), of f k] assms(2,3) by simp

lemma names_gained:
  assumes "unat fd < fd_capacity t" "unat (fd_ofd (fd_at t fd)) \<noteq> k" "unat (fd_ofd (f (fd_at t fd))) = k"
  shows "names (set_fd fd f t) k = names t k + 1"
  using names_set_fd [OF assms(1), of f k] assms(2,3) by simp

lemma names_lost:
  assumes "unat fd < fd_capacity t" "unat (fd_ofd (fd_at t fd)) = k" "unat (fd_ofd (f (fd_at t fd))) \<noteq> k"
  shows "names (set_fd fd f t) k = names t k - 1" "0 < names t k"
  using names_set_fd [OF assms(1), of f k] assms(2,3) by simp_all

lemma unat_reserved: "unat HL_LINUX_FD_RESERVED = 4294967295"
  by (simp add: HL_LINUX_FD_RESERVED_def unsigned_minus_1_eq_mask mask_eq_exp_minus_1)

lemma live_slot_not:
  assumes "shape_ok t" "live_slot t j"
  shows "j \<noteq> HL_LINUX_FD_RESERVED" "j \<noteq> 0" "unat j < ofd_capacity t" "unat j \<noteq> unat HL_LINUX_FD_RESERVED" "unat j \<noteq> 0"
proof -
  have l: "unat j < 65536" "j \<noteq> 0" and c: "unat j < ofd_capacity t"
    using assms by (auto simp: shape_ok_def live_slot_def HL_LINUX_OFD_LIMIT_def ofd_capacity_def)
  then show "j \<noteq> 0" "unat j < ofd_capacity t" "unat j \<noteq> 0" by (simp_all add: unat_eq_0)
  show "unat j \<noteq> unat HL_LINUX_FD_RESERVED" using l unfolding unat_reserved by simp
  then show "j \<noteq> HL_LINUX_FD_RESERVED" by auto
qed

lemma slots_set_fd_ofd:
  assumes "slots_ok t A C D S" "unat i < ofd_capacity t"
    "slot_ok (g (ofd_at t i)) (names (set_fd fd f t) (unat i)) (A' i) (C' i) (D' i) (i \<in> S')"
    "\<And>j. j \<noteq> i \<Longrightarrow> live_slot t j \<Longrightarrow> names (set_fd fd f t) (unat j) = names t (unat j)"
    "\<And>j. j \<noteq> i \<Longrightarrow> A' j = A j \<and> C' j = C j \<and> D' j = D j \<and> (j \<in> S' \<longleftrightarrow> j \<in> S)"
  shows "slots_ok (set_ofd i g (set_fd fd f t)) A' C' D' S'"
  unfolding slots_ok_def
proof (intro allI impI)
  fix j assume l: "live_slot (set_ofd i g (set_fd fd f t)) j"
  show "slot_ok (ofd_at (set_ofd i g (set_fd fd f t)) j) (names (set_ofd i g (set_fd fd f t)) (unat j)) (A' j) (C' j) (D' j) (j \<in> S')"
    using assms l by (cases "j = i") (auto simp: ofd_at_set_ofd slots_ok_def)
qed

lemma slots_set_fd_only:
  assumes "slots_ok t A C D S" "\<And>j. live_slot t j \<Longrightarrow> names (set_fd fd f t) (unat j) = names t (unat j)"
  shows "slots_ok (set_fd fd f t) A C D S"
  using assms by (simp add: slots_ok_def)

lemma slots_reserved [simp]: "slots_ok (t\<lparr>reserved_fds := r\<rparr>) A C D S = slots_ok t A C D S"
  by (simp add: slots_ok_def)

lemma slots_watermark [simp]: "slots_ok (t\<lparr>ofd_watermark := r\<rparr>) A C D S = slots_ok t A C D S"
  by (simp add: slots_ok_def)

lemma shape_watermark:
  assumes "shape_ok t" "unat (ofd_watermark t) \<le> unat x"
  shows "shape_ok (t\<lparr>ofd_watermark := x\<rparr>)"
  using assms unfolding shape_ok_def by (auto intro: less_le_trans)

lemma shape_set_fd:
  assumes "shape_ok t" "unat fd < fd_capacity t"
    "fd_ofd (f (fd_at t fd)) \<noteq> HL_LINUX_FD_RESERVED \<Longrightarrow> unat (fd_ofd (f (fd_at t fd))) < ofd_capacity t"
    "unat r = names (set_fd fd f t) (unat HL_LINUX_FD_RESERVED)"
  shows "shape_ok ((set_fd fd f t)\<lparr>reserved_fds := r\<rparr>)"
proof -
  have "set (fds (set_fd fd f t)) \<subseteq> insert (f (fd_at t fd)) (set (fds t))"
    by (auto simp: set_fd_def dest: set_update_subset_insert [THEN subsetD])
  with assms show ?thesis unfolding shape_ok_def by (auto simp: ofd_capacity_def)
qed

lemma shape_set_fd_plain:
  assumes "shape_ok t" "unat fd < fd_capacity t" "unat (fd_ofd (f (fd_at t fd))) < ofd_capacity t"
    "fd_ofd (fd_at t fd) \<noteq> HL_LINUX_FD_RESERVED" "fd_ofd (f (fd_at t fd)) \<noteq> HL_LINUX_FD_RESERVED"
  shows "shape_ok (set_fd fd f t)"
proof -
  have "names (set_fd fd f t) (unat HL_LINUX_FD_RESERVED) = names t (unat HL_LINUX_FD_RESERVED)"
    using assms(2,4,5) by (intro names_other) (simp_all add: word_unat_eq_iff)
  then have "unat (reserved_fds t) = names (set_fd fd f t) (unat HL_LINUX_FD_RESERVED)"
    using assms(1) by (simp add: shape_ok_def)
  from shape_set_fd [OF assms(1,2) assms(3) this] show ?thesis
    by (metis fd_simps(12) linux_abi.surjective linux_abi.update_convs(5))
qed

section \<open>Filling a slot\<close>

definition fills :: "(ofd_entry \<Rightarrow> ofd_entry) \<Rightarrow> ofd_entry \<Rightarrow> bool" where
  "fills g e \<longleftrightarrow> (let e' = g e in ofd_references e' = 1 \<and> active_operations e' = 0 \<and> closing e' = 0 \<and> io_mutex e' \<noteq> 0 \<and> content e')"

lemma fill_ok:
  assumes t: "shape_ok t" "slots_ok t A C D S" and fd: "unat fd < fd_capacity t"
    and old: "\<not> live_slot t (fd_ofd (fd_at t fd))"
    and find: "hl_linux_find_ofd t = Inr (i, t1)" and new: "fd_ofd (f (fd_at t fd)) = i"
    and g: "fills g (ofd_at t i)"
    and r: "unat r = names (set_fd fd f t) (unat HL_LINUX_FD_RESERVED)"
  shows "shape_ok ((set_fd fd f (set_ofd i g t1))\<lparr>reserved_fds := r\<rparr>)"
    "slots_ok ((set_fd fd f (set_ofd i g t1))\<lparr>reserved_fds := r\<rparr>) A C D S"
    "handles (set_fd fd f (set_ofd i g t1)) = handles t + filter_mset ((\<noteq>) 0) {#host_handle (g (ofd_at t i))#}"
proof -
  note fo = find_ofd_Inr [OF find t(1)]
  from fo(3) obtain x where t1: "t1 = t\<lparr>ofd_watermark := x\<rparr>" and x: "unat i < unat x" "unat (ofd_watermark t) \<le> unat x" by blast
  have i: "unat i < ofd_capacity t" "i \<noteq> HL_LINUX_FD_RESERVED" using live_slot_not [OF t(1) fo(1)] by simp_all
  have s: "slot_ok (ofd_at t i) (names t (unat i)) (A i) (C i) (D i) (i \<in> S)" using slot_okD [OF t(2) fo(1)] .
  then have n: "names t (unat i) = 0" "A i = 0" "C i = 0" "D i = 0" "i \<notin> S" "host_handle (ofd_at t i) = 0"
    using fo(2) by (auto simp: slot_ok_def ofd_free_def blank_def split: if_splits)
  have oi: "fd_ofd (fd_at t fd) \<noteq> i" using old fo(1) by auto
  have s1: "shape_ok t1" "slots_ok t1 A C D S" using shape_watermark [OF t(1) x(2)] t(2) by (simp_all add: t1)
  have na: "names (set_fd fd f t1) k = names (set_fd fd f t) k" for k by (simp add: names_def set_fd_def t1 fd_at_def)
  have nm: "names (set_fd fd f t) (unat i) = 1"
    using names_gained [of fd t "unat i" f] fd oi new n(1) by (simp add: word_unat_eq_iff)
  have g': "slot_ok (g (ofd_at t1 i)) (names (set_fd fd f t1) (unat i)) (A i) (C i) (D i) (i \<in> S)"
    using g n unfolding na nm by (simp add: t1 slot_ok_def fills_def Let_def)
  have "shape_ok ((set_fd fd f t1)\<lparr>reserved_fds := r\<rparr>)"
    using fd new i r na by (intro shape_set_fd [OF s1(1)]) (simp_all add: t1)
  then have "shape_ok (set_ofd i g ((set_fd fd f t1)\<lparr>reserved_fds := r\<rparr>))"
    using i x by (intro shape_set_ofd) (simp_all add: t1)
  moreover have "set_ofd i g ((set_fd fd f t1)\<lparr>reserved_fds := r\<rparr>) = (set_fd fd f (set_ofd i g t1))\<lparr>reserved_fds := r\<rparr>"
    by (simp add: set_fd_def set_ofd_def fd_at_def ofd_at_def)
  ultimately show "shape_ok ((set_fd fd f (set_ofd i g t1))\<lparr>reserved_fds := r\<rparr>)" by simp
  have "names (set_fd fd f t1) (unat j) = names t1 (unat j)" if "j \<noteq> i" "live_slot t1 j" for j
    using that old new fd by (intro names_other) (auto simp: t1 word_unat_eq_iff [symmetric])
  with slots_set_fd_ofd [where f = f and g = g and A' = A and C' = C and D' = D and S' = S, OF s1(2) _ g'] i show "slots_ok ((set_fd fd f (set_ofd i g t1))\<lparr>reserved_fds := r\<rparr>) A C D S"
    by (simp add: set_fd_set_ofd t1)
  show "handles (set_fd fd f (set_ofd i g t1)) = handles t + filter_mset ((\<noteq>) 0) {#host_handle (g (ofd_at t i))#}"
    using handles_set_ofd [of i t1 g] i n(6) by (simp add: t1)
qed

lemma fill_ok_plain:
  assumes t: "shape_ok t" "slots_ok t A C D S" and fd: "unat fd < fd_capacity t" "fd_ofd (fd_at t fd) = 0"
    and find: "hl_linux_find_ofd t = Inr (i, t1)" and new: "fd_ofd (f (fd_at t fd)) = i"
    and g: "fills g (ofd_at t i)"
  shows "shape_ok (set_fd fd f (set_ofd i g t1))" "slots_ok (set_fd fd f (set_ofd i g t1)) A C D S"
    "handles (set_fd fd f (set_ofd i g t1)) = handles t + filter_mset ((\<noteq>) 0) {#host_handle (g (ofd_at t i))#}"
proof -
  note fo = find_ofd_Inr [OF find t(1)]
  have i: "unat i \<noteq> unat HL_LINUX_FD_RESERVED" using live_slot_not [OF t(1) fo(1)] by simp
  have "names (set_fd fd f t) (unat HL_LINUX_FD_RESERVED) = names t (unat HL_LINUX_FD_RESERVED)"
    using fd new i by (intro names_other) (simp_all add: unat_reserved)
  then have r: "unat (reserved_fds t) = names (set_fd fd f t) (unat HL_LINUX_FD_RESERVED)"
    using t(1) by (simp add: shape_ok_def)
  from fo(3) obtain x where t1: "t1 = t\<lparr>ofd_watermark := x\<rparr>" by blast
  have old: "\<not> live_slot t (fd_ofd (fd_at t fd))" using fd by (simp add: live_slot_def)
  have e: "(set_fd fd f (set_ofd i g t1))\<lparr>reserved_fds := reserved_fds t\<rparr> = set_fd fd f (set_ofd i g t1)"
    by (simp add: set_fd_def set_ofd_def t1)
  show "shape_ok (set_fd fd f (set_ofd i g t1))" "slots_ok (set_fd fd f (set_ofd i g t1)) A C D S"
    "handles (set_fd fd f (set_ofd i g t1)) = handles t + filter_mset ((\<noteq>) 0) {#host_handle (g (ofd_at t i))#}"
    using fill_ok [OF t fd(1) old find new g r] unfolding e by blast+
qed

lemma fills_fill_ofd:
  assumes "slots_ok t A C D S" "live_slot t i" "ofd_free (ofd_at t i)" "handle \<noteq> 0" "m \<noteq> 0"
  shows "fills (fill_ofd h handle sf m) (ofd_at t i)"
proof -
  have "object_ops (ofd_at t i) = None" "active_operations (ofd_at t i) = 0" "closing (ofd_at t i) = 0"
    using slot_okD [OF assms(1,2)] assms(3) by (auto simp: slot_ok_def ofd_free_def blank_def split: if_splits)
  with assms(4,5) show ?thesis by (simp add: fills_def fill_ofd_def content_def)
qed

section \<open>Operations of the table\<close>

lemma with_new_mutex_Inr:
  assumes "with_new_mutex h t sec = (Inr x, t', evs)"
  shows "\<exists>m. m \<noteq> 0 \<and> mutex_create h = (S_OK, m) \<and> sec m = Inr (x, t') \<and> evs = [Mutex_Created m]"
  using assms by (auto simp: with_new_mutex_def split: if_splits prod.splits sum.splits)

lemma with_new_mutex_Inl:
  assumes "with_new_mutex h t sec = (Inl x, t', evs)"
  shows "t' = t"
  using assms by (auto simp: with_new_mutex_def split: if_splits prod.splits sum.splits)

lemma install_ok:
  assumes t: "shape_ok t" "slots_ok t A C D S"
    and op: "hl_linux_fd_install h handle sf df t = (Inr fd, t', evs)"
  shows "shape_ok t'" "slots_ok t' A C D S" "handles t' = handles t + {#handle#}" "fd_ofd (fd_at t fd) = 0"
    "\<And>k. k < fd \<Longrightarrow> fd_ofd (fd_at t k) \<noteq> 0" "unat fd < fd_capacity t"
proof -
  from op obtain m i t1 where m: "m \<noteq> 0" "handle \<noteq> 0" "hl_linux_find_fd t = Inr fd" "hl_linux_find_ofd t = Inr (i, t1)"
    and t': "t' = set_fd fd (point_fd i df) (set_ofd i (fill_ofd h handle sf m) t1)"
    by (auto simp: hl_linux_fd_install_def split: if_splits sum.splits prod.splits dest!: with_new_mutex_Inr)
  note fd = find_fd_Inr [OF m(3) t(1)]
  note fo = find_ofd_Inr [OF m(4) t(1)]
  have "fd_ofd (point_fd i df (fd_at t fd)) = i" by (simp add: point_fd_def)
  note ok = fill_ok_plain [where f = "point_fd i df", OF t fd(1,2) m(4) this fills_fill_ofd [OF t(2) fo(1,2) m(2,1)]]
  from ok t' m(2) show "shape_ok t'" "slots_ok t' A C D S" "handles t' = handles t + {#handle#}"
    by (simp_all add: fill_ofd_def)
  show "fd_ofd (fd_at t fd) = 0" "\<And>k. k < fd \<Longrightarrow> fd_ofd (fd_at t k) \<noteq> 0" "unat fd < fd_capacity t"
    using fd by auto
qed

lemma install_at_ok:
  assumes t: "shape_ok t" "slots_ok t A C D S"
    and op: "hl_linux_fd_install_at h fd handle sf df t = (Inr (), t', evs)"
  shows "shape_ok t'" "slots_ok t' A C D S" "handles t' = handles t + {#handle#}"
proof -
  from op obtain m i t1 where m: "m \<noteq> 0" "handle \<noteq> 0" "unat fd < fd_capacity t" "fd_ofd (fd_at t fd) = 0"
    "hl_linux_find_ofd t = Inr (i, t1)" and t': "t' = set_fd fd (point_fd i df) (set_ofd i (fill_ofd h handle sf m) t1)"
    by (auto simp: hl_linux_fd_install_at_def not_le split: if_splits sum.splits prod.splits dest!: with_new_mutex_Inr)
  note fo = find_ofd_Inr [OF m(5) t(1)]
  have "fd_ofd (point_fd i df (fd_at t fd)) = i" by (simp add: point_fd_def)
  note ok = fill_ok_plain [where f = "point_fd i df", OF t m(3-5) this fills_fill_ofd [OF t(2) fo(1,2) m(2,1)]]
  from ok t' m(2) show "shape_ok t'" "slots_ok t' A C D S" "handles t' = handles t + {#handle#}"
    by (simp_all add: fill_ofd_def)
qed

lemma object_install_ok:
  assumes t: "shape_ok t" "slots_ok t A C D S"
    and op: "hl_linux_object_install_common h req ops ctx kind sf df t = (Inr fd, t', evs)"
  shows "shape_ok t'" "slots_ok t' A C D S" "handles t' = handles t"
proof -
  let ?g = "\<lambda>m e. \<lparr>host_handle = 0, ofd_offset = 0, status_flags = sf, ofd_references = 1,
                   active_operations = 0, closing = 0, ofd_generation = ofd_generation e + 1, ofd_kind = kind,
                   flock_token = hl_linux_new_ofd_token h, io_mutex = m, object_ops = Some ops,
                   object_context = ctx\<rparr>"
  from op obtain m i t1 where m: "m \<noteq> 0" "ctx \<noteq> 0"
    "(case req of None \<Rightarrow> hl_linux_find_fd t | Some fd \<Rightarrow> if fd_ofd (fd_at t fd) \<noteq> 0 then Inl S_ALREADY_EXISTS else Inr fd) = Inr fd"
    "case req of None \<Rightarrow> True | Some fd \<Rightarrow> unat fd < fd_capacity t"
    "hl_linux_find_ofd t = Inr (i, t1)" and t': "t' = set_fd fd (point_fd i df) (set_ofd i (?g m) t1)"
    by (auto simp: hl_linux_object_install_common_def not_le split: if_splits sum.splits prod.splits option.splits dest!: with_new_mutex_Inr)
  have fd: "unat fd < fd_capacity t" "fd_ofd (fd_at t fd) = 0"
    using m(3,4) find_fd_Inr [OF _ t(1), of fd] by (auto split: option.splits if_splits)
  have "fd_ofd (point_fd i df (fd_at t fd)) = i" by (simp add: point_fd_def)
  moreover have "fills (?g m) (ofd_at t i)" using m(1,2) by (simp add: fills_def content_def)
  ultimately show "shape_ok t'" "slots_ok t' A C D S" "handles t' = handles t"
    using fill_ok_plain [where f = "point_fd i df", OF t fd m(5)] t' by simp_all
qed

lemma reserved_names:
  "shape_ok t \<Longrightarrow> names t (unat HL_LINUX_FD_RESERVED) = unat (reserved_fds t) \<and> unat (reserved_fds t) \<le> 65536"
  using names_le [of t "unat HL_LINUX_FD_RESERVED"] by (auto simp: shape_ok_def HL_LINUX_FD_LIMIT_def)

lemma reserve_ok:
  assumes t: "shape_ok t" "slots_ok t A C D S" and op: "hl_linux_fd_reserve_at fd t = (Inr r, t')"
  shows "shape_ok t'" "slots_ok t' A C D S" "handles t' = handles t"
proof -
  let ?f = "\<lambda>e. \<lparr>fd_ofd = HL_LINUX_FD_RESERVED, descriptor_flags = 0, fd_generation = fd_generation e + 1\<rparr>"
  from op have fd: "unat fd < fd_capacity t" "fd_ofd (fd_at t fd) = 0"
    and t': "t' = (set_fd fd ?f t)\<lparr>reserved_fds := reserved_fds t + 1\<rparr>"
    by (auto simp: hl_linux_fd_reserve_at_def Let_def not_le split: if_splits)
  have "names (set_fd fd ?f t) (unat HL_LINUX_FD_RESERVED) = names t (unat HL_LINUX_FD_RESERVED) + 1"
    using fd by (intro names_gained) (simp_all add: unat_reserved)
  moreover have "unat (reserved_fds t + 1) = unat (reserved_fds t) + 1"
    using reserved_names [OF t(1)] by (simp add: unat_word_ariths)
  ultimately have r: "unat (reserved_fds t + 1) = names (set_fd fd ?f t) (unat HL_LINUX_FD_RESERVED)"
    using reserved_names [OF t(1)] by simp
  show "shape_ok t'" unfolding t' by (rule shape_set_fd [OF t(1) fd(1) _ r]) simp
  have "names (set_fd fd ?f t) (unat j) = names t (unat j)" if "live_slot t j" for j
    using live_slot_not [OF t(1) that] fd by (intro names_other) auto
  with slots_set_fd_only [OF t(2)] show "slots_ok t' A C D S" by (simp add: t')
  show "handles t' = handles t" by (simp add: t')
qed

lemma drop_reserved_eq: "drop_reserved t = t\<lparr>reserved_fds := if reserved_fds t \<noteq> 0 then reserved_fds t - 1 else 0\<rparr>"
  by (simp add: drop_reserved_def)

lemma dropped_names:
  assumes t: "shape_ok t" and fd: "unat fd < fd_capacity t" "fd_ofd (fd_at t fd) = HL_LINUX_FD_RESERVED"
    and f: "fd_ofd (f (fd_at t fd)) \<noteq> HL_LINUX_FD_RESERVED"
  shows "unat (if reserved_fds t \<noteq> 0 then reserved_fds t - 1 else 0) = names (set_fd fd f t) (unat HL_LINUX_FD_RESERVED)"
proof -
  have "names (set_fd fd f t) (unat HL_LINUX_FD_RESERVED) = names t (unat HL_LINUX_FD_RESERVED) - 1"
    "0 < names t (unat HL_LINUX_FD_RESERVED)"
    using names_lost [of fd t "unat HL_LINUX_FD_RESERVED" f] fd f by (simp_all add: word_unat_eq_iff [symmetric])
  with reserved_names [OF t] show ?thesis by (auto simp: unat_eq_0 [symmetric] unat_minus_one)
qed

lemma cancel_ok:
  assumes t: "shape_ok t" "slots_ok t A C D S" and op: "hl_linux_fd_cancel r t = (S_OK, t')"
  shows "shape_ok t'" "slots_ok t' A C D S" "handles t' = handles t"
proof -
  from op have fd: "unat (res_fd r) < fd_capacity t" "fd_ofd (fd_at t (res_fd r)) = HL_LINUX_FD_RESERVED"
    and t': "t' = drop_reserved (set_fd (res_fd r) (\<lambda>e. e\<lparr>fd_ofd := 0\<rparr>) t)"
    by (auto simp: hl_linux_fd_cancel_def not_le split: if_splits)
  have c: "0 < ofd_capacity t" using t(1) by (auto simp: shape_ok_def ofd_capacity_def)
  have "unat (if reserved_fds t \<noteq> 0 then reserved_fds t - 1 else 0) =
      names (set_fd (res_fd r) (\<lambda>e. e\<lparr>fd_ofd := 0\<rparr>) t) (unat HL_LINUX_FD_RESERVED)"
    using fd by (intro dropped_names [OF t(1)]) (simp_all add: HL_LINUX_FD_RESERVED_def)
  from shape_set_fd [where f = "\<lambda>e. e\<lparr>fd_ofd := 0\<rparr>", OF t(1) fd(1) _ this] c show "shape_ok t'"
    unfolding t' drop_reserved_eq fd_simps by simp
  have "names (set_fd (res_fd r) (\<lambda>e. e\<lparr>fd_ofd := 0\<rparr>) t) (unat j) = names t (unat j)" if "live_slot t j" for j
    using live_slot_not [OF t(1) that] fd by (intro names_other) auto
  with slots_set_fd_only [OF t(2)] show "slots_ok t' A C D S" by (simp add: t' drop_reserved_eq)
  show "handles t' = handles t" by (simp add: t' drop_reserved_eq)
qed

lemma commit_ok:
  assumes t: "shape_ok t" "slots_ok t A C D S"
    and op: "hl_linux_fd_commit h r handle sf df t = (Inr (), t', evs)"
  shows "shape_ok t'" "slots_ok t' A C D S" "handles t' = handles t + {#handle#}"
proof -
  let ?f = "\<lambda>i e. e\<lparr>fd_ofd := i, descriptor_flags := df\<rparr>"
  from op obtain m i t1 where m: "m \<noteq> 0" "handle \<noteq> 0" "unat (res_fd r) < fd_capacity t"
    "fd_ofd (fd_at t (res_fd r)) = HL_LINUX_FD_RESERVED" "hl_linux_find_ofd t = Inr (i, t1)"
    and t': "t' = drop_reserved (set_fd (res_fd r) (?f i) (set_ofd i (fill_ofd h handle sf m) t1))"
    by (auto simp: hl_linux_fd_commit_def not_le split: if_splits sum.splits prod.splits dest!: with_new_mutex_Inr)
  note fo = find_ofd_Inr [OF m(5) t(1)]
  from fo(3) obtain x where t1: "t1 = t\<lparr>ofd_watermark := x\<rparr>" by blast
  have i: "i \<noteq> HL_LINUX_FD_RESERVED" using live_slot_not [OF t(1) fo(1)] by simp
  have old: "\<not> live_slot t (fd_ofd (fd_at t (res_fd r)))" using live_slot_not [OF t(1)] m(4) by auto
  have r: "unat (if reserved_fds t \<noteq> 0 then reserved_fds t - 1 else 0) =
      names (set_fd (res_fd r) (?f i) t) (unat HL_LINUX_FD_RESERVED)"
    using m i by (intro dropped_names [OF t(1)]) simp_all
  have "fd_ofd (?f i (fd_at t (res_fd r))) = i" by simp
  note ok = fill_ok [where f = "?f i", OF t m(3) old m(5) this fills_fill_ofd [OF t(2) fo(1,2) m(2,1)] r]
  have e: "t' = (set_fd (res_fd r) (?f i) (set_ofd i (fill_ofd h handle sf m) t1))\<lparr>reserved_fds :=
      if reserved_fds t \<noteq> 0 then reserved_fds t - 1 else 0\<rparr>"
    unfolding t' drop_reserved_eq by (simp add: t1)
  show "shape_ok t'" "slots_ok t' A C D S" unfolding e using ok(1,2) by blast+
  show "handles t' = handles t + {#handle#}" unfolding e using ok(3) m(2) by (simp add: fill_ofd_def)
qed

end
