(* ===== verification/Fd_Updates.thy ===== *)
theory Fd_Updates
  imports Fd_Slots
begin

text \<open>
  The other updates of the descriptor table: gaining and losing a name (duplication, closing,
  replacement), operations entering and leaving, and the two sections of a finalisation.
\<close>

section \<open>Gaining and losing a name\<close>

lemma unat_add_one: "unat (x :: u32) + 1 < 2 ^ 32 \<Longrightarrow> unat (x + 1) = unat x + 1"
  by (simp add: unat_word_ariths)

lemma add_ok:
  assumes t: "shape_ok t" "slots_ok t A C D S" and fd: "unat fd < fd_capacity t" "fd_ofd (fd_at t fd) = 0"
    and i: "live_slot t i" "ofd_references (ofd_at t i) \<noteq> 0" and f: "fd_ofd (f (fd_at t fd)) = i"
  shows "shape_ok (set_ofd i add_reference (set_fd fd f t))" "slots_ok (set_ofd i add_reference (set_fd fd f t)) A C D S"
    "handles (set_ofd i add_reference (set_fd fd f t)) = handles t"
proof -
  note l = live_slot_not [OF t(1) i(1)]
  have n: "names (set_fd fd f t) (unat i) = names t (unat i) + 1"
    using fd f l by (intro names_gained) simp_all
  have s: "slot_ok (ofd_at t i) (names t (unat i)) (A i) (C i) (D i) (i \<in> S)" using slot_okD [OF t(2) i(1)] .
  have "names t (unat i) \<le> 65536" using names_le [of t "unat i"] t(1) by (auto simp: shape_ok_def HL_LINUX_FD_LIMIT_def)
  then have "unat (ofd_references (ofd_at t i) + 1) = unat (ofd_references (ofd_at t i)) + 1"
    using s by (intro unat_add_one) (simp add: slot_ok_def)
  then have s': "slot_ok (add_reference (ofd_at t i)) (names (set_fd fd f t) (unat i)) (A i) (C i) (D i) (i \<in> S)"
    using s i(2) unfolding n by (auto simp: slot_ok_def add_reference_def content_def unat_eq_0 split: if_splits)
  have o: "names (set_fd fd f t) (unat j) = names t (unat j)" if "j \<noteq> i" "live_slot t j" for j
    using that fd f live_slot_not [OF t(1) that(2)] by (intro names_other) (auto simp: word_unat_eq_iff)
  show "slots_ok (set_ofd i add_reference (set_fd fd f t)) A C D S"
    using slots_set_fd_ofd [where f = f and g = add_reference and A' = A and C' = C and D' = D and S' = S, OF t(2) l(3) s' o] by simp
  have "shape_ok (set_fd fd f t)"
    using fd f l by (intro shape_set_fd_plain t) (simp_all add: HL_LINUX_FD_RESERVED_def)
  moreover have "\<not> ofd_free (ofd_at t i)" using i(2) by (simp add: ofd_free_def)
  ultimately show "shape_ok (set_ofd i add_reference (set_fd fd f t))"
    using t(1) i(1) l(3) by (intro shape_set_ofd) (simp_all add: shape_ok_def)
  show "handles (set_ofd i add_reference (set_fd fd f t)) = handles t"
    using handles_set_ofd_same [of i "set_fd fd f t" add_reference] l(3) by (simp add: add_reference_def)
qed

definition drop_reference :: "ofd_entry \<Rightarrow> ofd_entry" where
  "drop_reference e = (let e1 = e\<lparr>ofd_references := ofd_references e - 1\<rparr> in
     if ofd_references e1 = 0 then e1\<lparr>closing := 1\<rparr> else e1)"

lemma drop_ok:
  assumes t: "shape_ok t" "slots_ok t A C D S" and fd: "unat fd < fd_capacity t" "fd_ofd (fd_at t fd) = i"
    and i: "live_slot t i" and f: "fd_ofd (f (fd_at t fd)) = 0"
  shows "shape_ok (set_ofd i drop_reference (set_fd fd f t))"
    "slots_ok (set_ofd i drop_reference (set_fd fd f t)) A
       (\<lambda>j. C j + (if j = i \<and> ofd_references (drop_reference (ofd_at t i)) = 0 \<and> active_operations (ofd_at t i) = 0 then 1 else 0)) D S"
    "handles (set_ofd i drop_reference (set_fd fd f t)) = handles t"
proof -
  note l = live_slot_not [OF t(1) i]
  have n: "names (set_fd fd f t) (unat i) = names t (unat i) - 1" "0 < names t (unat i)"
    using names_lost [of fd t "unat i" f] fd f l by simp_all
  have s: "slot_ok (ofd_at t i) (names t (unat i)) (A i) (C i) (D i) (i \<in> S)" using slot_okD [OF t(2) i] .
  then have r: "ofd_references (ofd_at t i) \<noteq> 0" using n(2) by (auto simp: slot_ok_def)
  then have "unat (ofd_references (ofd_at t i) - 1) = unat (ofd_references (ofd_at t i)) - 1" by (simp add: unat_minus_one)
  moreover have one: "ofd_references (ofd_at t i) = 1 \<longleftrightarrow> names t (unat i) = 1"
    using s by (auto simp: slot_ok_def word_unat_eq_iff)
  ultimately have s': "slot_ok (drop_reference (ofd_at t i)) (names (set_fd fd f t) (unat i)) (A i)
      (C i + (if i = i \<and> ofd_references (drop_reference (ofd_at t i)) = 0 \<and> active_operations (ofd_at t i) = 0 then 1 else 0)) (D i) (i \<in> S)"
    using s n by (auto simp: slot_ok_def drop_reference_def Let_def content_def unat_eq_0 one)
  have o: "names (set_fd fd f t) (unat j) = names t (unat j)" if "j \<noteq> i" "live_slot t j" for j
    using that fd f live_slot_not [OF t(1) that(2)] by (intro names_other) (auto simp: word_unat_eq_iff)
  show "slots_ok (set_ofd i drop_reference (set_fd fd f t)) A
       (\<lambda>j. C j + (if j = i \<and> ofd_references (drop_reference (ofd_at t i)) = 0 \<and> active_operations (ofd_at t i) = 0 then 1 else 0)) D S"
    using slots_set_fd_ofd [where f = f and g = drop_reference and A' = A and C' = "\<lambda>j. C j + (if j = i \<and> ofd_references (drop_reference (ofd_at t i)) = 0 \<and> active_operations (ofd_at t i) = 0 then 1 else 0)"
      and D' = D and S' = S, OF t(2) l(3) s' o] by simp
  have "0 < ofd_capacity t" using l(3) by simp
  then have "shape_ok (set_fd fd f t)"
    using fd f l by (intro shape_set_fd_plain t) (simp_all add: HL_LINUX_FD_RESERVED_def)
  moreover have "\<not> ofd_free (ofd_at t i)" using r by (simp add: ofd_free_def)
  ultimately show "shape_ok (set_ofd i drop_reference (set_fd fd f t))"
    using t(1) i l(3) by (intro shape_set_ofd) (simp_all add: shape_ok_def)
  show "handles (set_ofd i drop_reference (set_fd fd f t)) = handles t"
    using handles_set_ofd_same [of i "set_fd fd f t" drop_reference] l(3) by (simp add: drop_reference_def Let_def)
qed

lemma fd_live:
  assumes "shape_ok t" "unat fd < fd_capacity t" "fd_ofd (fd_at t fd) \<noteq> 0" "fd_ofd (fd_at t fd) \<noteq> HL_LINUX_FD_RESERVED"
  shows "live_slot t (fd_ofd (fd_at t fd))"
proof -
  have "fd_at t fd \<in> set (fds t)" using assms(2) by (simp add: fd_at_def fd_capacity_def)
  with assms show ?thesis by (auto simp: live_slot_def shape_ok_def ofd_capacity_def)
qed

section \<open>Duplication, closing, replacement\<close>

lemma dup_ok:
  assumes t: "shape_ok t" "slots_ok t A C D S" and op: "hl_linux_fd_dup src df t = (Inr fd, t')"
  shows "shape_ok t'" "slots_ok t' A C D S" "handles t' = handles t"
proof -
  from op obtain i where i: "hl_linux_fd_get_unlocked t src = Inr i" "hl_linux_find_fd t = Inr fd"
    and t': "t' = set_ofd i add_reference (set_fd fd (point_fd i df) t)"
    by (auto simp: hl_linux_fd_dup_def split: sum.splits)
  note g = fd_get_Inr [OF i(1)] and f = find_fd_Inr [OF i(2) t(1)]
  show "shape_ok t'" "slots_ok t' A C D S" "handles t' = handles t"
    using add_ok [where f = "point_fd i df", OF t f(1,2) g(3,5)] by (simp_all add: t' point_fd_def)
qed

lemma dup_at_least_ok:
  assumes t: "shape_ok t" "slots_ok t A C D S" and op: "hl_linux_fd_dup_at_least src lo df t = (r, t')"
  shows "shape_ok t'" "slots_ok t' A C D S" "handles t' = handles t"
proof -
  consider "t' = t" | i fd where "hl_linux_fd_get_unlocked t src = Inr i" "hl_linux_find_fd_at_least t lo = Inr fd"
    "t' = set_ofd i add_reference (set_fd fd (point_fd i df) t)"
    using op by (auto simp: hl_linux_fd_dup_at_least_def split: sum.splits)
  then have "shape_ok t' \<and> slots_ok t' A C D S \<and> handles t' = handles t"
  proof cases
    case (2 i fd)
    note g = fd_get_Inr [OF 2(1)] and f = find_fd_at_least_Inr [OF 2(2) t(1)]
    show ?thesis using add_ok [where f = "point_fd i df", OF t f(1,2) g(3,5)] by (simp add: 2 point_fd_def)
  qed (use t in simp)
  then show "shape_ok t'" "slots_ok t' A C D S" "handles t' = handles t" by simp_all
qed

lemma close_locked_eq:
  assumes t: "shape_ok t" and op: "close_locked fd t = Inr (p, t')"
  shows "unat fd < fd_capacity t" "live_slot t (fd_ofd (fd_at t fd))" "cp_ofd p = fd_ofd (fd_at t fd)"
    "t' = set_ofd (cp_ofd p) drop_reference (set_fd fd (\<lambda>e. \<lparr>fd_ofd = 0, descriptor_flags = 0, fd_generation = fd_generation e + 1\<rparr>) t)"
    "cp_finalize p \<longleftrightarrow> ofd_references (drop_reference (ofd_at t (cp_ofd p))) = 0 \<and> active_operations (ofd_at t (cp_ofd p)) = 0"
    "cp_retire p = (if ofd_references (drop_reference (ofd_at t (cp_ofd p))) = 0
       then map_option (\<lambda>ops. (ops, object_context (ofd_at t (cp_ofd p)))) (object_ops (ofd_at t (cp_ofd p))) else None)"
    "ofd_references (ofd_at t (cp_ofd p)) \<noteq> 0"
proof -
  let ?i = "fd_ofd (fd_at t fd)"
  let ?t1 = "set_fd fd (\<lambda>e. \<lparr>fd_ofd = 0, descriptor_flags = 0, fd_generation = fd_generation e + 1\<rparr>) t"
  let ?d = "\<lambda>e. e\<lparr>ofd_references := ofd_references e - 1\<rparr>"
  from op have fd: "unat fd < fd_capacity t" "?i \<noteq> 0" "?i \<noteq> HL_LINUX_FD_RESERVED" "unat ?i < ofd_capacity t"
    "ofd_references (ofd_at t ?i) \<noteq> 0"
    by (auto simp: close_locked_def Let_def not_le split: if_splits)
  have e: "ofd_at (set_ofd ?i ?d ?t1) ?i = ?d (ofd_at t ?i)"
    "\<And>g. set_ofd ?i g (set_ofd ?i ?d ?t1) = set_ofd ?i (g \<circ> ?d) ?t1"
    using fd(4) by (simp_all add: ofd_at_set_ofd) (simp add: set_ofd_def ofd_at_def ofd_capacity_def set_fd_def)
  show "unat fd < fd_capacity t" by fact
  show "live_slot t ?i" using fd by (simp add: live_slot_def)
  from op have i: "cp_ofd p = ?i" by (auto simp: close_locked_def Let_def split: if_splits)
  then show "cp_ofd p = ?i" .
  show "ofd_references (ofd_at t (cp_ofd p)) \<noteq> 0" using fd i by simp
  from op have P: "cp_finalize p \<longleftrightarrow> ofd_references (ofd_at t ?i) - 1 = 0 \<and> active_operations (ofd_at t ?i) = 0"
    "cp_retire p = (if ofd_references (ofd_at t ?i) - 1 = 0 then map_option (\<lambda>ops. (ops, object_context (ofd_at t ?i))) (object_ops (ofd_at t ?i)) else None)"
    "t' = (if ofd_references (ofd_at t ?i) - 1 = 0 then set_ofd ?i ((\<lambda>e. e\<lparr>closing := 1\<rparr>) \<circ> ?d) ?t1 else set_ofd ?i ?d ?t1)"
    using fd by (auto simp: close_locked_def Let_def not_le e(2) ofd_at_set_ofd split: if_splits)
  show "cp_finalize p \<longleftrightarrow> ofd_references (drop_reference (ofd_at t (cp_ofd p))) = 0 \<and> active_operations (ofd_at t (cp_ofd p)) = 0"
    "cp_retire p = (if ofd_references (drop_reference (ofd_at t (cp_ofd p))) = 0
       then map_option (\<lambda>ops. (ops, object_context (ofd_at t (cp_ofd p)))) (object_ops (ofd_at t (cp_ofd p))) else None)"
    using P(1,2) by (simp_all add: drop_reference_def i Let_def)
  show "t' = set_ofd (cp_ofd p) drop_reference ?t1"
    unfolding P(3) i by (simp add: set_ofd_def drop_reference_def Let_def ofd_at_def set_fd_def)
qed

lemma close_ok:
  assumes t: "shape_ok t" "slots_ok t A C D S" and op: "close_locked fd t = Inr (p, t')"
  shows "shape_ok t'" "slots_ok t' A (\<lambda>j. C j + (if cp_finalize p \<and> j = cp_ofd p then 1 else 0)) D S"
    "handles t' = handles t" "live_slot t (cp_ofd p)"
proof -
  note c = close_locked_eq [OF t(1) op]
  let ?f = "\<lambda>e. \<lparr>fd_ofd = 0, descriptor_flags = 0, fd_generation = fd_generation e + 1\<rparr>"
  note d = drop_ok [where f = ?f, OF t c(1) c(3) [symmetric] c(2) [folded c(3)]]
  have "(\<lambda>j. C j + (if cp_finalize p \<and> j = cp_ofd p then 1 else 0)) =
    (\<lambda>j. C j + (if j = cp_ofd p \<and> ofd_references (drop_reference (ofd_at t (cp_ofd p))) = 0 \<and> active_operations (ofd_at t (cp_ofd p)) = 0 then 1 else 0))"
    using c(5) by (auto simp: fun_eq_iff)
  with d c(4) show "shape_ok t'" "slots_ok t' A (\<lambda>j. C j + (if cp_finalize p \<and> j = cp_ofd p then 1 else 0)) D S"
    "handles t' = handles t" by simp_all
  show "live_slot t (cp_ofd p)" using c(2,3) by simp
qed

lemma replace_drop:
  "(\<lambda>e. let e1 = e\<lparr>ofd_references := ofd_references e - 1\<rparr> in if ofd_references e1 = 0 then e1\<lparr>closing := 1\<rparr> else e1) =
    drop_reference"
  by (rule ext) (simp add: drop_reference_def)

lemmas replace_locked_eq = replace_locked_def [unfolded replace_drop]

lemma replace_cases:
  assumes t: "shape_ok t" and op: "replace_locked src target df t = Inr (d, t')"
  shows "\<exists>i. hl_linux_fd_get_unlocked t src = Inr i \<and> unat target < fd_capacity t \<and>
    (src = target \<and> d = None \<and> t' = t \<or>
     src \<noteq> target \<and> (let j = fd_ofd (fd_at t target) in
       (if j = 0 then d = None \<and> t' = set_ofd i add_reference (set_fd target (point_fd i df) t)
        else live_slot t j \<and> ofd_references (ofd_at t j) \<noteq> 0 \<and>
          t' = set_ofd i add_reference (set_fd target (point_fd i df) (set_ofd j drop_reference t)) \<and>
          d = (if i \<noteq> j \<and> ofd_references (drop_reference (ofd_at t j)) = 0 then Some j else None))))"
proof -
  from op obtain i where i: "hl_linux_fd_get_unlocked t src = Inr i" and c: "unat target < fd_capacity t"
    by (auto simp: replace_locked_eq not_le split: sum.splits if_splits)
  show ?thesis
  proof (cases "src = target")
    case True
    with op i c show ?thesis by (auto simp: replace_locked_eq)
  next
    case ne: False
    let ?j = "fd_ofd (fd_at t target)"
    note g = fd_get_Inr [OF i]
    show ?thesis
    proof (cases "?j = 0")
      case True
      with op i c ne show ?thesis by (auto simp: replace_locked_eq Let_def)
    next
      case False
      with op i c ne have j: "unat ?j < ofd_capacity t" "ofd_references (ofd_at t ?j) \<noteq> 0"
        by (auto simp: replace_locked_eq Let_def split: if_splits)
      let ?t2 = "set_ofd i add_reference (set_fd target (point_fd i df) (set_ofd ?j drop_reference t))"
      from op i c ne False j have d: "t' = ?t2" "d = (if ofd_references (ofd_at ?t2 ?j) = 0 then Some ?j else None)"
        by (auto simp: replace_locked_eq Let_def split: if_splits)
      have "ofd_references (ofd_at ?t2 ?j) = (if i = ?j then ofd_references (drop_reference (ofd_at t ?j)) + 1
          else ofd_references (drop_reference (ofd_at t ?j)))"
        using j(1) g(3) by (simp add: ofd_at_set_ofd live_slot_def add_reference_def)
      moreover have "ofd_references (drop_reference (ofd_at t ?j)) + 1 \<noteq> 0"
        using j(2) by (simp add: drop_reference_def Let_def)
      ultimately have "d = (if i \<noteq> ?j \<and> ofd_references (drop_reference (ofd_at t ?j)) = 0 then Some ?j else None)"
        using d(2) by simp
      with d(1) i c ne j False show ?thesis by (auto simp: live_slot_def)
    qed
  qed
qed

section \<open>Operations in flight\<close>

lemma unlocked_references:
  assumes "slots_ok t A C D S" "live_slot t i"
  shows "ofd_references (ofd_at t i) \<noteq> 0 \<longleftrightarrow> 0 < names t (unat i)"
    "active_operations (ofd_at t i) \<noteq> 0 \<longleftrightarrow> 0 < A i"
  using slot_okD [OF assms] by (auto simp: slot_ok_def unat_eq_0 [symmetric])

lemma shape_used: "shape_ok t \<Longrightarrow> live_slot t i \<Longrightarrow> \<not> ofd_free (ofd_at t i) \<Longrightarrow> unat i < unat (ofd_watermark t)"
  by (simp add: shape_ok_def)

lemma enter_ok:
  assumes t: "shape_ok t" "slots_ok t A C D S" and i: "live_slot t i" "ofd_references (ofd_at t i) \<noteq> 0"
    and room: "A i + 1 < 2 ^ 32"
  shows "shape_ok (set_ofd i (\<lambda>e. e\<lparr>active_operations := active_operations e + 1\<rparr>) t)"
    "slots_ok (set_ofd i (\<lambda>e. e\<lparr>active_operations := active_operations e + 1\<rparr>) t) (\<lambda>j. A j + (if j = i then 1 else 0)) C D S"
    "handles (set_ofd i (\<lambda>e. e\<lparr>active_operations := active_operations e + 1\<rparr>) t) = handles t"
proof -
  let ?g = "\<lambda>e. e\<lparr>active_operations := active_operations e + 1\<rparr>"
  note l = live_slot_not [OF t(1) i(1)]
  have s: "slot_ok (ofd_at t i) (names t (unat i)) (A i) (C i) (D i) (i \<in> S)" using slot_okD [OF t(2) i(1)] .
  have n: "0 < names t (unat i)" using unlocked_references(1) [OF t(2) i(1)] i(2) by simp
  have "unat (active_operations (ofd_at t i) + 1) = A i + 1"
    using s room by (subst unat_add_one) (auto simp: slot_ok_def)
  with s n have "slot_ok (?g (ofd_at t i)) (names t (unat i)) (A i + (if i = i then 1 else 0)) (C i) (D i) (i \<in> S)"
    by (auto simp: slot_ok_def content_def)
  from slots_set_ofd [where g = ?g and A' = "\<lambda>j. A j + (if j = i then 1 else 0)" and C' = C and D' = D and S' = S, OF t(2) l(3) this]
  show "slots_ok (set_ofd i ?g t) (\<lambda>j. A j + (if j = i then 1 else 0)) C D S" by simp
  have "\<not> ofd_free (ofd_at t i)" using i(2) by (simp add: ofd_free_def)
  then show "shape_ok (set_ofd i ?g t)" using t(1) i(1) l(3) by (intro shape_set_ofd t) (simp_all add: shape_used)
  show "handles (set_ofd i ?g t) = handles t" using handles_set_ofd_same [OF l(3), of ?g] by simp
qed

text \<open>An operation that leaves: the last one of a description without names must be followed by a
  finalisation; it is counted as \<open>C\<close> when the code asks for one, as stuck when it does not.\<close>

definition orphaned :: "linux_abi \<Rightarrow> u32 \<Rightarrow> bool" where
  "orphaned t i \<longleftrightarrow> active_operations (ofd_at t i) = 1 \<and> ofd_references (ofd_at t i) = 0"

lemma leave_ok:
  assumes t: "shape_ok t" "slots_ok t A C D S" and i: "live_slot t i" and a: "0 < A i"
    and C': "C' = (\<lambda>j. C j + (if j = i \<and> orphaned t i \<and> ask then 1 else 0))"
    and S': "S' = (if orphaned t i \<and> \<not> ask then insert i S else S)"
    and A': "\<And>j. A' j = A j - (if j = i then 1 else 0)"
  shows "shape_ok (end_operation i t)" "slots_ok (end_operation i t) A' C' D S'" "handles (end_operation i t) = handles t"
    "closing (ofd_at t i) \<noteq> 0 \<longleftrightarrow> ofd_references (ofd_at t i) = 0"
proof -
  let ?g = "\<lambda>e. e\<lparr>active_operations := active_operations e - 1\<rparr>"
  note l = live_slot_not [OF t(1) i]
  have s: "slot_ok (ofd_at t i) (names t (unat i)) (A i) (C i) (D i) (i \<in> S)" using slot_okD [OF t(2) i] .
  have n: "active_operations (ofd_at t i) \<noteq> 0" using unlocked_references(2) [OF t(2) i] a by simp
  then have u: "unat (active_operations (ofd_at t i) - 1) = A i - 1"
    using s by (simp add: unat_minus_one slot_ok_def)
  have o: "orphaned t i \<longleftrightarrow> A i = 1 \<and> names t (unat i) = 0"
    using s by (auto simp: orphaned_def slot_ok_def word_unat_eq_iff)
  from s n u a have "slot_ok (?g (ofd_at t i)) (names t (unat i)) (A' i) (C' i) (D i) (i \<in> S')"
    by (auto simp: slot_ok_def content_def C' S' A' o split: if_splits)
  moreover have "A' j = A j \<and> C' j = C j \<and> D j = D j \<and> (j \<in> S' \<longleftrightarrow> j \<in> S)" if "j \<noteq> i" for j
    using that by (simp add: A' C' S')
  ultimately show "slots_ok (end_operation i t) A' C' D S'"
    unfolding end_operation_def by (intro slots_set_ofd [OF t(2) l(3)])
  have "\<not> ofd_free (ofd_at t i)" using n by (simp add: ofd_free_def)
  then show "shape_ok (end_operation i t)"
    unfolding end_operation_def using t(1) i l(3) by (intro shape_set_ofd t) (simp_all add: shape_used)
  show "handles (end_operation i t) = handles t"
    unfolding end_operation_def using handles_set_ofd_same [OF l(3), of ?g] by simp
  show "closing (ofd_at t i) \<noteq> 0 \<longleftrightarrow> ofd_references (ofd_at t i) = 0"
    using s a by (auto simp: slot_ok_def unat_eq_0 [symmetric] split: if_splits)
qed

lemma work_ok:
  assumes t: "shape_ok t" "slots_ok t A C D S" and i: "live_slot t i" and a: "0 < A i"
  shows "shape_ok (set_ofd i (\<lambda>e. e\<lparr>ofd_offset := x, status_flags := y\<rparr>) t)"
    "slots_ok (set_ofd i (\<lambda>e. e\<lparr>ofd_offset := x, status_flags := y\<rparr>) t) A C D S"
    "handles (set_ofd i (\<lambda>e. e\<lparr>ofd_offset := x, status_flags := y\<rparr>) t) = handles t"
proof -
  let ?g = "\<lambda>e. e\<lparr>ofd_offset := x, status_flags := y\<rparr>"
  note l = live_slot_not [OF t(1) i]
  have s: "slot_ok (ofd_at t i) (names t (unat i)) (A i) (C i) (D i) (i \<in> S)" using slot_okD [OF t(2) i] .
  with a have "slot_ok (?g (ofd_at t i)) (names t (unat i)) (A i) (C i) (D i) (i \<in> S)"
    by (auto simp: slot_ok_def content_def split: if_splits)
  then show "slots_ok (set_ofd i ?g t) A C D S" by (intro slots_set_ofd [OF t(2) l(3)]) simp_all
  have "\<not> ofd_free (ofd_at t i)" using unlocked_references(2) [OF t(2) i] a by (simp add: ofd_free_def)
  then show "shape_ok (set_ofd i ?g t)" using t(1) i l(3) by (intro shape_set_ofd t) (simp_all add: shape_used)
  show "handles (set_ofd i ?g t) = handles t" using handles_set_ofd_same [OF l(3), of ?g] by simp
qed

section \<open>Finalisation\<close>

lemma claim_ok:
  assumes t: "shape_ok t" "slots_ok t A C D S" and i: "live_slot t i" and c: "0 < C i"
    and C': "\<And>j. C' j = C j - (if j = i then 1 else 0)" and D': "\<And>j. D' j = D j + (if j = i then 1 else 0)"
  shows "\<exists>handle ob t'. claim_ofd i t = Claimed handle ob t' \<and> handle = host_handle (ofd_at t i) \<and> shape_ok t' \<and>
    slots_ok t' A C' D' S \<and> io_mutex (ofd_at t' i) = io_mutex (ofd_at t i) \<and>
    handles t = handles t' + filter_mset ((\<noteq>) 0) {#handle#}"
proof -
  let ?g = "\<lambda>e. e\<lparr>host_handle := 0, ofd_offset := 0, status_flags := 0, ofd_kind := 0, object_ops := None,
          object_context := 0\<rparr>"
  note l = live_slot_not [OF t(1) i]
  have s: "slot_ok (ofd_at t i) (names t (unat i)) (A i) (C i) (D i) (i \<in> S)" using slot_okD [OF t(2) i] .
  with c have n: "names t (unat i) = 0" "closing (ofd_at t i) \<noteq> 0" "A i = 0" "C i = 1" "D i = 0" "i \<notin> S"
    "ofd_references (ofd_at t i) = 0" "active_operations (ofd_at t i) = 0" "io_mutex (ofd_at t i) \<noteq> 0"
    by (auto simp: slot_ok_def unat_eq_0 [symmetric] split: if_splits)
  then have "slot_ok (?g (ofd_at t i)) (names t (unat i)) (A i) (C' i) (D' i) (i \<in> S)"
    by (simp add: slot_ok_def blank_def C' D')
  then have "slots_ok (set_ofd i ?g t) A C' D' S"
    by (intro slots_set_ofd [OF t(2) l(3)]) (simp_all add: C' D')
  moreover have "shape_ok (set_ofd i ?g t)"
    using t(1) i l(3) n by (intro shape_set_ofd t) (simp_all add: shape_ok_def ofd_free_def)
  moreover have "handles t = handles (set_ofd i ?g t) + filter_mset ((\<noteq>) 0) {#host_handle (ofd_at t i)#}"
    using handles_set_ofd [OF l(3), of ?g] by simp
  moreover have "io_mutex (ofd_at (set_ofd i ?g t) i) = io_mutex (ofd_at t i)" using l(3) by (simp add: ofd_at_set_ofd)
  ultimately show ?thesis using n by (simp add: claim_ofd_def Let_def)
qed

lemma release_ok:
  assumes t: "shape_ok t" "slots_ok t A C D S" and i: "live_slot t i" and d: "0 < D i"
    and m: "io_mutex (ofd_at t i) = m" and D': "\<And>j. D' j = D j - (if j = i then 1 else 0)"
  shows "\<exists>t'. release_ofd i m t = (S_OK, t') \<and> shape_ok t' \<and> slots_ok t' A C D' S \<and> handles t' = handles t \<and>
    ofd_free (ofd_at t' i)"
proof -
  let ?g = "\<lambda>e. e\<lparr>io_mutex := 0, closing := 0, ofd_generation := ofd_generation e + 1\<rparr>"
  note l = live_slot_not [OF t(1) i]
  have s: "slot_ok (ofd_at t i) (names t (unat i)) (A i) (C i) (D i) (i \<in> S)" using slot_okD [OF t(2) i] .
  with d have n: "names t (unat i) = 0" "closing (ofd_at t i) \<noteq> 0" "A i = 0" "C i = 0" "D i = 1" "i \<notin> S" "blank (ofd_at t i)"
    "ofd_references (ofd_at t i) = 0" "active_operations (ofd_at t i) = 0"
    by (auto simp: slot_ok_def unat_eq_0 [symmetric] split: if_splits)
  then have "slot_ok (?g (ofd_at t i)) (names t (unat i)) (A i) (C i) (D' i) (i \<in> S)"
    by (simp add: slot_ok_def blank_def D')
  then have "slots_ok (set_ofd i ?g t) A C D' S"
    by (intro slots_set_ofd [OF t(2) l(3)]) (simp_all add: D')
  moreover have "shape_ok (set_ofd i ?g t)"
    using t(1) i l(3) n by (intro shape_set_ofd t) (simp_all add: shape_ok_def ofd_free_def)
  moreover have "handles (set_ofd i ?g t) = handles t" using handles_set_ofd_same [OF l(3), of ?g] by simp
  moreover have "ofd_free (ofd_at (set_ofd i ?g t) i)" using l(3) n by (simp add: ofd_at_set_ofd ofd_free_def)
  ultimately show ?thesis using n m by (simp add: release_ofd_def Let_def)
qed

section \<open>The replacement of a descriptor\<close>

lemma replace_ok:
  assumes t: "shape_ok t" "slots_ok t A C D S" and op: "replace_locked src target df t = Inr (d, t')"
    and quiet: "\<And>j. d = Some j \<Longrightarrow> active_operations (ofd_at t' j) = 0"
  shows "shape_ok t'" "slots_ok t' A (\<lambda>j. C j + (if d = Some j then 1 else 0)) D S" "handles t' = handles t"
    "\<And>j. d = Some j \<Longrightarrow> live_slot t j"
proof -
  let ?j = "fd_ofd (fd_at t target)"
  from replace_cases [OF t(1) op] obtain i where i: "hl_linux_fd_get_unlocked t src = Inr i"
    and tc: "unat target < fd_capacity t"
    and cases: "src = target \<and> d = None \<and> t' = t \<or> src \<noteq> target \<and>
       (if ?j = 0 then d = None \<and> t' = set_ofd i add_reference (set_fd target (point_fd i df) t)
        else live_slot t ?j \<and> ofd_references (ofd_at t ?j) \<noteq> 0 \<and>
          t' = set_ofd i add_reference (set_fd target (point_fd i df) (set_ofd ?j drop_reference t)) \<and>
          d = (if i \<noteq> ?j \<and> ofd_references (drop_reference (ofd_at t ?j)) = 0 then Some ?j else None))"
    by (auto simp: Let_def)
  note g = fd_get_Inr [OF i]
  consider "t' = t" "d = None"
    | "src \<noteq> target" "?j = 0" "d = None" "t' = set_ofd i add_reference (set_fd target (point_fd i df) t)"
    | "src \<noteq> target" "?j \<noteq> 0" "live_slot t ?j" "ofd_references (ofd_at t ?j) \<noteq> 0"
      "t' = set_ofd i add_reference (set_fd target (point_fd i df) (set_ofd ?j drop_reference t))"
      "d = (if i \<noteq> ?j \<and> ofd_references (drop_reference (ofd_at t ?j)) = 0 then Some ?j else None)"
    using cases by (auto split: if_splits)
  then have "shape_ok t' \<and> slots_ok t' A (\<lambda>j. C j + (if d = Some j then 1 else 0)) D S \<and> handles t' = handles t \<and>
    (\<forall>j. d = Some j \<longrightarrow> live_slot t j)"
  proof cases
    case 1
    with t show ?thesis by simp
  next
    case 2
    with add_ok [where f = "point_fd i df", OF t tc 2(2) g(3,5)] show ?thesis by (simp add: point_fd_def)
  next
    case 3
    let ?z = "\<lambda>e. e\<lparr>fd_ofd := 0\<rparr>"
    let ?t1 = "set_ofd ?j drop_reference (set_fd target ?z t)"
    note l = live_slot_not [OF t(1) 3(3)]
    have z: "fd_ofd (?z (fd_at t target)) = 0" by simp
    note d = drop_ok [where f = ?z, OF t tc refl 3(3) z]
    have at: "fd_at ?t1 target = ?z (fd_at t target)" using tc by (simp add: fd_at_set_fd)
    have live: "live_slot ?t1 i" using g(3) by simp
    have one: "2 \<le> names t (unat i)" if "i = ?j"
    proof -
      have "names (set_fd target ?z t) (unat i) = names t (unat i) - 1"
        using names_lost(1) [of target t "unat i" ?z] tc that l by simp
      moreover have "0 < names (set_fd target ?z t) (unat i)"
        using names_pos [of src "set_fd target ?z t"] g(1,2) 3(1) by (simp add: fd_at_set_fd [OF tc])
      ultimately show ?thesis by simp
    qed
    have s: "slot_ok (ofd_at t i) (names t (unat i)) (A i) (C i) (D i) (i \<in> S)" using slot_okD [OF t(2) g(3)] .
    have ne: "ofd_references (drop_reference (ofd_at t ?j)) \<noteq> 0" if "i = ?j"
    proof
      assume "ofd_references (drop_reference (ofd_at t ?j)) = 0"
      then have "ofd_references (ofd_at t i) = 1" using that by (simp add: drop_reference_def Let_def split: if_splits)
      with s one [OF that] show False by (simp add: slot_ok_def)
    qed
    have refs: "ofd_references (ofd_at ?t1 i) \<noteq> 0"
      using ne g(5) l(3) by (auto simp: ofd_at_set_ofd)
    have new: "fd_ofd (point_fd i df (fd_at ?t1 target)) = i" by (simp add: point_fd_def)
    have free: "fd_ofd (fd_at ?t1 target) = 0" using at by simp
    have c1: "unat target < fd_capacity ?t1" using tc by simp
    note a = add_ok [where f = "point_fd i df", OF d(1,2) c1 free live refs new]
    have eq: "set_ofd i add_reference (set_fd target (point_fd i df) ?t1) = t'"
    proof -
      have "set_fd target (point_fd i df) ?t1 = set_fd target (point_fd i df) (set_ofd ?j drop_reference t)"
        using tc by (simp add: set_fd_def set_ofd_def fd_at_def ofd_at_def fd_capacity_def point_fd_def)
      with 3(5) show ?thesis by simp
    qed
    have fin: "(j = ?j \<and> ofd_references (drop_reference (ofd_at t ?j)) = 0 \<and> active_operations (ofd_at t ?j) = 0) \<longleftrightarrow> d = Some j" for j
    proof
      assume *: "j = ?j \<and> ofd_references (drop_reference (ofd_at t ?j)) = 0 \<and> active_operations (ofd_at t ?j) = 0"
      then have "i \<noteq> ?j" using ne by auto
      with * 3(6) show "d = Some j" by simp
    next
      assume *: "d = Some j"
      then have j: "j = ?j" "i \<noteq> ?j" "ofd_references (drop_reference (ofd_at t ?j)) = 0" using 3(6) by (auto split: if_splits)
      have "active_operations (ofd_at t' j) = active_operations (ofd_at t ?j)"
        using j l(3) g(3) by (simp add: 3(5) ofd_at_set_ofd live_slot_def drop_reference_def Let_def)
      with quiet [OF *] j show "j = ?j \<and> ofd_references (drop_reference (ofd_at t ?j)) = 0 \<and> active_operations (ofd_at t ?j) = 0"
        by simp
    qed
    have lv: "live_slot t j" if "d = Some j" for j using that 3(6,3) by (auto split: if_splits)
    from a d(3) lv show ?thesis unfolding eq fin by auto
  qed
  then show "shape_ok t'" "slots_ok t' A (\<lambda>j. C j + (if d = Some j then 1 else 0)) D S" "handles t' = handles t"
    "\<And>j. d = Some j \<Longrightarrow> live_slot t j" by simp_all
qed

end
