(* ===== verification/Fd_World.thy ===== *)
theory Fd_World
  imports Fd_Updates
begin

text \<open>
  The descriptor table as a state machine: every locked section of the code is a step of \<open>fd_step\<close>, with
  the operations in flight and the finalisations under way as the rest of the state; every step keeps
  \<open>fd_inv\<close>.
\<close>

section \<open>What an operation leaves alone\<close>

definition core_of :: "ofd_entry \<Rightarrow> u32 \<times> u64 \<times> u64 \<times> nat option \<times> u64" where
  "core_of e = (ofd_generation e, io_mutex e, host_handle e, object_ops e, object_context e)"

definition core :: "linux_abi \<Rightarrow> (u32 \<times> u64 \<times> u64 \<times> nat option \<times> u64) list" where
  "core t = map core_of (ofds t)"

lemma core_set [simp]:
  "core (set_fd fd f t) = core t" "core (t\<lparr>reserved_fds := r\<rparr>) = core t" "core (t\<lparr>ofd_watermark := r\<rparr>) = core t"
  by (simp_all add: core_def set_fd_def)

lemma core_set_ofd:
  assumes "\<And>e. core_of (g e) = core_of e"
  shows "core (set_ofd i g t) = core t"
proof (rule nth_equalityI)
  show "core (set_ofd i g t) ! k = core t ! k" if "k < length (core (set_ofd i g t))" for k
    using that assms by (cases "k = unat i") (simp_all add: core_def set_ofd_def ofd_at_def)
qed (simp add: core_def set_ofd_def)

lemma core_simps [simp]:
  "core (set_ofd i add_reference t) = core t" "core (set_ofd i drop_reference t) = core t"
  "core (set_ofd i (\<lambda>e. e\<lparr>active_operations := active_operations e + 1\<rparr>) t) = core t"
  "core (set_ofd i (\<lambda>e. e\<lparr>ofd_offset := x, status_flags := y\<rparr>) t) = core t"
  "core (set_ofd i (\<lambda>e. e\<lparr>status_flags := y\<rparr>) t) = core t"
  "core (end_operation i t) = core t"
  unfolding end_operation_def
  by (rule core_set_ofd, simp add: core_of_def add_reference_def drop_reference_def Let_def)+

lemma coreD:
  assumes "core t' = core t" "live_slot t i"
  shows "core_of (ofd_at t' i) = core_of (ofd_at t i)" "ofd_capacity t' = ofd_capacity t"
proof -
  from assms(1) have l: "length (ofds t') = length (ofds t)" by (metis core_def length_map)
  then show "ofd_capacity t' = ofd_capacity t" by (simp add: ofd_capacity_def)
  from assms have "core t' ! unat i = core t ! unat i" by simp
  with assms(2) l show "core_of (ofd_at t' i) = core_of (ofd_at t i)"
    by (simp add: core_def ofd_at_def live_slot_def ofd_capacity_def)
qed

lemma core_live: "core t' = core t \<Longrightarrow> live_slot t' i = live_slot t i"
  by (metis core_def length_map live_slot_def ofd_capacity_def)

text \<open>A slot that is not free keeps its mutex and generation, and what it holds while an operation is in
  flight.\<close>

definition stable :: "linux_abi \<Rightarrow> linux_abi \<Rightarrow> bool" where
  "stable t t' \<longleftrightarrow> ofd_capacity t' = ofd_capacity t \<and>
    (\<forall>i. live_slot t i \<and> \<not> ofd_free (ofd_at t i) \<longrightarrow>
      ofd_generation (ofd_at t' i) = ofd_generation (ofd_at t i) \<and> io_mutex (ofd_at t' i) = io_mutex (ofd_at t i) \<and>
      (active_operations (ofd_at t i) \<noteq> 0 \<longrightarrow> core_of (ofd_at t' i) = core_of (ofd_at t i)))"

lemma stable_core:
  assumes "core t' = core t"
  shows "stable t t'"
proof -
  have "length (ofds t') = length (ofds t)" using assms by (metis core_def length_map)
  with coreD(1) [OF assms] show ?thesis by (auto simp: stable_def core_of_def ofd_capacity_def)
qed

lemma stable_live: "stable t t' \<Longrightarrow> live_slot t' i = live_slot t i"
  by (simp add: stable_def live_slot_def)

lemma stable_fill:
  assumes "shape_ok t" "hl_linux_find_ofd t = Inr (i, t1)"
  shows "stable t (set_fd fd f (set_ofd i g t1))" "stable t ((set_fd fd f (set_ofd i g t1))\<lparr>reserved_fds := r\<rparr>)"
proof -
  note fo = find_ofd_Inr [OF assms(2,1)]
  from fo(3) obtain x where t1: "t1 = t\<lparr>ofd_watermark := x\<rparr>" by blast
  with fo(1,2) show "stable t (set_fd fd f (set_ofd i g t1))" "stable t ((set_fd fd f (set_ofd i g t1))\<lparr>reserved_fds := r\<rparr>)"
    by (auto simp: stable_def ofd_at_set_ofd live_slot_def)
qed

lemma install_stable:
  assumes "shape_ok t"
  shows "hl_linux_fd_install h handle sf df t = (r, t', evs) \<Longrightarrow> stable t t'"
    "hl_linux_fd_install_at h fd handle sf df t = (r', t', evs) \<Longrightarrow> stable t t'"
    "hl_linux_object_install_common h req ops ctx kind sf df t = (r, t', evs) \<Longrightarrow> stable t t'"
    "hl_linux_fd_commit h res handle sf df t = (r', t', evs) \<Longrightarrow> stable t t'"
proof -
  have s: "stable t t" by (simp add: stable_core)
  show "hl_linux_fd_install h handle sf df t = (r, t', evs) \<Longrightarrow> stable t t'"
    using s stable_fill(1) [OF assms]
    by (cases r) (auto simp: hl_linux_fd_install_def split: if_splits sum.splits prod.splits
        dest!: with_new_mutex_Inr with_new_mutex_Inl)
  show "hl_linux_fd_install_at h fd handle sf df t = (r', t', evs) \<Longrightarrow> stable t t'"
    using s stable_fill(1) [OF assms]
    by (cases r') (auto simp: hl_linux_fd_install_at_def split: if_splits sum.splits prod.splits
        dest!: with_new_mutex_Inr with_new_mutex_Inl)
  show "hl_linux_object_install_common h req ops ctx kind sf df t = (r, t', evs) \<Longrightarrow> stable t t'"
    using s stable_fill(1) [OF assms]
    by (cases r) (auto simp: hl_linux_object_install_common_def split: if_splits sum.splits prod.splits
        dest!: with_new_mutex_Inr with_new_mutex_Inl)
  show "hl_linux_fd_commit h res handle sf df t = (r', t', evs) \<Longrightarrow> stable t t'"
    using s stable_fill(2) [OF assms]
    by (cases r') (auto simp: hl_linux_fd_commit_def drop_reserved_eq split: if_splits sum.splits prod.splits
        dest!: with_new_mutex_Inr with_new_mutex_Inl)
qed

lemma install_fails:
  "hl_linux_fd_install h handle sf df t = (Inl e, t', evs) \<Longrightarrow> t' = t"
  "hl_linux_fd_install_at h fd handle sf df t = (Inl e, t', evs) \<Longrightarrow> t' = t"
  "hl_linux_object_install_common h req ops ctx kind sf df t = (Inl e, t', evs) \<Longrightarrow> t' = t"
  "hl_linux_fd_commit h res handle sf df t = (Inl e, t', evs) \<Longrightarrow> t' = t"
  by (auto simp: hl_linux_fd_install_def hl_linux_fd_install_at_def hl_linux_object_install_common_def
      hl_linux_fd_commit_def split: if_splits dest!: with_new_mutex_Inl)

section \<open>The descriptor table as a state machine\<close>

definition fd_start :: "linux_abi \<Rightarrow> fd_world" where
  "fd_start t = \<lparr>table = t, ios = {#}, pinned = {#}, claims = {#}, drains = {#}, stuck = {}, owned = {#}, freed = {#}\<rparr>"

definition handle_bag :: "'e + 'a \<Rightarrow> u64 \<Rightarrow> u64 multiset" where
  "handle_bag r handle = (case r of Inl _ \<Rightarrow> {#} | Inr _ \<Rightarrow> {#handle#})"

inductive fd_step :: "fd_world \<Rightarrow> fd_world \<Rightarrow> bool" where
  install: "hl_linux_fd_install h handle sf df (table w) = (r, t', evs) \<Longrightarrow>
    fd_step w (w\<lparr>table := t', owned := owned w + handle_bag r handle\<rparr>)"
| install_at: "hl_linux_fd_install_at h fd handle sf df (table w) = (r', t', evs) \<Longrightarrow>
    fd_step w (w\<lparr>table := t', owned := owned w + handle_bag r' handle\<rparr>)"
| object_install: "hl_linux_object_install_common h req ops ctx kind sf df (table w) = (r, t', evs) \<Longrightarrow>
    fd_step w (w\<lparr>table := t'\<rparr>)"
| reserve: "hl_linux_fd_reserve_at fd (table w) = (res, t') \<Longrightarrow> fd_step w (w\<lparr>table := t'\<rparr>)"
| cancel: "hl_linux_fd_cancel reservation (table w) = (st, t') \<Longrightarrow> fd_step w (w\<lparr>table := t'\<rparr>)"
| commit: "hl_linux_fd_commit h reservation handle sf df (table w) = (r', t', evs) \<Longrightarrow>
    fd_step w (w\<lparr>table := t', owned := owned w + handle_bag r' handle\<rparr>)"
| dup: "hl_linux_fd_dup src df (table w) = (r, t') \<Longrightarrow> fd_step w (w\<lparr>table := t'\<rparr>)"
| fcntl: "command \<noteq> 4 \<Longrightarrow> hl_linux_fcntl hio fd command argument (table w) = (n, t') \<Longrightarrow> fd_step w (w\<lparr>table := t'\<rparr>)"
| close: "close_locked fd (table w) = Inr (p, t') \<Longrightarrow>
    fd_step w (w\<lparr>table := t', claims := claims w + (if cp_finalize p then {#cp_ofd p#} else {#})\<rparr>)"
| replace: "replace_locked src target df (table w) = Inr (d, t') \<Longrightarrow>
    (\<And>j. d = Some j \<Longrightarrow> active_operations (ofd_at t' j) = 0) \<Longrightarrow>
    fd_step w (w\<lparr>table := t', claims := claims w + (case d of None \<Rightarrow> {#} | Some j \<Rightarrow> {#j#})\<rparr>)"
| claim: "i \<in># claims w \<Longrightarrow> claim_ofd i (table w) = Claimed handle ob t' \<Longrightarrow>
    fd_step w (w\<lparr>table := t', claims := claims w - {#i#},
      drains := drains w + {#(i, io_mutex (ofd_at (table w) i), handle)#}\<rparr>)"
| release: "(i, m, handle) \<in># drains w \<Longrightarrow> release_ofd i m (table w) = (S_OK, t') \<Longrightarrow>
    fd_step w (w\<lparr>table := t', drains := drains w - {#(i, m, handle)#},
      freed := freed w + filter_mset ((\<noteq>) 0) {#handle#}\<rparr>)"
| begin_io: "begin_operation guard fd (table w) = Inr (i, t') \<Longrightarrow> flights w i + 1 < 2 ^ 32 \<Longrightarrow>
    fd_step w (w\<lparr>table := t', ios := ios w + {#i#}\<rparr>)"
| work: "i \<in># ios w \<Longrightarrow>
    fd_step w (w\<lparr>table := set_ofd i (\<lambda>e. e\<lparr>ofd_offset := x, status_flags := y\<rparr>) (table w)\<rparr>)"
| finish: "i \<in># ios w \<Longrightarrow>
    fd_step w (w\<lparr>table := end_operation i (table w), ios := ios w - {#i#},
      stuck := (if orphaned (table w) i then insert i (stuck w) else stuck w)\<rparr>)"
| pin_fd: "pin_fd_locked fd (table w) = Inr (p, t') \<Longrightarrow> flights w (pin_ofd p) + 1 < 2 ^ 32 \<Longrightarrow>
    fd_step w (w\<lparr>table := t', pinned := pinned w + {#(pin_ofd p, pin_generation p)#}\<rparr>)"
| pin_ofd: "pin_ofd_locked i g (table w) = Inr (p, t') \<Longrightarrow> flights w (pin_ofd p) + 1 < 2 ^ 32 \<Longrightarrow>
    fd_step w (w\<lparr>table := t', pinned := pinned w + {#(pin_ofd p, pin_generation p)#}\<rparr>)"
| pin_failed: "(i, g) \<in># pinned w \<Longrightarrow>
    fd_step w (w\<lparr>table := end_operation i (table w), pinned := pinned w - {#(i, g)#},
      stuck := (if orphaned (table w) i then insert i (stuck w) else stuck w)\<rparr>)"
| unpin: "(i, g) \<in># pinned w \<Longrightarrow> unpin_locked i g (table w) = (ask, t') \<Longrightarrow>
    fd_step w (w\<lparr>table := t', pinned := pinned w - {#(i, g)#},
      claims := claims w + (if ask then {#i#} else {#})\<rparr>)"

inductive_cases fd_stepE: "fd_step w w'"

section \<open>The invariant\<close>

lemma fd_invD:
  assumes "fd_inv w"
  shows "shape_ok (table w)"
    "slots_ok (table w) (flights w) (count (claims w)) (count (image_mset fst (drains w))) (stuck w)"
    "i \<in># ios w \<Longrightarrow> live_slot (table w) i \<and> 0 < flights w i"
    "(i, g) \<in># pinned w \<Longrightarrow> live_slot (table w) i \<and> ofd_generation (ofd_at (table w) i) = g \<and> 0 < flights w i"
    "i \<in># claims w \<Longrightarrow> live_slot (table w) i"
    "(i, m, h) \<in># drains w \<Longrightarrow> live_slot (table w) i \<and> io_mutex (ofd_at (table w) i) = m \<and> 0 < count (image_mset fst (drains w)) i"
    "owned w = handles (table w) + drained (drains w) + freed w"
proof -
  note a = assms [unfolded fd_inv_def]
  have im: "0 < count (image_mset fst M) i" if "(i, x) \<in># M" for M :: "(u32 \<times> 'a) multiset" and i x
  proof -
    from that have "i \<in># image_mset fst M" by force
    then show ?thesis unfolding count_greater_zero_iff .
  qed
  show "shape_ok (table w)"
    "slots_ok (table w) (flights w) (count (claims w)) (count (image_mset fst (drains w))) (stuck w)"
    "owned w = handles (table w) + drained (drains w) + freed w" using a by simp_all
  show "live_slot (table w) i \<and> 0 < flights w i" if "i \<in># ios w"
  proof -
    from that have "0 < count (ios w) i" unfolding count_greater_zero_iff .
    with a that show ?thesis by (simp add: flights_def)
  qed
  show "live_slot (table w) i \<and> ofd_generation (ofd_at (table w) i) = g \<and> 0 < flights w i" if "(i, g) \<in># pinned w"
    using a that im [OF that] by (auto simp: flights_def simp del: count_image_mset)
  show "live_slot (table w) i" if "i \<in># claims w" using a that by simp
  show "live_slot (table w) i \<and> io_mutex (ofd_at (table w) i) = m \<and> 0 < count (image_mset fst (drains w)) i"
    if "(i, m, h) \<in># drains w"
    using a that im [OF that] by (auto simp del: count_image_mset)
qed

lemma fd_free_idle:
  assumes "slots_ok t A C D S" "live_slot t i" "ofd_free (ofd_at t i)"
  shows "A i = 0" "C i = 0" "D i = 0" "i \<notin> S"
  using slot_okD [OF assms(1,2)] assms(3) by (auto simp: slot_ok_def ofd_free_def split: if_splits)

text \<open>A new world whose slots are right and whose table is a stable successor keeps the invariant.\<close>

lemma fd_inv_next:
  assumes w: "fd_inv w" and st: "stable (table w) (table w')"
    and sh: "shape_ok (table w')"
    and sl: "slots_ok (table w') (flights w') (count (claims w')) (count (image_mset fst (drains w'))) (stuck w')"
    and io: "\<And>i. i \<in># ios w' \<Longrightarrow> i \<in># ios w \<or> live_slot (table w) i"
    and pi: "\<And>i g. (i, g) \<in># pinned w' \<Longrightarrow> (i, g) \<in># pinned w \<or> live_slot (table w) i \<and> ofd_generation (ofd_at (table w') i) = g"
    and cl: "\<And>i. i \<in># claims w' \<Longrightarrow> i \<in># claims w \<or> live_slot (table w) i"
    and dr: "\<And>i m h. (i, m, h) \<in># drains w' \<Longrightarrow> (i, m, h) \<in># drains w \<or> live_slot (table w) i \<and> io_mutex (ofd_at (table w') i) = m"
    and sk: "\<And>i. i \<in> stuck w' \<Longrightarrow> i \<in> stuck w \<or> live_slot (table w) i"
    and ow: "owned w' = handles (table w') + drained (drains w') + freed w'"
  shows "fd_inv w'"
proof -
  note d = fd_invD [OF w]
  note lv = stable_live [OF st]
  have nf: "\<not> ofd_free (ofd_at (table w) i)" if "live_slot (table w) i" "0 < flights w i \<or> 0 < count (image_mset fst (drains w)) i" for i
    using fd_free_idle(1,3) [OF d(2) that(1)] that(2) by linarith
  have P: "live_slot (table w') i \<and> ofd_generation (ofd_at (table w') i) = g" if "(i, g) \<in># pinned w'" for i g
    using pi [OF that] d(4) [of i g] nf [of i] st lv unfolding stable_def by blast
  have D: "live_slot (table w') i \<and> io_mutex (ofd_at (table w') i) = m" if "(i, m, h) \<in># drains w'" for i m h
    using dr [OF that] d(6) [of i m h] nf [of i] st lv unfolding stable_def by blast
  have I: "live_slot (table w') i" if "i \<in># ios w'" for i using io [OF that] d(3) [of i] lv by blast
  have C: "live_slot (table w') i" if "i \<in># claims w'" for i using cl [OF that] d(5) [of i] lv by blast
  have S: "live_slot (table w') i" if "i \<in> stuck w'" for i using sk [OF that] w lv by (auto simp: fd_inv_def)
  show ?thesis unfolding fd_inv_def using sh sl P D I C S ow by auto
qed

lemma fd_inv_table:
  assumes "fd_inv w" "stable (table w) t'" "shape_ok t'"
    "slots_ok t' (flights w) (count (claims w)) (count (image_mset fst (drains w))) (stuck w)"
    "handles t' = handles (table w) + H"
  shows "fd_inv (w\<lparr>table := t', owned := owned w + H\<rparr>)"
proof -
  have "flights (w\<lparr>table := t', owned := owned w + H\<rparr>) = flights w" by (simp add: flights_def fun_eq_iff)
  with assms fd_invD(7) [OF assms(1)] show ?thesis by (intro fd_inv_next [OF assms(1)]) (simp_all add: ac_simps)
qed

lemma fd_inv_table_same:
  assumes "fd_inv w" "stable (table w) t'" "shape_ok t'"
    "slots_ok t' (flights w) (count (claims w)) (count (image_mset fst (drains w))) (stuck w)"
    "handles t' = handles (table w)"
  shows "fd_inv (w\<lparr>table := t'\<rparr>)"
  using fd_inv_table [OF assms(1-4), of "{#}"] assms(5) by simp

text \<open>What \<open>fcntl\<close> does to the table, F_SETFL apart.\<close>

lemma fcntl_ok:
  assumes t: "shape_ok t" "slots_ok t A C D S" and op: "command \<noteq> 4" "hl_linux_fcntl h fd command argument t = (n, t')"
  shows "shape_ok t'" "slots_ok t' A C D S" "handles t' = handles t" "core t' = core t"
proof -
  have "t' = t \<or> (\<exists>lo df. hl_linux_fd_dup_at_least fd lo df t = (n, t')) \<or>
    (\<exists>i. hl_linux_fd_get_unlocked t fd = Inr i \<and>
      t' = set_fd fd (\<lambda>e. e\<lparr>descriptor_flags := ucast argument AND HL_LINUX_FD_CLOEXEC\<rparr>) t)"
  proof (cases "command = 0 \<or> command = 1030")
    case True
    with op(2) show ?thesis unfolding hl_linux_fcntl_def by (cases "unat argument \<ge> fd_capacity t") auto
  next
    case False
    with op show ?thesis unfolding hl_linux_fcntl_def
      by (cases "hl_linux_fd_get_unlocked t fd") (simp_all split: if_splits)
  qed
  then consider "t' = t" | lo df where "hl_linux_fd_dup_at_least fd lo df t = (n, t')"
    | i where "hl_linux_fd_get_unlocked t fd = Inr i"
      "t' = set_fd fd (\<lambda>e. e\<lparr>descriptor_flags := ucast argument AND HL_LINUX_FD_CLOEXEC\<rparr>) t"
    by blast
  then have "shape_ok t' \<and> slots_ok t' A C D S \<and> handles t' = handles t \<and> core t' = core t"
  proof cases
    case (2 lo df)
    have "core t' = core t" using 2 by (auto simp: hl_linux_fd_dup_at_least_def split: sum.splits)
    with dup_at_least_ok [OF t 2] show ?thesis by simp
  next
    case (3 i)
    let ?f = "\<lambda>e. e\<lparr>descriptor_flags := ucast argument AND HL_LINUX_FD_CLOEXEC\<rparr>"
    note g = fd_get_Inr [OF 3(1)]
    have "names (set_fd fd ?f t) k = names t k" for k using names_set_fd [OF g(1), of ?f k] by (simp split: if_splits)
    then have "slots_ok t' A C D S" unfolding 3(2) by (intro slots_set_fd_only [OF t(2)])
    moreover have "shape_ok t'" unfolding 3(2)
      using g live_slot_not [OF t(1) g(3)] by (intro shape_set_fd_plain t) simp_all
    ultimately show ?thesis by (simp add: 3(2))
  qed (use t in simp)
  then show "shape_ok t'" "slots_ok t' A C D S" "handles t' = handles t" "core t' = core t" by simp_all
qed

lemma image_add: "count (image_mset fst (add_mset (i, x) M)) = (\<lambda>j. count (image_mset fst M) j + (if j = i then 1 else 0))"
  by (auto simp: fun_eq_iff simp del: count_image_mset)

lemma image_remove:
  assumes "(i, x) \<in># M"
  shows "count (image_mset fst (M - {#(i, x)#})) = (\<lambda>j. count (image_mset fst M) j - (if j = i then 1 else 0))"
    "image_mset fst M = add_mset i (image_mset fst (M - {#(i, x)#}))"
proof -
  from assms obtain N where M: "M = add_mset (i, x) N" by (meson multi_member_split)
  then show "count (image_mset fst (M - {#(i, x)#})) = (\<lambda>j. count (image_mset fst M) j - (if j = i then 1 else 0))"
    "image_mset fst M = add_mset i (image_mset fst (M - {#(i, x)#}))"
    by (auto simp: fun_eq_iff simp del: count_image_mset)
qed

lemma count_remove: "i \<in># M \<Longrightarrow> count (M - {#i#}) = (\<lambda>j. count M j - (if j = i then 1 else 0))"
  by (auto simp: fun_eq_iff)

lemma count_add: "count (M + {#i#}) = (\<lambda>j. count M j + (if j = i then 1 else 0))"
  by (auto simp: fun_eq_iff)

lemma drained_add: "drained (add_mset (i, m, h) M) = drained M + filter_mset ((\<noteq>) 0) {#h#}"
  by (simp add: drained_def)

lemma drained_remove: "(i, m, h) \<in># M \<Longrightarrow> drained M = drained (M - {#(i, m, h)#}) + filter_mset ((\<noteq>) 0) {#h#}"
  by (metis drained_add insert_DiffM)

text \<open>The entry of an operation, and its end.\<close>

lemma enter_inv:
  assumes w: "fd_inv w" and i: "live_slot (table w) i" "ofd_references (ofd_at (table w) i) \<noteq> 0"
    and room: "flights w i + 1 < 2 ^ 32"
    and t': "t' = set_ofd i (\<lambda>e. e\<lparr>active_operations := active_operations e + 1\<rparr>) (table w)"
  shows "fd_inv (w\<lparr>table := t', ios := ios w + {#i#}\<rparr>)"
    "fd_inv (w\<lparr>table := t', pinned := pinned w + {#(i, ofd_generation (ofd_at (table w) i))#}\<rparr>)"
proof -
  note d = fd_invD [OF w]
  note e = enter_ok [OF d(1,2) i room, folded t']
  have f: "flights (w\<lparr>table := t', ios := ios w + {#i#}\<rparr>) = (\<lambda>j. flights w j + (if j = i then 1 else 0))"
    "flights (w\<lparr>table := t', pinned := pinned w + {#(i, ofd_generation (ofd_at (table w) i))#}\<rparr>) =
      (\<lambda>j. flights w j + (if j = i then 1 else 0))"
    by (auto simp: flights_def fun_eq_iff image_add simp del: count_image_mset)
  have c: "core t' = core (table w)" by (simp add: t')
  show "fd_inv (w\<lparr>table := t', ios := ios w + {#i#}\<rparr>)"
    by (rule fd_inv_next [OF w], unfold f) (use e c d(7) i in \<open>auto simp: stable_core\<close>)
  have "ofd_generation (ofd_at t' i) = ofd_generation (ofd_at (table w) i)"
    using coreD(1) [OF c i(1)] by (simp add: core_of_def)
  then show "fd_inv (w\<lparr>table := t', pinned := pinned w + {#(i, ofd_generation (ofd_at (table w) i))#}\<rparr>)"
    by (intro fd_inv_next [OF w], unfold f) (use e c d(7) i in \<open>auto simp: stable_core\<close>)
qed

lemma leave_inv:
  assumes w: "fd_inv w" and i: "i \<in># ios w"
  shows "fd_inv (w\<lparr>table := end_operation i (table w), ios := ios w - {#i#},
      stuck := (if orphaned (table w) i then insert i (stuck w) else stuck w)\<rparr>)"
proof -
  note d = fd_invD [OF w]
  have f: "flights (w\<lparr>table := end_operation i (table w), ios := ios w - {#i#},
      stuck := (if orphaned (table w) i then insert i (stuck w) else stuck w)\<rparr>) j = flights w j - (if j = i then 1 else 0)" for j
    using i by (auto simp: flights_def simp del: count_image_mset)
  have c: "core (end_operation i (table w)) = core (table w)" by simp
  let ?S = "if orphaned (table w) i then insert i (stuck w) else stuck w"
  note l = leave_ok [where ask = False and C' = "count (claims w)" and S' = ?S, OF d(1,2) d(3) [OF i, THEN conjunct1]
      d(3) [OF i, THEN conjunct2] _ _ f]
  have l: "shape_ok (end_operation i (table w))" "handles (end_operation i (table w)) = handles (table w)"
    "slots_ok (end_operation i (table w)) (flights (w\<lparr>table := end_operation i (table w), ios := ios w - {#i#}, stuck := ?S\<rparr>))
      (count (claims w)) (count (image_mset fst (drains w))) ?S" using l by simp_all
  show ?thesis
    by (rule fd_inv_next [OF w])
      (use l stable_core [OF c] d(3) [OF i] d(7) in \<open>auto dest: in_diffD split: if_splits\<close>)
qed

lemma unpin_inv:
  assumes w: "fd_inv w" and i: "(i, g) \<in># pinned w"
  shows "fd_inv (w\<lparr>table := end_operation i (table w), pinned := pinned w - {#(i, g)#},
      stuck := (if orphaned (table w) i then insert i (stuck w) else stuck w)\<rparr>)"
    "unpin_locked i g (table w) = (ask, t') \<Longrightarrow> fd_inv (w\<lparr>table := t', pinned := pinned w - {#(i, g)#},
      claims := claims w + (if ask then {#i#} else {#})\<rparr>)"
proof -
  note d = fd_invD [OF w]
  note p = d(4) [OF i]
  have pos: "0 < count (image_mset fst (pinned w)) i"
    unfolding image_remove(2) [OF i] by simp
  have f: "flights (w\<lparr>table := t, pinned := pinned w - {#(i, g)#}, stuck := S\<rparr>) j = flights w j - (if j = i then 1 else 0)"
    "flights (w\<lparr>table := t, pinned := pinned w - {#(i, g)#}, claims := C\<rparr>) j = flights w j - (if j = i then 1 else 0)" for t S C j
    using pos by (cases "j = i"; simp add: flights_def image_remove(1) [OF i] del: count_image_mset)+
  have c: "core (end_operation i (table w)) = core (table w)" by simp
  note st = stable_core [OF c]
  let ?S = "if orphaned (table w) i then insert i (stuck w) else stuck w"
  note l = leave_ok [OF d(1,2) p [THEN conjunct1] p [THEN conjunct2, THEN conjunct2]]
  note l1 = l [where ask = False and C' = "count (claims w)" and S' = ?S, OF _ _ f(1)]
  have l1: "shape_ok (end_operation i (table w))" "handles (end_operation i (table w)) = handles (table w)"
    "slots_ok (end_operation i (table w)) (flights (w\<lparr>table := end_operation i (table w), pinned := pinned w - {#(i, g)#}, stuck := ?S\<rparr>))
      (count (claims w)) (count (image_mset fst (drains w))) ?S" using l1 by simp_all
  show "fd_inv (w\<lparr>table := end_operation i (table w), pinned := pinned w - {#(i, g)#},
      stuck := (if orphaned (table w) i then insert i (stuck w) else stuck w)\<rparr>)"
    by (rule fd_inv_next [OF w]) (use l1 st p d(7) in \<open>auto dest: in_diffD split: if_splits\<close>)
  assume u: "unpin_locked i g (table w) = (ask, t')"
  have a: "active_operations (ofd_at (table w) i) \<noteq> 0"
    using unlocked_references(2) [OF d(2) p [THEN conjunct1]] p by simp
  have cl: "closing (ofd_at (table w) i) \<noteq> 0 \<longleftrightarrow> ofd_references (ofd_at (table w) i) = 0"
    using l(4) [OF refl refl refl] .
  have t': "t' = end_operation i (table w)" and ask: "ask \<longleftrightarrow> orphaned (table w) i"
    using u p a cl live_slot_not(3) [OF d(1) p [THEN conjunct1]]
    by (auto simp: unpin_locked_def Let_def orphaned_def end_operation_def ofd_at_set_ofd split: if_splits)
  let ?C = "claims w + (if ask then {#i#} else {#})"
  have cc: "count ?C = (\<lambda>j. count (claims w) j + (if j = i \<and> orphaned (table w) i \<and> True then 1 else 0))"
    by (auto simp: ask fun_eq_iff)
  note l2 = l [where ask = True and C' = "count ?C" and S' = "stuck w", OF cc _ f(2)]
  have l2: "shape_ok (end_operation i (table w))" "handles (end_operation i (table w)) = handles (table w)"
    "slots_ok (end_operation i (table w)) (flights (w\<lparr>table := end_operation i (table w), pinned := pinned w - {#(i, g)#}, claims := ?C\<rparr>))
      (count ?C) (count (image_mset fst (drains w))) (stuck w)" using l2 by simp_all
  show "fd_inv (w\<lparr>table := t', pinned := pinned w - {#(i, g)#}, claims := claims w + (if ask then {#i#} else {#})\<rparr>)"
    unfolding t' by (rule fd_inv_next [OF w]) (use l2 st p d(7) in \<open>auto dest: in_diffD split: if_splits\<close>)
qed

lemma begin_Inr:
  assumes "begin_operation guard fd t = Inr (i, t')"
  shows "hl_linux_fd_get_unlocked t fd = Inr i" "guard (ofd_at t i) = None"
    "t' = set_ofd i (\<lambda>e. e\<lparr>active_operations := active_operations e + 1\<rparr>) t"
  using assms by (auto simp: begin_operation_def split: sum.splits option.splits)

lemma pin_Inr:
  "pin_fd_locked fd t = Inr (p, t') \<Longrightarrow> live_slot t (pin_ofd p) \<and> ofd_references (ofd_at t (pin_ofd p)) \<noteq> 0 \<and>
     pin_generation p = ofd_generation (ofd_at t (pin_ofd p)) \<and>
     t' = set_ofd (pin_ofd p) (\<lambda>e. e\<lparr>active_operations := active_operations e + 1\<rparr>) t"
  "pin_ofd_locked i g t = Inr (p, t') \<Longrightarrow> live_slot t (pin_ofd p) \<and> ofd_references (ofd_at t (pin_ofd p)) \<noteq> 0 \<and>
     pin_generation p = ofd_generation (ofd_at t (pin_ofd p)) \<and>
     t' = set_ofd (pin_ofd p) (\<lambda>e. e\<lparr>active_operations := active_operations e + 1\<rparr>) t"
  by (auto simp: pin_fd_locked_def pin_ofd_locked_def pin_entry_def Let_def live_slot_def
      split: sum.splits option.splits if_splits dest: fd_get_Inr(3,5))

lemma close_core:
  assumes "shape_ok t" "close_locked fd t = Inr (p, t')"
  shows "core t' = core t"
  using close_locked_eq(4) [OF assms] by simp

lemma replace_core:
  assumes "shape_ok t" "replace_locked src target df t = Inr (d, t')"
  shows "core t' = core t"
  using replace_cases [OF assms] by (auto simp: Let_def split: if_splits)

lemma reserve_core:
  "hl_linux_fd_reserve_at fd t = (r, t') \<Longrightarrow> core t' = core t"
  "hl_linux_fd_cancel res t = (st, t') \<Longrightarrow> core t' = core t"
  "hl_linux_fd_dup src df t = (r', t') \<Longrightarrow> core t' = core t"
  by (auto simp: hl_linux_fd_reserve_at_def hl_linux_fd_cancel_def hl_linux_fd_dup_def drop_reserved_eq Let_def
      split: if_splits sum.splits)

lemma simple_ok:
  assumes t: "shape_ok t" "slots_ok t A C D S"
  shows "hl_linux_fd_reserve_at fd t = (r, t') \<Longrightarrow> shape_ok t' \<and> slots_ok t' A C D S \<and> handles t' = handles t"
    "hl_linux_fd_cancel res t = (st, t') \<Longrightarrow> shape_ok t' \<and> slots_ok t' A C D S \<and> handles t' = handles t"
    "hl_linux_fd_dup src df t = (r', t') \<Longrightarrow> shape_ok t' \<and> slots_ok t' A C D S \<and> handles t' = handles t"
proof -
  show "shape_ok t' \<and> slots_ok t' A C D S \<and> handles t' = handles t" if op: "hl_linux_fd_reserve_at fd t = (r, t')"
  proof (cases r)
    case (Inl e)
    with op have "t' = t" by (auto simp: hl_linux_fd_reserve_at_def Let_def split: if_splits)
    with t show ?thesis by simp
  next
    case (Inr x)
    with op reserve_ok [OF t] show ?thesis by simp
  qed
  show "shape_ok t' \<and> slots_ok t' A C D S \<and> handles t' = handles t" if op: "hl_linux_fd_cancel res t = (st, t')"
  proof (cases "st = S_OK")
    case False
    with op have "t' = t" by (auto simp: hl_linux_fd_cancel_def split: if_splits)
    with t show ?thesis by simp
  next
    case True
    with op cancel_ok [OF t] show ?thesis by simp
  qed
  show "shape_ok t' \<and> slots_ok t' A C D S \<and> handles t' = handles t" if op: "hl_linux_fd_dup src df t = (r', t')"
  proof (cases r')
    case (Inl e)
    with op have "t' = t" by (auto simp: hl_linux_fd_dup_def split: sum.splits)
    with t show ?thesis by simp
  next
    case (Inr x)
    with op dup_ok [OF t] show ?thesis by simp
  qed
qed

lemma installs_ok:
  assumes t: "shape_ok t" "slots_ok t A C D S"
  shows "hl_linux_fd_install h handle sf df t = (r, t', evs) \<Longrightarrow>
      shape_ok t' \<and> slots_ok t' A C D S \<and> handles t' = handles t + handle_bag r handle"
    "hl_linux_fd_install_at h fd handle sf df t = (r', t', evs) \<Longrightarrow>
      shape_ok t' \<and> slots_ok t' A C D S \<and> handles t' = handles t + handle_bag r' handle"
    "hl_linux_object_install_common h req ops ctx kind sf df t = (r, t', evs) \<Longrightarrow>
      shape_ok t' \<and> slots_ok t' A C D S \<and> handles t' = handles t"
    "hl_linux_fd_commit h res handle sf df t = (r', t', evs) \<Longrightarrow>
      shape_ok t' \<and> slots_ok t' A C D S \<and> handles t' = handles t + handle_bag r' handle"
proof -
  show "shape_ok t' \<and> slots_ok t' A C D S \<and> handles t' = handles t + handle_bag r handle" if op: "hl_linux_fd_install h handle sf df t = (r, t', evs)"
  proof (cases r)
    case (Inl e)
    with install_fails(1) [of h handle sf df t e t' evs] op t show ?thesis by (simp add: handle_bag_def)
  next
    case (Inr x)
    with op install_ok [OF t] show ?thesis by (simp add: handle_bag_def)
  qed
  show "shape_ok t' \<and> slots_ok t' A C D S \<and> handles t' = handles t + handle_bag r' handle" if op: "hl_linux_fd_install_at h fd handle sf df t = (r', t', evs)"
  proof (cases r')
    case (Inl e)
    with install_fails(2) [of h fd handle sf df t e t' evs] op t show ?thesis by (simp add: handle_bag_def)
  next
    case (Inr x)
    with op install_at_ok [OF t] show ?thesis by (simp add: handle_bag_def)
  qed
  show "shape_ok t' \<and> slots_ok t' A C D S \<and> handles t' = handles t" if op: "hl_linux_object_install_common h req ops ctx kind sf df t = (r, t', evs)"
  proof (cases r)
    case (Inl e)
    with install_fails(3) [of h req ops ctx kind sf df t e t' evs] op t show ?thesis by (simp add: handle_bag_def)
  next
    case (Inr x)
    with op object_install_ok [OF t] show ?thesis by (simp add: handle_bag_def)
  qed
  show "shape_ok t' \<and> slots_ok t' A C D S \<and> handles t' = handles t + handle_bag r' handle" if op: "hl_linux_fd_commit h res handle sf df t = (r', t', evs)"
  proof (cases r')
    case (Inl e)
    with install_fails(4) [of h res handle sf df t e t' evs] op t show ?thesis by (simp add: handle_bag_def)
  next
    case (Inr x)
    with op commit_ok [OF t] show ?thesis by (simp add: handle_bag_def)
  qed
qed

lemma slot_draining: "slot_ok e n a c d s \<Longrightarrow> 0 < d \<Longrightarrow> d = 1 \<and> a = 0"
  by (auto simp: slot_ok_def split: if_splits)

lemma fd_step_inv:
  assumes "fd_step w w'" "fd_inv w"
  shows "fd_inv w'"
  using assms
proof (cases rule: fd_step.cases)
  case (install h handle sf df r t' evs)
  note d = fd_invD [OF assms(2)]
  show ?thesis unfolding install(1)
    using fd_inv_table [OF assms(2) install_stable(1) [OF d(1) install(2)]] installs_ok(1) [OF d(1,2) install(2)] by blast
next
  case (install_at h fd handle sf df r' t' evs)
  note d = fd_invD [OF assms(2)]
  show ?thesis unfolding install_at(1)
    using fd_inv_table [OF assms(2) install_stable(2) [OF d(1) install_at(2)]] installs_ok(2) [OF d(1,2) install_at(2)] by blast
next
  case (object_install h req ops ctx kind sf df r t' evs)
  note d = fd_invD [OF assms(2)]
  show ?thesis unfolding object_install(1)
    using fd_inv_table_same [OF assms(2) install_stable(3) [OF d(1) object_install(2)]] installs_ok(3) [OF d(1,2) object_install(2)]
    by blast
next
  case (commit h reservation handle sf df r' t' evs)
  note d = fd_invD [OF assms(2)]
  show ?thesis unfolding commit(1)
    using fd_inv_table [OF assms(2) install_stable(4) [OF d(1) commit(2)]] installs_ok(4) [OF d(1,2) commit(2)] by blast
next
  case (reserve fd res t')
  note d = fd_invD [OF assms(2)]
  show ?thesis unfolding reserve(1)
    using fd_inv_table_same [OF assms(2) stable_core [OF reserve_core(1) [OF reserve(2)]]] simple_ok(1) [OF d(1,2) reserve(2)] by blast
next
  case (cancel reservation st t')
  note d = fd_invD [OF assms(2)]
  show ?thesis unfolding cancel(1)
    using fd_inv_table_same [OF assms(2) stable_core [OF reserve_core(2) [OF cancel(2)]]] simple_ok(2) [OF d(1,2) cancel(2)] by blast
next
  case (dup src df r t')
  note d = fd_invD [OF assms(2)]
  show ?thesis unfolding dup(1)
    using fd_inv_table_same [OF assms(2) stable_core [OF reserve_core(3) [OF dup(2)]]] simple_ok(3) [OF d(1,2) dup(2)] by blast
next
  case (fcntl command hio fd argument n t')
  note d = fd_invD [OF assms(2)]
  note f = fcntl_ok [OF d(1,2) fcntl(2,3)]
  show ?thesis unfolding fcntl(1) using fd_inv_table_same [OF assms(2) stable_core [OF f(4)] f(1,2,3)] .
next
  case (close fd p t')
  note d = fd_invD [OF assms(2)]
  note c = close_ok [OF d(1,2) close(2)]
  have n: "count (claims w + (if cp_finalize p then {#cp_ofd p#} else {#})) = (\<lambda>j. count (claims w) j + (if cp_finalize p \<and> j = cp_ofd p then 1 else 0))"
    by (auto simp: fun_eq_iff)
  have f: "flights w' = flights w" unfolding close(1) by (simp add: flights_def fun_eq_iff)
  show ?thesis
    by (rule fd_inv_next [OF assms(2)])
      (use c n f d(7) stable_core [OF close_core [OF d(1) close(2)]] in \<open>auto simp: close(1) split: if_splits\<close>)
next
  case (replace src target df x t')
  note d = fd_invD [OF assms(2)]
  note c = replace_ok [OF d(1,2) replace(2,3)]
  have n: "count (claims w + (case x of None \<Rightarrow> {#} | Some j \<Rightarrow> {#j#})) = (\<lambda>j. count (claims w) j + (if x = Some j then 1 else 0))"
    by (auto simp: fun_eq_iff split: option.splits)
  have f: "flights w' = flights w" unfolding replace(1) by (simp add: flights_def fun_eq_iff)
  show ?thesis
    by (rule fd_inv_next [OF assms(2)])
      (use c n f d(7) stable_core [OF replace_core [OF d(1) replace(2)]] in \<open>auto simp: replace(1) split: option.splits\<close>)
next
  case (claim i handle ob t')
  note d = fd_invD [OF assms(2)]
  have live: "live_slot (table w) i" using d(5) claim(2) .
  have pos: "0 < count (claims w) i" using claim(2) by simp
  let ?D = "add_mset (i, io_mutex (ofd_at (table w) i), handle) (drains w)"
  from claim_ok [where C' = "count (claims w - {#i#})" and D' = "count (image_mset fst ?D)", OF d(1,2) live pos] claim(3)
  have c: "shape_ok t'" "slots_ok t' (flights w) (count (claims w - {#i#})) (count (image_mset fst ?D)) (stuck w)"
    "io_mutex (ofd_at t' i) = io_mutex (ofd_at (table w) i)"
    "handles (table w) = handles t' + filter_mset ((\<noteq>) 0) {#handle#}"
    unfolding image_add by (auto simp: count_remove [OF claim(2)])
  have z: "active_operations (ofd_at (table w) i) = 0" and t': "t' = set_ofd i (\<lambda>e. e\<lparr>host_handle := 0, ofd_offset := 0,
      status_flags := 0, ofd_kind := 0, object_ops := None, object_context := 0\<rparr>) (table w)"
    using claim(3) by (auto simp: claim_ofd_def Let_def split: if_splits)
  have st: "stable (table w) t'"
    using live z unfolding t' by (auto simp: stable_def ofd_at_set_ofd live_slot_def)
  have f: "flights w' = flights w" unfolding claim(1) by (simp add: flights_def fun_eq_iff)
  show ?thesis
    by (rule fd_inv_next [OF assms(2)])
      (use c f d(7) st live in \<open>auto simp: claim(1) drained_add ac_simps dest: in_diffD\<close>)
next
  case (release i m handle t')
  note d = fd_invD [OF assms(2)]
  note x = d(6) [OF release(2)]
  let ?D = "drains w - {#(i, m, handle)#}"
  from release_ok [where D' = "count (image_mset fst ?D)", OF d(1,2) x [THEN conjunct1] _ x [THEN conjunct2, THEN conjunct1]] x release(3)
  have c: "shape_ok t'" "slots_ok t' (flights w) (count (claims w)) (count (image_mset fst ?D)) (stuck w)"
    "handles t' = handles (table w)"
    by (auto simp: image_remove(1) [OF release(2)])
  have t': "t' = set_ofd i (\<lambda>e. e\<lparr>io_mutex := 0, closing := 0, ofd_generation := ofd_generation e + 1\<rparr>) (table w)"
    using release(3) by (auto simp: release_ofd_def Let_def split: if_splits)
  have f: "flights w' = flights w" unfolding release(1) by (simp add: flights_def fun_eq_iff)
  have lv: "live_slot t' j = live_slot (table w) j" for j by (simp add: t')
  have s: "slot_ok (ofd_at (table w) i) (names (table w) (unat i)) (flights w i) (count (claims w) i)
      (count (image_mset fst (drains w)) i) (i \<in> stuck w)" using slot_okD [OF d(2) x [THEN conjunct1]] .
  then have one: "count (image_mset fst (drains w)) i = 1" and a0: "flights w i = 0"
    using slot_draining [OF s] x by simp_all
  have other: "ofd_at t' j = ofd_at (table w) j" if "j \<noteq> i" for j
    using that x by (simp add: t' ofd_at_set_ofd live_slot_def)
  have gone: "j \<noteq> i" if "(j, m', h') \<in># ?D" for j m' h'
  proof
    assume "j = i"
    with that have "i \<in># image_mset fst ?D" by force
    with one show False unfolding image_remove(2) [OF release(2)] by (simp del: count_image_mset add: not_in_iff [symmetric])
  qed
  have pins: "j \<noteq> i" if "(j, g) \<in># pinned w" for j g using d(4) [OF that] a0 by auto
  show ?thesis unfolding fd_inv_def release(1)
  proof (intro conjI)
    let ?w = "w\<lparr>table := t', drains := ?D, freed := freed w + filter_mset ((\<noteq>) 0) {#handle#}\<rparr>"
    have f': "flights ?w = flights w" by (simp add: flights_def fun_eq_iff)
    show "shape_ok (table ?w)" using c(1) by simp
    show "slots_ok (table ?w) (flights ?w) (count (claims ?w)) (count (image_mset fst (drains ?w))) (stuck ?w)"
      unfolding f' using c(2) by simp
    show "\<forall>i \<in># ios ?w. live_slot (table ?w) i" "\<forall>i \<in># claims ?w. live_slot (table ?w) i"
      "\<forall>i \<in> stuck ?w. live_slot (table ?w) i"
      using assms(2) by (simp_all add: lv fd_inv_def)
    show "\<forall>(i, g) \<in># pinned ?w. live_slot (table ?w) i \<and> ofd_generation (ofd_at (table ?w) i) = g"
      using d(4) pins other by (auto simp: lv)
    show "\<forall>(i, m, h) \<in># drains ?w. live_slot (table ?w) i \<and> io_mutex (ofd_at (table ?w) i) = m"
    proof (rule ballI)
      fix y assume y: "y \<in># drains ?w"
      obtain j m' h' where e: "y = (j, m', h')" by (cases y) auto
      from y have "(j, m', h') \<in># ?D" by (simp add: e)
      from d(6) [OF in_diffD [OF this]] gone [OF this] other
      show "case y of (i, m, h) \<Rightarrow> live_slot (table ?w) i \<and> io_mutex (ofd_at (table ?w) i) = m" by (simp add: e lv)
    qed
    show "owned ?w = handles (table ?w) + drained (drains ?w) + freed ?w"
      using d(7) c(3) drained_remove [OF release(2)] by (simp add: ac_simps)
  qed
next
  case (begin_io guard fd i t')
  note b = begin_Inr [OF begin_io(2)]
  note g = fd_get_Inr [OF b(1)]
  show ?thesis unfolding begin_io(1) using enter_inv(1) [OF assms(2) g(3,5) begin_io(3) b(3)] .
next
  case (work i x y)
  note d = fd_invD [OF assms(2)]
  note wk = work_ok [OF d(1,2) d(3) [OF work(2), THEN conjunct1] d(3) [OF work(2), THEN conjunct2], of x y]
  show ?thesis unfolding work(1) using wk by (intro fd_inv_table_same [OF assms(2)] stable_core) simp_all
next
  case (finish i)
  then show ?thesis using leave_inv [OF assms(2)] by simp
next
  case (pin_fd fd p t')
  note p = pin_Inr(1) [OF pin_fd(2)]
  then show ?thesis unfolding pin_fd(1)
    using enter_inv(2) [OF assms(2) _ _ pin_fd(3)] by simp
next
  case (pin_ofd i g p t')
  note p = pin_Inr(2) [OF pin_ofd(2)]
  then show ?thesis unfolding pin_ofd(1)
    using enter_inv(2) [OF assms(2) _ _ pin_ofd(3)] by simp
next
  case (pin_failed i g)
  then show ?thesis using unpin_inv(1) [OF assms(2)] by simp
next
  case (unpin i g ask t')
  then show ?thesis using unpin_inv(2) [OF assms(2)] by simp
qed

lemma fd_start_inv:
  assumes "hl_linux_abi_init h fc oc = Inr t"
  shows "fd_inv (fd_start t)"
proof -
  from assms have t: "t = \<lparr>abi = HL_LINUX_ABI_VERSION, fds = replicate fc empty_fd, ofds = replicate oc empty_ofd,
       ofd_watermark = 0, reserved_fds = 0\<rparr>" and c: "fc \<le> 65536" "2 \<le> oc" "oc \<le> 65536"
    by (auto simp: hl_linux_abi_init_def HL_LINUX_FD_LIMIT_def HL_LINUX_OFD_LIMIT_def split: if_splits)
  have n: "names t k = 0" if "k \<noteq> 0" for k using that by (simp add: names_def t empty_fd_def filter_empty_conv)
  have o: "ofd_at t i = empty_ofd" if "live_slot t i" for i
    using that by (simp add: ofd_at_def t live_slot_def ofd_capacity_def)
  have e: "slot_ok empty_ofd 0 0 0 0 False" by (simp add: slot_ok_def empty_ofd_def blank_def)
  have "slots_ok t (\<lambda>_. 0) (\<lambda>_. 0) (\<lambda>_. 0) {}"
    using e by (auto simp: slots_ok_def o n live_slot_def unat_eq_0)
  moreover have "shape_ok t"
    using c n unat_reserved o
    by (auto simp: shape_ok_def t HL_LINUX_FD_LIMIT_def HL_LINUX_OFD_LIMIT_def empty_fd_def ofd_free_def empty_ofd_def)
  moreover have "handles t = {#}" by (simp add: handles_def t empty_ofd_def)
  moreover have "flights (fd_start t) = (\<lambda>_. 0)" "count ({#} :: u32 multiset) = (\<lambda>_. 0)"
    by (simp_all add: flights_def fd_start_def fun_eq_iff)
  ultimately show ?thesis
    unfolding fd_inv_def by (simp add: fd_start_def drained_def)
qed

lemma fd_reachable_inv:
  assumes "fd_step\<^sup>*\<^sup>* w w'" "fd_inv w"
  shows "fd_inv w'"
  using assms by (induction rule: rtranclp_induct) (auto intro: fd_step_inv)

end
