(* ===== verification/Fd_Safety.thy ===== *)
theory Fd_Safety
  imports Fd_World
begin

text \<open>
  Properties of the descriptor table in every reachable state: exact counts, conservation of handles, no
  file closed under an operation, and the two ways in which a close that overlaps an operation goes wrong.
\<close>

section \<open>Reachable tables\<close>

definition fd_reachable :: "fd_world \<Rightarrow> bool" where
  "fd_reachable w \<longleftrightarrow> (\<exists>h fc oc t. hl_linux_abi_init h fc oc = Inr t \<and> fd_step\<^sup>*\<^sup>* (fd_start t) w)"

lemma fd_reachableD: "fd_reachable w \<Longrightarrow> fd_inv w"
  unfolding fd_reachable_def using fd_start_inv fd_reachable_inv by blast

lemma fd_reachable_step: "fd_reachable w \<Longrightarrow> fd_step w w' \<Longrightarrow> fd_reachable w'"
  unfolding fd_reachable_def by (meson rtranclp.rtrancl_into_rtrancl)

lemma fd_reachable_slot:
  assumes "fd_reachable w" "live_slot (table w) i"
  shows "slot_ok (ofd_at (table w) i) (names (table w) (unat i)) (flights w i) (count (claims w) i)
    (count (image_mset fst (drains w)) i) (i \<in> stuck w)"
  using slot_okD [OF fd_invD(2) [OF fd_reachableD [OF assms(1)]] assms(2)] .

text \<open>An example: standard output installed as descriptor 0, and a read in flight on it.\<close>

definition example_fd_host :: fd_host where
  "example_fd_host = \<lparr>has_sync = True, has_files = True, mutex_create = (S_OK, 71), mutex_lock = S_OK,
     mutex_unlock = S_OK, mutex_close = S_OK, object_close = S_OK, file_close = S_OK, process_id = 5, token_counter = 0\<rparr>"

definition example_table :: linux_abi where
  "example_table = \<lparr>abi = HL_LINUX_ABI_VERSION, fds = [empty_fd, empty_fd], ofds = [empty_ofd, empty_ofd, empty_ofd],
     ofd_watermark = 0, reserved_fds = 0\<rparr>"

definition example_ofd :: "u32 \<Rightarrow> u32 \<Rightarrow> u32 \<Rightarrow> ofd_entry" where
  "example_ofd refs act cl = \<lparr>host_handle = 900, ofd_offset = 0, status_flags = 2, ofd_references = refs, active_operations = act,
     closing = cl, ofd_generation = 1, ofd_kind = 0, flock_token = 0x500000001, io_mutex = 71, object_ops = None, object_context = 0\<rparr>"

definition example_opened :: linux_abi where
  "example_opened = \<lparr>abi = HL_LINUX_ABI_VERSION, fds = [\<lparr>fd_ofd = 1, descriptor_flags = 1, fd_generation = 1\<rparr>, empty_fd],
     ofds = [empty_ofd, example_ofd 1 0 0, empty_ofd], ofd_watermark = 2, reserved_fds = 0\<rparr>"

definition opened_world :: fd_world where
  "opened_world = \<lparr>table = example_opened, ios = {#}, pinned = {#}, claims = {#}, drains = {#}, stuck = {},
     owned = {#900#}, freed = {#}\<rparr>"

lemma example_init: "hl_linux_abi_init example_fd_host 2 3 = Inr example_table"
  by (simp add: hl_linux_abi_init_def example_fd_host_def example_table_def HL_LINUX_FD_LIMIT_def HL_LINUX_OFD_LIMIT_def
      numeral_2_eq_2 numeral_3_eq_3)

lemma example_open:
  "hl_linux_fd_install example_fd_host 900 2 1 example_table = (Inr 0, example_opened, [Mutex_Created 71])"
  by (simp add: hl_linux_fd_install_def with_new_mutex_def example_fd_host_def example_table_def hl_linux_find_fd_def
      hl_linux_find_ofd_def empty_fd_def empty_ofd_def ofd_free_def set_fd_def set_ofd_def fd_at_def
      ofd_at_def point_fd_def fill_ofd_def hl_linux_new_ofd_token_def example_opened_def example_ofd_def Let_def)

lemma opened_reachable: "fd_reachable opened_world"
proof -
  have "fd_step (fd_start example_table) ((fd_start example_table)\<lparr>table := example_opened,
      owned := owned (fd_start example_table) + handle_bag (Inr 0 :: hl_status + u32) 900\<rparr>)"
    using fd_step.install [of example_fd_host 900 2 1 "fd_start example_table", unfolded fd_start_def fd_world.simps, OF example_open]
    by (simp add: fd_start_def)
  then have "fd_step (fd_start example_table) opened_world"
    by (simp add: fd_start_def opened_world_def handle_bag_def)
  with example_init show ?thesis unfolding fd_reachable_def by blast
qed

lemma slot_free_iff: "slot_ok e n a c d s \<Longrightarrow> ofd_free e \<longleftrightarrow> n = 0 \<and> a = 0 \<and> c = 0 \<and> d = 0 \<and> \<not> s"
  by (auto simp: slot_ok_def ofd_free_def unat_eq_0 [symmetric] split: if_splits)

lemma slot_named: "slot_ok e n a c d s \<Longrightarrow> unat (ofd_references e) = n \<and> unat (active_operations e) = a \<and> (n = 0 \<or> closing e = 0 \<and> content e)"
  by (cases "n = 0") (simp_all add: slot_ok_def)

lemma slot_stuck: "slot_ok e n a c d True \<Longrightarrow> closing e \<noteq> 0 \<and> content e \<and> ofd_references e = 0 \<and> active_operations e = 0"
  by (cases "n = 0"; cases "closing e = 0"; cases "a = 0"; cases "d = 0") (simp_all add: slot_ok_def unat_eq_0)

lemma slot_idle: "slot_ok e n 0 0 0 False \<Longrightarrow> valid_ofd n e"
  by (cases "n = 0"; cases "closing e = 0") (auto simp: slot_ok_def valid_ofd_def content_def blank_def unat_eq_0)





text \<open>What one step leaves alone.\<close>

lemma claim_release_stable:
  assumes w: "fd_inv w" and f: "0 < flights w j" "live_slot (table w) j"
  shows "i \<in># claims w \<Longrightarrow> claim_ofd i (table w) = Claimed handle ob t' \<Longrightarrow> ofd_at t' j = ofd_at (table w) j"
    "release_ofd i m (table w) = (S_OK, t') \<Longrightarrow> live_slot (table w) i \<Longrightarrow> ofd_at t' j = ofd_at (table w) j"
proof -
  have a: "active_operations (ofd_at (table w) j) \<noteq> 0" using unlocked_references(2) [OF fd_invD(2) [OF w] f(2)] f(1) by simp
  show "ofd_at t' j = ofd_at (table w) j" if "i \<in># claims w" "claim_ofd i (table w) = Claimed handle ob t'"
    using that a fd_invD(5) [OF w that(1)]
    by (auto simp: claim_ofd_def Let_def ofd_at_set_ofd live_slot_def split: if_splits)
  show "ofd_at t' j = ofd_at (table w) j" if "release_ofd i m (table w) = (S_OK, t')" "live_slot (table w) i"
    using that a by (auto simp: release_ofd_def Let_def ofd_at_set_ofd live_slot_def split: if_splits)
qed

lemma fd_step_core:
  assumes "fd_step w w'" "fd_inv w" "0 < flights w j" "live_slot (table w) j"
  shows "core_of (ofd_at (table w') j) = core_of (ofd_at (table w) j)"
proof -
  note d = fd_invD [OF assms(2)]
  have a: "active_operations (ofd_at (table w) j) \<noteq> 0" "\<not> ofd_free (ofd_at (table w) j)"
    using unlocked_references(2) [OF d(2) assms(4)] assms(3) by (simp_all add: ofd_free_def)
  have st: "core_of (ofd_at t' j) = core_of (ofd_at (table w) j)" if "stable (table w) t'" for t'
    using that a assms(4) by (simp add: stable_def)
  have co: "core_of (ofd_at t' j) = core_of (ofd_at (table w) j)" if "core t' = core (table w)" for t'
    using st stable_core [OF that] .
  from assms(1) show ?thesis
  proof (cases rule: fd_step.cases)
    case (claim i handle ob t')
    with claim_release_stable(1) [OF assms(2-4) claim(2,3)] show ?thesis by simp
  next
    case (release i m handle t')
    with claim_release_stable(2) [OF assms(2-4) release(3)] d(6) [OF release(2)] show ?thesis by simp
  next
    case (fcntl command hio fd argument n t')
    with co [OF fcntl_ok(4) [OF d(1,2) fcntl(2,3)]] show ?thesis by simp
  next
    case (begin_io guard fd i t')
    with co [of t'] begin_Inr(3) [OF begin_io(2)] show ?thesis by simp
  next
    case (pin_fd fd p t')
    with co [of t'] pin_Inr(1) [OF pin_fd(2)] show ?thesis by simp
  next
    case (pin_ofd i g p t')
    with co [of t'] pin_Inr(2) [OF pin_ofd(2)] show ?thesis by simp
  next
    case (unpin i g ask t')
    have "core t' = core (table w)" using unpin(3) by (auto simp: unpin_locked_def Let_def split: if_splits)
    from co [OF this] show ?thesis by (simp add: unpin(1))
  next
    case (install h handle sf df r t' evs)
    with st [OF install_stable(1) [OF d(1) install(2)]] show ?thesis by simp
  next
    case (install_at h fd handle sf df r' t' evs)
    with st [OF install_stable(2) [OF d(1) install_at(2)]] show ?thesis by simp
  next
    case (object_install h req ops ctx kind sf df r t' evs)
    with st [OF install_stable(3) [OF d(1) object_install(2)]] show ?thesis by simp
  next
    case (commit h reservation handle sf df r' t' evs)
    with st [OF install_stable(4) [OF d(1) commit(2)]] show ?thesis by simp
  next
    case (reserve fd res t')
    with co [OF reserve_core(1) [OF reserve(2)]] show ?thesis by simp
  next
    case (cancel reservation st t')
    with co [OF reserve_core(2) [OF cancel(2)]] show ?thesis by simp
  next
    case (dup src df r t')
    with co [OF reserve_core(3) [OF dup(2)]] show ?thesis by simp
  next
    case (close fd p t')
    with co [OF close_core [OF d(1) close(2)]] show ?thesis by simp
  next
    case (replace src target df x t')
    with co [OF replace_core [OF d(1) replace(2)]] show ?thesis by simp
  next
    case (work i x y)
    with co [of "table w'"] show ?thesis by simp
  next
    case (finish i)
    with co [of "table w'"] show ?thesis by simp
  next
    case (pin_failed i g)
    with co [of "table w'"] show ?thesis by simp
  qed
qed


definition reading_world :: fd_world where
  "reading_world = opened_world\<lparr>table := example_opened\<lparr>ofds := [empty_ofd, example_ofd 1 1 0, empty_ofd]\<rparr>, ios := {#1#}\<rparr>"

definition closed_table :: linux_abi where
  "closed_table = \<lparr>abi = HL_LINUX_ABI_VERSION, fds = [\<lparr>fd_ofd = 0, descriptor_flags = 0, fd_generation = 2\<rparr>, empty_fd],
     ofds = [empty_ofd, example_ofd 0 1 1, empty_ofd], ofd_watermark = 2, reserved_fds = 0\<rparr>"

definition closing_world :: fd_world where
  "closing_world = reading_world\<lparr>table := closed_table\<rparr>"

lemma example_begin: "begin_operation unguarded 0 example_opened =
    Inr (1, example_opened\<lparr>ofds := [empty_ofd, example_ofd 1 1 0, empty_ofd]\<rparr>)"
  by (simp add: begin_operation_def hl_linux_fd_get_unlocked_def example_opened_def fd_capacity_def ofd_capacity_def
      fd_at_def ofd_at_def HL_LINUX_FD_RESERVED_def example_ofd_def unguarded_def set_ofd_def)

lemma reading_step: "fd_step opened_world reading_world"
proof -
  note example_begin
  then have "fd_step opened_world (opened_world\<lparr>table := example_opened\<lparr>ofds := [empty_ofd, example_ofd 1 1 0, empty_ofd]\<rparr>,
      ios := ios opened_world + {#1#}\<rparr>)"
    by (intro fd_step.begin_io [of unguarded 0]) (simp_all add: opened_world_def flights_def)
  then show ?thesis by (simp add: reading_world_def opened_world_def)
qed

lemma closing_step: "fd_step reading_world closing_world"
proof -
  have "close_locked 0 (table reading_world) = Inr (\<lparr>cp_ofd = 1, cp_retire = None, cp_finalize = False\<rparr>, closed_table)"
    by (simp add: close_locked_def reading_world_def opened_world_def example_opened_def fd_capacity_def ofd_capacity_def
        fd_at_def ofd_at_def HL_LINUX_FD_RESERVED_def example_ofd_def set_ofd_def set_fd_def Let_def closed_table_def)
  from fd_step.close [OF this] show ?thesis by (simp add: closing_world_def reading_world_def opened_world_def)
qed


section \<open>Orphans\<close>

lemma stuck_core:
  assumes "fd_step w w'" "fd_inv w" "i \<in> stuck w"
  shows "i \<in> stuck w'"
  using assms(1,3) by (cases rule: fd_step.cases) auto

text \<open>Claim C17.  A close that overlaps an ordinary I/O call can leak the file for good: when the I/O call ends
  after the last descriptor is gone, nobody finalises the description.  It then stays in the closing state
  with its host object for ever, the table can never be destroyed, and the validator calls an otherwise idle
  table corrupt.\<close>

theorem fd_orphan_leaks:
  assumes "fd_reachable w" "i \<in> stuck w" "fd_step\<^sup>*\<^sup>* w w'"
  shows "i \<in> stuck w' \<and> closing (ofd_at (table w') i) \<noteq> 0 \<and> content (ofd_at (table w') i) \<and>
    ofd_references (ofd_at (table w') i) = 0 \<and> fst (hl_linux_abi_destroy (table w')) \<noteq> S_OK \<and>
    hl_linux_abi_validate_fds ok (table w') \<noteq> S_OK"
proof -
  have r: "fd_reachable w' \<and> i \<in> stuck w'" using assms(3)
  proof (induction rule: rtranclp_induct)
    case (step y z)
    then show ?case using fd_reachable_step stuck_core fd_reachableD by blast
  qed (use assms in simp)
  then have l: "live_slot (table w') i" using fd_reachableD by (auto simp: fd_inv_def)
  have s: "closing (ofd_at (table w') i) \<noteq> 0" "content (ofd_at (table w') i)" "ofd_references (ofd_at (table w') i) = 0"
    "active_operations (ofd_at (table w') i) = 0"
    using slot_stuck fd_reachable_slot [OF _ l] r by (metis (full_types))+
  let ?t = "table w'"
  have n: "1 \<le> unat i" "unat i < length (ofds ?t)"
    using l by (auto simp: live_slot_def ofd_capacity_def word_neq_0_conv word_less_nat_alt)
  have "ofd_at ?t i \<in> set (drop 1 (ofds ?t))"
    using n by (auto simp: ofd_at_def in_set_conv_nth intro!: exI [of _ "unat i - 1"])
  with s(1) have "list_ex (\<lambda>e. ofd_references e \<noteq> 0 \<or> active_operations e \<noteq> 0 \<or> closing e \<noteq> 0) (drop 1 (ofds ?t))"
    by (auto simp: list_ex_iff)
  then have "fst (hl_linux_abi_destroy ?t) \<noteq> S_OK" by (simp add: hl_linux_abi_destroy_def)
  moreover have "hl_linux_abi_validate_fds ok ?t \<noteq> S_OK"
  proof -
    have "\<not> valid_ofd (names ?t (unat i)) (ofds ?t ! unat i)" using s by (simp add: valid_ofd_def ofd_at_def)
    then have "\<not> list_all (\<lambda>i. valid_ofd (names ?t i) (ofds ?t ! i)) [1..<ofd_capacity ?t]"
      using n by (auto simp: list_all_iff ofd_capacity_def)
    then show ?thesis by (simp add: hl_linux_abi_validate_fds_def)
  qed
  ultimately show ?thesis using r s by simp
qed

theorem fd_orphan_leaks_witness:
  "\<exists>w. fd_step\<^sup>*\<^sup>* opened_world w \<and> 1 \<in> stuck w \<and> ios w = {#} \<and> freed w = {#} \<and> fst (hl_linux_abi_destroy (table w)) \<noteq> S_OK"
proof -
  let ?w = "closing_world\<lparr>table := end_operation 1 closed_table, ios := {#}, stuck := {1}\<rparr>"
  have o: "orphaned (table closing_world) 1"
    by (simp add: orphaned_def closing_world_def closed_table_def ofd_at_def example_ofd_def)
  have "1 \<in># ios closing_world" by (simp add: closing_world_def reading_world_def)
  from fd_step.finish [OF this] o have f: "fd_step closing_world ?w"
    by (simp add: closing_world_def reading_world_def opened_world_def)
  have r: "fd_step\<^sup>*\<^sup>* opened_world ?w" using reading_step closing_step f by (meson rtranclp.rtrancl_into_rtrancl rtranclp.rtrancl_refl)
  have "fd_reachable ?w"
    using opened_reachable reading_step closing_step f fd_reachable_step by blast
  moreover have "1 \<in> stuck ?w" by simp
  ultimately have "fst (hl_linux_abi_destroy (table ?w)) \<noteq> S_OK"
    using fd_orphan_leaks [of ?w 1 ?w True] by simp
  with r show ?thesis
    by (intro exI [of _ ?w]) (simp add: closing_world_def reading_world_def opened_world_def)
qed

text \<open>That is the only leak: when nothing is in flight, the table validator accepts the table exactly
  when no description was orphaned.\<close>

theorem fd_idle_valid:
  assumes "fd_reachable w" "ios w = {#}" "pinned w = {#}" "claims w = {#}" "drains w = {#}"
    "abi (table w) = HL_LINUX_ABI_VERSION"
  shows "hl_linux_abi_validate_fds True (table w) = S_OK \<longleftrightarrow> stuck w = {}"
proof
  assume "hl_linux_abi_validate_fds True (table w) = S_OK"
  then show "stuck w = {}" using fd_orphan_leaks [OF assms(1) _ rtranclp.rtrancl_refl, of _ True] by blast
next
  assume st: "stuck w = {}"
  let ?t = "table w"
  note d = fd_invD [OF fd_reachableD [OF assms(1)]]
  have f: "flights w i = 0" for i using assms(2,3) by (simp add: flights_def)
  have v: "valid_ofd (names ?t i) (ofds ?t ! i)" if "1 \<le> i" "i < length (ofds ?t)" for i
  proof -
    let ?i = "of_nat i :: u32"
    have b: "length (ofds ?t) \<le> 65536" using d(1) by (simp add: shape_ok_def HL_LINUX_OFD_LIMIT_def)
    then have u: "unat ?i = i" using that by (simp add: unat_of_nat)
    then have l: "live_slot ?t ?i" using that by (auto simp: live_slot_def ofd_capacity_def)
    have "slot_ok (ofds ?t ! i) (names ?t i) 0 0 0 False"
      using fd_reachable_slot [OF assms(1) l] u f st assms(4,5) by (simp add: ofd_at_def)
    then show ?thesis by (rule slot_idle)
  qed
  have e: "\<not> (fd_ofd e \<noteq> 0 \<and> fd_ofd e \<noteq> HL_LINUX_FD_RESERVED \<and> unat (fd_ofd e) \<ge> ofd_capacity ?t)" if "e \<in> set (fds ?t)" for e
    using d(1) that by (auto simp: shape_ok_def ofd_capacity_def)
  show "hl_linux_abi_validate_fds True ?t = S_OK"
    using v e assms(6) by (auto simp: hl_linux_abi_validate_fds_def list_ex_iff list_all_iff ofd_capacity_def)
qed

theorem fd_idle_valid_witness: "hl_linux_abi_validate_fds True example_opened = S_OK"
proof -
  have "hl_linux_abi_validate_fds True (table opened_world) = S_OK \<longleftrightarrow> stuck opened_world = {}"
    by (rule fd_idle_valid [OF opened_reachable]) (simp_all add: opened_world_def example_opened_def)
  then show ?thesis by (simp add: opened_world_def)
qed

text \<open>Claim C18.  A replacement (\<open>dup2\<close>, \<open>dup3\<close>) of the last descriptor of an object that another thread has
  pinned finalises it twice: the replacement and the unpinning both go on to finalise, and between the two
  sections of the first finalisation the second claims the slot as well, so the host mutex is closed twice.\<close>

theorem fd_replace_finalizes_twice:
  assumes "shape_ok t" "replace_locked src target df t = Inr (Some j, t1)" "active_operations (ofd_at t1 j) = 1"
    "unpin_locked j (ofd_generation (ofd_at t1 j)) t1 = (ask, t2)"
  shows "ask \<and> (\<exists>handle ob t3. claim_ofd j t2 = Claimed handle ob t3 \<and> io_mutex (ofd_at t3 j) = io_mutex (ofd_at t1 j) \<and>
    (\<exists>t4. claim_ofd j t3 = Claimed 0 None t4 \<and> io_mutex (ofd_at t4 j) = io_mutex (ofd_at t1 j)))"
proof -
  from replace_cases [OF assms(1,2)] obtain i where
    l: "live_slot t j" and t1: "t1 = set_ofd i add_reference (set_fd target (point_fd i df) (set_ofd j drop_reference t))"
    and g: "hl_linux_fd_get_unlocked t src = Inr i" and ij: "i \<noteq> j" and z: "ofd_references (drop_reference (ofd_at t j)) = 0"
    by (auto simp: Let_def split: if_splits)
  note gi = fd_get_Inr [OF g]
  have c: "unat j < ofd_capacity t1" using l by (simp add: t1 live_slot_def)
  have "ofd_at t1 j = drop_reference (ofd_at t j)"
    using l gi(3) ij by (simp add: t1 ofd_at_set_ofd live_slot_def)
  then have r: "ofd_references (ofd_at t1 j) = 0" "closing (ofd_at t1 j) = 1"
    using z by (simp_all add: drop_reference_def Let_def split: if_splits)
  have t2: "ask" "t2 = end_operation j t1"
    using assms(3,4) r c by (auto simp: unpin_locked_def Let_def end_operation_def ofd_at_set_ofd)
  then show ?thesis
    using assms(3) r c by (simp add: claim_ofd_def Let_def end_operation_def ofd_at_set_ofd)
qed

definition pinned_table :: linux_abi where
  "pinned_table = \<lparr>abi = HL_LINUX_ABI_VERSION, fds = [\<lparr>fd_ofd = 1, descriptor_flags = 1, fd_generation = 1\<rparr>,
       \<lparr>fd_ofd = 2, descriptor_flags = 0, fd_generation = 1\<rparr>],
     ofds = [empty_ofd, example_ofd 1 0 0, (example_ofd 1 1 0)\<lparr>host_handle := 0, object_ops := Some 4, object_context := 8\<rparr>],
     ofd_watermark = 3, reserved_fds = 0\<rparr>"

theorem fd_replace_finalizes_twice_witness:
  "\<exists>t1. replace_locked 0 1 0 pinned_table = Inr (Some 2, t1) \<and> (\<exists>t2. unpin_locked 2 1 t1 = (True, t2))"
proof -
  let ?t1 = "pinned_table\<lparr>fds := [\<lparr>fd_ofd = 1, descriptor_flags = 1, fd_generation = 1\<rparr>,
       \<lparr>fd_ofd = 1, descriptor_flags = 0, fd_generation = 2\<rparr>],
     ofds := [empty_ofd, example_ofd 2 0 0, (example_ofd 0 1 1)\<lparr>host_handle := 0, object_ops := Some 4, object_context := 8\<rparr>]\<rparr>"
  have s: "shape_ok pinned_table"
    unfolding shape_ok_def
    by (auto simp: pinned_table_def HL_LINUX_FD_LIMIT_def HL_LINUX_OFD_LIMIT_def names_def live_slot_def ofd_capacity_def
        unat_reserved less_Suc_eq)
  have third: "[a, b, c][2 := x] = [a, b, x]" for a b c x :: ofd_entry by (simp add: numeral_2_eq_2)
  have r: "replace_locked 0 1 0 pinned_table = Inr (Some 2, ?t1)"
    unfolding replace_locked_eq
    by (simp add: hl_linux_fd_get_unlocked_def pinned_table_def fd_capacity_def ofd_capacity_def fd_at_def ofd_at_def
        HL_LINUX_FD_RESERVED_def example_ofd_def set_ofd_def set_fd_def Let_def drop_reference_def add_reference_def point_fd_def
        third)
  have g: "ofd_generation (ofd_at ?t1 2) = 1" "active_operations (ofd_at ?t1 2) = 1"
    by (simp_all add: ofd_at_def example_ofd_def)
  obtain ask t2 where u: "unpin_locked 2 1 ?t1 = (ask, t2)" by fastforce
  from fd_replace_finalizes_twice [OF s r g(2), unfolded g(1), OF u] have ask by blast
  with u have "unpin_locked 2 1 ?t1 = (True, t2)" by simp
  with r show ?thesis by (intro exI conjI)
qed

end
