(* ===== verification/Fd_Behaviour.thy ===== *)
theory Fd_Behaviour
  imports Fd_Safety
begin

text \<open>
  What the descriptor calls do: the lowest free descriptor, replacement, close, the close-on-exec sweep, and
  the offset after a read.
\<close>

section \<open>Opening\<close>

lemma get_unlocked_cong:
  assumes "fd_at t' k = fd_at t k" "fd_capacity t' = fd_capacity t" "ofd_capacity t' = ofd_capacity t"
    "live_slot t (fd_ofd (fd_at t k)) \<Longrightarrow> unat k < fd_capacity t \<Longrightarrow>
      (ofd_references (ofd_at t' (fd_ofd (fd_at t k))) = 0) = (ofd_references (ofd_at t (fd_ofd (fd_at t k))) = 0)"
  shows "hl_linux_fd_get_unlocked t' k = hl_linux_fd_get_unlocked t k"
proof (cases "live_slot t (fd_ofd (fd_at t k)) \<and> unat k < fd_capacity t")
  case True
  with assms show ?thesis by (simp add: hl_linux_fd_get_unlocked_def)
next
  case False
  with assms(1-3) show ?thesis by (auto simp: hl_linux_fd_get_unlocked_def Let_def live_slot_def)
qed

lemma named_not_free:
  assumes "slots_ok t A C D S" "unat k < fd_capacity t" "live_slot t (fd_ofd (fd_at t k))"
  shows "\<not> ofd_free (ofd_at t (fd_ofd (fd_at t k)))" "ofd_references (ofd_at t (fd_ofd (fd_at t k))) \<noteq> 0"
  using unlocked_references(1) [OF assms(1,3)] names_pos [OF assms(2)] by (simp_all add: ofd_free_def)

lemma get_unlocked_live:
  assumes "shape_ok t" "slots_ok t A C D S" "unat fd < fd_capacity t" "fd_ofd (fd_at t fd) \<noteq> 0"
    "fd_ofd (fd_at t fd) \<noteq> HL_LINUX_FD_RESERVED"
  shows "hl_linux_fd_get_unlocked t fd = Inr (fd_ofd (fd_at t fd))"
  using fd_live [OF assms(1,3-5)] named_not_free(2) [OF assms(2,3)] assms(3-5)
  by (simp add: hl_linux_fd_get_unlocked_def Let_def live_slot_def not_le [symmetric])

text \<open>Opening is POSIX-exact: a successful install returns the lowest unused descriptor, which then
  names a fresh description with the given handle and flags, offset 0 and one reference; every other
  descriptor reads as before.\<close>

theorem fd_install_lowest:
  assumes "fd_reachable w" "hl_linux_fd_install h handle sf df (table w) = (Inr fd, t', evs)"
  shows "fd_ofd (fd_at (table w) fd) = 0 \<and> (\<forall>k. k < fd \<longrightarrow> fd_ofd (fd_at (table w) k) \<noteq> 0) \<and>
    (\<exists>s. hl_linux_fd_snapshot_get t' fd = Inr s \<and> snap_handle s = handle \<and> snap_offset s = 0 \<and>
       snap_status_flags s = sf \<and> snap_descriptor_flags s = df \<and> snap_references s = 1 \<and> snap_kind s = 0) \<and>
    (\<forall>k. k \<noteq> fd \<longrightarrow> hl_linux_fd_snapshot_get t' k = hl_linux_fd_snapshot_get (table w) k)"
proof -
  let ?t = "table w"
  note d = fd_invD [OF fd_reachableD [OF assms(1)]]
  from assms(2) obtain m i t1 where m: "m \<noteq> 0" "handle \<noteq> 0" "hl_linux_find_fd ?t = Inr fd" "hl_linux_find_ofd ?t = Inr (i, t1)"
    and t': "t' = set_fd fd (point_fd i df) (set_ofd i (fill_ofd h handle sf m) t1)"
    by (auto simp: hl_linux_fd_install_def split: if_splits sum.splits prod.splits dest!: with_new_mutex_Inr)
  note fd = find_fd_Inr [OF m(3) d(1)]
  note fo = find_ofd_Inr [OF m(4) d(1)]
  from fo(3) obtain x where t1: "t1 = ?t\<lparr>ofd_watermark := x\<rparr>" by blast
  note l = live_slot_not [OF d(1) fo(1)]
  have b: "ofd_offset (ofd_at ?t i) = 0" "ofd_kind (ofd_at ?t i) = 0"
    using slot_okD [OF d(2) fo(1)] fo(2) by (auto simp: slot_ok_def ofd_free_def blank_def split: if_splits)
  have o: "ofd_at t' j = (if j = i then fill_ofd h handle sf m (ofd_at ?t i) else ofd_at ?t j)" for j
    using l(3) by (simp add: t' t1 ofd_at_set_ofd)
  have f: "fd_at t' k = (if k = fd then point_fd i df (fd_at ?t fd) else fd_at ?t k)" for k
    using fd(1) by (simp add: t' t1 fd_at_set_fd)
  have cap: "fd_capacity t' = fd_capacity ?t" "ofd_capacity t' = ofd_capacity ?t" by (simp_all add: t' t1)
  have "hl_linux_fd_get_unlocked t' fd = Inr i"
    using fd(1) l by (simp add: hl_linux_fd_get_unlocked_def cap f o point_fd_def fill_ofd_def Let_def)
  then have 1: "\<exists>s. hl_linux_fd_snapshot_get t' fd = Inr s \<and> snap_handle s = handle \<and> snap_offset s = 0 \<and>
       snap_status_flags s = sf \<and> snap_descriptor_flags s = df \<and> snap_references s = 1 \<and> snap_kind s = 0"
    using b by (simp add: hl_linux_fd_snapshot_get_def Let_def o f fill_ofd_def point_fd_def)
  have 2: "hl_linux_fd_snapshot_get t' k = hl_linux_fd_snapshot_get ?t k" if "k \<noteq> fd" for k
  proof -
    have ni: "fd_ofd (fd_at ?t k) \<noteq> i" if "unat k < fd_capacity ?t"
      using named_not_free(1) [OF d(2) that] fo(1,2) by auto
    have "hl_linux_fd_get_unlocked t' k = hl_linux_fd_get_unlocked ?t k"
      using ni \<open>k \<noteq> fd\<close> by (intro get_unlocked_cong cap) (auto simp: f o)
    moreover have "i' \<noteq> i" if "hl_linux_fd_get_unlocked ?t k = Inr i'" for i'
      using fd_get_Inr(1,2) [OF that] ni by auto
    ultimately show ?thesis
      using \<open>k \<noteq> fd\<close> by (auto simp: hl_linux_fd_snapshot_get_def f o split: sum.splits)
  qed
  from fd 1 2 show ?thesis by blast
qed

theorem fd_install_lowest_witness:
  "\<exists>t' evs s. hl_linux_fd_install example_fd_host 901 0 0 example_opened = (Inr 1, t', evs) \<and>
     hl_linux_fd_snapshot_get t' 1 = Inr s \<and> snap_handle s = 901 \<and> snap_references s = 1"
proof -
  obtain t' evs where o: "hl_linux_fd_install example_fd_host 901 0 0 (table opened_world) = (Inr 1, t', evs)"
    by (simp add: hl_linux_fd_install_def with_new_mutex_def example_fd_host_def opened_world_def example_opened_def
      hl_linux_find_fd_def hl_linux_find_ofd_def empty_fd_def empty_ofd_def ofd_free_def example_ofd_def)
  from fd_install_lowest [OF opened_reachable o] o show ?thesis by (auto simp: opened_world_def)
qed

section \<open>Replacing\<close>

lemma dropped_last:
  assumes "slots_ok t A C D S" "live_slot t j"
  shows "ofd_references (drop_reference (ofd_at t j)) = 0 \<longleftrightarrow> names t (unat j) = 1"
proof -
  have "ofd_references (drop_reference (ofd_at t j)) = 0 \<longleftrightarrow> ofd_references (ofd_at t j) = 1"
    by (simp add: drop_reference_def Let_def)
  with slot_named [OF slot_okD [OF assms]] show ?thesis by (simp add: word_unat_eq_iff)
qed

lemma named_twice:
  assumes "unat k < fd_capacity t" "unat target < fd_capacity t" "k \<noteq> target" "fd_ofd (fd_at t k) = fd_ofd (fd_at t target)"
    "fd_ofd (fd_at t target) \<noteq> 0"
  shows "2 \<le> names t (unat (fd_ofd (fd_at t target)))"
proof -
  let ?z = "\<lambda>e. e\<lparr>fd_ofd := 0\<rparr>" and ?j = "fd_ofd (fd_at t target)"
  have "names (set_fd target ?z t) (unat ?j) = names t (unat ?j) - 1"
    using names_lost(1) [of target t "unat ?j" ?z] assms(2,5) by (simp add: unat_eq_0)
  moreover have "0 < names (set_fd target ?z t) (unat ?j)"
    using names_pos [of k "set_fd target ?z t"] assms by (simp add: fd_at_set_fd)
  ultimately show ?thesis by simp
qed

lemma added_reference:
  assumes t: "shape_ok t" "slots_ok t A C D S" and i: "live_slot t i" "ofd_references (ofd_at t i) \<noteq> 0"
  shows "ofd_references (add_reference (ofd_at t i)) \<noteq> 0"
    "ofd_references (add_reference (drop_reference (ofd_at t i))) \<noteq> 0"
proof -
  have "names t (unat i) \<le> 65536" using names_le [of t "unat i"] t(1) by (auto simp: shape_ok_def HL_LINUX_FD_LIMIT_def)
  then have "unat (ofd_references (ofd_at t i)) \<le> 65536" using slot_named [OF slot_okD [OF t(2) i(1)]] by simp
  then have "unat (ofd_references (ofd_at t i) + 1) = unat (ofd_references (ofd_at t i)) + 1" by (intro unat_add_one) simp
  then show "ofd_references (add_reference (ofd_at t i)) \<noteq> 0" by (auto simp: add_reference_def unat_eq_0 [symmetric])
  show "ofd_references (add_reference (drop_reference (ofd_at t i))) \<noteq> 0"
    using i(2) by (simp add: add_reference_def drop_reference_def Let_def)
qed

text \<open>After a replacement every description that is still named has a reference.\<close>

lemma replace_keeps_references:
  assumes t: "shape_ok t" "slots_ok t A C D S" and i: "hl_linux_fd_get_unlocked t src = Inr i"
    and tc: "unat target < fd_capacity t" and ne: "src \<noteq> target"
    and lj: "fd_ofd (fd_at t target) \<noteq> 0 \<Longrightarrow> live_slot t (fd_ofd (fd_at t target))"
    and lk: "live_slot t k" and nk: "k = i \<or> (\<exists>x. x \<noteq> target \<and> unat x < fd_capacity t \<and> fd_ofd (fd_at t x) = k)"
  shows "ofd_references (ofd_at (set_ofd i add_reference (set_fd target f
    (if fd_ofd (fd_at t target) = 0 then t else set_ofd (fd_ofd (fd_at t target)) drop_reference t))) k) \<noteq> 0"
proof -
  note g = fd_get_Inr [OF i]
  let ?j = "fd_ofd (fd_at t target)"
  let ?drop = "if ?j = 0 then t else set_ofd ?j drop_reference t"
  obtain x where x: "x \<noteq> target" "unat x < fd_capacity t" "fd_ofd (fd_at t x) = k"
    using nk g(1,2) ne by metis
  have d: "ofd_at ?drop k = (if ?j \<noteq> 0 \<and> ?j = k then drop_reference (ofd_at t k) else ofd_at t k)"
    using lj by (auto simp: ofd_at_set_ofd live_slot_def)
  have o: "ofd_references (ofd_at ?drop k) \<noteq> 0"
  proof (cases "?j = k")
    case True
    then have j0: "?j \<noteq> 0" using lk by (auto simp: live_slot_def)
    from named_twice [OF x(2) tc x(1) _ j0] x(3) True have "2 \<le> names t (unat k)" by simp
    with dropped_last [OF t(2) lk] d True j0 show ?thesis by simp
  next
    case False
    with d named_not_free(2) [OF t(2) x(2)] lk x(3) show ?thesis by simp
  qed
  have "ofd_at (set_ofd i add_reference (set_fd target f ?drop)) k = (if k = i then add_reference (ofd_at ?drop k) else ofd_at ?drop k)"
    using g(3) by (simp add: ofd_at_set_ofd live_slot_def)
  with o d added_reference [OF t g(3,5)] show ?thesis by (auto split: if_splits)
qed

text \<open>\<open>dup2\<close> is exact: it succeeds when the source is open and the target is a descriptor other
  than a reserved one, in one atomic section after which the target names the source's description,
  every other descriptor names what it named, and a displaced description that lost its last name is the
  one to be finalised.\<close>

theorem fd_replace_exact:
  assumes "fd_reachable w" "replace_locked src target df (table w) = Inr (d, t')"
  shows "hl_linux_fd_get_unlocked t' target = hl_linux_fd_get_unlocked (table w) src \<and>
    (\<forall>k. k \<noteq> target \<longrightarrow> hl_linux_fd_get_unlocked t' k = hl_linux_fd_get_unlocked (table w) k) \<and>
    (\<forall>j. d = Some j \<longleftrightarrow> src \<noteq> target \<and> hl_linux_fd_get_unlocked (table w) target = Inr j \<and>
      names (table w) (unat j) = 1 \<and> hl_linux_fd_get_unlocked (table w) src \<noteq> Inr j)"
proof -
  let ?t = "table w"
  note v = fd_invD [OF fd_reachableD [OF assms(1)]]
  let ?j = "fd_ofd (fd_at ?t target)"
  from replace_cases [OF v(1) assms(2)] obtain i where i: "hl_linux_fd_get_unlocked ?t src = Inr i"
    and tc: "unat target < fd_capacity ?t"
    and cases: "src = target \<and> d = None \<and> t' = ?t \<or> src \<noteq> target \<and>
       (if ?j = 0 then d = None \<and> t' = set_ofd i add_reference (set_fd target (point_fd i df) ?t)
        else live_slot ?t ?j \<and> ofd_references (ofd_at ?t ?j) \<noteq> 0 \<and>
          t' = set_ofd i add_reference (set_fd target (point_fd i df) (set_ofd ?j drop_reference ?t)) \<and>
          d = (if i \<noteq> ?j \<and> ofd_references (drop_reference (ofd_at ?t ?j)) = 0 then Some ?j else None))"
    by (auto simp: Let_def)
  note g = fd_get_Inr [OF i]
  show ?thesis
  proof (cases "src = target")
    case True
    with cases i show ?thesis by simp
  next
    case ne: False
    have li: "unat i < ofd_capacity ?t" using g(3) by (simp add: live_slot_def)
    let ?drop = "if ?j = 0 then ?t else set_ofd ?j drop_reference ?t"
    have t': "t' = set_ofd i add_reference (set_fd target (point_fd i df) ?drop)"
      and lj: "?j \<noteq> 0 \<Longrightarrow> live_slot ?t ?j" and dd: "d = (if ?j \<noteq> 0 \<and> i \<noteq> ?j \<and> ofd_references (drop_reference (ofd_at ?t ?j)) = 0 then Some ?j else None)"
      using cases ne by (simp_all split: if_splits)
    have cap: "fd_capacity t' = fd_capacity ?t" "ofd_capacity t' = ofd_capacity ?t" by (simp_all add: t')
    have f: "fd_at t' k = (if k = target then point_fd i df (fd_at ?t target) else fd_at ?t k)" for k
      using tc by (simp add: t' fd_at_set_fd)
    have refs: "ofd_references (ofd_at t' k) \<noteq> 0"
      if "live_slot ?t k" "k = i \<or> (\<exists>x. x \<noteq> target \<and> unat x < fd_capacity ?t \<and> fd_ofd (fd_at ?t x) = k)" for k
      using replace_keeps_references [OF v(1,2) i tc ne lj that] by (simp add: t')
    have 1: "hl_linux_fd_get_unlocked t' target = Inr i"
      using tc li g(3,4) refs [OF g(3)] by (simp add: hl_linux_fd_get_unlocked_def cap f point_fd_def live_slot_def Let_def)
    have 2: "hl_linux_fd_get_unlocked t' k = hl_linux_fd_get_unlocked ?t k" if "k \<noteq> target" for k
      using that refs named_not_free(2) [OF v(2)] by (intro get_unlocked_cong cap) (auto simp: f)
    have 3: "d = Some j \<longleftrightarrow> hl_linux_fd_get_unlocked ?t target = Inr j \<and> names ?t (unat j) = 1 \<and> Inr i \<noteq> (Inr j :: hl_status + u32)" for j
    proof (cases "?j = 0")
      case True
      then show ?thesis using dd by (simp add: hl_linux_fd_get_unlocked_def)
    next
      case False
      have "?j \<noteq> HL_LINUX_FD_RESERVED" using live_slot_not [OF v(1) lj [OF False]] by simp
      then have "hl_linux_fd_get_unlocked ?t target = Inr ?j" using get_unlocked_live [OF v(1,2) tc False] by simp
      with False dd dropped_last [OF v(2) lj [OF False]] show ?thesis by auto
    qed
    from 1 2 3 i ne show ?thesis by auto
  qed
qed

theorem fd_replace_exact_witness:
  "\<exists>t'. replace_locked 0 1 0 example_opened = Inr (None, t') \<and> hl_linux_fd_get_unlocked t' 1 = Inr 1"
proof -
  have g: "hl_linux_fd_get_unlocked (table opened_world) 0 = Inr 1"
    by (simp add: hl_linux_fd_get_unlocked_def opened_world_def example_opened_def fd_capacity_def ofd_capacity_def
        fd_at_def ofd_at_def HL_LINUX_FD_RESERVED_def example_ofd_def)
  obtain t' where r: "replace_locked 0 1 0 (table opened_world) = Inr (None, t')"
    unfolding replace_locked_eq g by (simp add: opened_world_def example_opened_def fd_capacity_def fd_at_def empty_fd_def Let_def)
  from fd_replace_exact [OF opened_reachable r] r g show ?thesis by (auto simp: opened_world_def)
qed

section \<open>Closing\<close>

text \<open>A host on which every call succeeds.\<close>

definition host_fine :: "fd_host \<Rightarrow> bool" where
  "host_fine h \<longleftrightarrow> has_sync h \<and> has_files h \<and> mutex_lock h = S_OK \<and> mutex_unlock h = S_OK \<and> mutex_close h = S_OK \<and>
     object_close h = S_OK \<and> file_close h = S_OK"

text \<open>A finalisation of a closing description that nobody uses.\<close>

lemma finalize_idle:
  assumes "live_slot t i" "ofd_references (ofd_at t i) = 0" "active_operations (ofd_at t i) = 0" "closing (ofd_at t i) \<noteq> 0"
  shows "\<exists>st t'. hl_linux_ofd_finalize h i t = Some (st, host_handle (ofd_at t i), t',
      (case object_ops (ofd_at t i) of None \<Rightarrow> [] | Some ops \<Rightarrow> [Object_Closed ops (object_context (ofd_at t i))]) @
      [Mutex_Closed (io_mutex (ofd_at t i))]) \<and> (host_fine h \<longrightarrow> st = S_OK) \<and>
    fds t' = fds t \<and> ofd_capacity t' = ofd_capacity t \<and> ofd_free (ofd_at t' i) \<and> (\<forall>j. j \<noteq> i \<longrightarrow> ofd_at t' j = ofd_at t j) \<and>
    abi t' = abi t"
proof -
  have c: "unat i < ofd_capacity t" using assms(1) by (simp add: live_slot_def)
  let ?t1 = "set_ofd i (\<lambda>e. e\<lparr>host_handle := 0, ofd_offset := 0, status_flags := 0, ofd_kind := 0, object_ops := None,
          object_context := 0\<rparr>) t"
  let ?t2 = "set_ofd i (\<lambda>e. e\<lparr>io_mutex := 0, closing := 0, ofd_generation := ofd_generation e + 1\<rparr>) ?t1"
  have cl: "claim_ofd i t = Claimed (host_handle (ofd_at t i)) (map_option (\<lambda>ops. (ops, object_context (ofd_at t i))) (object_ops (ofd_at t i))) ?t1"
    using assms by (simp add: claim_ofd_def Let_def)
  have rl: "release_ofd i (io_mutex (ofd_at t i)) ?t1 = (S_OK, ?t2)"
    using assms c by (simp add: release_ofd_def Let_def ofd_at_set_ofd)
  have "ofd_free (ofd_at ?t2 i)" "\<forall>j. j \<noteq> i \<longrightarrow> ofd_at ?t2 j = ofd_at t j"
    using assms c by (simp_all add: ofd_at_set_ofd ofd_free_def)
  moreover have "abi ?t2 = abi t" by (simp add: set_ofd_def)
  ultimately have "ofd_free (ofd_at ?t2 i)" "\<forall>j. j \<noteq> i \<longrightarrow> ofd_at ?t2 j = ofd_at t j" "abi ?t2 = abi t" by blast+
  then show ?thesis
    unfolding hl_linux_ofd_finalize_def Let_def cl finalize_claim.case rl
    by (cases "object_ops (ofd_at t i)") (simp_all add: first_failure_def host_fine_def)
qed



section \<open>Transfers\<close>

lemma failure_bounds: "fails x < 0" "hl_linux_error st \<le> 0"
  by (cases x; simp add: fails_def) (cases st; simp add: fails_def)

lemma transfer_bound: "transfer_result r n \<le> uint n \<and> transfer_result r n \<le> 2 ^ 63 - 1"
proof -
  obtain st v where r: "r = (st, v)" by (cases r)
  have "x \<le> uint n \<and> x \<le> 2 ^ 63 - 1" if "x \<le> 0" for x using that uint_ge_0 [of n] by (intro conjI) (linarith, simp)
  from this [of "hl_linux_error st"] this [of "fails EIO"] failure_bounds(1) [of EIO] failure_bounds(2) [of st] show ?thesis
    by (auto simp: transfer_result_def r not_less word_le_def INT64_MAX_def)
qed

lemma offset_room: "(x :: u64) \<le> - 1 - y \<longleftrightarrow> unat x + unat y < 2 ^ 64"
proof -
  have "unat (- 1 - y) = 2 ^ 64 - 1 - unat y"
    by (subst unat_sub) (simp_all add: unsigned_minus_1_eq_mask mask_eq_exp_minus_1)
  then show ?thesis using unat_u64_less [of y] unat_u64_less [of x] by (auto simp: word_le_nat_alt)
qed

lemma advance_exact:
  assumes "0 < r" "r < 2 ^ 63"
  shows "uint (ofd_offset (advance r e)) = (if uint (ofd_offset e) + r < 2 ^ 64 then uint (ofd_offset e) + r else uint (ofd_offset e))"
proof -
  let ?y = "word_of_int r :: u64" and ?x = "ofd_offset e"
  have r: "uint ?y = r" using assms by (simp add: uint_word_of_int)
  then have "int (unat ?y) = r" by simp
  then have room: "?x \<le> - 1 - ?y \<longleftrightarrow> uint ?x + r < 2 ^ 64"
  proof -
    have "(unat ?x + unat ?y < 2 ^ 64) = (int (unat ?x + unat ?y) < int (2 ^ 64))" unfolding of_nat_less_iff ..
    with r show ?thesis unfolding offset_room by simp
  qed
  have "uint (?x + ?y) = (uint ?x + r) mod 2 ^ 64" by (simp add: uint_word_ariths r)
  with assms show ?thesis by (simp add: advance_def room)
qed

text \<open>Claim C20.  A read of a host file moves the shared offset by exactly what it reports: the result is at
  most the requested size, the offset of the description grows by a positive result (unless it would
  wrap, when it stays), and nothing else in the table changes, whatever the host answers.\<close>

theorem fd_read_advances:
  assumes "hl_linux_fd_get_unlocked t fd = Inr i" "object_ops (ofd_at t i) = None"
    "hl_linux_read h fd null n t = (r, t')"
  shows "r \<le> uint n \<and> fds t' = fds t \<and> (\<forall>j. j \<noteq> i \<longrightarrow> ofd_at t' j = ofd_at t j) \<and>
    (\<exists>x. ofd_at t' i = (ofd_at t i)\<lparr>ofd_offset := x\<rparr> \<and>
      uint x = (if 0 < r \<and> uint (ofd_offset (ofd_at t i)) + r < 2 ^ 64 then uint (ofd_offset (ofd_at t i)) + r
        else uint (ofd_offset (ofd_at t i))))"
proof -
  note g = fd_get_Inr [OF assms(1)]
  have c: "unat i < ofd_capacity t" using g(3) by (simp add: live_slot_def)
  have neg: "fails x \<le> uint n" "\<not> 0 < fails x" for x
    using failure_bounds(1) [of x] uint_ge_0 [of n] by linarith+
  let ?e = "(ofd_at t i)\<lparr>active_operations := active_operations (ofd_at t i) + 1\<rparr>"
  show ?thesis
  proof (cases "n > INT64_MAX")
    case True
    with assms(3) neg show ?thesis by (auto simp: hl_linux_read_def intro: exI [of _ "ofd_offset (ofd_at t i)"])
  next
    case False
    obtain e' where b: "read_body h null n ?e = (r, e')"
      and t': "t' = end_operation i (set_ofd i (\<lambda>_. e') (set_ofd i (\<lambda>e. e\<lparr>active_operations := active_operations e + 1\<rparr>) t))"
      using assms(1,3) False c
      by (auto simp: hl_linux_read_def run_operation_def begin_operation_def unguarded_def ofd_at_set_ofd split: prod.splits)
    have "r \<le> uint n \<and> e' = (if 0 < r then advance r ?e else ?e) \<and> r < 2 ^ 63"
    proof -
      have f: "fails x < 2 ^ 63" for x using failure_bounds(1) [of x] by simp
      have a: "advance x ?e = ?e" if "x \<le> 0" for x using that by (simp add: advance_def)
      have tb: "transfer_result y k \<le> uint k" "transfer_result y k < 2 ^ 63" for y k using transfer_bound [of y k] by simp_all
      have tz: "\<not> 0 < transfer_result y 0" for y using tb(1) [of y 0] by simp
      show ?thesis
        using b assms(2)
        by (auto simp: read_body_def Let_def not_less f a neg tb tz simp del: power_numeral split: if_splits option.splits)
    qed
    then have e': "r \<le> uint n" "r < 2 ^ 63" "e' = (if 0 < r then advance r ?e else ?e)" by simp_all
    have o: "ofd_at t' j = (if j = i then e'\<lparr>active_operations := active_operations e' - 1\<rparr> else ofd_at t j)" for j
      using c by (simp add: t' end_operation_def ofd_at_set_ofd)
    have "\<exists>x. ofd_at t' i = (ofd_at t i)\<lparr>ofd_offset := x\<rparr> \<and>
      uint x = (if 0 < r \<and> uint (ofd_offset (ofd_at t i)) + r < 2 ^ 64 then uint (ofd_offset (ofd_at t i)) + r
        else uint (ofd_offset (ofd_at t i)))"
    proof (cases "0 < r")
      case True
      note a = advance_exact [OF True e'(2), of ?e]
      have "ofd_at t' i = (ofd_at t i)\<lparr>ofd_offset := ofd_offset (advance r ?e)\<rparr>"
        using True by (simp add: o e'(3) advance_def)
      with a True show ?thesis by auto
    next
      case False
      then show ?thesis by (auto simp: o e'(3) intro: exI [of _ "ofd_offset (ofd_at t i)"])
    qed
    with e'(1) o show ?thesis by (simp add: t' end_operation_def)
  qed
qed

definition example_io_host :: io_host where
  "example_io_host = \<lparr>io_files = True, io_read = Some (\<lambda>handle n. (S_OK, min n 5)), io_read_at = None, io_write_at = None,
     io_write = (\<lambda>_ _. (S_IO, 0)), io_append = (\<lambda>_ _. (S_IO, 0)), io_seek = None, io_vector = (\<lambda>_ _. None),
     io_control = (\<lambda>_. None), io_sync_range = None, io_sync_filesystem = None, io_metadata = None, io_map_file = None,
     io_set_stream_flags = None, obj_read = (\<lambda>_. None), obj_write = (\<lambda>_. None), obj_status = (\<lambda>_. None),
     obj_set_flags = (\<lambda>_. None)\<rparr>"

theorem fd_read_advances_witness:
  "\<exists>t'. hl_linux_read example_io_host 0 False 100 example_opened = (5, t') \<and> uint (ofd_offset (ofd_at t' 1)) = 5"
proof -
  have g: "hl_linux_fd_get_unlocked example_opened 0 = Inr 1"
    by (simp add: hl_linux_fd_get_unlocked_def example_opened_def fd_capacity_def ofd_capacity_def
        fd_at_def ofd_at_def HL_LINUX_FD_RESERVED_def example_ofd_def)
  have o: "object_ops (ofd_at example_opened 1) = None" "ofd_offset (ofd_at example_opened 1) = 0"
    by (simp_all add: example_opened_def ofd_at_def example_ofd_def)
  obtain t' where r: "hl_linux_read example_io_host 0 False 100 example_opened = (5, t')"
    unfolding hl_linux_read_def run_operation_def example_begin sum.case prod.case
    by (simp add: read_body_def example_io_host_def ofd_at_def example_ofd_def access_is_def HL_LINUX_O_PATH_def
        HL_LINUX_O_ACCMODE_def HL_LINUX_O_WRONLY_def transfer_result_def INT64_MAX_def min_def Let_def)
  from fd_read_advances [OF g o(1) r] o(2) r show ?thesis by auto
qed

section \<open>Close on exec\<close>

definition zero_fd :: "fd_entry \<Rightarrow> fd_entry" where
  "zero_fd e = \<lparr>fd_ofd = 0, descriptor_flags = 0, fd_generation = fd_generation e + 1\<rparr>"

text \<open>A whole close always returns, clears its descriptor and keeps the table right.\<close>

lemma close_full:
  assumes t: "shape_ok t" "slots_ok t A C D S" and g: "hl_linux_fd_get_unlocked t fd = Inr i"
  shows "\<exists>st handle t' evs. hl_linux_fd_close h retires fd t = Some (st, handle, t', evs) \<and> shape_ok t' \<and> slots_ok t' A C D S \<and>
    fds t' = fds (set_fd fd zero_fd t) \<and> ofd_capacity t' = ofd_capacity t"
proof -
  note gi = fd_get_Inr [OF g]
  note l = live_slot_not [OF t(1) gi(3)]
  have "\<exists>p t'. close_locked fd t = Inr (p, t')" using gi l by (simp add: close_locked_def Let_def)
  then obtain p t1 where p: "close_locked fd t = Inr (p, t1)" by blast
  note q = close_locked_eq [OF t(1) p] and c = close_ok [OF t p]
  have t1: "fds t1 = fds (set_fd fd zero_fd t)" "ofd_capacity t1 = ofd_capacity t"
    unfolding q(4) zero_fd_def by simp_all
  have z: "C i = 0" "D i = 0"
    using slot_okD [OF t(2) gi(3)] unlocked_references(1) [OF t(2) gi(3)] gi(5) by (auto simp: slot_ok_def)
  have pi: "cp_ofd p = i" using q(3) gi(2) by simp
  show ?thesis
  proof (cases "cp_finalize p")
    case False
    then have "hl_linux_fd_close h retires fd t = Some (S_OK, 0, t1, retire_events retires (cp_retire p))"
      by (simp add: hl_linux_fd_close_def p)
    moreover have "slots_ok t1 A C D S" using c(2) False by simp
    ultimately show ?thesis using c(1) t1 by blast
  next
    case True
    let ?C = "\<lambda>j. C j + (if j = i then 1 else 0)" and ?D = "\<lambda>j. D j + (if j = i then 1 else 0)"
    have s1: "slots_ok t1 A ?C D S" using c(2) True by (simp add: pi)
    have lv: "live_slot t1 i" using gi(3) t1(2) by (simp add: live_slot_def)
    have "0 < ?C i" "\<And>j. C j = ?C j - (if j = i then 1 else 0)" by simp_all
    from claim_ok [where C' = C and D' = ?D, OF c(1) s1 lv this refl] obtain handle ob t2 where
      cl: "claim_ofd i t1 = Claimed handle ob t2" "shape_ok t2" "slots_ok t2 A C ?D S" "io_mutex (ofd_at t2 i) = io_mutex (ofd_at t1 i)"
      by blast
    have t2: "fds t2 = fds t1" "ofd_capacity t2 = ofd_capacity t1" using cl(1) by (auto simp: claim_ofd_def Let_def split: if_splits)
    have "live_slot t2 i" "0 < ?D i" "\<And>j. D j = ?D j - (if j = i then 1 else 0)" using lv t2(2) by (simp_all add: live_slot_def)
    from release_ok [where D' = D, OF cl(2,3) this(1,2) cl(4) this(3)] obtain t3 where
      r: "release_ofd i (io_mutex (ofd_at t1 i)) t2 = (S_OK, t3)" "shape_ok t3" "slots_ok t3 A C D S" by blast
    have t3: "fds t3 = fds t2" "ofd_capacity t3 = ofd_capacity t2" using r(1) by (auto simp: release_ofd_def Let_def split: if_splits)
    have "\<exists>st evs. hl_linux_ofd_finalize h i t1 = Some (st, handle, t3, evs)"
      by (simp add: hl_linux_ofd_finalize_def Let_def cl(1) r(1))
    then obtain st evs where f: "hl_linux_ofd_finalize h i t1 = Some (st, handle, t3, evs)" by blast
    have "hl_linux_fd_close h retires fd t = Some (st, handle, t3, retire_events retires (cp_retire p) @ evs)"
      by (simp add: hl_linux_fd_close_def p True pi f)
    then show ?thesis using r(2,3) t1 t2 t3 by auto
  qed
qed

lemma exec_one:
  assumes t: "shape_ok t" "slots_ok t A C D S" "abi t = HL_LINUX_ABI_VERSION" and c: "c < fd_capacity t" "exec_candidate (fds t ! c)"
  shows "\<exists>st t' evs. hl_linux_fd_exec h retires (of_nat c) t = Some (True, st, t', evs) \<and> shape_ok t' \<and> slots_ok t' A C D S \<and>
    fds t' = (fds t)[c := zero_fd (fds t ! c)] \<and> abi t' = HL_LINUX_ABI_VERSION"
proof -
  let ?fd = "of_nat c :: u32"
  have "fd_capacity t \<le> 65536" using t(1) by (simp add: shape_ok_def fd_capacity_def HL_LINUX_FD_LIMIT_def)
  then have u: "unat ?fd = c" using c(1) by (simp add: unat_of_nat)
  have at: "fd_at t ?fd = fds t ! c" by (simp add: fd_at_def u)
  have e: "fd_ofd (fd_at t ?fd) \<noteq> 0" "fd_ofd (fd_at t ?fd) \<noteq> HL_LINUX_FD_RESERVED" "descriptor_flags (fd_at t ?fd) AND HL_LINUX_FD_CLOEXEC \<noteq> 0"
    using c(2) by (simp_all add: at exec_candidate_def)
  have cc: "unat ?fd < fd_capacity t" using c(1) u by simp
  from close_full [OF t(1,2) get_unlocked_live [OF t(1,2) cc e(1,2)], of h retires] obtain st handle t' evs where
    cl: "hl_linux_fd_close h retires ?fd t = Some (st, handle, t', evs)" "shape_ok t'" "slots_ok t' A C D S"
      "fds t' = fds (set_fd ?fd zero_fd t)" by blast
  have "abi t' = abi t"
  proof -
    have ab: "abi (set_fd fd f x) = abi x" "abi (set_ofd i g x) = abi x" for fd f i g x by (simp_all add: set_fd_def set_ofd_def)
    have "abi t2 = abi x" if "hl_linux_ofd_finalize h i x = Some (st2, h2, t2, ev2)" for i x st2 h2 t2 ev2
      using that by (auto simp: hl_linux_ofd_finalize_def claim_ofd_def release_ofd_def Let_def ab
          split: if_splits finalize_claim.splits prod.splits hl_status.splits)
    then show ?thesis using cl(1)
      by (fastforce simp: hl_linux_fd_close_def close_locked_def Let_def ab split: sum.splits if_splits)
  qed
  with cl t(3) e cc show ?thesis
    by (auto simp: hl_linux_fd_exec_def set_fd_def u at split: if_splits)
qed

definition swept :: "nat \<Rightarrow> nat \<Rightarrow> fd_entry list \<Rightarrow> fd_entry list" where
  "swept lo hi es = map (\<lambda>k. if lo \<le> k \<and> k < hi \<and> exec_candidate (es ! k) then zero_fd (es ! k) else es ! k) [0..<length es]"

lemma swept_step:
  assumes "lo \<le> c" "c < hi" "hi \<le> length es" "exec_candidate (es ! c)" "\<And>k. lo \<le> k \<Longrightarrow> k < c \<Longrightarrow> \<not> exec_candidate (es ! k)"
  shows "swept (c + 1) hi (es[c := zero_fd (es ! c)]) = swept lo hi es"
    "filter (\<lambda>k. exec_candidate (es[c := zero_fd (es ! c)] ! k)) [c + 1..<hi] = filter (\<lambda>k. exec_candidate (es ! k)) [c + 1..<hi]"
    "filter (\<lambda>k. exec_candidate (es ! k)) [lo..<hi] = c # filter (\<lambda>k. exec_candidate (es ! k)) [c + 1..<hi]"
proof -
  show "swept (c + 1) hi (es[c := zero_fd (es ! c)]) = swept lo hi es"
    using assms by (intro nth_equalityI) (auto simp: swept_def nth_list_update not_less_eq_eq)
  show "filter (\<lambda>k. exec_candidate (es[c := zero_fd (es ! c)] ! k)) [c + 1..<hi] = filter (\<lambda>k. exec_candidate (es ! k)) [c + 1..<hi]"
    by (intro filter_cong) auto
  have "[lo..<hi] = [lo..<c] @ c # [c + 1..<hi]" using assms(1,2) by (metis Suc_eq_plus1 le_add_diff_inverse upt_add_eq_append upt_conv_Cons less_imp_le)
  moreover have "filter (\<lambda>k. exec_candidate (es ! k)) [lo..<c] = []" using assms(5) by (auto simp: filter_empty_conv)
  ultimately show "filter (\<lambda>k. exec_candidate (es ! k)) [lo..<hi] = c # filter (\<lambda>k. exec_candidate (es ! k)) [c + 1..<hi]"
    using assms(4) by simp
qed

lemma exec_from_exact:
  assumes "shape_ok t" "slots_ok t A C D S" "abi t = HL_LINUX_ABI_VERSION" "capacity = fd_capacity t"
  shows "\<exists>st t' evs. exec_from h retires cursor capacity t =
      Some (st, map of_nat (filter (\<lambda>k. exec_candidate (fds t ! k)) [cursor..<capacity]), t', evs) \<and>
    fds t' = swept cursor capacity (fds t) \<and> shape_ok t' \<and> slots_ok t' A C D S"
  using assms
proof (induction h retires cursor capacity t rule: exec_from.induct)
  case (1 h retires cursor capacity t)
  show ?case
  proof (cases "List.find (\<lambda>c. exec_candidate (fds t ! c)) [cursor..<capacity]")
    case None
    then have n: "\<not> exec_candidate (fds t ! k)" if "cursor \<le> k" "k < capacity" for k using that by (auto simp: find_None_iff)
    then have "filter (\<lambda>k. exec_candidate (fds t ! k)) [cursor..<capacity] = []" by (auto simp: filter_empty_conv)
    moreover have "swept cursor capacity (fds t) = fds t" using n by (intro nth_equalityI) (auto simp: swept_def)
    ultimately show ?thesis using None 1 by (simp add: exec_from.simps)
  next
    case (Some c)
    then obtain m where m: "m < length [cursor..<capacity]" "exec_candidate (fds t ! c)" "c = [cursor..<capacity] ! m"
      "\<forall>j < m. \<not> exec_candidate (fds t ! ([cursor..<capacity] ! j))" by (auto simp: find_Some_iff)
    then have c: "cursor \<le> c" "c < capacity" by auto
    have before: "\<not> exec_candidate (fds t ! k)" if "cursor \<le> k" "k < c" for k
      using m(4) [rule_format, of "k - cursor"] m(1,3) that by auto
    have cap: "capacity \<le> length (fds t)" using 1(5) by (simp add: fd_capacity_def)
    from exec_one [OF 1(2-4), of c h retires] c m(2) 1(5) obtain st t1 evs where
      e: "hl_linux_fd_exec h retires (of_nat c) t = Some (True, st, t1, evs)" "shape_ok t1" "slots_ok t1 A C D S"
        "fds t1 = (fds t)[c := zero_fd (fds t ! c)]" "abi t1 = HL_LINUX_ABI_VERSION" by auto
    have "capacity = fd_capacity t1" using 1(5) by (simp add: fd_capacity_def e(4))
    from 1(1) [OF Some e(1) refl refl refl e(2,3,5) this] obtain st' t2 evs' where
      r: "exec_from h retires (c + 1) capacity t1 = Some (st', map of_nat (filter (\<lambda>k. exec_candidate (fds t1 ! k)) [c + 1..<capacity]), t2, evs')"
        "fds t2 = swept (c + 1) capacity (fds t1)" "shape_ok t2" "slots_ok t2 A C D S" by blast
    note sw = swept_step [OF c cap m(2) before]
    have "exec_from h retires cursor capacity t = Some (if st \<noteq> S_OK then st else st',
        map of_nat (filter (\<lambda>k. exec_candidate (fds t ! k)) [cursor..<capacity]), t2, evs @ evs')"
      using sw(2,3) r(1) by (subst exec_from.simps) (simp add: Some e(1,4) del: upt_Suc)
    moreover have "fds t2 = swept cursor capacity (fds t)" using r(2) sw(1) by (simp only: e(4))
    ultimately show ?thesis using r(3,4) by blast
  qed
qed

text \<open>The close-on-exec sweep is complete and selective: it always returns, reports exactly the
  descriptors marked close-on-exec in ascending order, clears exactly those, and leaves every other
  descriptor, reserved ones included, as it was, even while operations are in flight.\<close>

theorem fd_exec_sweep_exact:
  assumes "fd_reachable w" "abi (table w) = HL_LINUX_ABI_VERSION"
  shows "\<exists>st t' evs. hl_linux_fd_exec_all h retires (table w) =
      Some (st, map of_nat (filter (\<lambda>k. exec_candidate (fds (table w) ! k)) [0..<fd_capacity (table w)]), t', evs) \<and>
    length (fds t') = length (fds (table w)) \<and>
    (\<forall>k. k < length (fds (table w)) \<longrightarrow> fds t' ! k =
      (if exec_candidate (fds (table w) ! k) then zero_fd (fds (table w) ! k) else fds (table w) ! k))"
proof -
  note v = fd_invD [OF fd_reachableD [OF assms(1)]]
  from exec_from_exact [OF v(1,2) assms(2) refl, of h retires 0] assms(2) show ?thesis
    by (auto simp: hl_linux_fd_exec_all_def swept_def fd_capacity_def)
qed

theorem fd_exec_sweep_exact_witness:
  "\<exists>st t' evs. hl_linux_fd_exec_all example_fd_host (\<lambda>_. False) example_opened = Some (st, [0], t', evs)"
proof -
  have "filter (\<lambda>k. exec_candidate (fds example_opened ! k)) [0..<2] = [0]"
    by (simp add: upt_rec [of 0] upt_rec [of 1] upt_rec [of 2] numeral_2_eq_2 exec_candidate_def example_opened_def HL_LINUX_FD_RESERVED_def
        HL_LINUX_FD_CLOEXEC_def empty_fd_def)
  moreover have "fd_capacity (table opened_world) = 2" "abi (table opened_world) = HL_LINUX_ABI_VERSION"
    by (simp_all add: opened_world_def example_opened_def fd_capacity_def)
  ultimately show ?thesis
    using fd_exec_sweep_exact [OF opened_reachable, of example_fd_host "\<lambda>_. False"] by (auto simp: opened_world_def)
qed

end
