(* ===== verification/Fd_Fork.thy ===== *)
theory Fd_Fork
  imports Fd_World
begin

text \<open>
  Forking the descriptor table (\<open>linux_abi/fork_snapshot.c\<close>, \<open>linux_abi/fork_completion.c\<close> and the three
  helpers of \<open>linux_abi/context.c\<close>).  \<open>hl_linux_abi_fork_prepare\<close> pins every live description, clones what
  it holds outside the table lock, checks under the lock that nothing changed meanwhile, and keeps the lock
  until the parent's or the child's completion.  What other threads do while the lock is free is an argument;
  the answers of the host and of the object adapters are \<open>fork_host\<close>.
\<close>

section \<open>Records and plans\<close>

record fork_record =
  fr_ofd :: u32
  fr_generation :: u32
  parent_handle :: u64
  child_handle :: u64
  child_mutex :: u64
  fr_ops :: "nat option"
  parent_context :: u64
  child_context :: u64
  snapshot_pin :: u32

record fork_plan =
  plan_records :: "fork_record list"
  armed :: bool
  host_completed :: bool

text \<open>An adapter without a \<open>clone\<close> operation is \<open>None\<close>.\<close>

record fork_host =
  prepare_services :: bool
  parent_services :: bool
  child_services :: bool
  fork_safe :: "nat \<Rightarrow> bool"
  clone_object :: "nat \<Rightarrow> (u64 \<Rightarrow> hl_status \<times> u64) option"
  clone_file :: "u64 \<Rightarrow> hl_status \<times> u64"
  arm_status :: hl_status
  parent_status :: hl_status
  child_status :: hl_status
  new_mutex :: "nat \<Rightarrow> hl_status \<times> u64"
  close_status :: "host_event \<Rightarrow> hl_status"

section \<open>Helpers\<close>

definition hl_linux_ofd_finalize_owned ::
  "fd_host \<Rightarrow> u32 \<Rightarrow> linux_abi \<Rightarrow> (hl_status \<times> linux_abi \<times> host_event list) option" where
  "hl_linux_ofd_finalize_owned h i t =
    map_option (\<lambda>(st, handle, t1, evs).
      if handle = 0 then (st, t1, evs)
      else if \<not> has_files h then (if st = S_OK then S_NOT_SUPPORTED else st, t1, evs)
      else (first_failure st (file_close h), t1, evs @ [File_Closed handle]))
    (hl_linux_ofd_finalize h i t)"

text \<open>Whether the end of an operation on this description leaves its finalisation to the caller.\<close>

definition last_out :: "ofd_entry \<Rightarrow> bool" where
  "last_out e \<longleftrightarrow> active_operations e = 0 \<and> ofd_references e = 0 \<and> closing e \<noteq> 0"

definition leave_ofd :: "ofd_entry \<Rightarrow> ofd_entry" where
  "leave_ofd e = e\<lparr>active_operations := active_operations e - 1\<rparr>"

fun hl_linux_fork_unpin :: "fd_host \<Rightarrow> fork_record list \<Rightarrow> linux_abi \<Rightarrow> (linux_abi \<times> host_event list) option" where
  "hl_linux_fork_unpin h [] t = Some (t, [])"
| "hl_linux_fork_unpin h (r # rs) t =
    (let e = ofd_at t (fr_ofd r) in
     if snapshot_pin r = 0 \<or> unat (fr_ofd r) \<ge> ofd_capacity t then hl_linux_fork_unpin h rs t
     else if ofd_generation e = fr_generation r \<and> active_operations e \<noteq> 0 then
       (let t1 = set_ofd (fr_ofd r) leave_ofd t in
        if last_out (leave_ofd e) then
          (case hl_linux_ofd_finalize_owned h (fr_ofd r) t1 of
             None \<Rightarrow> None
           | Some (st, t2, evs) \<Rightarrow> map_option (\<lambda>(t3, evs'). (t3, evs @ evs')) (hl_linux_fork_unpin h rs t2))
        else hl_linux_fork_unpin h rs t1)
     else hl_linux_fork_unpin h rs t)"

fun abort_pins :: "fork_record list \<Rightarrow> linux_abi \<Rightarrow> linux_abi" where
  "abort_pins [] t = t"
| "abort_pins (r # rs) t =
    abort_pins rs
      (if snapshot_pin r = 0 \<or> unat (fr_ofd r) \<ge> ofd_capacity t then t
       else if ofd_generation (ofd_at t (fr_ofd r)) = fr_generation r
       then set_ofd (fr_ofd r) (\<lambda>e. e\<lparr>active_operations := 1\<rparr>) t
       else t)"

definition hl_linux_fork_child_abort ::
  "fd_host \<Rightarrow> fork_record list \<Rightarrow> linux_abi \<Rightarrow> (linux_abi \<times> host_event list) option" where
  "hl_linux_fork_child_abort h rs t = hl_linux_fork_unpin h rs (abort_pins rs t)"

definition close_child :: "fork_record \<Rightarrow> host_event" where
  "close_child r = (case fr_ops r of Some ops \<Rightarrow> Object_Closed ops (child_context r) | None \<Rightarrow> File_Closed (child_handle r))"

definition close_parent :: "fork_record \<Rightarrow> host_event" where
  "close_parent r = (case fr_ops r of Some ops \<Rightarrow> Object_Closed ops (parent_context r) | None \<Rightarrow> File_Closed (parent_handle r))"

text \<open>The copies are closed from the last to the first.\<close>

definition hl_linux_fork_discard_children :: "fork_record list \<Rightarrow> host_event list" where
  "hl_linux_fork_discard_children rs = map close_child (rev rs)"

section \<open>The snapshot\<close>

definition fork_unsafe :: "fork_host \<Rightarrow> ofd_entry \<Rightarrow> bool" where
  "fork_unsafe fh e = (case object_ops e of None \<Rightarrow> False | Some ops \<Rightarrow> \<not> fork_safe fh ops)"

definition pin_record :: "u32 \<Rightarrow> ofd_entry \<Rightarrow> fork_record" where
  "pin_record i e = \<lparr>fr_ofd = i, fr_generation = ofd_generation e, parent_handle = host_handle e, child_handle = 0,
     child_mutex = 0, fr_ops = object_ops e, parent_context = object_context e, child_context = 0, snapshot_pin = 1\<rparr>"

definition enter_ofd :: "ofd_entry \<Rightarrow> ofd_entry" where
  "enter_ofd e = e\<lparr>active_operations := active_operations e + 1\<rparr>"

datatype snapshot =
    Snapshot_Busy linux_abi
  | Snapshot_Full "fork_record list" linux_abi
  | Snapshot_Taken "fork_record list" linux_abi

fun snapshot_from :: "fork_host \<Rightarrow> nat \<Rightarrow> u32 list \<Rightarrow> fork_record list \<Rightarrow> linux_abi \<Rightarrow> snapshot" where
  "snapshot_from fh capacity [] rs t = Snapshot_Taken rs t"
| "snapshot_from fh capacity (i # is) rs t =
    (let e = ofd_at t i in
     if ofd_references e = 0 then snapshot_from fh capacity is rs t
     else if active_operations e \<noteq> 0 \<and> fork_unsafe fh e then Snapshot_Busy t
     else if closing e \<noteq> 0 then Snapshot_Busy t
     else if length rs = capacity then Snapshot_Full rs t
     else snapshot_from fh capacity is (rs @ [pin_record i e]) (set_ofd i enter_ofd t))"

definition ofd_indices :: "nat \<Rightarrow> u32 list" where
  "ofd_indices n = map of_nat [1 ..< n]"

section \<open>Cloning\<close>

definition clone_record :: "fork_host \<Rightarrow> fork_record \<Rightarrow> hl_status \<times> fork_record" where
  "clone_record fh r =
    (case fr_ops r of
       Some ops \<Rightarrow>
         (case clone_object fh ops of
            None \<Rightarrow> (S_NOT_SUPPORTED, r)
          | Some clone \<Rightarrow>
              (let (st, c) = clone (parent_context r)
               in (if st = S_OK \<and> c = 0 then S_PLATFORM_FAILURE else st, r\<lparr>child_context := c\<rparr>)))
     | None \<Rightarrow>
         (let (st, c) = clone_file fh (parent_handle r)
          in (if st = S_OK \<and> c = 0 then S_PLATFORM_FAILURE else st, r\<lparr>child_handle := c\<rparr>)))"

text \<open>The status, the records already cloned and those not cloned.\<close>

fun clone_records ::
  "fork_host \<Rightarrow> fork_record list \<Rightarrow> fork_record list \<Rightarrow> hl_status \<times> fork_record list \<times> fork_record list" where
  "clone_records fh cloned [] = (S_OK, cloned, [])"
| "clone_records fh cloned (r # rs) =
    (let (st, r') = clone_record fh r
     in if st = S_OK then clone_records fh (cloned @ [r']) rs else (st, cloned, r' # rs))"

section \<open>Arming\<close>

datatype arm_check = Arm_Ready | Arm_Busy | Arm_Changed

definition record_names :: "linux_abi \<Rightarrow> fork_record \<Rightarrow> bool" where
  "record_names t r \<longleftrightarrow>
    (let e = ofd_at t (fr_ofd r) in
     ofd_generation e = fr_generation r \<and> host_handle e = parent_handle r \<and> object_ops e = fr_ops r \<and>
     object_context e = parent_context r)"

fun arm_entries :: "fork_host \<Rightarrow> fork_record list \<Rightarrow> u32 list \<Rightarrow> linux_abi \<Rightarrow> arm_check" where
  "arm_entries fh rs [] t = Arm_Ready"
| "arm_entries fh rs (i # is) t =
    (let e = ofd_at t i; matches = length (filter (\<lambda>r. fr_ofd r = i \<and> record_names t r) rs) in
     if ofd_references e = 0 then arm_entries fh rs is t
     else if active_operations e > 1 \<and> fork_unsafe fh e then Arm_Busy
     else if matches \<noteq> 1 \<or> closing e \<noteq> 0 then Arm_Changed
     else arm_entries fh rs is t)"

definition arm_records :: "fork_record list \<Rightarrow> linux_abi \<Rightarrow> arm_check" where
  "arm_records rs t =
    (if list_all (\<lambda>r. unat (fr_ofd r) < ofd_capacity t \<and> ofd_references (ofd_at t (fr_ofd r)) \<noteq> 0 \<and> record_names t r) rs
     then Arm_Ready else Arm_Changed)"

definition arm_plan :: "fork_host \<Rightarrow> fork_record list \<Rightarrow> linux_abi \<Rightarrow> arm_check" where
  "arm_plan fh rs t =
    (case arm_entries fh rs (ofd_indices (ofd_capacity t)) t of
       Arm_Ready \<Rightarrow>
         (case arm_records rs t of
            Arm_Ready \<Rightarrow> if arm_status fh = S_OK then Arm_Ready else Arm_Busy
          | a \<Rightarrow> a)
     | a \<Rightarrow> a)"

section \<open>Preparation\<close>

datatype attempt = Attempt_Failed hl_status | Attempt_Changed | Attempt_Armed "fork_record list"

text \<open>One pass from \<open>retry_snapshot\<close>; \<open>other\<close> is what the other threads do while the objects are cloned.\<close>

definition fork_attempt ::
  "fd_host \<Rightarrow> fork_host \<Rightarrow> nat \<Rightarrow> (linux_abi \<Rightarrow> linux_abi) \<Rightarrow> linux_abi \<Rightarrow>
   (attempt \<times> linux_abi \<times> host_event list) option" where
  "fork_attempt h fh capacity other t =
    (if reserved_fds t \<noteq> 0 then Some (Attempt_Failed S_BUSY, t, [])
     else case snapshot_from fh capacity (ofd_indices (unat (ofd_watermark t))) [] t of
         Snapshot_Busy t1 \<Rightarrow> Some (Attempt_Failed S_BUSY, t1, [])
       | Snapshot_Full rs t1 \<Rightarrow>
           map_option (\<lambda>(t2, evs). (Attempt_Failed S_RESOURCE_LIMIT, t2, evs)) (hl_linux_fork_unpin h rs t1)
       | Snapshot_Taken rs t1 \<Rightarrow>
           (let t2 = other t1; (st, cloned, rest) = clone_records fh [] rs in
            if st \<noteq> S_OK then
              map_option (\<lambda>(t3, evs). (Attempt_Failed st, t3, hl_linux_fork_discard_children cloned @ evs))
                (hl_linux_fork_unpin h (cloned @ rest) t2)
            else
              (case arm_plan fh cloned t2 of
                 Arm_Ready \<Rightarrow> Some (Attempt_Armed cloned, t2, [])
               | a \<Rightarrow>
                   map_option (\<lambda>(t3, evs). (if a = Arm_Changed then Attempt_Changed else Attempt_Failed S_BUSY, t3,
                       hl_linux_fork_discard_children cloned @ evs))
                     (hl_linux_fork_unpin h cloned t2))))"

text \<open>The retries, which end only when no other thread interferes with one of them.\<close>

partial_function (option) fork_attempts ::
  "fd_host \<Rightarrow> fork_host \<Rightarrow> nat \<Rightarrow> (nat \<Rightarrow> linux_abi \<Rightarrow> linux_abi) \<Rightarrow> nat \<Rightarrow> linux_abi \<Rightarrow>
   (attempt \<times> linux_abi \<times> host_event list) option" where
  "fork_attempts h fh capacity others n t =
    (case fork_attempt h fh capacity (others n) t of
       None \<Rightarrow> None
     | Some (a, t1, evs) \<Rightarrow>
         (if a = Attempt_Changed then
            Option.bind (fork_attempts h fh capacity others (Suc n) t1) (\<lambda>(a', t2, evs'). Some (a', t2, evs @ evs'))
          else Some (a, t1, evs)))"

definition hl_linux_abi_fork_prepare ::
  "fd_host \<Rightarrow> fork_host \<Rightarrow> nat \<Rightarrow> (nat \<Rightarrow> linux_abi \<Rightarrow> linux_abi) \<Rightarrow> linux_abi \<Rightarrow>
   ((hl_status + fork_plan) \<times> linux_abi \<times> host_event list) option" where
  "hl_linux_abi_fork_prepare h fh capacity others t =
    (if abi t \<noteq> HL_LINUX_ABI_VERSION then Some (Inl S_INVALID_ARGUMENT, t, [])
     else if \<not> prepare_services fh then Some (Inl S_NOT_SUPPORTED, t, [])
     else map_option (\<lambda>(a, t1, evs).
         (case a of
            Attempt_Armed rs \<Rightarrow> Inr \<lparr>plan_records = rs, armed = True, host_completed = False\<rparr>
          | Attempt_Failed st \<Rightarrow> Inl st
          | Attempt_Changed \<Rightarrow> Inl S_BUSY, t1, evs))
       (fork_attempts h fh capacity others 0 t))"

definition hl_linux_abi_fork_host_completed :: "fork_plan \<Rightarrow> hl_status \<times> fork_plan" where
  "hl_linux_abi_fork_host_completed p =
    (if \<not> armed p \<or> host_completed p then (S_INVALID_ARGUMENT, p) else (S_OK, p\<lparr>host_completed := True\<rparr>))"

section \<open>Completion in the parent\<close>

text \<open>The section under the lock; a pin of 2 asks for the finalisation after it.\<close>

fun parent_release :: "fork_record list \<Rightarrow> linux_abi \<Rightarrow> fork_record list \<times> linux_abi" where
  "parent_release [] t = ([], t)"
| "parent_release (r # rs) t =
    (let e = ofd_at t (fr_ofd r) in
     if snapshot_pin r \<noteq> 0 \<and> unat (fr_ofd r) < ofd_capacity t then
       (if ofd_generation e = fr_generation r \<and> active_operations e \<noteq> 0 then
          (let (rs', t') = parent_release rs (set_ofd (fr_ofd r) leave_ofd t)
           in (r\<lparr>snapshot_pin := if last_out (leave_ofd e) then 2 else 0\<rparr> # rs', t'))
        else let (rs', t') = parent_release rs t in (r\<lparr>snapshot_pin := 0\<rparr> # rs', t'))
     else let (rs', t') = parent_release rs t in (r # rs', t'))"

fun parent_finalize :: "fd_host \<Rightarrow> fork_record list \<Rightarrow> linux_abi \<Rightarrow> (linux_abi \<times> host_event list) option" where
  "parent_finalize h [] t = Some (t, [])"
| "parent_finalize h (r # rs) t =
    (if snapshot_pin r \<noteq> 2 \<or> unat (fr_ofd r) \<ge> ofd_capacity t \<or> ofd_generation (ofd_at t (fr_ofd r)) \<noteq> fr_generation r
     then parent_finalize h rs t
     else case hl_linux_ofd_finalize_owned h (fr_ofd r) t of
         None \<Rightarrow> None
       | Some (st, t1, evs) \<Rightarrow> map_option (\<lambda>(t2, evs'). (t2, evs @ evs')) (parent_finalize h rs t1))"

definition hl_linux_abi_fork_parent ::
  "fd_host \<Rightarrow> fork_host \<Rightarrow> fork_plan \<Rightarrow> linux_abi \<Rightarrow> (hl_status \<times> linux_abi \<times> host_event list) option" where
  "hl_linux_abi_fork_parent h fh p t =
    (if \<not> parent_services fh then Some (S_NOT_SUPPORTED, t, [])
     else if \<not> armed p then Some (S_INVALID_ARGUMENT, t, [])
     else
       (let completed = (if host_completed p then S_OK else parent_status fh);
            (rs, t1) = parent_release (plan_records p) t
        in map_option (\<lambda>(t2, evs).
             (let closes = map close_child (rev rs)
              in (foldl first_failure completed (map (close_status fh) closes), t2, evs @ closes)))
           (parent_finalize h rs t1)))"

section \<open>Completion in the child\<close>

text \<open>The first pass checks the records and makes a mutex for each; a failure gives what was made.\<close>

fun child_validate ::
  "fork_host \<Rightarrow> linux_abi \<Rightarrow> nat \<Rightarrow> fork_record list \<Rightarrow> fork_record list \<Rightarrow> (hl_status \<times> u64 list) + fork_record list" where
  "child_validate fh t k made [] = Inr made"
| "child_validate fh t k made (r # rs) =
    (if unat (fr_ofd r) \<ge> ofd_capacity t \<or> \<not> record_names t r then Inl (S_CORRUPT, map child_mutex (rev made))
     else let (st, m) = new_mutex fh k in
       if st \<noteq> S_OK \<or> m = 0 then Inl (if st = S_OK then S_PLATFORM_FAILURE else st, map child_mutex (rev made))
       else child_validate fh t (Suc k) (made @ [r\<lparr>child_mutex := m\<rparr>]) rs)"

fun child_install :: "fork_record list \<Rightarrow> linux_abi \<Rightarrow> linux_abi \<times> host_event list" where
  "child_install [] t = (t, [])"
| "child_install (r # rs) t =
    (let old = io_mutex (ofd_at t (fr_ofd r));
         t1 = set_ofd (fr_ofd r) (\<lambda>e.
           (case fr_ops r of
              Some _ \<Rightarrow> e\<lparr>active_operations := 0, io_mutex := child_mutex r, object_context := child_context r\<rparr>
            | None \<Rightarrow> e\<lparr>active_operations := 0, io_mutex := child_mutex r, host_handle := child_handle r\<rparr>)) t;
         (t2, evs) = child_install rs t1
     in (t2, [Mutex_Closed old, close_parent r] @ evs))"

definition child_fails ::
  "fd_host \<Rightarrow> hl_status \<Rightarrow> fork_record list \<Rightarrow> host_event list \<Rightarrow> linux_abi \<Rightarrow>
   (hl_status \<times> linux_abi \<times> host_event list) option" where
  "child_fails h st rs evs t =
    map_option (\<lambda>(t1, evs'). (st, t1, evs @ evs' @ hl_linux_fork_discard_children rs)) (hl_linux_fork_child_abort h rs t)"

definition hl_linux_abi_fork_child ::
  "fd_host \<Rightarrow> fork_host \<Rightarrow> fork_plan \<Rightarrow> linux_abi \<Rightarrow> (hl_status \<times> linux_abi \<times> host_event list) option" where
  "hl_linux_abi_fork_child h fh p t =
    (if \<not> child_services fh \<or> \<not> armed p then Some (S_NOT_SUPPORTED, t, [])
     else
       (let completed = (if host_completed p then S_OK else child_status fh) in
        if completed \<noteq> S_OK then child_fails h completed (plan_records p) [] t
        else case child_validate fh t 0 [] (plan_records p) of
            Inl (st, mutexes) \<Rightarrow> child_fails h st (plan_records p) (map Mutex_Closed mutexes) t
          | Inr rs \<Rightarrow> (let (t1, evs) = child_install rs t in Some (S_OK, t1, evs))))"

section \<open>Spawning\<close>

record spawn_host =
  process_services :: bool
  records_allocated :: bool
  spawn_prepared :: "hl_status \<times> u64"

text \<open>The parent's side; the child runs \<open>hl_linux_spawn_entry\<close>.\<close>

definition hl_linux_abi_spawn ::
  "fd_host \<Rightarrow> fork_host \<Rightarrow> spawn_host \<Rightarrow> (nat \<Rightarrow> linux_abi \<Rightarrow> linux_abi) \<Rightarrow> linux_abi \<Rightarrow>
   ((hl_status + u64) \<times> linux_abi \<times> host_event list) option" where
  "hl_linux_abi_spawn h fh sh others t =
    (if abi t \<noteq> HL_LINUX_ABI_VERSION then Some (Inl S_INVALID_ARGUMENT, t, [])
     else if \<not> process_services sh then Some (Inl S_NOT_SUPPORTED, t, [])
     else if \<not> records_allocated sh then Some (Inl S_OUT_OF_MEMORY, t, [])
     else case hl_linux_abi_fork_prepare h fh (ofd_capacity t) others t of
         None \<Rightarrow> None
       | Some (Inl st, t1, evs) \<Rightarrow> Some (Inl st, t1, evs)
       | Some (Inr p, t1, evs) \<Rightarrow>
           (let (st, p') = hl_linux_abi_fork_host_completed p; (spawned, process) = spawn_prepared sh in
            if st \<noteq> S_OK then Some (Inl st, t1, evs)
            else map_option (\<lambda>(st', t2, evs').
                (if st' \<noteq> S_OK then Inl st'
                 else if spawned \<noteq> S_OK then Inl spawned
                 else if process = 0 then Inl S_PLATFORM_FAILURE
                 else Inr process, t2, evs @ evs'))
              (hl_linux_abi_fork_parent h fh p' t1)))"

definition hl_linux_spawn_entry ::
  "fd_host \<Rightarrow> fork_host \<Rightarrow> fork_plan \<Rightarrow> int \<Rightarrow> linux_abi \<Rightarrow> (int \<times> linux_abi \<times> host_event list) option" where
  "hl_linux_spawn_entry h fh p entry t =
    (let (st, p') = hl_linux_abi_fork_host_completed p in
     if st \<noteq> S_OK then Some (255, t, [])
     else map_option (\<lambda>(st', t1, evs). (if st' \<noteq> S_OK then 255 else entry, t1, evs)) (hl_linux_abi_fork_child h fh p' t))"

end
