(* ===== verification/Fd_Pins.thy ===== *)
theory Fd_Pins
  imports Fd_Fork Fd_Safety
begin

text \<open>
  Lemmas about forking: entering and leaving many descriptions at once, what the snapshot loop pins, how the
  pins are released, and the water mark that bounds the snapshot.
\<close>

section \<open>Entering and leaving many descriptions\<close>

definition in_table :: "linux_abi \<Rightarrow> u32 list \<Rightarrow> bool" where
  "in_table t is \<longleftrightarrow> distinct is \<and> (\<forall>i \<in> set is. unat i < ofd_capacity t)"

lemma in_table_simps [simp]:
  "in_table t []" "in_table t (i # is) \<longleftrightarrow> unat i < ofd_capacity t \<and> i \<notin> set is \<and> in_table t is"
  "in_table (set_ofd j g t) is = in_table t is"
  by (auto simp: in_table_def)

fun change_all :: "(ofd_entry \<Rightarrow> ofd_entry) \<Rightarrow> u32 list \<Rightarrow> linux_abi \<Rightarrow> linux_abi" where
  "change_all g [] t = t"
| "change_all g (i # is) t = change_all g is (set_ofd i g t)"

lemma change_all_append: "change_all g (is @ js) t = change_all g js (change_all g is t)"
  by (induction "is" arbitrary: t) simp_all

lemma change_all_fields [simp]:
  "fds (change_all g is t) = fds t" "ofd_capacity (change_all g is t) = ofd_capacity t"
  "fd_capacity (change_all g is t) = fd_capacity t" "reserved_fds (change_all g is t) = reserved_fds t"
  "ofd_watermark (change_all g is t) = ofd_watermark t" "abi (change_all g is t) = abi t"
  "length (ofds (change_all g is t)) = length (ofds t)"
  by (induction "is" arbitrary: t) (simp_all add: set_ofd_def ofd_capacity_def fd_capacity_def)

lemma ofd_at_change_all:
  "in_table t is \<Longrightarrow> ofd_at (change_all g is t) j = (if j \<in> set is then g (ofd_at t j) else ofd_at t j)"
  by (induction "is" arbitrary: t) (auto simp: ofd_at_set_ofd)

lemma table_eqI:
  assumes "fds t = fds t'" "length (ofds t) = length (ofds t')" "ofd_watermark t = ofd_watermark t'"
    "reserved_fds t = reserved_fds t'" "abi t = abi t'" "length (ofds t) \<le> HL_LINUX_OFD_LIMIT"
    "\<And>i. unat i < ofd_capacity t \<Longrightarrow> ofd_at t i = ofd_at t' i"
  shows "t = t'"
proof -
  have "ofds t ! k = ofds t' ! k" if "k < length (ofds t)" for k
  proof -
    have "unat (of_nat k :: u32) = k"
      using that assms(6) by (simp add: unat_of_nat take_bit_eq_mod HL_LINUX_OFD_LIMIT_def)
    with assms(7) [of "of_nat k"] that show ?thesis by (simp add: ofd_at_def ofd_capacity_def)
  qed
  with assms(2) have "ofds t = ofds t'" by (simp add: list_eq_iff_nth_eq)
  with assms show ?thesis by (intro linux_abi.equality) simp_all
qed

lemma leave_enter [simp]: "leave_ofd (enter_ofd e) = e"
  by (simp add: leave_ofd_def enter_ofd_def)

lemma enter_fields [simp]:
  "ofd_references (enter_ofd e) = ofd_references e" "closing (enter_ofd e) = closing e"
  "ofd_generation (enter_ofd e) = ofd_generation e" "host_handle (enter_ofd e) = host_handle e"
  "object_ops (enter_ofd e) = object_ops e" "object_context (enter_ofd e) = object_context e"
  "io_mutex (enter_ofd e) = io_mutex e" "active_operations (enter_ofd e) = active_operations e + 1"
  by (simp_all add: enter_ofd_def)

lemma leave_all_enter_all:
  assumes "in_table t is" "length (ofds t) \<le> HL_LINUX_OFD_LIMIT"
  shows "change_all leave_ofd is (change_all enter_ofd is t) = t"
proof (rule table_eqI)
  have e: "in_table (change_all enter_ofd is t) is" using assms(1) by (simp add: in_table_def)
  show "ofd_at (change_all leave_ofd is (change_all enter_ofd is t)) i = ofd_at t i" for i
    by (simp add: ofd_at_change_all [OF e] ofd_at_change_all [OF assms(1)])
qed (use assms(2) in simp_all)

section \<open>The snapshot\<close>

definition live_ofds :: "linux_abi \<Rightarrow> u32 list \<Rightarrow> u32 list" where
  "live_ofds t is = filter (\<lambda>i. ofd_references (ofd_at t i) \<noteq> 0) is"

definition quiet :: "fork_host \<Rightarrow> linux_abi \<Rightarrow> u32 \<Rightarrow> bool" where
  "quiet fh t i \<longleftrightarrow> ofd_references (ofd_at t i) = 0 \<or>
    closing (ofd_at t i) = 0 \<and> (active_operations (ofd_at t i) = 0 \<or> \<not> fork_unsafe fh (ofd_at t i))"

definition pin_of :: "linux_abi \<Rightarrow> u32 \<Rightarrow> fork_record" where
  "pin_of t i = pin_record i (ofd_at t i)"

lemma live_ofds_in_table: "in_table t is \<Longrightarrow> in_table t (live_ofds t is)"
  by (simp add: in_table_def live_ofds_def)

lemma live_ofds_set_ofd: "i \<notin> set is \<Longrightarrow> unat i < ofd_capacity t \<Longrightarrow> live_ofds (set_ofd i g t) is = live_ofds t is"
  unfolding live_ofds_def by (rule filter_cong) (auto simp: ofd_at_set_ofd)

lemma snapshot_from_quiet:
  assumes "in_table t is" "\<And>i. i \<in> set is \<Longrightarrow> quiet fh t i" "length rs + length (live_ofds t is) \<le> capacity"
  shows "snapshot_from fh capacity is rs t =
    Snapshot_Taken (rs @ map (pin_of t) (live_ofds t is)) (change_all enter_ofd (live_ofds t is) t)"
  using assms
proof (induction "is" arbitrary: rs t)
  case Nil
  then show ?case by (simp add: live_ofds_def)
next
  case (Cons i js)
  note c = Cons.prems
  show ?case
  proof (cases "ofd_references (ofd_at t i) = 0")
    case True
    with Cons.IH [of t rs] c show ?thesis by (simp add: live_ofds_def)
  next
    case False
    let ?t = "set_ofd i enter_ofd t"
    have i: "i \<notin> set js" "unat i < ofd_capacity t" "in_table t js" using c(1) by simp_all
    have at: "ofd_at ?t j = ofd_at t j" if "j \<in> set js" for j using that i by (auto simp: ofd_at_set_ofd)
    have lv: "live_ofds ?t js = live_ofds t js" by (rule live_ofds_set_ofd [OF i(1,2)])
    have l: "live_ofds t (i # js) = i # live_ofds t js" using False by (simp add: live_ofds_def)
    have "snapshot_from fh capacity js (rs @ [pin_record i (ofd_at t i)]) ?t =
      Snapshot_Taken ((rs @ [pin_record i (ofd_at t i)]) @ map (pin_of ?t) (live_ofds ?t js))
        (change_all enter_ofd (live_ofds ?t js) ?t)"
    proof (rule Cons.IH)
      show "quiet fh ?t j" if "j \<in> set js" for j using c(2) [of j] at [OF that] that by (simp add: quiet_def)
      show "length (rs @ [pin_record i (ofd_at t i)]) + length (live_ofds ?t js) \<le> capacity" using c(3) lv l by simp
    qed (use i in simp)
    moreover have "map (pin_of ?t) (live_ofds ?t js) = map (pin_of t) (live_ofds t js)"
      unfolding lv by (rule map_cong) (auto simp: pin_of_def at live_ofds_def)
    moreover have "length rs \<noteq> capacity" using c(3) l by simp
    moreover have "closing (ofd_at t i) = 0" "\<not> (active_operations (ofd_at t i) \<noteq> 0 \<and> fork_unsafe fh (ofd_at t i))"
      using c(2) [of i] False by (auto simp: quiet_def)
    ultimately show ?thesis using False l lv by (auto simp: Let_def pin_of_def)
  qed
qed

text \<open>A description that blocks the snapshot: the ones before it stay pinned.\<close>

lemma snapshot_from_blocked:
  assumes "in_table t (is @ i # js)" "\<And>j. j \<in> set is \<Longrightarrow> quiet fh t j" "length rs + length (live_ofds t is) \<le> capacity"
    and "ofd_references (ofd_at t i) \<noteq> 0" "\<not> quiet fh t i"
  shows "snapshot_from fh capacity (is @ i # js) rs t = Snapshot_Busy (change_all enter_ofd (live_ofds t is) t)"
  using assms
proof (induction "is" arbitrary: rs t)
  case Nil
  then show ?case by (auto simp: live_ofds_def quiet_def Let_def)
next
  case (Cons k ks)
  note c = Cons.prems
  show ?case
  proof (cases "ofd_references (ofd_at t k) = 0")
    case True
    with Cons.IH [of t rs] c show ?thesis by (simp add: live_ofds_def)
  next
    case False
    let ?t = "set_ofd k enter_ofd t"
    have k: "k \<notin> set (ks @ i # js)" "unat k < ofd_capacity t" "in_table t (ks @ i # js)" using c(1) by simp_all
    have at: "ofd_at ?t j = ofd_at t j" if "j \<in> set (ks @ i # js)" for j using that k by (auto simp: ofd_at_set_ofd)
    have lv: "live_ofds ?t ks = live_ofds t ks" by (rule live_ofds_set_ofd) (use k in simp_all)
    have l: "live_ofds t (k # ks) = k # live_ofds t ks" using False by (simp add: live_ofds_def)
    have "snapshot_from fh capacity (ks @ i # js) (rs @ [pin_record k (ofd_at t k)]) ?t =
      Snapshot_Busy (change_all enter_ofd (live_ofds ?t ks) ?t)"
    proof (rule Cons.IH)
      show "quiet fh ?t j" if "j \<in> set ks" for j using c(2) [of j] at [of j] that by (simp add: quiet_def)
      show "length (rs @ [pin_record k (ofd_at t k)]) + length (live_ofds ?t ks) \<le> capacity" using c(3) lv l by simp
      show "ofd_references (ofd_at ?t i) \<noteq> 0" "\<not> quiet fh ?t i" using c(4,5) at [of i] by (simp_all add: quiet_def)
    qed (use k in simp)
    moreover have "length rs \<noteq> capacity" using c(3) l by simp
    moreover have "closing (ofd_at t k) = 0" "\<not> (active_operations (ofd_at t k) \<noteq> 0 \<and> fork_unsafe fh (ofd_at t k))"
      using c(2) [of k] False by (auto simp: quiet_def)
    ultimately show ?thesis using False l lv by (auto simp: Let_def)
  qed
qed

section \<open>Releasing the pins\<close>

definition pins_held :: "linux_abi \<Rightarrow> fork_record list \<Rightarrow> bool" where
  "pins_held t rs \<longleftrightarrow> in_table t (map fr_ofd rs) \<and>
    (\<forall>r \<in> set rs. snapshot_pin r = 1 \<and> record_names t r \<and> ofd_references (ofd_at t (fr_ofd r)) \<noteq> 0 \<and>
      closing (ofd_at t (fr_ofd r)) = 0 \<and> active_operations (ofd_at t (fr_ofd r)) \<noteq> 0)"

lemma pins_held_Cons:
  assumes "pins_held t (r # rs)"
  shows "pins_held (set_ofd (fr_ofd r) g t) rs" "unat (fr_ofd r) < ofd_capacity t" "snapshot_pin r = 1"
    "record_names t r" "ofd_references (ofd_at t (fr_ofd r)) \<noteq> 0" "active_operations (ofd_at t (fr_ofd r)) \<noteq> 0"
    "fr_ofd r \<notin> set (map fr_ofd rs)"
proof -
  show r: "unat (fr_ofd r) < ofd_capacity t" "snapshot_pin r = 1" "record_names t r" "ofd_references (ofd_at t (fr_ofd r)) \<noteq> 0"
    "active_operations (ofd_at t (fr_ofd r)) \<noteq> 0" and n: "fr_ofd r \<notin> set (map fr_ofd rs)"
    using assms by (auto simp: pins_held_def)
  have "fr_ofd r' \<noteq> fr_ofd r" if "r' \<in> set rs" for r' using that n by (metis image_eqI list.set_map)
  then show "pins_held (set_ofd (fr_ofd r) g t) rs"
    using assms r(1) by (auto simp: pins_held_def ofd_at_set_ofd record_names_def Let_def)
qed

lemma last_out_leave: "ofd_references e \<noteq> 0 \<Longrightarrow> \<not> last_out (leave_ofd e)"
  by (simp add: last_out_def leave_ofd_def)

lemma unpin_held: "pins_held t rs \<Longrightarrow> hl_linux_fork_unpin h rs t = Some (change_all leave_ofd (map fr_ofd rs) t, [])"
proof (induction rs arbitrary: t)
  case (Cons r rs)
  note p = pins_held_Cons [OF Cons.prems]
  have "ofd_generation (ofd_at t (fr_ofd r)) = fr_generation r" using p(4) by (simp add: record_names_def Let_def)
  with p Cons.IH [OF p(1)] show ?case by (simp add: Let_def last_out_leave)
qed simp

lemma parent_release_held:
  "pins_held t rs \<Longrightarrow> parent_release rs t =
    (map (\<lambda>r. r\<lparr>snapshot_pin := 0\<rparr>) rs, change_all leave_ofd (map fr_ofd rs) t)"
proof (induction rs arbitrary: t)
  case (Cons r rs)
  note p = pins_held_Cons [OF Cons.prems]
  have "ofd_generation (ofd_at t (fr_ofd r)) = fr_generation r" using p(4) by (simp add: record_names_def Let_def)
  with p Cons.IH [OF p(1)] show ?case by (simp add: Let_def last_out_leave)
qed simp

lemma parent_finalize_none: "\<forall>r \<in> set rs. snapshot_pin r \<noteq> 2 \<Longrightarrow> parent_finalize h rs t = Some (t, [])"
  by (induction rs) simp_all

section \<open>The water mark\<close>

definition within_mark :: "linux_abi \<Rightarrow> linux_abi \<Rightarrow> bool" where
  "within_mark t t' \<longleftrightarrow> abi t' = abi t \<and> ofd_capacity t' = ofd_capacity t \<and>
    (unat (ofd_watermark t) \<le> ofd_capacity t \<longrightarrow> unat (ofd_watermark t') \<le> ofd_capacity t)"

lemma within_mark_simps [simp]:
  "within_mark t t" "within_mark t (set_fd fd f t') = within_mark t t'" "within_mark t (set_ofd i g t') = within_mark t t'"
  "within_mark t (t'\<lparr>reserved_fds := r\<rparr>) = within_mark t t'"
  by (simp_all add: within_mark_def set_fd_def set_ofd_def ofd_capacity_def)

lemma within_mark_end [simp]: "within_mark t (end_operation i t') = within_mark t t'"
  by (simp add: end_operation_def)

lemma within_mark_find:
  assumes "hl_linux_find_ofd t = Inr (i, t1)" "shape_ok t"
  shows "within_mark t t1"
proof -
  note f = find_ofd_Inr [OF assms]
  have "unat (i + 1) \<le> ofd_capacity t"
    using f(1) unat_plus_if' [of i 1] by (auto simp: live_slot_def split: if_splits)
  with assms(1) show ?thesis
    by (auto simp: within_mark_def hl_linux_find_ofd_def ofd_capacity_def split: option.splits if_splits)
qed

lemma within_mark_install:
  assumes "shape_ok t"
  shows "hl_linux_fd_install h handle sf df t = (r, t', evs) \<Longrightarrow> within_mark t t'"
    "hl_linux_fd_install_at h fd handle sf df t = (r', t', evs) \<Longrightarrow> within_mark t t'"
    "hl_linux_object_install_common h req ops ctx kind sf df t = (r, t', evs) \<Longrightarrow> within_mark t t'"
    "hl_linux_fd_commit h res handle sf df t = (r', t', evs) \<Longrightarrow> within_mark t t'"
  subgoal
    by (cases r) (auto simp: hl_linux_fd_install_def split: if_splits sum.splits prod.splits
        dest!: with_new_mutex_Inr with_new_mutex_Inl; erule within_mark_find [OF _ assms])+
  subgoal
    by (cases r') (auto simp: hl_linux_fd_install_at_def split: if_splits sum.splits prod.splits
        dest!: with_new_mutex_Inr with_new_mutex_Inl; erule within_mark_find [OF _ assms])+
  subgoal
    by (cases r) (auto simp: hl_linux_object_install_common_def split: if_splits sum.splits prod.splits
        dest!: with_new_mutex_Inr with_new_mutex_Inl; erule within_mark_find [OF _ assms])+
  subgoal
    by (cases r') (auto simp: hl_linux_fd_commit_def drop_reserved_eq split: if_splits sum.splits prod.splits
        dest!: with_new_mutex_Inr with_new_mutex_Inl; erule within_mark_find [OF _ assms])+
  done

lemma fd_step_mark:
  assumes "fd_step w w'" "fd_inv w"
  shows "within_mark (table w) (table w')"
proof -
  note d = fd_invD(1) [OF assms(2)]
  from assms(1) show ?thesis
  proof (cases rule: fd_step.cases)
    case (install h handle sf df r t' evs)
    then show ?thesis using within_mark_install(1) [OF d] by simp
  next
    case (install_at h fd handle sf df r' t' evs)
    then show ?thesis using within_mark_install(2) [OF d] by simp
  next
    case (object_install h req ops ctx kind sf df r t' evs)
    then show ?thesis using within_mark_install(3) [OF d] by simp
  next
    case (commit h reservation handle sf df r' t' evs)
    then show ?thesis using within_mark_install(4) [OF d] by simp
  next
    case (reserve fd res t')
    then show ?thesis by (auto simp: hl_linux_fd_reserve_at_def Let_def split: if_splits)
  next
    case (cancel reservation st t')
    then show ?thesis by (auto simp: hl_linux_fd_cancel_def drop_reserved_def split: if_splits)
  next
    case (dup src df r t')
    then show ?thesis by (auto simp: hl_linux_fd_dup_def split: sum.splits)
  next
    case (fcntl command hio fd argument n t')
    from fcntl(3) have "within_mark (table w) t'" using fcntl(2)
      unfolding hl_linux_fcntl_def
      by (auto simp: hl_linux_fd_dup_at_least_def Let_def split: if_splits sum.splits prod.splits)
    then show ?thesis by (simp add: fcntl(1))
  next
    case (close fd p t')
    then show ?thesis by (auto simp: close_locked_def Let_def split: if_splits)
  next
    case (replace src target df x t')
    then show ?thesis by (auto simp: replace_locked_def Let_def split: if_splits sum.splits)
  next
    case (claim i handle ob t')
    then show ?thesis by (auto simp: claim_ofd_def Let_def split: if_splits)
  next
    case (release i m handle t')
    then show ?thesis by (auto simp: release_ofd_def Let_def split: if_splits)
  next
    case (begin_io guard fd i t')
    then show ?thesis using begin_Inr(3) [OF begin_io(2)] by simp
  next
    case (work i x y)
    then show ?thesis by simp
  next
    case (finish i)
    then show ?thesis by (simp add: end_operation_def)
  next
    case (pin_fd fd p t')
    then show ?thesis using pin_Inr(1) [OF pin_fd(2)] by simp
  next
    case (pin_ofd i g p t')
    then show ?thesis using pin_Inr(2) [OF pin_ofd(2)] by simp
  next
    case (pin_failed i g)
    then show ?thesis by (simp add: end_operation_def)
  next
    case (unpin i g ask t')
    then show ?thesis by (auto simp: unpin_locked_def Let_def split: if_splits)
  qed
qed

lemma fd_reachable_mark:
  assumes "fd_reachable w"
  shows "abi (table w) = HL_LINUX_ABI_VERSION" "unat (ofd_watermark (table w)) \<le> ofd_capacity (table w)"
proof -
  obtain h fc oc t where i: "hl_linux_abi_init h fc oc = Inr t" and s: "fd_step\<^sup>*\<^sup>* (fd_start t) w"
    using assms unfolding fd_reachable_def by blast
  from s have "within_mark t (table w) \<and> fd_inv w"
  proof (induction rule: rtranclp_induct)
    case base
    then show ?case using fd_start_inv [OF i] by (simp add: fd_start_def)
  next
    case (step w1 w2)
    with fd_step_mark [OF step.hyps(2)] fd_step_inv show ?case by (auto simp: within_mark_def)
  qed
  moreover have "abi t = HL_LINUX_ABI_VERSION" "ofd_watermark t = 0"
    using i by (auto simp: hl_linux_abi_init_def split: if_splits)
  ultimately show "abi (table w) = HL_LINUX_ABI_VERSION" "unat (ofd_watermark (table w)) \<le> ofd_capacity (table w)"
    by (simp_all add: within_mark_def)
qed

end
