(* ===== verification/Fd_Forking.thy ===== *)
theory Fd_Forking
  imports Fd_Pins
begin

text \<open>
  Properties of forking the descriptor table: transparent to the parent, exact for the child, and the refusal
  that leaks pins.
\<close>

section \<open>Cloning and arming\<close>

definition key :: "fork_record \<Rightarrow> u32 \<times> u32 \<times> u64 \<times> nat option \<times> u64 \<times> u32" where
  "key r = (fr_ofd r, fr_generation r, parent_handle r, fr_ops r, parent_context r, snapshot_pin r)"

lemma pins_held_key:
  assumes "map key rs = map key rs'"
  shows "pins_held t rs = pins_held t rs'"
proof -
  define P where "P = (\<lambda>(i, g, h, ops, c, p). p = (1 :: u32) \<and> (let e = ofd_at t i in ofd_generation e = g \<and> host_handle e = h \<and>
    object_ops e = ops \<and> object_context e = c \<and> ofd_references e \<noteq> 0 \<and> closing e = 0 \<and> active_operations e \<noteq> 0))"
  have "pins_held t xs \<longleftrightarrow> in_table t (map fst (map key xs)) \<and> (\<forall>k \<in> set (map key xs). P k)" for xs
    unfolding pins_held_def P_def by (auto simp: key_def record_names_def Let_def comp_def)
  with assms show ?thesis by metis
qed

lemma map_key_ofd: "map key rs = map key rs' \<Longrightarrow> map fr_ofd rs = map fr_ofd rs'"
  by (drule arg_cong [where f = "map fst"]) (simp add: key_def comp_def)

lemma key_clone [simp]: "key (snd (clone_record fh r)) = key r"
  by (auto simp: clone_record_def key_def split: option.splits prod.splits)

definition clones_ok :: "fork_host \<Rightarrow> fork_record list \<Rightarrow> fork_record list" where
  "clones_ok fh rs = takeWhile (\<lambda>r. fst (clone_record fh r) = S_OK) rs"

definition clone_failure :: "fork_host \<Rightarrow> fork_record list \<Rightarrow> hl_status" where
  "clone_failure fh rs =
    (case dropWhile (\<lambda>r. fst (clone_record fh r) = S_OK) rs of [] \<Rightarrow> S_OK | r # _ \<Rightarrow> fst (clone_record fh r))"

definition cloned :: "fork_host \<Rightarrow> fork_record list \<Rightarrow> fork_record list" where
  "cloned fh rs = map (\<lambda>r. snd (clone_record fh r)) (clones_ok fh rs)"

lemma clone_records_result:
  "\<exists>rest. clone_records fh cs rs = (clone_failure fh rs, cs @ cloned fh rs, rest) \<and>
    map key (cloned fh rs @ rest) = map key rs \<and> (clone_failure fh rs = S_OK \<longrightarrow> rest = [])"
proof (induction rs arbitrary: cs)
  case Nil
  then show ?case by (simp add: clone_failure_def cloned_def clones_ok_def)
next
  case (Cons r rs)
  obtain st r' where c: "clone_record fh r = (st, r')" by force
  then have k: "key r' = key r" using key_clone [of fh r] by simp
  show ?case
  proof (cases "st = S_OK")
    case True
    obtain rest where "clone_records fh (cs @ [r']) rs = (clone_failure fh rs, (cs @ [r']) @ cloned fh rs, rest)"
      "map key (cloned fh rs @ rest) = map key rs" "clone_failure fh rs = S_OK \<longrightarrow> rest = []"
      using Cons.IH by blast
    with True c k show ?thesis by (simp add: clone_failure_def cloned_def clones_ok_def)
  next
    case False
    with c k show ?thesis by (simp add: clone_failure_def cloned_def clones_ok_def)
  qed
qed

lemma filter_key:
  "distinct (map f xs) \<Longrightarrow> x \<in> set xs \<Longrightarrow> filter (\<lambda>y. f y = f x) xs = [x]"
proof (induction xs)
  case (Cons a xs)
  show ?case
  proof (cases "f a = f x")
    case True
    with Cons.prems have "a = x" by (metis distinct.simps(2) image_eqI list.set_map list.simps(9) set_ConsD)
    with Cons.prems True show ?thesis by (auto simp: filter_empty_conv rev_image_eqI)
  next
    case False
    with Cons show ?thesis by auto
  qed
qed simp

lemma arm_entries_ready:
  assumes "\<And>i. i \<in> set is \<Longrightarrow> ofd_references (ofd_at t i) = 0 \<or>
    \<not> (active_operations (ofd_at t i) > 1 \<and> fork_unsafe fh (ofd_at t i)) \<and> i \<in> fr_ofd ` set rs"
    and "pins_held t rs"
  shows "arm_entries fh rs is t = Arm_Ready"
  using assms(1)
proof (induction "is")
  case (Cons i js)
  show ?case
  proof (cases "ofd_references (ofd_at t i) = 0")
    case True
    with Cons show ?thesis by simp
  next
    case False
    then obtain r where r: "r \<in> set rs" "fr_ofd r = i" and
      a: "\<not> (active_operations (ofd_at t i) > 1 \<and> fork_unsafe fh (ofd_at t i))" using Cons.prems [of i] by auto
    have "filter (\<lambda>r. fr_ofd r = i \<and> record_names t r) rs = filter (\<lambda>r'. fr_ofd r' = fr_ofd r) rs"
      using assms(2) r(2) by (intro filter_cong) (auto simp: pins_held_def)
    also have "\<dots> = [r]"
      using assms(2) r(1) by (intro filter_key) (auto simp: pins_held_def in_table_def)
    finally have "filter (\<lambda>r. fr_ofd r = i \<and> record_names t r) rs = [r]" .
    moreover have "closing (ofd_at t i) = 0" using assms(2) r by (auto simp: pins_held_def)
    ultimately show ?thesis using Cons False a by (auto simp: Let_def)
  qed
qed simp

lemma arm_records_ready: "pins_held t rs \<Longrightarrow> arm_records rs t = Arm_Ready"
  by (auto simp: arm_records_def list_all_iff pins_held_def in_table_def)

section \<open>One attempt without interference\<close>

definition fork_pins :: "linux_abi \<Rightarrow> fork_record list" where
  "fork_pins t = map (pin_of t) (live_ofds t (ofd_indices (unat (ofd_watermark t))))"

definition fork_table :: "linux_abi \<Rightarrow> linux_abi" where
  "fork_table t = change_all enter_ofd (live_ofds t (ofd_indices (unat (ofd_watermark t)))) t"

text \<open>What a fork needs: nobody reserves a descriptor, no operation is in flight on an adapter that is not
  safe to clone meanwhile, and no operation count is at its limit.\<close>

definition fork_quiet :: "fork_host \<Rightarrow> fd_world \<Rightarrow> bool" where
  "fork_quiet fh w \<longleftrightarrow> reserved_fds (table w) = 0 \<and>
    (\<forall>i. live_slot (table w) i \<longrightarrow> (flights w i = 0 \<or> \<not> fork_unsafe fh (ofd_at (table w) i)) \<and> flights w i + 1 < 2 ^ 32)"

lemma ofd_indices_mem:
  assumes "n \<le> ofd_capacity t" "ofd_capacity t \<le> 65536"
  shows "in_table t (ofd_indices n)" "i \<in> set (ofd_indices n) \<longleftrightarrow> i \<noteq> 0 \<and> unat i < n"
proof -
  have u: "unat (of_nat k :: u32) = k" if "k < n" for k using that assms by (simp add: unat_of_nat take_bit_eq_mod)
  show m: "i \<in> set (ofd_indices n) \<longleftrightarrow> i \<noteq> 0 \<and> unat i < n" for i
  proof
    assume "i \<in> set (ofd_indices n)"
    then obtain k where k: "i = of_nat k" "1 \<le> k" "k < n" by (auto simp: ofd_indices_def)
    then have "unat i = k" using u by simp
    with k show "i \<noteq> 0 \<and> unat i < n" by (metis not_one_le_zero unat_0)
  next
    assume "i \<noteq> 0 \<and> unat i < n"
    then have "unat i \<in> {1 ..< n}" "i = of_nat (unat i)" by (simp_all add: Suc_le_eq unat_gt_0)
    then show "i \<in> set (ofd_indices n)" unfolding ofd_indices_def by (metis image_eqI list.set_map set_upt)
  qed
  have "inj_on (of_nat :: nat \<Rightarrow> u32) {1 ..< n}" by (rule inj_on_inverseI [where g = unat]) (simp add: u)
  then show "in_table t (ofd_indices n)" using m assms(1) by (auto simp: in_table_def ofd_indices_def distinct_map)
qed

lemma reachable_slots:
  assumes "fd_reachable w"
  defines "t \<equiv> table w"
  shows "ofd_capacity t \<le> 65536" "unat (ofd_watermark t) \<le> ofd_capacity t" "abi t = HL_LINUX_ABI_VERSION"
    "live_slot t i \<Longrightarrow> unat (active_operations (ofd_at t i)) = flights w i"
    "live_slot t i \<Longrightarrow> ofd_references (ofd_at t i) \<noteq> 0 \<Longrightarrow> closing (ofd_at t i) = 0 \<and> unat i < unat (ofd_watermark t)"
proof -
  have sh: "shape_ok t" using fd_invD(1) [OF fd_reachableD [OF assms(1)]] by (simp add: t_def)
  then show "ofd_capacity t \<le> 65536" by (simp add: shape_ok_def ofd_capacity_def HL_LINUX_OFD_LIMIT_def)
  show "unat (ofd_watermark t) \<le> ofd_capacity t" "abi t = HL_LINUX_ABI_VERSION"
    using fd_reachable_mark [OF assms(1)] by (simp_all add: t_def)
  assume l: "live_slot t i"
  note s = slot_named [OF fd_reachable_slot [OF assms(1) l [unfolded t_def]]]
  show "unat (active_operations (ofd_at t i)) = flights w i" using s by (simp add: t_def)
  assume r: "ofd_references (ofd_at t i) \<noteq> 0"
  then have "\<not> ofd_free (ofd_at t i)" by (simp add: ofd_free_def)
  with sh l have "unat i < unat (ofd_watermark t)" by (auto simp: shape_ok_def)
  moreover have "closing (ofd_at t i) = 0" using s r by (auto simp: t_def unat_eq_0)
  ultimately show "closing (ofd_at t i) = 0 \<and> unat i < unat (ofd_watermark t)" by simp
qed

lemma live_in_pins:
  assumes "fd_reachable w"
  shows "i \<in> set (live_ofds (table w) (ofd_indices (unat (ofd_watermark (table w))))) \<longleftrightarrow>
      live_slot (table w) i \<and> ofd_references (ofd_at (table w) i) \<noteq> 0"
    "in_table (table w) (live_ofds (table w) (ofd_indices (unat (ofd_watermark (table w)))))"
proof -
  note s = reachable_slots [OF assms]
  note m = ofd_indices_mem [OF s(2,1)]
  show "in_table (table w) (live_ofds (table w) (ofd_indices (unat (ofd_watermark (table w)))))"
    by (rule live_ofds_in_table [OF m(1)])
  show "i \<in> set (live_ofds (table w) (ofd_indices (unat (ofd_watermark (table w))))) \<longleftrightarrow>
      live_slot (table w) i \<and> ofd_references (ofd_at (table w) i) \<noteq> 0"
    using s(2) s(5) [of i] by (auto simp: live_ofds_def m(2) live_slot_def)
qed

lemma pins_taken:
  assumes "fd_reachable w" "fork_quiet fh w"
  defines "t \<equiv> table w"
  shows "snapshot_from fh (ofd_capacity t) (ofd_indices (unat (ofd_watermark t))) [] t = Snapshot_Taken (fork_pins t) (fork_table t)"
    "pins_held (fork_table t) (fork_pins t)" "map fr_ofd (fork_pins t) = live_ofds t (ofd_indices (unat (ofd_watermark t)))"
    "change_all leave_ofd (map fr_ofd (fork_pins t)) (fork_table t) = t"
proof -
  note s = reachable_slots [OF assms(1), folded t_def]
  note m = ofd_indices_mem [OF s(2,1)]
  note p = live_in_pins [OF assms(1), folded t_def]
  have q: "flights w i = 0 \<or> \<not> fork_unsafe fh (ofd_at t i)" "flights w i + 1 < 2 ^ 32" if "live_slot t i" for i
    using assms(2) that by (auto simp: fork_quiet_def t_def)
  have act: "active_operations (ofd_at t i) + 1 \<noteq> 0" if "live_slot t i" for i
  proof
    assume "active_operations (ofd_at t i) + 1 = 0"
    then have "active_operations (ofd_at t i) = - 1" by (simp add: eq_neg_iff_add_eq_0)
    with s(4) [OF that] q(2) [OF that] show False by (simp add: unsigned_minus_1_eq_mask mask_eq_exp_minus_1)
  qed
  show fr: "map fr_ofd (fork_pins t) = live_ofds t (ofd_indices (unat (ofd_watermark t)))"
    by (simp add: fork_pins_def comp_def pin_of_def pin_record_def)
  have "length (live_ofds t (ofd_indices (unat (ofd_watermark t)))) \<le> length (ofd_indices (unat (ofd_watermark t)))"
    by (simp add: live_ofds_def)
  also have "\<dots> \<le> ofd_capacity t" using s(2) by (simp add: ofd_indices_def)
  finally have len: "length (live_ofds t (ofd_indices (unat (ofd_watermark t)))) \<le> ofd_capacity t" .
  have "quiet fh t i" if "i \<in> set (ofd_indices (unat (ofd_watermark t)))" for i
  proof -
    from that s(2) have l: "live_slot t i" unfolding m(2) live_slot_def by linarith
    with s(4) [OF l] s(5) [OF l] q(1) [OF l] show ?thesis by (auto simp: quiet_def unat_eq_0)
  qed
  from snapshot_from_quiet [OF m(1) this, of "[]" "ofd_capacity t"] len
  show "snapshot_from fh (ofd_capacity t) (ofd_indices (unat (ofd_watermark t))) [] t = Snapshot_Taken (fork_pins t) (fork_table t)"
    by (simp add: fork_pins_def fork_table_def)
  have at: "ofd_at (fork_table t) i = enter_ofd (ofd_at t i)"
    if "i \<in> set (live_ofds t (ofd_indices (unat (ofd_watermark t))))" for i
    using that by (simp add: fork_table_def ofd_at_change_all [OF p(2)])
  show "pins_held (fork_table t) (fork_pins t)"
    unfolding pins_held_def fr
  proof (intro conjI ballI)
    show "in_table (fork_table t) (live_ofds t (ofd_indices (unat (ofd_watermark t))))"
      using p(2) by (simp add: in_table_def fork_table_def)
    fix r assume "r \<in> set (fork_pins t)"
    then obtain i where i: "i \<in> set (live_ofds t (ofd_indices (unat (ofd_watermark t))))" and r: "r = pin_of t i"
      by (auto simp: fork_pins_def)
    with p(1) [of i] have l: "live_slot t i" "ofd_references (ofd_at t i) \<noteq> 0" by simp_all
    have f: "fr_ofd r = i" by (simp add: r pin_of_def pin_record_def)
    show "snapshot_pin r = 1" by (simp add: r pin_of_def pin_record_def)
    show "record_names (fork_table t) r"
      unfolding record_names_def f at [OF i] by (simp add: r pin_of_def pin_record_def)
    show "ofd_references (ofd_at (fork_table t) (fr_ofd r)) \<noteq> 0" "closing (ofd_at (fork_table t) (fr_ofd r)) = 0"
      "active_operations (ofd_at (fork_table t) (fr_ofd r)) \<noteq> 0"
      unfolding f at [OF i] using l s(5) [OF l] act [OF l(1)] by simp_all
  qed
  show "change_all leave_ofd (map fr_ofd (fork_pins t)) (fork_table t) = t"
    unfolding fr fork_table_def
    by (rule leave_all_enter_all [OF p(2)]) (use s(1) in \<open>simp add: ofd_capacity_def HL_LINUX_OFD_LIMIT_def\<close>)
qed

lemma pins_cloned:
  assumes "fd_reachable w" "fork_quiet fh w"
  shows "map key xs = map key (fork_pins (table w)) \<Longrightarrow>
    pins_held (fork_table (table w)) xs \<and> change_all leave_ofd (map fr_ofd xs) (fork_table (table w)) = table w"
  using pins_taken(2,4) [OF assms] pins_held_key map_key_ofd by metis

lemma arm_plan_ready:
  assumes "fd_reachable w" "fork_quiet fh w" "map key rs = map key (fork_pins (table w))"
  shows "arm_plan fh rs (fork_table (table w)) = (if arm_status fh = S_OK then Arm_Ready else Arm_Busy)"
proof -
  let ?t = "table w" and ?p = "fork_table (table w)"
  note s = reachable_slots [OF assms(1)]
  note held = pins_cloned [OF assms(1,2,3)]
  have fr: "fr_ofd ` set rs = set (live_ofds ?t (ofd_indices (unat (ofd_watermark ?t))))"
    using map_key_ofd [OF assms(3)] pins_taken(3) [OF assms(1,2)] by (metis list.set_map)
  have "arm_entries fh rs (ofd_indices (ofd_capacity ?p)) ?p = Arm_Ready"
  proof (rule arm_entries_ready)
    fix i assume "i \<in> set (ofd_indices (ofd_capacity ?p))"
    then have l: "live_slot ?t i"
      using ofd_indices_mem(2) [of "ofd_capacity ?t" ?t] s(1) by (simp add: fork_table_def live_slot_def)
    have p: "ofd_at ?p i = (if ofd_references (ofd_at ?t i) \<noteq> 0 then enter_ofd (ofd_at ?t i) else ofd_at ?t i)"
      using l live_in_pins(1) [OF assms(1)] by (simp add: fork_table_def ofd_at_change_all [OF live_in_pins(2) [OF assms(1)]])
    have "i \<in> fr_ofd ` set rs" if "ofd_references (ofd_at ?t i) \<noteq> 0"
      unfolding fr using l that live_in_pins(1) [OF assms(1)] by simp
    moreover have "\<not> (active_operations (ofd_at ?t i) + 1 > 1 \<and> fork_unsafe fh (enter_ofd (ofd_at ?t i)))"
      using assms(2) l s(4) [OF l] by (auto simp: fork_quiet_def fork_unsafe_def unat_eq_0)
    ultimately show "ofd_references (ofd_at ?p i) = 0 \<or>
      \<not> (active_operations (ofd_at ?p i) > 1 \<and> fork_unsafe fh (ofd_at ?p i)) \<and> i \<in> fr_ofd ` set rs"
      unfolding p by auto
  qed (use held in simp)
  with arm_records_ready [of ?p rs] held show ?thesis by (simp add: arm_plan_def)
qed

lemma attempt_quiet:
  assumes "fd_reachable w" "fork_quiet fh w"
  defines "rs \<equiv> fork_pins (table w)"
  shows "fork_attempt h fh (ofd_capacity (table w)) (\<lambda>t. t) (table w) =
    (if clone_failure fh rs \<noteq> S_OK
     then Some (Attempt_Failed (clone_failure fh rs), table w, hl_linux_fork_discard_children (cloned fh rs))
     else if arm_status fh \<noteq> S_OK
     then Some (Attempt_Failed S_BUSY, table w, hl_linux_fork_discard_children (cloned fh rs))
     else Some (Attempt_Armed (cloned fh rs), fork_table (table w), []))"
proof -
  obtain rest where r: "clone_records fh [] rs = (clone_failure fh rs, cloned fh rs, rest)"
    "map key (cloned fh rs @ rest) = map key rs" "clone_failure fh rs = S_OK \<longrightarrow> rest = []"
    using clone_records_result [of fh "[]" rs] by auto
  note held = pins_cloned [OF assms(1,2) r(2) [unfolded rs_def]]
  have u: "hl_linux_fork_unpin h (cloned fh rs @ rest) (fork_table (table w)) = Some (table w, [])"
    using held unpin_held unfolding rs_def by metis
  have "reserved_fds (table w) = 0" using assms(2) by (simp add: fork_quiet_def)
  with pins_taken(1) [OF assms(1,2)] r(1) u r(3) arm_plan_ready [OF assms(1,2), of "cloned fh rs"] r(2)
  show ?thesis unfolding rs_def fork_attempt_def by (auto simp: Let_def)
qed

lemma prepare_quiet:
  assumes "fd_reachable w" "fork_quiet fh w" "prepare_services fh"
  defines "rs \<equiv> fork_pins (table w)"
  shows "hl_linux_abi_fork_prepare h fh (ofd_capacity (table w)) (\<lambda>_ t. t) (table w) =
    (if clone_failure fh rs \<noteq> S_OK
     then Some (Inl (clone_failure fh rs), table w, hl_linux_fork_discard_children (cloned fh rs))
     else if arm_status fh \<noteq> S_OK
     then Some (Inl S_BUSY, table w, hl_linux_fork_discard_children (cloned fh rs))
     else Some (Inr \<lparr>plan_records = cloned fh rs, armed = True, host_completed = False\<rparr>, fork_table (table w), []))"
  using attempt_quiet [OF assms(1,2), of h, folded rs_def] reachable_slots(3) [OF assms(1)] assms(3)
  by (simp add: hl_linux_abi_fork_prepare_def fork_attempts.simps)

lemma cloned_key:
  assumes "clone_failure fh rs = S_OK"
  shows "map key (cloned fh rs) = map key rs"
  using clone_records_result [of fh "[]" rs] assms by auto

text \<open>The answer of a spawn whose preparation was not disturbed.\<close>

definition spawn_answer :: "fork_host \<Rightarrow> spawn_host \<Rightarrow> fork_record list \<Rightarrow> hl_status + u64" where
  "spawn_answer fh sh rs =
    (if clone_failure fh rs \<noteq> S_OK then Inl (clone_failure fh rs)
     else if arm_status fh \<noteq> S_OK then Inl S_BUSY
     else let st = foldl first_failure S_OK (map (close_status fh) (hl_linux_fork_discard_children (cloned fh rs))) in
       if st \<noteq> S_OK then Inl st
       else if fst (spawn_prepared sh) \<noteq> S_OK then Inl (fst (spawn_prepared sh))
       else if snd (spawn_prepared sh) = 0 then Inl S_PLATFORM_FAILURE
       else Inr (snd (spawn_prepared sh)))"

lemma close_child_pin [simp]: "close_child (r\<lparr>snapshot_pin := p\<rparr>) = close_child r"
  by (simp add: close_child_def split: option.split)

lemma parent_quiet:
  assumes "fd_reachable w" "fork_quiet fh w" "parent_services fh" "clone_failure fh (fork_pins (table w)) = S_OK"
  defines "rs \<equiv> cloned fh (fork_pins (table w))"
  shows "hl_linux_abi_fork_parent h fh \<lparr>plan_records = rs, armed = True, host_completed = True\<rparr> (fork_table (table w)) =
    Some (foldl first_failure S_OK (map (close_status fh) (hl_linux_fork_discard_children rs)), table w,
      hl_linux_fork_discard_children rs)"
proof -
  note held = pins_cloned [OF assms(1,2) cloned_key [OF assms(4)], folded rs_def]
  have "parent_release rs (fork_table (table w)) = (map (\<lambda>r. r\<lparr>snapshot_pin := 0\<rparr>) rs, table w)"
    using parent_release_held held by metis
  then show ?thesis
    using assms(3) by (simp add: hl_linux_abi_fork_parent_def parent_finalize_none hl_linux_fork_discard_children_def
        rev_map comp_def)
qed

text \<open>Claim C28.  Forking leaves the parent as it was.  From every reachable table on which no reservation and no
  operation of an unsafe adapter is under way, a spawn that nothing disturbs returns, its answer is the first
  failure of cloning, arming, closing or starting (or the new process), the table is exactly what it was, and
  every copy that was made for a child is closed once, whatever failed.\<close>

theorem fork_parent_transparent:
  assumes "fd_reachable w" "fork_quiet fh w" "prepare_services fh" "parent_services fh" "process_services sh"
    "records_allocated sh"
  shows "hl_linux_abi_spawn h fh sh (\<lambda>_ t. t) (table w) =
    Some (spawn_answer fh sh (fork_pins (table w)), table w,
      hl_linux_fork_discard_children (cloned fh (fork_pins (table w))))"
  using prepare_quiet [OF assms(1-3), of h] parent_quiet [OF assms(1,2,4), of h] assms(5,6) reachable_slots(3) [OF assms(1)]
  by (auto simp: hl_linux_abi_spawn_def spawn_answer_def hl_linux_abi_fork_host_completed_def Let_def split: prod.splits)

section \<open>A fork that is refused\<close>

lemma indices_split:
  assumes "0 < unat i" "unat i < n" "n \<le> 65536"
  shows "ofd_indices n = ofd_indices (unat i) @ i # map of_nat [Suc (unat i) ..< n]"
proof -
  have "[1 ..< n] = [1 ..< unat i] @ unat i # [Suc (unat i) ..< n]"
  proof -
    obtain k where k: "n = unat i + k" using assms(2) less_imp_add_positive by blast
    have "[1 ..< unat i + k] = [1 ..< unat i] @ [unat i ..< unat i + k]" using assms(1) by (intro upt_add_eq_append) simp
    with k assms(2) show ?thesis by (simp add: upt_conv_Cons)
  qed
  then show ?thesis by (simp add: ofd_indices_def)
qed

text \<open>Claim C30.  A fork refused because of an unsafe adapter leaks pins.  When an operation is in flight on an
  object whose adapter is not safe to clone meanwhile, the preparation answers BUSY, but every live description
  before that object has one operation more than are in flight, and nothing will ever end it.\<close>

theorem fork_busy_leaks:
  assumes "fd_reachable w" "reserved_fds (table w) = 0" "prepare_services fh"
    and "live_slot (table w) i" "ofd_references (ofd_at (table w) i) \<noteq> 0" "flights w i \<noteq> 0"
    and "fork_unsafe fh (ofd_at (table w) i)"
    and "\<And>j. live_slot (table w) j \<Longrightarrow> j < i \<Longrightarrow> flights w j = 0 \<or> \<not> fork_unsafe fh (ofd_at (table w) j)"
  shows "\<exists>t'. hl_linux_abi_fork_prepare h fh (ofd_capacity (table w)) others (table w) = Some (Inl S_BUSY, t', []) \<and>
    (\<forall>j. ofd_at t' j = (if live_slot (table w) j \<and> j < i \<and> ofd_references (ofd_at (table w) j) \<noteq> 0
       then enter_ofd (ofd_at (table w) j) else ofd_at (table w) j)) \<and> fds t' = fds (table w)"
proof -
  let ?t = "table w"
  note s = reachable_slots [OF assms(1)]
  have i: "0 < unat i" "unat i < unat (ofd_watermark ?t)"
    using s(5) [OF assms(4,5)] assms(4) by (auto simp: live_slot_def unat_gt_0)
  note sp = indices_split [OF i] 
  note m = ofd_indices_mem [OF s(2,1)]
  have it: "in_table ?t (ofd_indices (unat i) @ i # map of_nat [Suc (unat i) ..< unat (ofd_watermark ?t)])"
    using m(1) sp s(1,2) by simp
  have ic: "unat i \<le> ofd_capacity ?t" using assms(4) by (simp add: live_slot_def)
  note mi = ofd_indices_mem [OF ic s(1)]
  have live: "live_slot ?t j \<longleftrightarrow> j \<noteq> 0" if "unat j < unat i" for j using that ic by (auto simp: live_slot_def)
  have q: "quiet fh ?t j" if "j \<in> set (ofd_indices (unat i))" for j
  proof -
    from that mi(2) have j: "j \<noteq> 0" "unat j < unat i" by simp_all
    then have l: "live_slot ?t j" using live by simp
    with assms(8) [OF l] j s(4) [OF l] s(5) [OF l] show ?thesis by (auto simp: quiet_def unat_eq_0 word_less_nat_alt)
  qed
  let ?L = "live_ofds ?t (ofd_indices (unat i))"
  have len: "length ?L \<le> ofd_capacity ?t"
  proof -
    have "length ?L \<le> length (ofd_indices (unat i))" by (simp add: live_ofds_def)
    also have "\<dots> \<le> unat i" by (simp add: ofd_indices_def)
    finally show ?thesis using ic by simp
  qed
  have nq: "\<not> quiet fh ?t i" using assms(5-7) s(4) [OF assms(4)] by (auto simp: quiet_def)
  have "snapshot_from fh (ofd_capacity ?t) (ofd_indices (unat (ofd_watermark ?t))) [] ?t = Snapshot_Busy (change_all enter_ofd ?L ?t)"
    using snapshot_from_blocked [OF it q _ assms(5) nq, of "[]" "ofd_capacity ?t"] len sp s(1,2) by simp
  then have p: "hl_linux_abi_fork_prepare h fh (ofd_capacity ?t) others ?t = Some (Inl S_BUSY, change_all enter_ofd ?L ?t, [])"
    using assms(2,3) s(3) by (simp add: hl_linux_abi_fork_prepare_def fork_attempts.simps fork_attempt_def)
  have "in_table ?t ?L" by (rule live_ofds_in_table [OF mi(1)])
  then have "ofd_at (change_all enter_ofd ?L ?t) j =
      (if live_slot ?t j \<and> j < i \<and> ofd_references (ofd_at ?t j) \<noteq> 0 then enter_ofd (ofd_at ?t j) else ofd_at ?t j)" for j
    using live [of j] by (auto simp: ofd_at_change_all live_ofds_def mi(2) word_less_nat_alt live_slot_def)
  with p show ?thesis by auto
qed

section \<open>The child\<close>

text \<open>What the child has in the place of a live description: its own mutex, its own copy of the handle or
  object, and no operation in flight.\<close>

definition child_entry :: "fork_host \<Rightarrow> u64 \<Rightarrow> ofd_entry \<Rightarrow> ofd_entry" where
  "child_entry fh m e =
    (case object_ops e of
       Some ops \<Rightarrow> e\<lparr>active_operations := 0, io_mutex := m,
         object_context := snd (the (clone_object fh ops) (object_context e))\<rparr>
     | None \<Rightarrow> e\<lparr>active_operations := 0, io_mutex := m, host_handle := snd (clone_file fh (host_handle e))\<rparr>)"

definition inherited :: "ofd_entry \<Rightarrow> host_event list" where
  "inherited e = [Mutex_Closed (io_mutex e),
     case object_ops e of Some ops \<Rightarrow> Object_Closed ops (object_context e) | None \<Rightarrow> File_Closed (host_handle e)]"

definition child_install_entry :: "fork_record \<Rightarrow> ofd_entry \<Rightarrow> ofd_entry" where
  "child_install_entry r e =
    (case fr_ops r of
       Some _ \<Rightarrow> e\<lparr>active_operations := 0, io_mutex := child_mutex r, object_context := child_context r\<rparr>
     | None \<Rightarrow> e\<lparr>active_operations := 0, io_mutex := child_mutex r, host_handle := child_handle r\<rparr>)"

definition with_mutexes :: "fork_host \<Rightarrow> nat \<Rightarrow> fork_record list \<Rightarrow> fork_record list" where
  "with_mutexes fh k rs = map (\<lambda>(j, r). r\<lparr>child_mutex := snd (new_mutex fh j)\<rparr>) (enumerate k rs)"

lemma child_validate_all:
  assumes "\<And>j. fst (new_mutex fh j) = S_OK \<and> snd (new_mutex fh j) \<noteq> 0"
    and "\<forall>r \<in> set rs. unat (fr_ofd r) < ofd_capacity t \<and> record_names t r"
  shows "child_validate fh t k made rs = Inr (made @ with_mutexes fh k rs)"
  using assms(2)
proof (induction rs arbitrary: k made)
  case (Cons r rs)
  from assms(1) [of k] obtain m where "new_mutex fh k = (S_OK, m)" "m \<noteq> 0" by (metis prod.collapse)
  with Cons show ?case by (simp add: with_mutexes_def)
qed (simp add: with_mutexes_def)

lemma child_install_all:
  assumes "in_table t (map fr_ofd rs)" "child_install rs t = (t', evs)"
  shows "fds t' = fds t \<and> ofd_capacity t' = ofd_capacity t \<and>
    (\<forall>r \<in> set rs. ofd_at t' (fr_ofd r) = child_install_entry r (ofd_at t (fr_ofd r))) \<and>
    (\<forall>i. i \<notin> fr_ofd ` set rs \<longrightarrow> ofd_at t' i = ofd_at t i) \<and>
    evs = concat (map (\<lambda>r. [Mutex_Closed (io_mutex (ofd_at t (fr_ofd r))), close_parent r]) rs)"
  using assms
proof (induction rs arbitrary: t t' evs)
  case (Cons r rs)
  let ?t = "set_ofd (fr_ofd r) (child_install_entry r) t"
  have r: "unat (fr_ofd r) < ofd_capacity t" "fr_ofd r \<notin> fr_ofd ` set rs" "in_table t (map fr_ofd rs)"
    using Cons.prems(1) by auto
  have g: "(\<lambda>e. case fr_ops r of
         None \<Rightarrow> e\<lparr>active_operations := 0, io_mutex := child_mutex r, host_handle := child_handle r\<rparr>
       | Some _ \<Rightarrow> e\<lparr>active_operations := 0, io_mutex := child_mutex r, object_context := child_context r\<rparr>) = child_install_entry r"
    by (auto simp: child_install_entry_def fun_eq_iff split: option.split)
  obtain evs' where c: "child_install rs ?t = (t', evs')"
    "evs = [Mutex_Closed (io_mutex (ofd_at t (fr_ofd r))), close_parent r] @ evs'"
    using Cons.prems(2) unfolding child_install.simps g by (auto simp: Let_def split: prod.splits)
  have at: "ofd_at ?t j = (if j = fr_ofd r then child_install_entry r (ofd_at t j) else ofd_at t j)" for j
    using r(1) by (simp add: ofd_at_set_ofd)
  have same: "ofd_at ?t (fr_ofd r') = ofd_at t (fr_ofd r')" if "r' \<in> set rs" for r'
    using that r(2) unfolding at by (metis image_eqI)
  have m: "map (\<lambda>r. [Mutex_Closed (io_mutex (ofd_at ?t (fr_ofd r))), close_parent r]) rs =
      map (\<lambda>r. [Mutex_Closed (io_mutex (ofd_at t (fr_ofd r))), close_parent r]) rs"
    by (simp add: same)
  from Cons.IH [OF _ c(1)] r(3) have ih: "fds t' = fds ?t" "ofd_capacity t' = ofd_capacity ?t"
    "\<forall>r \<in> set rs. ofd_at t' (fr_ofd r) = child_install_entry r (ofd_at ?t (fr_ofd r))"
    "\<forall>i. i \<notin> fr_ofd ` set rs \<longrightarrow> ofd_at t' i = ofd_at ?t i"
    "evs' = concat (map (\<lambda>r. [Mutex_Closed (io_mutex (ofd_at ?t (fr_ofd r))), close_parent r]) rs)" by simp_all
  have "ofd_at t' (fr_ofd r) = child_install_entry r (ofd_at t (fr_ofd r))" using ih(4) r(2) by (simp add: at)
  moreover have "ofd_at t' (fr_ofd r') = child_install_entry r' (ofd_at t (fr_ofd r'))" if "r' \<in> set rs" for r'
    using bspec [OF ih(3) that] by (simp only: same [OF that])
  moreover have "ofd_at t' i = ofd_at t i" if "i \<notin> fr_ofd ` set (r # rs)" for i using ih(4) that by (simp add: at)
  moreover have "evs = concat (map (\<lambda>r. [Mutex_Closed (io_mutex (ofd_at t (fr_ofd r))), close_parent r]) (r # rs))"
    unfolding c(2) ih(5) m by simp
  ultimately show ?case
  proof (intro conjI ballI allI impI)
    fix r' assume "r' \<in> set (r # rs)" and o: "ofd_at t' (fr_ofd r) = child_install_entry r (ofd_at t (fr_ofd r))"
      and os: "\<And>r'. r' \<in> set rs \<Longrightarrow> ofd_at t' (fr_ofd r') = child_install_entry r' (ofd_at t (fr_ofd r'))"
    then show "ofd_at t' (fr_ofd r') = child_install_entry r' (ofd_at t (fr_ofd r'))" by (metis set_ConsD)
  qed (use ih(1,2) in simp_all)
qed simp

lemma clone_Cons:
  "clone_failure fh (r # rs) = (if fst (clone_record fh r) = S_OK then clone_failure fh rs else fst (clone_record fh r))"
  "cloned fh (r # rs) = (if fst (clone_record fh r) = S_OK then snd (clone_record fh r) # cloned fh rs else [])"
  by (simp_all add: clone_failure_def cloned_def clones_ok_def)

lemma clones_succeed:
  assumes "clone_failure fh rs = S_OK"
  shows "\<forall>r \<in> set rs. fst (clone_record fh r) = S_OK" "cloned fh rs = map (\<lambda>r. snd (clone_record fh r)) rs"
proof -
  have "(\<forall>r \<in> set rs. fst (clone_record fh r) = S_OK) \<and> cloned fh rs = map (\<lambda>r. snd (clone_record fh r)) rs"
    using assms
  proof (induction rs)
    case Nil
    then show ?case by (simp add: cloned_def clones_ok_def)
  next
    case (Cons r rs)
    then show ?case by (cases "fst (clone_record fh r) = S_OK") (simp_all add: clone_Cons)
  qed
  then show "\<forall>r \<in> set rs. fst (clone_record fh r) = S_OK" "cloned fh rs = map (\<lambda>r. snd (clone_record fh r)) rs"
    by simp_all
qed

lemma install_pin:
  assumes "clone_record fh (pin_of t i) = (S_OK, r)"
  shows "child_install_entry (r\<lparr>child_mutex := m\<rparr>) (enter_ofd (ofd_at t i)) = child_entry fh m (ofd_at t i)"
    "[Mutex_Closed (io_mutex (ofd_at t i)), close_parent (r\<lparr>child_mutex := m\<rparr>)] = inherited (ofd_at t i)"
    "fr_ofd (r\<lparr>child_mutex := m\<rparr>) = i"
  using assms
  by (auto simp: clone_record_def pin_of_def pin_record_def child_install_entry_def child_entry_def inherited_def close_parent_def
      enter_ofd_def split: option.splits prod.splits if_splits)

text \<open>Claim C29.  The child's table after a fork: the descriptors are the parent's, each live description holds
  its own copy of the handle or object and its own new mutex with no operation in flight, and the inherited
  originals are released once each, in order.  A description that was already closing stays as it was copied,
  its operation count included.\<close>

theorem fork_child_exact:
  assumes "fd_reachable w" "fork_quiet fh w" "clone_failure fh (fork_pins (table w)) = S_OK" "child_services fh"
    and "\<And>k. fst (new_mutex fh k) = S_OK \<and> snd (new_mutex fh k) \<noteq> 0"
  defines "t \<equiv> table w" and "live \<equiv> live_ofds (table w) (ofd_indices (unat (ofd_watermark (table w))))"
  shows "\<exists>t'. hl_linux_abi_fork_child h fh \<lparr>plan_records = cloned fh (fork_pins t), armed = True, host_completed = True\<rparr>
      (fork_table t) = Some (S_OK, t', concat (map (\<lambda>i. inherited (ofd_at t i)) live)) \<and>
    fds t' = fds t \<and> (\<forall>k < length live. ofd_at t' (live ! k) = child_entry fh (snd (new_mutex fh k)) (ofd_at t (live ! k))) \<and>
    (\<forall>i. ofd_references (ofd_at t i) = 0 \<or> \<not> live_slot t i \<longrightarrow> ofd_at t' i = ofd_at t i)"
proof -
  let ?rs = "cloned fh (fork_pins t)" and ?p = "fork_table t"
  note held = pins_cloned [OF assms(1,2) cloned_key [OF assms(3)], folded t_def]
  note lv = live_in_pins [OF assms(1), folded live_def t_def]
  have rs: "?rs = map (\<lambda>i. snd (clone_record fh (pin_of t i))) live"
    using clones_succeed(2) [OF assms(3)] by (simp add: t_def live_def fork_pins_def comp_def)
  have ok: "clone_record fh (pin_of t i) = (S_OK, snd (clone_record fh (pin_of t i)))" if "i \<in> set live" for i
  proof -
    have "\<forall>r \<in> set (fork_pins t). fst (clone_record fh r) = S_OK"
      using clones_succeed(1) [OF assms(3)] by (simp add: t_def)
    with that show ?thesis by (simp add: fork_pins_def live_def t_def prod_eq_iff)
  qed
  let ?ms = "with_mutexes fh 0 ?rs"
  have ms: "?ms = map (\<lambda>k. (snd (clone_record fh (pin_of t (live ! k))))\<lparr>child_mutex := snd (new_mutex fh k)\<rparr>) [0 ..< length live]"
    by (rule nth_equalityI) (simp_all add: with_mutexes_def rs nth_enumerate_eq)
  have "child_validate fh ?p 0 [] ?rs = Inr ([] @ ?ms)"
    using held by (intro child_validate_all [OF assms(5)]) (auto simp: pins_held_def in_table_def)
  then have v: "child_validate fh ?p 0 [] ?rs = Inr ?ms" by simp
  obtain t' evs where ins: "child_install ?ms ?p = (t', evs)" by force
  have fr: "map fr_ofd ?ms = live"
    unfolding ms by (rule nth_equalityI) (simp_all add: install_pin(3) [OF ok])
  then have "in_table ?p (map fr_ofd ?ms)" using lv(2) by (simp add: in_table_def fork_table_def)
  note ci = child_install_all [OF this ins]
  have pt: "ofd_at ?p i = (if i \<in> set live then enter_ofd (ofd_at t i) else ofd_at t i)" for i
    using ofd_at_change_all [OF lv(2)] by (simp add: fork_table_def live_def t_def)
  have e: "evs = concat (map (\<lambda>i. inherited (ofd_at t i)) live)"
  proof -
    have "map (\<lambda>r. [Mutex_Closed (io_mutex (ofd_at ?p (fr_ofd r))), close_parent r]) ?ms = map (\<lambda>i. inherited (ofd_at t i)) live"
      unfolding ms by (rule nth_equalityI) (simp_all add: install_pin(2,3) [OF ok] pt)
    then show ?thesis using ci by simp
  qed
  have k: "ofd_at t' (live ! k) = child_entry fh (snd (new_mutex fh k)) (ofd_at t (live ! k))" if "k < length live" for k
  proof -
    let ?r = "(snd (clone_record fh (pin_of t (live ! k))))\<lparr>child_mutex := snd (new_mutex fh k)\<rparr>"
    have m: "live ! k \<in> set live" using that by simp
    have "?r \<in> set ?ms" unfolding ms using that by auto
    then have "ofd_at t' (fr_ofd ?r) = child_install_entry ?r (ofd_at ?p (fr_ofd ?r))" using ci by blast
    then show ?thesis by (simp only: install_pin(1,3) [OF ok [OF m]] pt m if_True)
  qed
  have o: "ofd_at t' i = ofd_at t i" if "ofd_references (ofd_at t i) = 0 \<or> \<not> live_slot t i" for i
  proof -
    have n: "i \<notin> set live" using that lv(1) by blast
    then have "i \<notin> fr_ofd ` set ?ms" using fr by (metis list.set_map)
    with ci n show ?thesis by (simp add: pt)
  qed
  have "hl_linux_abi_fork_child h fh \<lparr>plan_records = ?rs, armed = True, host_completed = True\<rparr> ?p = Some (S_OK, t', evs)"
    using assms(4) v ins by (simp add: hl_linux_abi_fork_child_def)
  moreover have "fds t' = fds t" using ci by (simp add: fork_table_def)
  ultimately show ?thesis using e k o by blast
qed

section \<open>Examples\<close>

text \<open>A host whose clones of a file are the next handle, with adapters that are safe to clone (or not).\<close>

definition example_fork_host :: "bool \<Rightarrow> fork_host" where
  "example_fork_host safe = \<lparr>prepare_services = True, parent_services = True, child_services = True,
     fork_safe = (\<lambda>_. safe), clone_object = (\<lambda>_. Some (\<lambda>c. (S_OK, c + 1))), clone_file = (\<lambda>c. (S_OK, c + 1)),
     arm_status = S_OK, parent_status = S_OK, child_status = S_OK, new_mutex = (\<lambda>_. (S_OK, 88)), close_status = (\<lambda>_. S_OK)\<rparr>"

definition example_spawn_host :: spawn_host where
  "example_spawn_host = \<lparr>process_services = True, records_allocated = True, spawn_prepared = (S_OK, 42)\<rparr>"

lemma opened_quiet: "fork_quiet fh opened_world"
  by (simp add: fork_quiet_def opened_world_def example_opened_def flights_def)

lemma opened_pins:
  "live_ofds (table opened_world) (ofd_indices (unat (ofd_watermark (table opened_world)))) = [1]"
  "fork_pins (table opened_world) = [pin_of example_opened 1]"
  by (simp_all add: fork_pins_def live_ofds_def ofd_indices_def opened_world_def example_opened_def ofd_at_def example_ofd_def
      upt_conv_Cons)

lemma opened_clone:
  "clone_record (example_fork_host safe) (pin_of example_opened 1) = (S_OK, (pin_of example_opened 1)\<lparr>child_handle := 901\<rparr>)"
  by (simp add: clone_record_def pin_of_def pin_record_def example_opened_def ofd_at_def example_ofd_def example_fork_host_def)

theorem fork_parent_transparent_witness:
  "hl_linux_abi_spawn example_fd_host (example_fork_host True) example_spawn_host (\<lambda>_ t. t) example_opened =
    Some (Inr 42, example_opened, [File_Closed 901])"
proof -
  have c: "cloned (example_fork_host True) [pin_of example_opened 1] = [(pin_of example_opened 1)\<lparr>child_handle := 901\<rparr>]"
    "clone_failure (example_fork_host True) [pin_of example_opened 1] = S_OK"
    by (simp_all add: clone_Cons opened_clone cloned_def clones_ok_def clone_failure_def)
  have d: "hl_linux_fork_discard_children [(pin_of example_opened 1)\<lparr>child_handle := 901\<rparr>] = [File_Closed 901]"
    by (simp add: hl_linux_fork_discard_children_def close_child_def pin_of_def pin_record_def example_opened_def ofd_at_def
        example_ofd_def)
  have a: "spawn_answer (example_fork_host True) example_spawn_host [pin_of example_opened 1] = Inr 42"
    unfolding spawn_answer_def c d by (simp add: example_fork_host_def example_spawn_host_def first_failure_def)
  have "table opened_world = example_opened" by (simp add: opened_world_def)
  with fork_parent_transparent [OF opened_reachable opened_quiet, of "example_fork_host True" example_spawn_host example_fd_host]
  show ?thesis unfolding opened_pins c d a by (simp add: example_fork_host_def example_spawn_host_def)
qed

theorem fork_child_exact_witness:
  "\<exists>t'. hl_linux_abi_fork_child example_fd_host (example_fork_host True)
      \<lparr>plan_records = [(pin_of example_opened 1)\<lparr>child_handle := 901\<rparr>], armed = True, host_completed = True\<rparr>
      (fork_table example_opened) = Some (S_OK, t', [Mutex_Closed 71, File_Closed 900]) \<and>
    ofd_at t' 1 = (ofd_at example_opened 1)\<lparr>host_handle := 901, io_mutex := 88\<rparr>"
proof -
  have c: "cloned (example_fork_host True) [pin_of example_opened 1] = [(pin_of example_opened 1)\<lparr>child_handle := 901\<rparr>]"
    "clone_failure (example_fork_host True) [pin_of example_opened 1] = S_OK"
    by (simp_all add: clone_Cons opened_clone cloned_def clones_ok_def clone_failure_def)
  have t: "table opened_world = example_opened" by (simp add: opened_world_def)
  have i: "inherited (ofd_at example_opened 1) = [Mutex_Closed 71, File_Closed 900]"
    "child_entry (example_fork_host True) 88 (ofd_at example_opened 1) = (ofd_at example_opened 1)\<lparr>host_handle := 901, io_mutex := 88\<rparr>"
    by (simp_all add: inherited_def child_entry_def example_opened_def ofd_at_def example_ofd_def example_fork_host_def)
  have "fst (new_mutex (example_fork_host True) k) = S_OK \<and> snd (new_mutex (example_fork_host True) k) \<noteq> 0" for k
    by (simp add: example_fork_host_def)
  moreover have "child_services (example_fork_host True)" "snd (new_mutex (example_fork_host True) 0) = 88"
    by (simp_all add: example_fork_host_def)
  ultimately show ?thesis
    using fork_child_exact [OF opened_reachable opened_quiet, of "example_fork_host True" example_fd_host, unfolded opened_pins c]
    unfolding t by (auto simp: i)
qed

text \<open>An adapter object as descriptor 1 beside the file, with an operation in flight on it.\<close>

definition example_object :: "u32 \<Rightarrow> ofd_entry" where
  "example_object act = \<lparr>host_handle = 0, ofd_offset = 0, status_flags = 0, ofd_references = 1, active_operations = act,
     closing = 0, ofd_generation = 1, ofd_kind = 9, flock_token = 0x500000001, io_mutex = 71, object_ops = Some 7,
     object_context = 55\<rparr>"

definition example_busy :: "u32 \<Rightarrow> linux_abi" where
  "example_busy act = \<lparr>abi = HL_LINUX_ABI_VERSION, fds = [\<lparr>fd_ofd = 1, descriptor_flags = 1, fd_generation = 1\<rparr>,
     \<lparr>fd_ofd = 2, descriptor_flags = 0, fd_generation = 1\<rparr>],
     ofds = [empty_ofd, example_ofd 1 0 0, example_object act], ofd_watermark = 3, reserved_fds = 0\<rparr>"

definition busy_world :: fd_world where
  "busy_world = \<lparr>table = example_busy 1, ios = {#}, pinned = {#(2, 1)#}, claims = {#}, drains = {#}, stuck = {},
     owned = {#900#}, freed = {#}\<rparr>"

lemma busy_reachable: "fd_reachable busy_world"
proof -
  have "hl_linux_object_install_common example_fd_host None 7 55 9 0 0 (table opened_world) = (Inr 1, example_busy 0, [Mutex_Created 71])"
    by (simp add: hl_linux_object_install_common_def with_new_mutex_def example_fd_host_def opened_world_def example_opened_def
        hl_linux_find_fd_def hl_linux_find_ofd_def empty_fd_def empty_ofd_def ofd_free_def set_fd_def set_ofd_def fd_at_def
        ofd_at_def point_fd_def hl_linux_new_ofd_token_def example_busy_def example_ofd_def example_object_def Let_def)
  from fd_step.object_install [OF this]
  have s: "fd_step opened_world (opened_world\<lparr>table := example_busy 0\<rparr>)" .
  have "pin_fd_locked 1 (example_busy 0) = Inr (\<lparr>pin_ofd = 2, pin_generation = 1, pin_ops = 7, pin_context = 55\<rparr>, example_busy 1)"
    by (simp add: pin_fd_locked_def pin_entry_def hl_linux_fd_get_unlocked_def example_busy_def example_object_def fd_capacity_def
        ofd_capacity_def fd_at_def ofd_at_def HL_LINUX_FD_RESERVED_def set_ofd_def Let_def)
  from fd_step.pin_fd [of 1 "opened_world\<lparr>table := example_busy 0\<rparr>", simplified, OF this]
  have "fd_step (opened_world\<lparr>table := example_busy 0\<rparr>) busy_world"
    by (simp add: flights_def opened_world_def busy_world_def)
  with s opened_reachable show ?thesis using fd_reachable_step by blast
qed

theorem fork_busy_leaks_witness:
  "\<exists>t'. hl_linux_abi_fork_prepare example_fd_host (example_fork_host False) 3 (\<lambda>_ t. t) (example_busy 1) = Some (Inl S_BUSY, t', []) \<and>
    active_operations (ofd_at t' 1) = 1 \<and> ofd_references (ofd_at t' 1) = 1"
proof -
  have t: "table busy_world = example_busy 1" "ofd_capacity (example_busy 1) = 3" "reserved_fds (example_busy 1) = 0"
    by (simp_all add: busy_world_def example_busy_def ofd_capacity_def)
  have f: "flights busy_world j = (if j = 2 then 1 else 0)" for j by (simp add: flights_def busy_world_def)
  have l: "live_slot (example_busy 1) 1" "live_slot (example_busy 1) 2" by (simp_all add: live_slot_def t)
  have e: "ofd_at (example_busy 1) 1 = example_ofd 1 0 0" "ofd_at (example_busy 1) 2 = example_object 1"
    by (simp_all add: ofd_at_def example_busy_def)
  have "\<exists>t'. hl_linux_abi_fork_prepare example_fd_host (example_fork_host False) (ofd_capacity (table busy_world)) (\<lambda>_ t. t) (table busy_world) =
      Some (Inl S_BUSY, t', []) \<and>
    (\<forall>j. ofd_at t' j = (if live_slot (table busy_world) j \<and> j < 2 \<and> ofd_references (ofd_at (table busy_world) j) \<noteq> 0
       then enter_ofd (ofd_at (table busy_world) j) else ofd_at (table busy_world) j)) \<and> fds t' = fds (table busy_world)"
  proof (rule fork_busy_leaks [OF busy_reachable])
    show "flights busy_world j = 0 \<or> \<not> fork_unsafe (example_fork_host False) (ofd_at (table busy_world) j)" if "j < 2" for j
      using that by (auto simp: f)
  qed (simp_all add: t l e f example_object_def fork_unsafe_def example_fork_host_def)
  then obtain t' where p: "hl_linux_abi_fork_prepare example_fd_host (example_fork_host False) 3 (\<lambda>_ t. t) (example_busy 1) = Some (Inl S_BUSY, t', [])"
    and a: "ofd_at t' j = (if live_slot (example_busy 1) j \<and> j < 2 \<and> ofd_references (ofd_at (example_busy 1) j) \<noteq> 0
       then enter_ofd (ofd_at (example_busy 1) j) else ofd_at (example_busy 1) j)" for j
    unfolding t by blast
  from a [of 1] l(1) have "ofd_at t' 1 = enter_ofd (example_ofd 1 0 0)" by (simp add: e example_ofd_def)
  with p show ?thesis by (simp add: example_ofd_def)
qed

end
