(* ===== verification/Watch_Set.thy ===== *)
theory Watch_Set
  imports Fd_Table
begin

text \<open>
  The set of watched files (\<open>linux_abi/watch.c\<close>): a file, named by device and object, is watched once however
  many users it has; users hold a token, and size changes queue up until they are drained.  A token is the
  slot's index plus one, below the slot's generation.  \<open>alloc\<close> tells whether the one allocation an operation
  may make succeeds; each operation holds the lock from its first to its last access to the state.
\<close>

section \<open>State\<close>

record watch_slot =
  slot_device :: u64
  slot_object :: u64
  slot_size :: u64
  slot_pending_size :: u64
  slot_generation :: u32
  slot_references :: u32
  slot_pending_flags :: u32
  slot_queued :: bool

record watch_state =
  watch_slots :: "watch_slot list"
  slot_capacity :: nat
  watch_queue :: "u32 list"
  watch_queue_capacity :: nat
  watch_shutdown :: bool

type_synonym watch_set = "watch_state option"

record watch_change =
  change_token :: u64
  change_device :: u64
  change_object :: u64
  old_size :: u64
  new_size :: u64
  change_flags :: u32

record watch_fork_record =
  fork_token :: u64
  fork_device :: u64
  fork_object :: u64

definition UINT32_MAX :: nat where "UINT32_MAX = 4294967295"

definition watch_token :: "nat \<Rightarrow> u32 \<Rightarrow> u64" where
  "watch_token index g = push_bit 32 (ucast g) OR (of_nat index + 1)"

definition watch_lookup :: "watch_state \<Rightarrow> u64 \<Rightarrow> nat option" where
  "watch_lookup s token =
    (let low = ucast token :: u32; position = unat (low - 1) in
     if low = 0 then None
     else if position \<ge> length (watch_slots s) \<or> slot_references (watch_slots s ! position) = 0 \<or>
       slot_generation (watch_slots s ! position) \<noteq> ucast (drop_bit 32 token)
     then None
     else Some position)"

definition with_slot :: "nat \<Rightarrow> (watch_slot \<Rightarrow> watch_slot) \<Rightarrow> watch_state \<Rightarrow> watch_state" where
  "with_slot i f s = s\<lparr>watch_slots := (watch_slots s)[i := f (watch_slots s ! i)]\<rparr>"

definition next_generation :: "u32 \<Rightarrow> u32" where
  "next_generation g = (if g + 1 = 0 then 1 else g + 1)"

section \<open>Life cycle\<close>

definition hl_linux_watch_init :: "bool \<Rightarrow> bool \<Rightarrow> watch_set \<Rightarrow> hl_status \<times> watch_set" where
  "hl_linux_watch_init alloc mutex ws =
    (case ws of
       Some _ \<Rightarrow> (S_INVALID_ARGUMENT, ws)
     | None \<Rightarrow>
         if \<not> alloc then (S_OUT_OF_MEMORY, ws)
         else if \<not> mutex then (S_PLATFORM_FAILURE, ws)
         else (S_OK, Some \<lparr>watch_slots = [], slot_capacity = 0, watch_queue = [], watch_queue_capacity = 0, watch_shutdown = False\<rparr>))"

definition hl_linux_watch_close :: "watch_set \<Rightarrow> watch_set" where
  "hl_linux_watch_close ws = None"

definition hl_linux_watch_shutdown :: "watch_set \<Rightarrow> watch_set" where
  "hl_linux_watch_shutdown ws = map_option (\<lambda>s. s\<lparr>watch_shutdown := True\<rparr>) ws"

section \<open>Retain and release\<close>

text \<open>The search for the file's slot, or else for the first free one.\<close>

fun retain_scan :: "u64 \<Rightarrow> u64 \<Rightarrow> nat \<Rightarrow> nat option \<Rightarrow> watch_slot list \<Rightarrow> nat + nat option" where
  "retain_scan d obj i free [] = Inr free"
| "retain_scan d obj i free (x # xs) =
    (if slot_references x \<noteq> 0 \<and> slot_device x = d \<and> slot_object x = obj then Inl i
     else retain_scan d obj (Suc i) (if slot_references x = 0 \<and> free = None then Some i else free) xs)"

definition empty_slot :: watch_slot where
  "empty_slot = \<lparr>slot_device = 0, slot_object = 0, slot_size = 0, slot_pending_size = 0, slot_generation = 0, slot_references = 0,
     slot_pending_flags = 0, slot_queued = False\<rparr>"

definition occupy :: "u64 \<Rightarrow> u64 \<Rightarrow> u64 \<Rightarrow> watch_slot \<Rightarrow> watch_slot" where
  "occupy d obj sz x = x\<lparr>slot_generation := next_generation (slot_generation x), slot_device := d, slot_object := obj, slot_size := sz,
     slot_pending_size := sz, slot_references := 1, slot_pending_flags := 0, slot_queued := False\<rparr>"

text \<open>A slot at the end of the array, when none is free.\<close>

definition append_slot :: "bool \<Rightarrow> watch_state \<Rightarrow> hl_status + nat \<times> watch_state" where
  "append_slot alloc s =
    (if length (watch_slots s) = UINT32_MAX then Inl S_RESOURCE_LIMIT
     else if length (watch_slots s) = slot_capacity s then
       (if \<not> alloc then Inl S_OUT_OF_MEMORY
        else Inr (length (watch_slots s), s\<lparr>watch_slots := watch_slots s @ [empty_slot],
          slot_capacity := (if slot_capacity s = 0 then 8 else slot_capacity s * 2)\<rparr>))
     else Inr (length (watch_slots s), s\<lparr>watch_slots := watch_slots s @ [empty_slot]\<rparr>))"

text \<open>The token, and whether the watch is new.\<close>

definition hl_linux_watch_retain ::
  "bool \<Rightarrow> watch_set \<Rightarrow> u64 \<Rightarrow> u64 \<Rightarrow> u64 \<Rightarrow> (hl_status + u64 \<times> bool) \<times> watch_set" where
  "hl_linux_watch_retain alloc ws d obj sz =
    (case ws of
       None \<Rightarrow> (Inl S_INVALID_ARGUMENT, ws)
     | Some s \<Rightarrow>
         if watch_shutdown s then (Inl S_INTERRUPTED, ws)
         else case retain_scan d obj 0 None (watch_slots s) of
             Inl i \<Rightarrow>
               (if slot_references (watch_slots s ! i) = - 1 then (Inl S_RESOURCE_LIMIT, ws)
                else (Inr (watch_token i (slot_generation (watch_slots s ! i)), False),
                      Some (with_slot i (\<lambda>x. x\<lparr>slot_references := slot_references x + 1\<rparr>) s)))
           | Inr free \<Rightarrow>
               (case (case free of Some i \<Rightarrow> Inr (i, s) | None \<Rightarrow> append_slot alloc s) of
                  Inl st \<Rightarrow> (Inl st, ws)
                | Inr (i, s1) \<Rightarrow>
                    (let s2 = with_slot i (occupy d obj sz) s1
                     in (Inr (watch_token i (slot_generation (watch_slots s2 ! i)), True), Some s2))))"

text \<open>Whether the last user left.\<close>

definition drop_user :: "watch_slot \<Rightarrow> watch_slot" where
  "drop_user x =
    (let x1 = x\<lparr>slot_references := slot_references x - 1\<rparr>
     in if slot_references x1 = 0 then x1\<lparr>slot_queued := False, slot_pending_flags := 0\<rparr> else x1)"

definition hl_linux_watch_release :: "watch_set \<Rightarrow> u64 \<Rightarrow> (hl_status + bool) \<times> watch_set" where
  "hl_linux_watch_release ws token =
    (case ws of
       None \<Rightarrow> (Inl S_INVALID_ARGUMENT, ws)
     | Some s \<Rightarrow>
         (case watch_lookup s token of
            None \<Rightarrow> (Inl S_NOT_FOUND, ws)
          | Some i \<Rightarrow>
              (let s1 = with_slot i drop_user s in (Inr (slot_references (watch_slots s1 ! i) = 0), Some s1))))"

section \<open>Changes\<close>

definition hl_linux_watch_enqueue :: "bool \<Rightarrow> watch_set \<Rightarrow> u64 \<Rightarrow> u64 \<Rightarrow> u32 \<Rightarrow> hl_status \<times> watch_set" where
  "hl_linux_watch_enqueue alloc ws token sz flags =
    (case ws of
       None \<Rightarrow> (S_INVALID_ARGUMENT, ws)
     | Some s \<Rightarrow>
         (case watch_lookup s token of
            None \<Rightarrow> (S_NOT_FOUND, ws)
          | Some i \<Rightarrow>
              if watch_shutdown s then (S_INTERRUPTED, ws)
              else
                (let s1 = with_slot i (\<lambda>x. x\<lparr>slot_pending_size := sz, slot_pending_flags := slot_pending_flags x OR flags\<rparr>) s in
                 if slot_queued (watch_slots s1 ! i) then (S_OK, Some s1)
                 else if length (watch_queue s1) = watch_queue_capacity s1 \<and> \<not> alloc then (S_OUT_OF_MEMORY, Some s1)
                 else
                   (let s2 = (if length (watch_queue s1) = watch_queue_capacity s1
                          then s1\<lparr>watch_queue_capacity := (if watch_queue_capacity s1 = 0 then 8 else watch_queue_capacity s1 * 2)\<rparr>
                          else s1)
                    in (S_OK, Some (with_slot i (\<lambda>x. x\<lparr>slot_queued := True\<rparr>) (s2\<lparr>watch_queue := watch_queue s2 @ [of_nat i]\<rparr>)))))))"

definition slot_change :: "nat \<Rightarrow> watch_slot \<Rightarrow> watch_change" where
  "slot_change i x = \<lparr>change_token = watch_token i (slot_generation x), change_device = slot_device x, change_object = slot_object x,
     old_size = slot_size x, new_size = slot_pending_size x, change_flags = slot_pending_flags x\<rparr>"

definition deliver :: "watch_slot \<Rightarrow> watch_slot" where
  "deliver x = x\<lparr>slot_size := slot_pending_size x, slot_pending_flags := 0, slot_queued := False\<rparr>"

fun drain_queue :: "u32 list \<Rightarrow> watch_slot list \<Rightarrow> watch_change list \<times> watch_slot list" where
  "drain_queue [] xs = ([], xs)"
| "drain_queue (p # ps) xs =
    (let i = unat p; x = xs ! i in
     if \<not> slot_queued x \<or> slot_references x = 0 then drain_queue ps xs
     else let (cs, xs') = drain_queue ps (xs[i := deliver x]) in (slot_change i x # cs, xs'))"

text \<open>The changes, in the order in which the callback gets them after the lock is released.\<close>

definition hl_linux_watch_drain :: "bool \<Rightarrow> watch_set \<Rightarrow> (hl_status + watch_change list) \<times> watch_set" where
  "hl_linux_watch_drain alloc ws =
    (case ws of
       None \<Rightarrow> (Inl S_INVALID_ARGUMENT, ws)
     | Some s \<Rightarrow>
         if watch_queue s \<noteq> [] \<and> \<not> alloc then (Inl S_OUT_OF_MEMORY, ws)
         else let (cs, xs) = drain_queue (watch_queue s) (watch_slots s) in (Inr cs, Some (s\<lparr>watch_slots := xs, watch_queue := []\<rparr>)))"

section \<open>Fork\<close>

fun fork_records :: "nat \<Rightarrow> nat \<Rightarrow> watch_fork_record list \<Rightarrow> watch_slot list \<Rightarrow> hl_status \<times> watch_fork_record list" where
  "fork_records capacity i rs [] = (S_OK, rs)"
| "fork_records capacity i rs (x # xs) =
    (if slot_references x = 0 then fork_records capacity (Suc i) rs xs
     else if length rs = capacity then (S_RESOURCE_LIMIT, rs)
     else fork_records capacity (Suc i)
       (rs @ [\<lparr>fork_token = watch_token i (slot_generation x), fork_device = slot_device x, fork_object = slot_object x\<rparr>]) xs)"

text \<open>Both ways to fill the plan; they differ in whether the lock stays held.\<close>

definition hl_linux_watch_fork_prepare :: "nat \<Rightarrow> watch_set \<Rightarrow> hl_status \<times> watch_fork_record list" where
  "hl_linux_watch_fork_prepare capacity ws =
    (case ws of None \<Rightarrow> (S_INVALID_ARGUMENT, []) | Some s \<Rightarrow> fork_records capacity 0 [] (watch_slots s))"

definition hl_linux_watch_fork_snapshot :: "nat \<Rightarrow> watch_set \<Rightarrow> hl_status \<times> watch_fork_record list" where
  "hl_linux_watch_fork_snapshot capacity ws =
    (case ws of None \<Rightarrow> (S_INVALID_ARGUMENT, []) | Some s \<Rightarrow> fork_records capacity 0 [] (watch_slots s))"

definition child_slot :: "watch_slot \<Rightarrow> watch_slot" where
  "child_slot x =
    (let x1 = x\<lparr>slot_queued := False, slot_pending_flags := 0, slot_pending_size := slot_size x\<rparr>
     in if slot_references x1 = 0 then x1 else x1\<lparr>slot_generation := next_generation (slot_generation x1)\<rparr>)"

fun retoken :: "watch_slot list \<Rightarrow> watch_fork_record list \<Rightarrow> watch_fork_record list option" where
  "retoken xs [] = Some []"
| "retoken xs (r # rs) =
    (let low = ucast (fork_token r) :: u32; i = unat (low - 1) in
     if low = 0 \<or> i \<ge> length xs \<or> slot_references (xs ! i) = 0 then None
     else map_option (\<lambda>rs'. r\<lparr>fork_token := watch_token i (slot_generation (xs ! i))\<rparr> # rs') (retoken xs rs))"

text \<open>The records are what \<open>rebuild\<close> is called with, in order.\<close>

definition hl_linux_watch_fork_child ::
  "watch_set \<Rightarrow> watch_fork_record list \<Rightarrow> (hl_status + watch_fork_record list) \<times> watch_set" where
  "hl_linux_watch_fork_child ws rs =
    (case ws of
       None \<Rightarrow> (Inl S_INVALID_ARGUMENT, ws)
     | Some s \<Rightarrow>
         (let s1 = s\<lparr>watch_queue := [], watch_shutdown := False, watch_slots := map child_slot (watch_slots s)\<rparr> in
          case retoken (watch_slots s1) rs of
            None \<Rightarrow> (Inl S_PLATFORM_FAILURE, Some s1)
          | Some rs' \<Rightarrow> (Inr rs', Some s1)))"

end
