(* ===== verification/Watch_Spec.thy ===== *)
theory Watch_Spec
  imports Watch_Set
begin

text \<open>
  What the watch set promises, over tokens instead of slots, runs of the code, and the abstraction that relates
  the two.
\<close>

section \<open>The specification\<close>

record file_watch =
  fw_device :: u64
  fw_object :: u64
  fw_size :: u64
  fw_next :: u64
  fw_users :: nat
  fw_flags :: u32
  fw_changed :: bool

type_synonym watches = "u64 \<rightharpoonup> file_watch"

datatype watch_op =
    Retain bool u64 u64 u64
  | Release u64
  | Enqueue bool u64 u64 u32
  | Drain bool
  | Shutdown

datatype watch_reply =
    Retained "hl_status + u64 \<times> bool"
  | Released "hl_status + bool"
  | Enqueued hl_status
  | Drained "hl_status + watch_change list"
  | Stopped

definition settle :: "file_watch \<Rightarrow> file_watch" where
  "settle x = x\<lparr>fw_size := fw_next x, fw_flags := 0, fw_changed := False\<rparr>"

definition change_of :: "u64 \<Rightarrow> file_watch \<Rightarrow> watch_change" where
  "change_of token x = \<lparr>change_token = token, change_device = fw_device x, change_object = fw_object x,
     old_size = fw_size x, new_size = fw_next x, change_flags = fw_flags x\<rparr>"

fun watch_spec :: "watches \<Rightarrow> watch_op \<Rightarrow> watch_reply \<Rightarrow> watches \<Rightarrow> bool" where
  "watch_spec m (Retain alloc d obj sz) (Retained (Inl st)) m' \<longleftrightarrow> m' = m"
| "watch_spec m (Retain alloc d obj sz) (Retained (Inr (token, new))) m' \<longleftrightarrow>
    (if new then
       (\<forall>t x. m t = Some x \<longrightarrow> fw_device x \<noteq> d \<or> fw_object x \<noteq> obj) \<and> m token = None \<and>
       m' = m(token \<mapsto> \<lparr>fw_device = d, fw_object = obj, fw_size = sz, fw_next = sz, fw_users = 1, fw_flags = 0, fw_changed = False\<rparr>)
     else \<exists>x. m token = Some x \<and> fw_device x = d \<and> fw_object x = obj \<and> m' = m(token \<mapsto> x\<lparr>fw_users := fw_users x + 1\<rparr>))"
| "watch_spec m (Release token) (Released (Inl st)) m' \<longleftrightarrow> m token = None \<and> m' = m"
| "watch_spec m (Release token) (Released (Inr last_user)) m' \<longleftrightarrow>
    (\<exists>x. m token = Some x \<and> last_user = (fw_users x = 1) \<and>
      m' = m(token := if fw_users x = 1 then None else Some (x\<lparr>fw_users := fw_users x - 1\<rparr>)))"
| "watch_spec m (Enqueue alloc token sz fl) (Enqueued st) m' \<longleftrightarrow>
    (case m token of
       None \<Rightarrow> st = S_NOT_FOUND \<and> m' = m
     | Some x \<Rightarrow>
         st = S_INTERRUPTED \<and> m' = m \<or>
         st = S_OUT_OF_MEMORY \<and> m' = m(token \<mapsto> x\<lparr>fw_next := sz, fw_flags := fw_flags x OR fl\<rparr>) \<or>
         st = S_OK \<and> m' = m(token \<mapsto> x\<lparr>fw_next := sz, fw_flags := fw_flags x OR fl, fw_changed := True\<rparr>))"
| "watch_spec m (Drain alloc) (Drained (Inl st)) m' \<longleftrightarrow> st = S_OUT_OF_MEMORY \<and> m' = m"
| "watch_spec m (Drain alloc) (Drained (Inr cs)) m' \<longleftrightarrow>
    distinct (map change_token cs) \<and> set cs = {change_of t x | t x. m t = Some x \<and> fw_changed x} \<and>
    m' = (\<lambda>t. map_option (\<lambda>x. if fw_changed x then settle x else x) (m t))"
| "watch_spec m Shutdown Stopped m' \<longleftrightarrow> m' = m"
| "watch_spec m oper reply m' \<longleftrightarrow> False"

fun watch_spec_run :: "watches \<Rightarrow> watch_op list \<Rightarrow> watch_reply list \<Rightarrow> watches \<Rightarrow> bool" where
  "watch_spec_run m [] [] m' \<longleftrightarrow> m' = m"
| "watch_spec_run m (oper # ops) (r # rs) m' \<longleftrightarrow> (\<exists>m1. watch_spec m oper r m1 \<and> watch_spec_run m1 ops rs m')"
| "watch_spec_run m ops rs m' \<longleftrightarrow> False"

section \<open>Runs of the code\<close>

fun watch_exec :: "watch_op \<Rightarrow> watch_set \<Rightarrow> watch_reply \<times> watch_set" where
  "watch_exec (Retain alloc d obj sz) ws = map_prod Retained id (hl_linux_watch_retain alloc ws d obj sz)"
| "watch_exec (Release token) ws = map_prod Released id (hl_linux_watch_release ws token)"
| "watch_exec (Enqueue alloc token sz fl) ws = map_prod Enqueued id (hl_linux_watch_enqueue alloc ws token sz fl)"
| "watch_exec (Drain alloc) ws = map_prod Drained id (hl_linux_watch_drain alloc ws)"
| "watch_exec Shutdown ws = (Stopped, hl_linux_watch_shutdown ws)"

fun watch_run :: "watch_op list \<Rightarrow> watch_set \<Rightarrow> watch_reply list \<times> watch_set" where
  "watch_run [] ws = ([], ws)"
| "watch_run (oper # ops) ws =
    (let (r, ws1) = watch_exec oper ws; (rs, ws2) = watch_run ops ws1 in (r # rs, ws2))"

section \<open>Tokens\<close>

lemma index_words:
  assumes "i < UINT32_MAX"
  shows "unat (of_nat (Suc i) :: u32) = Suc i" "unat (of_nat (Suc i) :: u64) = Suc i"
    "(ucast (of_nat (Suc i) :: u64) :: u32) = of_nat (Suc i)"
proof -
  have s: "Suc i < 2 ^ 32" using assms by (simp add: UINT32_MAX_def)
  then show u: "unat (of_nat (Suc i) :: u32) = Suc i" "unat (of_nat (Suc i) :: u64) = Suc i"
    by (simp_all only: unat_of_nat take_bit_nat_eq_self_iff) (simp_all add: take_bit_nat_eq_self)
  have "unat (ucast (of_nat (Suc i) :: u64) :: u32) = take_bit 32 (unat (of_nat (Suc i) :: u64))"
    by (simp only: unsigned_ucast_eq) simp
  with u s show "(ucast (of_nat (Suc i) :: u64) :: u32) = of_nat (Suc i)"
    by (simp only: word_unat_eq_iff take_bit_nat_eq_self)
qed

lemma low_position:
  assumes "i < UINT32_MAX"
  shows "(of_nat (Suc i) :: u32) \<noteq> 0" "unat ((of_nat (Suc i) :: u32) - 1) = i"
proof -
  show "(of_nat (Suc i) :: u32) \<noteq> 0" using index_words(1) [OF assms] by (metis nat.distinct(1) unat_0)
  have "unat (of_nat i :: u32) = i" using assms by (simp add: unat_of_nat take_bit_eq_mod UINT32_MAX_def)
  then show "unat ((of_nat (Suc i) :: u32) - 1) = i" by simp
qed

lemma token_high:
  fixes w :: u64 and g :: u32
  assumes "\<And>n. 32 \<le> n \<Longrightarrow> \<not> bit w n"
  shows "(ucast (drop_bit 32 (push_bit 32 (ucast g) OR w)) :: u32) = g"
  by (rule bit_word_eqI) (simp add: bit_simps assms)

lemma watch_token_parts:
  assumes "i < UINT32_MAX"
  shows "(ucast (watch_token i g) :: u32) = of_nat (Suc i)" "(ucast (drop_bit 32 (watch_token i g)) :: u32) = g"
proof -
  have t: "watch_token i g = push_bit 32 (ucast g) OR of_nat (Suc i)" by (simp add: watch_token_def add.commute)
  have "(of_nat (Suc i) :: u64) < 2 ^ 32"
    unfolding word_less_nat_alt index_words(2) [OF assms] using assms by (simp add: UINT32_MAX_def)
  then have m: "take_bit 32 (of_nat (Suc i) :: u64) = of_nat (Suc i)" by (simp only: take_bit_eq_mask less_mask_eq)
  have hi: "\<not> bit (of_nat (Suc i) :: u64) n" if "32 \<le> n" for n using that by (metis m bit_take_bit_iff not_less)
  have "(ucast (watch_token i g) :: u32) = ucast (of_nat (Suc i) :: u64)"
    unfolding t by (rule bit_word_eqI) (simp add: bit_simps del: of_nat_Suc)
  then show "(ucast (watch_token i g) :: u32) = of_nat (Suc i)" unfolding index_words(3) [OF assms] .
  show "(ucast (drop_bit 32 (watch_token i g)) :: u32) = g"
    unfolding t by (rule token_high) (rule hi)
qed

lemma watch_token_eq:
  assumes "i < UINT32_MAX" "j < UINT32_MAX"
  shows "watch_token i g = watch_token j g' \<longleftrightarrow> i = j \<and> g = g'"
proof
  assume e: "watch_token i g = watch_token j g'"
  then have "(of_nat (Suc i) :: u32) = of_nat (Suc j)" "g = g'"
    using watch_token_parts [OF assms(1), of g] watch_token_parts [OF assms(2), of g'] by metis+
  then show "i = j \<and> g = g'" using index_words(1) [OF assms(1)] index_words(1) [OF assms(2)] by (metis nat.inject)
qed simp

text \<open>Every token with an index in its low half is of this form.\<close>

lemma watch_token_decompose:
  assumes "(ucast token :: u32) \<noteq> 0"
  shows "token = watch_token (unat ((ucast token :: u32) - 1)) (ucast (drop_bit 32 token))"
proof -
  let ?low = "ucast token :: u32"
  have "of_nat (unat (?low - 1)) + 1 = (ucast ?low :: u64)"
  proof -
    have "unat (?low - 1) = unat ?low - 1" using assms by (rule unat_minus_one)
    moreover have "0 < unat ?low" using assms by (simp add: unat_gt_0)
    ultimately have "of_nat (unat (?low - 1)) + 1 = (of_nat (unat ?low) :: u64)" by simp
    then show ?thesis by simp
  qed
  then have "watch_token (unat (?low - 1)) (ucast (drop_bit 32 token)) = push_bit 32 (ucast (ucast (drop_bit 32 token) :: u32)) OR ucast ?low"
    by (simp add: watch_token_def)
  also have "\<dots> = token" by (rule bit_word_eqI) (auto simp: bit_simps)
  finally show ?thesis by simp
qed

lemma watch_lookup_iff:
  assumes "length (watch_slots s) \<le> UINT32_MAX"
  shows "watch_lookup s token = Some i \<longleftrightarrow>
    i < length (watch_slots s) \<and> slot_references (watch_slots s ! i) \<noteq> 0 \<and>
    token = watch_token i (slot_generation (watch_slots s ! i))"
proof
  assume "watch_lookup s token = Some i"
  then have "(ucast token :: u32) \<noteq> 0" "i = unat ((ucast token :: u32) - 1)" "i < length (watch_slots s)"
    "slot_references (watch_slots s ! i) \<noteq> 0" "slot_generation (watch_slots s ! i) = ucast (drop_bit 32 token)"
    by (auto simp: watch_lookup_def Let_def split: if_splits)
  with watch_token_decompose show "i < length (watch_slots s) \<and> slot_references (watch_slots s ! i) \<noteq> 0 \<and>
    token = watch_token i (slot_generation (watch_slots s ! i))" by simp
next
  assume a: "i < length (watch_slots s) \<and> slot_references (watch_slots s ! i) \<noteq> 0 \<and>
    token = watch_token i (slot_generation (watch_slots s ! i))"
  then have "i < UINT32_MAX" using assms by simp
  with a watch_token_parts [of i "slot_generation (watch_slots s ! i)"] low_position [of i]
  show "watch_lookup s token = Some i" by (simp add: watch_lookup_def Let_def del: of_nat_Suc)
qed

section \<open>The abstraction\<close>

definition view :: "watch_slot \<Rightarrow> file_watch" where
  "view x = \<lparr>fw_device = slot_device x, fw_object = slot_object x, fw_size = slot_size x, fw_next = slot_pending_size x,
     fw_users = unat (slot_references x), fw_flags = slot_pending_flags x, fw_changed = slot_queued x\<rparr>"

definition watches_of :: "watch_state \<Rightarrow> watches" where
  "watches_of s token = map_option (\<lambda>i. view (watch_slots s ! i)) (watch_lookup s token)"

definition watch_ok :: "watch_state \<Rightarrow> bool" where
  "watch_ok s \<longleftrightarrow> length (watch_slots s) \<le> UINT32_MAX \<and>
    (\<forall>i < length (watch_slots s). \<forall>j < length (watch_slots s).
      slot_references (watch_slots s ! i) \<noteq> 0 \<and> slot_references (watch_slots s ! j) \<noteq> 0 \<and>
      slot_device (watch_slots s ! i) = slot_device (watch_slots s ! j) \<and>
      slot_object (watch_slots s ! i) = slot_object (watch_slots s ! j) \<longrightarrow> i = j) \<and>
    (\<forall>i < length (watch_slots s). slot_references (watch_slots s ! i) \<noteq> 0 \<and> slot_queued (watch_slots s ! i) \<longrightarrow>
      i \<in> unat ` set (watch_queue s)) \<and>
    (\<forall>p \<in> set (watch_queue s). unat p < length (watch_slots s))"

lemma watch_okD:
  assumes "watch_ok s"
  shows "length (watch_slots s) \<le> UINT32_MAX"
    "i < length (watch_slots s) \<Longrightarrow> j < length (watch_slots s) \<Longrightarrow> slot_references (watch_slots s ! i) \<noteq> 0 \<Longrightarrow>
      slot_references (watch_slots s ! j) \<noteq> 0 \<Longrightarrow> slot_device (watch_slots s ! i) = slot_device (watch_slots s ! j) \<Longrightarrow>
      slot_object (watch_slots s ! i) = slot_object (watch_slots s ! j) \<Longrightarrow> i = j"
    "i < length (watch_slots s) \<Longrightarrow> slot_references (watch_slots s ! i) \<noteq> 0 \<Longrightarrow> slot_queued (watch_slots s ! i) \<Longrightarrow>
      i \<in> unat ` set (watch_queue s)"
    "p \<in> set (watch_queue s) \<Longrightarrow> unat p < length (watch_slots s)"
  using assms by (auto simp: watch_ok_def)

abbreviation token_at :: "watch_state \<Rightarrow> nat \<Rightarrow> u64" where
  "token_at s i \<equiv> watch_token i (slot_generation (watch_slots s ! i))"

abbreviation live_at :: "watch_state \<Rightarrow> nat \<Rightarrow> bool" where
  "live_at s i \<equiv> i < length (watch_slots s) \<and> slot_references (watch_slots s ! i) \<noteq> 0"

lemma watches_of_Some:
  assumes "length (watch_slots s) \<le> UINT32_MAX"
  shows "watches_of s token = Some x \<longleftrightarrow> (\<exists>i. live_at s i \<and> token = token_at s i \<and> x = view (watch_slots s ! i))"
  unfolding watches_of_def using watch_lookup_iff [OF assms] by auto

lemma watches_of_token: "length (watch_slots s) \<le> UINT32_MAX \<Longrightarrow> live_at s i \<Longrightarrow> watches_of s (token_at s i) = Some (view (watch_slots s ! i))"
  using watches_of_Some by blast

text \<open>Two states whose live slots are the same are the same watches.\<close>

lemma watches_of_eqI:
  assumes "length (watch_slots s) \<le> UINT32_MAX"
    and "\<And>t x. m t = Some x \<longleftrightarrow> (\<exists>i. live_at s i \<and> t = token_at s i \<and> x = view (watch_slots s ! i))"
  shows "watches_of s = m"
proof
  fix t
  show "watches_of s t = m t"
    using watches_of_Some [OF assms(1), of t] assms(2) [of t] by (metis option.exhaust)
qed

section \<open>Changing one slot\<close>

lemma with_slot_simps [simp]:
  "length (watch_slots (with_slot i f s)) = length (watch_slots s)" "watch_queue (with_slot i f s) = watch_queue s"
  "watch_shutdown (with_slot i f s) = watch_shutdown s" "watch_queue_capacity (with_slot i f s) = watch_queue_capacity s"
  "slot_capacity (with_slot i f s) = slot_capacity s"
  by (simp_all add: with_slot_def)

lemma with_slot_nth:
  "i < length (watch_slots s) \<Longrightarrow> watch_slots (with_slot i f s) ! j = (if j = i then f (watch_slots s ! i) else watch_slots s ! j)"
  by (simp add: with_slot_def nth_list_update)

lemma watches_of_with_slot:
  assumes "length (watch_slots s) \<le> UINT32_MAX" "live_at s i" "slot_generation (f (watch_slots s ! i)) = slot_generation (watch_slots s ! i)"
  shows "watches_of (with_slot i f s) = (watches_of s)(token_at s i :=
    (if slot_references (f (watch_slots s ! i)) = 0 then None else Some (view (f (watch_slots s ! i)))))"
proof (rule watches_of_eqI)
  fix t x
  let ?s = "with_slot i f s"
  have i: "i < length (watch_slots s)" using assms(2) by simp
  have n: "token_at s i \<noteq> token_at s j" if "live_at s j" "j \<noteq> i" for j
    using watch_token_eq [of i j] that assms(1) i by simp
  show "((watches_of s)(token_at s i := (if slot_references (f (watch_slots s ! i)) = 0 then None else Some (view (f (watch_slots s ! i)))))) t = Some x \<longleftrightarrow>
    (\<exists>j. live_at ?s j \<and> t = token_at ?s j \<and> x = view (watch_slots ?s ! j))"
  proof (cases "t = token_at s i")
    case True
    have "(\<exists>j. live_at ?s j \<and> t = token_at ?s j \<and> x = view (watch_slots ?s ! j)) \<longleftrightarrow>
      slot_references (f (watch_slots s ! i)) \<noteq> 0 \<and> x = view (f (watch_slots s ! i))"
      using n i assms(3) by (auto simp: True with_slot_nth split: if_splits)
    then show ?thesis by (auto simp: True)
  next
    case False
    have "(\<exists>j. live_at ?s j \<and> t = token_at ?s j \<and> x = view (watch_slots ?s ! j)) \<longleftrightarrow>
      (\<exists>j. live_at s j \<and> t = token_at s j \<and> x = view (watch_slots s ! j))"
      using False assms(3) i by (intro ex_cong1) (auto simp: with_slot_nth)
    then show ?thesis using watches_of_Some [OF assms(1)] False by simp
  qed
qed (use assms in simp)

text \<open>A slot that nobody used is taken.\<close>

lemma watches_of_taken:
  assumes "length (watch_slots s) \<le> UINT32_MAX" "i < length (watch_slots s)" "slot_references (watch_slots s ! i) = 0"
    "slot_references (f (watch_slots s ! i)) \<noteq> 0"
  shows "watches_of (with_slot i f s) = (watches_of s)(token_at (with_slot i f s) i \<mapsto> view (f (watch_slots s ! i)))"
    "watches_of s (token_at (with_slot i f s) i) = None"
proof -
  let ?s = "with_slot i f s"
  have n: "token_at ?s i \<noteq> token_at s j" if "live_at s j" for j
    using watch_token_eq [of i j] that assms by auto
  show none: "watches_of s (token_at ?s i) = None"
    using watches_of_Some [OF assms(1)] n by (metis not_Some_eq)
  show "watches_of ?s = (watches_of s)(token_at ?s i \<mapsto> view (f (watch_slots s ! i)))"
  proof (rule watches_of_eqI)
    fix t x
    show "((watches_of s)(token_at ?s i \<mapsto> view (f (watch_slots s ! i)))) t = Some x \<longleftrightarrow>
      (\<exists>j. live_at ?s j \<and> t = token_at ?s j \<and> x = view (watch_slots ?s ! j))"
    proof (cases "t = token_at ?s i")
      case True
      have "(\<exists>j. live_at ?s j \<and> t = token_at ?s j \<and> x = view (watch_slots ?s ! j)) \<longleftrightarrow> x = view (f (watch_slots s ! i))"
      proof
        assume "\<exists>j. live_at ?s j \<and> t = token_at ?s j \<and> x = view (watch_slots ?s ! j)"
        then obtain j where j: "live_at ?s j" "t = token_at ?s j" "x = view (watch_slots ?s ! j)" by blast
        then have "j = i" using True watch_token_eq [of i j] assms(1,2) by simp
        with j assms(2) show "x = view (f (watch_slots s ! i))" by (simp add: with_slot_nth)
      next
        assume "x = view (f (watch_slots s ! i))"
        with True assms(2,4) show "\<exists>j. live_at ?s j \<and> t = token_at ?s j \<and> x = view (watch_slots ?s ! j)"
          by (intro exI [of _ i]) (simp add: with_slot_nth)
      qed
      then show ?thesis by (auto simp: True)
    next
      case False
      have "(\<exists>j. live_at ?s j \<and> t = token_at ?s j \<and> x = view (watch_slots ?s ! j)) \<longleftrightarrow>
        (\<exists>j. live_at s j \<and> t = token_at s j \<and> x = view (watch_slots s ! j))"
      proof (rule ex_cong1)
        fix j
        show "(live_at ?s j \<and> t = token_at ?s j \<and> x = view (watch_slots ?s ! j)) =
          (live_at s j \<and> t = token_at s j \<and> x = view (watch_slots s ! j))"
          using False assms(2,3) by (cases "j = i") (simp_all add: with_slot_nth)
      qed
      then show ?thesis using watches_of_Some [OF assms(1)] False by simp
    qed
  qed (use assms in simp)
qed

end
