(* ===== verification/Watch_Refine.thy ===== *)
theory Watch_Refine
  imports Watch_Spec
begin

text \<open>
  Every operation of the watch set is a step of the specification, whatever allocation fails, and keeps the
  invariant; so is every run.
\<close>

section \<open>Each operation\<close>

lemma retain_scan_Inl:
  "retain_scan d obj k free xs = Inl i \<Longrightarrow>
    k \<le> i \<and> i < k + length xs \<and> slot_references (xs ! (i - k)) \<noteq> 0 \<and> slot_device (xs ! (i - k)) = d \<and> slot_object (xs ! (i - k)) = obj"
proof (induction xs arbitrary: k free)
  case (Cons x xs)
  show ?case
  proof (cases "slot_references x \<noteq> 0 \<and> slot_device x = d \<and> slot_object x = obj")
    case True
    with Cons.prems show ?thesis by simp
  next
    case False
    with Cons.prems have "retain_scan d obj (Suc k) (if slot_references x = 0 \<and> free = None then Some k else free) xs = Inl i"
      by simp
    from Cons.IH [OF this] show ?thesis by (auto simp: nth_Cons' Suc_le_eq)
  qed
qed simp

lemma retain_scan_Inr:
  "retain_scan d obj k free xs = Inr r \<Longrightarrow>
    (\<forall>j < length xs. slot_references (xs ! j) = 0 \<or> slot_device (xs ! j) \<noteq> d \<or> slot_object (xs ! j) \<noteq> obj) \<and>
    (\<forall>i. r = Some i \<longrightarrow> free = Some i \<or> k \<le> i \<and> i < k + length xs \<and> slot_references (xs ! (i - k)) = 0)"
proof (induction xs arbitrary: k free)
  case (Cons x xs)
  have x: "\<not> (slot_references x \<noteq> 0 \<and> slot_device x = d \<and> slot_object x = obj)"
    and s: "retain_scan d obj (Suc k) (if slot_references x = 0 \<and> free = None then Some k else free) xs = Inr r"
    using Cons.prems by (auto split: if_splits)
  note ih = Cons.IH [OF s]
  have "slot_references ((x # xs) ! j) = 0 \<or> slot_device ((x # xs) ! j) \<noteq> d \<or> slot_object ((x # xs) ! j) \<noteq> obj"
    if "j < length (x # xs)" for j using that x ih by (cases j) auto
  moreover have "free = Some i \<or> k \<le> i \<and> i < k + length (x # xs) \<and> slot_references ((x # xs) ! (i - k)) = 0" if "r = Some i" for i
  proof -
    from ih that consider "(if slot_references x = 0 \<and> free = None then Some k else free) = Some i"
      | "Suc k \<le> i" "i < Suc k + length xs" "slot_references (xs ! (i - Suc k)) = 0" by auto
    then show ?thesis
    proof cases
      case 1
      then show ?thesis by (auto split: if_splits)
    next
      case 2
      then show ?thesis by (auto simp: nth_Cons' Suc_le_eq)
    qed
  qed
  ultimately show ?case by blast
qed simp

lemma append_slot_Inr:
  assumes "append_slot alloc s = Inr (i, s1)" "watch_ok s"
  shows "i = length (watch_slots s)" "watch_slots s1 = watch_slots s @ [empty_slot]" "watch_queue s1 = watch_queue s"
    "watch_ok s1" "watches_of s1 = watches_of s"
proof -
  show a: "i = length (watch_slots s)" "watch_slots s1 = watch_slots s @ [empty_slot]" "watch_queue s1 = watch_queue s"
    using assms(1) by (auto simp: append_slot_def split: if_splits)
  have "length (watch_slots s) \<noteq> UINT32_MAX" using assms(1) by (auto simp: append_slot_def)
  then have l: "length (watch_slots s1) \<le> UINT32_MAX" using watch_okD(1) [OF assms(2)] a(2) by simp
  have nth: "live_at s1 j \<longleftrightarrow> live_at s j" "j < length (watch_slots s) \<Longrightarrow> watch_slots s1 ! j = watch_slots s ! j" for j
    by (auto simp: a(2) nth_append empty_slot_def less_Suc_eq)
  show "watch_ok s1"
    unfolding watch_ok_def
  proof (intro conjI allI impI ballI l)
    show "j = k" if "j < length (watch_slots s1)" "k < length (watch_slots s1)"
      "slot_references (watch_slots s1 ! j) \<noteq> 0 \<and> slot_references (watch_slots s1 ! k) \<noteq> 0 \<and>
       slot_device (watch_slots s1 ! j) = slot_device (watch_slots s1 ! k) \<and>
       slot_object (watch_slots s1 ! j) = slot_object (watch_slots s1 ! k)" for j k
      using that nth watch_okD(2) [OF assms(2), of j k] by metis
    show "j \<in> unat ` set (watch_queue s1)" if "j < length (watch_slots s1)" "slot_references (watch_slots s1 ! j) \<noteq> 0 \<and> slot_queued (watch_slots s1 ! j)" for j
      using that nth watch_okD(3) [OF assms(2), of j] a(3) by metis
    show "unat p < length (watch_slots s1)" if "p \<in> set (watch_queue s1)" for p
      using that watch_okD(4) [OF assms(2), of p] a by simp
  qed
  show "watches_of s1 = watches_of s"
  proof (rule watches_of_eqI [OF l])
    show "watches_of s t = Some x \<longleftrightarrow> (\<exists>j. live_at s1 j \<and> t = token_at s1 j \<and> x = view (watch_slots s1 ! j))" for t x
      unfolding watches_of_Some [OF watch_okD(1) [OF assms(2)]] using nth by metis
  qed
qed

text \<open>The invariant after a change of one slot that queues nothing new.\<close>

lemma watch_ok_with_slot:
  assumes "watch_ok s" "i < length (watch_slots s)"
    and "slot_references (f (watch_slots s ! i)) \<noteq> 0 \<Longrightarrow>
      (\<forall>j < length (watch_slots s). j \<noteq> i \<and> slot_references (watch_slots s ! j) \<noteq> 0 \<longrightarrow>
        slot_device (watch_slots s ! j) \<noteq> slot_device (f (watch_slots s ! i)) \<or>
        slot_object (watch_slots s ! j) \<noteq> slot_object (f (watch_slots s ! i)))"
    and "slot_references (f (watch_slots s ! i)) \<noteq> 0 \<Longrightarrow> slot_queued (f (watch_slots s ! i)) \<Longrightarrow> i \<in> unat ` set (watch_queue s)"
  shows "watch_ok (with_slot i f s)"
  unfolding watch_ok_def
proof (intro conjI allI impI ballI)
  let ?s = "with_slot i f s"
  note n = with_slot_nth [OF assms(2), of f]
  show "j = k" if "j < length (watch_slots ?s)" "k < length (watch_slots ?s)"
    "slot_references (watch_slots ?s ! j) \<noteq> 0 \<and> slot_references (watch_slots ?s ! k) \<noteq> 0 \<and>
     slot_device (watch_slots ?s ! j) = slot_device (watch_slots ?s ! k) \<and>
     slot_object (watch_slots ?s ! j) = slot_object (watch_slots ?s ! k)" for j k
    using that assms(3) watch_okD(2) [OF assms(1), of j k] by (auto simp: n split: if_splits)
  show "j \<in> unat ` set (watch_queue ?s)" if "j < length (watch_slots ?s)" "slot_references (watch_slots ?s ! j) \<noteq> 0 \<and> slot_queued (watch_slots ?s ! j)" for j
    using that assms(4) watch_okD(3) [OF assms(1), of j] by (auto simp: n split: if_splits)
qed (use watch_okD [OF assms(1)] in simp_all)

text \<open>A change of a live slot that keeps its file.\<close>

lemma watch_ok_same_file:
  assumes "watch_ok s" "live_at s i"
    and "slot_device (f (watch_slots s ! i)) = slot_device (watch_slots s ! i)" "slot_object (f (watch_slots s ! i)) = slot_object (watch_slots s ! i)"
    and "slot_references (f (watch_slots s ! i)) \<noteq> 0 \<Longrightarrow> slot_queued (f (watch_slots s ! i)) \<Longrightarrow> i \<in> unat ` set (watch_queue s)"
  shows "watch_ok (with_slot i f s)"
proof (rule watch_ok_with_slot [OF assms(1)])
  show "\<forall>j < length (watch_slots s). j \<noteq> i \<and> slot_references (watch_slots s ! j) \<noteq> 0 \<longrightarrow>
      slot_device (watch_slots s ! j) \<noteq> slot_device (f (watch_slots s ! i)) \<or>
      slot_object (watch_slots s ! j) \<noteq> slot_object (f (watch_slots s ! i))"
    using watch_okD(2) [OF assms(1), of _ i] assms(2-4) by auto
qed (use assms in auto)

lemma retain_refines:
  assumes "watch_ok s" "hl_linux_watch_retain alloc (Some s) d obj sz = (r, ws')"
  shows "\<exists>s'. ws' = Some s' \<and> watch_ok s' \<and> watch_spec (watches_of s) (Retain alloc d obj sz) (Retained r) (watches_of s')"
proof (cases "watch_shutdown s")
  case True
  with assms show ?thesis by (auto simp: hl_linux_watch_retain_def)
next
  case run: False
  note len = watch_okD(1) [OF assms(1)]
  show ?thesis
  proof (cases "retain_scan d obj 0 None (watch_slots s)")
    case (Inl i)
    from retain_scan_Inl [OF Inl] have i: "live_at s i" "slot_device (watch_slots s ! i) = d" "slot_object (watch_slots s ! i) = obj" by simp_all
    show ?thesis
    proof (cases "slot_references (watch_slots s ! i) = - 1")
      case True
      with assms run Inl show ?thesis by (auto simp: hl_linux_watch_retain_def)
    next
      case False
      let ?f = "\<lambda>x. x\<lparr>slot_references := slot_references x + 1\<rparr>"
      have r: "slot_references (watch_slots s ! i) + 1 \<noteq> 0" using False by (simp add: eq_neg_iff_add_eq_0)
      have res: "r = Inr (token_at s i, False)" "ws' = Some (with_slot i ?f s)"
        using assms(2) run Inl False by (simp_all add: hl_linux_watch_retain_def)
      have ok: "watch_ok (with_slot i ?f s)"
        using watch_okD(3) [OF assms(1)] i by (intro watch_ok_same_file [OF assms(1) i(1)]) simp_all
      have v: "view (?f (watch_slots s ! i)) = (view (watch_slots s ! i))\<lparr>fw_users := fw_users (view (watch_slots s ! i)) + 1\<rparr>"
        by (simp add: view_def unat_succ [OF False])
      have w: "watches_of (with_slot i ?f s) = (watches_of s)(token_at s i \<mapsto> view (?f (watch_slots s ! i)))"
        using watches_of_with_slot [OF len i(1), of ?f] r by simp
      show ?thesis
        using ok i by (simp add: res w v watches_of_token [OF len i(1)]) (simp add: view_def)
    qed
  next
    case (Inr free)
    note sc = retain_scan_Inr [OF Inr]
    show ?thesis
    proof (cases "case free of Some i \<Rightarrow> Inr (i, s) | None \<Rightarrow> append_slot alloc s")
      case (Inl st)
      with assms run Inr show ?thesis by (auto simp: hl_linux_watch_retain_def)
    next
      case (Inr p)
      obtain i s1 where p: "p = (i, s1)" by force
      have s1: "watch_ok s1" "watches_of s1 = watches_of s" "i < length (watch_slots s1)" "slot_references (watch_slots s1 ! i) = 0"
        "\<forall>j < length (watch_slots s1). slot_references (watch_slots s1 ! j) = 0 \<or> slot_device (watch_slots s1 ! j) \<noteq> d \<or> slot_object (watch_slots s1 ! j) \<noteq> obj"
      proof -
        have "watch_ok s1 \<and> watches_of s1 = watches_of s \<and> i < length (watch_slots s1) \<and> slot_references (watch_slots s1 ! i) = 0 \<and>
          (\<forall>j < length (watch_slots s1). slot_references (watch_slots s1 ! j) = 0 \<or> slot_device (watch_slots s1 ! j) \<noteq> d \<or> slot_object (watch_slots s1 ! j) \<noteq> obj)"
        proof (cases free)
          case None
          with Inr p have "append_slot alloc s = Inr (i, s1)" by simp
          note a = append_slot_Inr [OF this assms(1)]
          with sc show ?thesis by (auto simp: nth_append empty_slot_def less_Suc_eq)
        next
          case (Some k)
          with Inr p sc assms(1) show ?thesis by auto
        qed
        then show "watch_ok s1" "watches_of s1 = watches_of s" "i < length (watch_slots s1)" "slot_references (watch_slots s1 ! i) = 0"
          "\<forall>j < length (watch_slots s1). slot_references (watch_slots s1 ! j) = 0 \<or> slot_device (watch_slots s1 ! j) \<noteq> d \<or> slot_object (watch_slots s1 ! j) \<noteq> obj"
          by blast+
      qed
      let ?s = "with_slot i (occupy d obj sz) s1"
      have res: "r = Inr (token_at ?s i, True)" "ws' = Some ?s"
        using assms(2) run \<open>retain_scan d obj 0 None (watch_slots s) = Inr free\<close> Inr p by (simp_all add: hl_linux_watch_retain_def Let_def)
      have ok: "watch_ok ?s"
        by (rule watch_ok_with_slot [OF s1(1,3)]) (use s1(5) in \<open>auto simp: occupy_def\<close>)
      have o: "slot_references (occupy d obj sz (watch_slots s1 ! i)) \<noteq> 0" by (simp add: occupy_def)
      note t = watches_of_taken [OF watch_okD(1) [OF s1(1)] s1(3,4), of "occupy d obj sz", OF o]
      have no: "fw_device x \<noteq> d \<or> fw_object x \<noteq> obj" if "watches_of s t = Some x" for t x
        using that s1(2,5) watches_of_Some [OF watch_okD(1) [OF s1(1)], of t x] by (auto simp: view_def)
      have v: "view (occupy d obj sz (watch_slots s1 ! i)) =
          \<lparr>fw_device = d, fw_object = obj, fw_size = sz, fw_next = sz, fw_users = 1, fw_flags = 0, fw_changed = False\<rparr>"
        by (simp add: view_def occupy_def)
      show ?thesis
        using ok t no s1(2) by (simp add: res v)
    qed
  qed
qed

lemma watches_of_cong: "watch_slots s = watch_slots s' \<Longrightarrow> watches_of s = watches_of s'"
  unfolding watches_of_def watch_lookup_def fun_eq_iff by metis

lemma release_refines:
  assumes "watch_ok s" "hl_linux_watch_release (Some s) token = (r, ws')"
  shows "\<exists>s'. ws' = Some s' \<and> watch_ok s' \<and> watch_spec (watches_of s) (Release token) (Released r) (watches_of s')"
proof (cases "watch_lookup s token")
  case None
  with assms show ?thesis by (auto simp: hl_linux_watch_release_def watches_of_def)
next
  case (Some i)
  note len = watch_okD(1) [OF assms(1)]
  have i: "live_at s i" "token = token_at s i" using Some watch_lookup_iff [OF len] by auto
  let ?x = "watch_slots s ! i"
  have res: "r = Inr (slot_references (drop_user ?x) = 0)" "ws' = Some (with_slot i drop_user s)"
    using assms(2) Some i by (simp_all add: hl_linux_watch_release_def Let_def with_slot_nth)
  have d: "slot_generation (drop_user ?x) = slot_generation ?x" "slot_device (drop_user ?x) = slot_device ?x"
    "slot_object (drop_user ?x) = slot_object ?x" "slot_references (drop_user ?x) = slot_references ?x - 1"
    "slot_queued (drop_user ?x) \<Longrightarrow> slot_queued ?x"
    by (auto simp: drop_user_def Let_def split: if_splits)
  have ok: "watch_ok (with_slot i drop_user s)"
    using d watch_okD(3) [OF assms(1)] i by (intro watch_ok_same_file [OF assms(1) i(1)]) simp_all
  have u: "slot_references ?x - 1 = 0 \<longleftrightarrow> unat (slot_references ?x) = 1"
    using word_unat_eq_iff [of "slot_references ?x" 1] by auto
  have v: "view (drop_user ?x) = (view ?x)\<lparr>fw_users := fw_users (view ?x) - 1\<rparr>" if "unat (slot_references ?x) \<noteq> 1"
  proof -
    have "unat (slot_references ?x - 1) = unat (slot_references ?x) - 1" using i(1) by (intro unat_minus_one) simp
    with that u show ?thesis by (simp add: view_def drop_user_def Let_def)
  qed
  have w: "watches_of (with_slot i drop_user s) = (watches_of s)(token_at s i :=
      (if slot_references (drop_user ?x) = 0 then None else Some (view (drop_user ?x))))"
    by (rule watches_of_with_slot [OF len i(1), of drop_user, OF d(1)])
  have x: "watches_of s token = Some (view ?x)" using watches_of_token [OF len i(1)] i(2) by simp
  show ?thesis
    using ok x v u by (auto simp: res w i(2) d(4)) (simp_all add: view_def)
qed

lemma enqueue_refines:
  assumes "watch_ok s" "hl_linux_watch_enqueue alloc (Some s) token sz fl = (st, ws')"
  shows "\<exists>s'. ws' = Some s' \<and> watch_ok s' \<and> watch_spec (watches_of s) (Enqueue alloc token sz fl) (Enqueued st) (watches_of s')"
proof (cases "watch_lookup s token")
  case None
  with assms show ?thesis by (auto simp: hl_linux_watch_enqueue_def watches_of_def)
next
  case (Some i)
  note len = watch_okD(1) [OF assms(1)]
  have i: "live_at s i" "token = token_at s i" using Some watch_lookup_iff [OF len] by auto
  let ?x = "watch_slots s ! i" and ?f = "\<lambda>x. x\<lparr>slot_pending_size := sz, slot_pending_flags := slot_pending_flags x OR fl\<rparr>"
  let ?s = "with_slot i ?f s"
  have x: "watches_of s token = Some (view ?x)" using watches_of_token [OF len i(1)] i(2) by simp
  have ok: "watch_ok ?s"
    using watch_okD(3) [OF assms(1)] i by (intro watch_ok_same_file [OF assms(1) i(1)]) simp_all
  have w: "watches_of ?s = (watches_of s)(token \<mapsto> view (?f ?x))"
    using watches_of_with_slot [OF len i(1), of ?f] i by simp
  have vf: "view (?f ?x) = (view ?x)\<lparr>fw_next := sz, fw_flags := fw_flags (view ?x) OR fl\<rparr>" by (simp add: view_def)
  have n: "watch_slots ?s ! i = ?f ?x" using i by (simp add: with_slot_nth)
  show ?thesis
  proof (cases "watch_shutdown s")
    case True
    with assms Some x show ?thesis by (auto simp: hl_linux_watch_enqueue_def)
  next
    case run: False
    show ?thesis
    proof (cases "slot_queued ?x")
      case True
      have "st = S_OK" "ws' = Some ?s"
        using assms(2) Some run True n by (simp_all add: hl_linux_watch_enqueue_def Let_def)
      moreover have "view (?f ?x) = (view ?x)\<lparr>fw_next := sz, fw_flags := fw_flags (view ?x) OR fl, fw_changed := True\<rparr>"
        using True by (simp add: view_def)
      ultimately show ?thesis using ok x w by simp
    next
      case fresh: False
      show ?thesis
      proof (cases "length (watch_queue s) = watch_queue_capacity s \<and> \<not> alloc")
        case True
        have "st = S_OUT_OF_MEMORY" "ws' = Some ?s"
          using assms(2) Some run fresh n True by (simp_all add: hl_linux_watch_enqueue_def Let_def)
        then show ?thesis using ok x w vf by simp
      next
        case False
        define s2 where "s2 = (if length (watch_queue ?s) = watch_queue_capacity ?s
          then ?s\<lparr>watch_queue_capacity := (if watch_queue_capacity ?s = 0 then 8 else watch_queue_capacity ?s * 2)\<rparr> else ?s)"
        have s2: "watch_slots s2 = watch_slots ?s" "watch_queue s2 = watch_queue s" by (simp_all add: s2_def)
        let ?q = "s2\<lparr>watch_queue := watch_queue s2 @ [of_nat i]\<rparr>"
        let ?r = "with_slot i (\<lambda>x. x\<lparr>slot_queued := True\<rparr>) ?q"
        have "st = S_OK" and r: "ws' = Some ?r"
          using assms(2) Some run fresh n False unfolding s2_def by (auto simp: hl_linux_watch_enqueue_def Let_def)
        have iu: "unat (of_nat i :: u32) = i"
          using i(1) len by (simp add: unat_of_nat take_bit_eq_mod UINT32_MAX_def)
        have okq: "watch_ok ?q" using ok i iu s2 unfolding watch_ok_def by auto
        have liq: "live_at ?q i" using i n s2 by simp
        have wq: "watches_of ?q = watches_of ?s" by (rule watches_of_cong) (simp add: s2)
        have nq: "watch_slots ?q ! i = ?f ?x" using n s2 by simp
        have tq: "token_at ?q i = token" using n i(2) s2 by simp
        have okr: "watch_ok ?r" using liq iu by (intro watch_ok_same_file [OF okq liq]) simp_all
        have "watches_of ?r = (watches_of ?q)(token_at ?q i \<mapsto> view ((?f ?x)\<lparr>slot_queued := True\<rparr>))"
          using watches_of_with_slot [OF watch_okD(1) [OF okq] liq, of "\<lambda>x. x\<lparr>slot_queued := True\<rparr>"] liq unfolding nq by simp
        then have wr: "watches_of ?r = (watches_of s)(token \<mapsto> view ((?f ?x)\<lparr>slot_queued := True\<rparr>))"
          unfolding wq tq w by simp
        have "view ((?f ?x)\<lparr>slot_queued := True\<rparr>) = (view ?x)\<lparr>fw_next := sz, fw_flags := fw_flags (view ?x) OR fl, fw_changed := True\<rparr>"
          by (simp add: view_def)
        then show ?thesis using okr x r wr \<open>st = S_OK\<close> by simp
      qed
    qed
  qed
qed

text \<open>A pass over the queue: every live slot it names that is queued is reported once and settled.\<close>

lemma drain_queue_result:
  assumes "\<And>p. p \<in> set ps \<Longrightarrow> unat p < length xs" "length xs \<le> UINT32_MAX" "drain_queue ps xs = (cs, ys)"
  shows "length ys = length xs \<and>
    (\<forall>i < length xs. ys ! i = (if i \<in> unat ` set ps \<and> slot_queued (xs ! i) \<and> slot_references (xs ! i) \<noteq> 0 then deliver (xs ! i) else xs ! i)) \<and>
    set cs = {slot_change i (xs ! i) | i. i \<in> unat ` set ps \<and> slot_queued (xs ! i) \<and> slot_references (xs ! i) \<noteq> 0} \<and>
    distinct (map change_token cs)"
  using assms
proof (induction ps arbitrary: xs cs ys)
  case (Cons p ps)
  let ?i = "unat p" and ?x = "xs ! unat p"
  have i: "?i < length xs" using Cons.prems(1) by simp
  show ?case
  proof (cases "\<not> slot_queued ?x \<or> slot_references ?x = 0")
    case True
    with Cons.prems(3) have "drain_queue ps xs = (cs, ys)" by (simp add: Let_def)
    note ih = Cons.IH [OF _ Cons.prems(2) this]
    have "{slot_change i (xs ! i) | i. i \<in> unat ` set (p # ps) \<and> slot_queued (xs ! i) \<and> slot_references (xs ! i) \<noteq> 0} =
        {slot_change i (xs ! i) | i. i \<in> unat ` set ps \<and> slot_queued (xs ! i) \<and> slot_references (xs ! i) \<noteq> 0}"
      using True by auto
    with ih Cons.prems(1) True show ?thesis by auto
  next
    case False
    let ?xs = "xs[?i := deliver ?x]"
    obtain cs' where d: "drain_queue ps ?xs = (cs', ys)" "cs = slot_change ?i ?x # cs'"
      using Cons.prems(3) False by (auto simp: Let_def split: prod.splits)
    have l: "length ?xs = length xs" by simp
    have ih: "length ys = length ?xs"
      "\<forall>i < length ?xs. ys ! i = (if i \<in> unat ` set ps \<and> slot_queued (?xs ! i) \<and> slot_references (?xs ! i) \<noteq> 0 then deliver (?xs ! i) else ?xs ! i)"
      "set cs' = {slot_change i (?xs ! i) | i. i \<in> unat ` set ps \<and> slot_queued (?xs ! i) \<and> slot_references (?xs ! i) \<noteq> 0}"
      "distinct (map change_token cs')"
      using Cons.IH [OF _ _ d(1)] Cons.prems(1,2) by auto
    have nq: "\<not> slot_queued (deliver ?x)" by (simp add: deliver_def)
    have at: "?xs ! j = (if j = ?i then deliver ?x else xs ! j)" if "j < length xs" for j using that i by (simp add: nth_list_update)
    have psl: "j < length xs" if "j \<in> unat ` set ps" for j using that Cons.prems(1) by auto
    have s: "set cs' = {slot_change j (xs ! j) | j. j \<noteq> ?i \<and> j \<in> unat ` set ps \<and> slot_queued (xs ! j) \<and> slot_references (xs ! j) \<noteq> 0}"
    proof -
      have "(\<exists>j. c = slot_change j (?xs ! j) \<and> j \<in> unat ` set ps \<and> slot_queued (?xs ! j) \<and> slot_references (?xs ! j) \<noteq> 0) \<longleftrightarrow>
        (\<exists>j. c = slot_change j (xs ! j) \<and> j \<noteq> ?i \<and> j \<in> unat ` set ps \<and> slot_queued (xs ! j) \<and> slot_references (xs ! j) \<noteq> 0)" for c
      proof (rule ex_cong1)
        fix j
        show "(c = slot_change j (?xs ! j) \<and> j \<in> unat ` set ps \<and> slot_queued (?xs ! j) \<and> slot_references (?xs ! j) \<noteq> 0) \<longleftrightarrow>
          (c = slot_change j (xs ! j) \<and> j \<noteq> ?i \<and> j \<in> unat ` set ps \<and> slot_queued (xs ! j) \<and> slot_references (xs ! j) \<noteq> 0)"
        proof (cases "j = ?i")
          case True
          then show ?thesis using nq i by simp
        next
          case False
          then show ?thesis by simp
        qed
      qed
      then show ?thesis unfolding ih(3) by (rule Collect_cong)
    qed
    have "set cs = {slot_change i (xs ! i) | i. i \<in> unat ` set (p # ps) \<and> slot_queued (xs ! i) \<and> slot_references (xs ! i) \<noteq> 0}"
      unfolding d(2) list.set(2) s using False by auto
    moreover have "ys ! j = (if j \<in> unat ` set (p # ps) \<and> slot_queued (xs ! j) \<and> slot_references (xs ! j) \<noteq> 0 then deliver (xs ! j) else xs ! j)"
      if "j < length xs" for j
    proof (cases "j = ?i")
      case True
      then show ?thesis using ih(2) nq False i by simp
    next
      case False
      then show ?thesis using ih(2) that by auto
    qed
    moreover have "change_token (slot_change ?i ?x) \<notin> change_token ` set cs'"
    proof
      assume "change_token (slot_change ?i ?x) \<in> change_token ` set cs'"
      then obtain j where j: "j \<noteq> ?i" "j \<in> unat ` set ps" "change_token (slot_change ?i ?x) = change_token (slot_change j (xs ! j))"
        unfolding s by auto
      then show False using watch_token_eq [of ?i j] i psl [OF j(2)] Cons.prems(2) by (simp add: slot_change_def)
    qed
    ultimately show ?thesis using ih(1,4) d(2) by simp
  qed
qed simp

lemma slot_change_view: "slot_change i x = change_of (watch_token i (slot_generation x)) (view x)"
  by (simp add: slot_change_def change_of_def view_def)

lemma deliver_simps [simp]:
  "slot_references (deliver x) = slot_references x" "slot_generation (deliver x) = slot_generation x"
  "slot_device (deliver x) = slot_device x" "slot_object (deliver x) = slot_object x" "\<not> slot_queued (deliver x)"
  "view (deliver x) = settle (view x)" "fw_changed (view x) = slot_queued x"
  by (simp_all add: deliver_def view_def settle_def)

lemma drain_refines:
  assumes "watch_ok s" "hl_linux_watch_drain alloc (Some s) = (r, ws')"
  shows "\<exists>s'. ws' = Some s' \<and> watch_ok s' \<and> watch_spec (watches_of s) (Drain alloc) (Drained r) (watches_of s')"
proof (cases "watch_queue s \<noteq> [] \<and> \<not> alloc")
  case True
  with assms show ?thesis by (auto simp: hl_linux_watch_drain_def)
next
  case False
  note len = watch_okD(1) [OF assms(1)]
  obtain cs ys where d: "drain_queue (watch_queue s) (watch_slots s) = (cs, ys)" by force
  let ?s = "s\<lparr>watch_slots := ys, watch_queue := []\<rparr>"
  have res: "r = Inr cs" "ws' = Some ?s" using assms(2) False d by (auto simp: hl_linux_watch_drain_def)
  note dr = drain_queue_result [OF watch_okD(4) [OF assms(1)] len d]
  have q: "i \<in> unat ` set (watch_queue s) \<and> slot_queued (watch_slots s ! i) \<and> slot_references (watch_slots s ! i) \<noteq> 0 \<longleftrightarrow>
      live_at s i \<and> slot_queued (watch_slots s ! i)" for i
    using watch_okD(3,4) [OF assms(1)] by blast
  have l: "length ys = length (watch_slots s)" using dr by simp
  have y: "ys ! i = (if slot_queued (watch_slots s ! i) \<and> slot_references (watch_slots s ! i) \<noteq> 0 then deliver (watch_slots s ! i) else watch_slots s ! i)"
    if "i < length (watch_slots s)" for i
    using dr that q [of i] by auto
  have yl: "live_at ?s i \<longleftrightarrow> live_at s i" for i using l y [of i] by (auto split: if_splits)
  have ok: "watch_ok ?s"
    unfolding watch_ok_def
  proof (intro conjI allI impI ballI)
    show "i = j" if "i < length (watch_slots ?s)" "j < length (watch_slots ?s)"
      "slot_references (watch_slots ?s ! i) \<noteq> 0 \<and> slot_references (watch_slots ?s ! j) \<noteq> 0 \<and>
       slot_device (watch_slots ?s ! i) = slot_device (watch_slots ?s ! j) \<and>
       slot_object (watch_slots ?s ! i) = slot_object (watch_slots ?s ! j)" for i j
      using that l y [of i] y [of j] watch_okD(2) [OF assms(1), of i j] by (auto split: if_splits)
    show "i \<in> unat ` set (watch_queue ?s)" if "i < length (watch_slots ?s)"
      "slot_references (watch_slots ?s ! i) \<noteq> 0 \<and> slot_queued (watch_slots ?s ! i)" for i
      using that l y [of i] by (auto split: if_splits)
  qed (use l len in simp_all)
  have cs: "set cs = {change_of t x | t x. watches_of s t = Some x \<and> fw_changed x}"
  proof -
    have "set cs = {slot_change i (watch_slots s ! i) | i. live_at s i \<and> slot_queued (watch_slots s ! i)}"
      using dr q by simp
    also have "\<dots> = {change_of t x | t x. watches_of s t = Some x \<and> fw_changed x}"
    proof (rule Collect_cong)
      fix c
      show "(\<exists>i. c = slot_change i (watch_slots s ! i) \<and> live_at s i \<and> slot_queued (watch_slots s ! i)) \<longleftrightarrow>
        (\<exists>t x. c = change_of t x \<and> watches_of s t = Some x \<and> fw_changed x)"
        unfolding watches_of_Some [OF len] slot_change_view by (metis deliver_simps(7))
    qed
    finally show ?thesis .
  qed
  have sl: "watch_slots ?s = ys" by simp
  have w: "watches_of ?s = (\<lambda>t. map_option (\<lambda>x. if fw_changed x then settle x else x) (watches_of s t))"
  proof (rule watches_of_eqI)
    fix t x
    have v: "watch_token i (slot_generation (ys ! i)) = token_at s i \<and>
        view (ys ! i) = (if fw_changed (view (watch_slots s ! i)) then settle (view (watch_slots s ! i)) else view (watch_slots s ! i))"
      if "live_at s i" for i using that y [of i] by simp
    have "map_option (\<lambda>x. if fw_changed x then settle x else x) (watches_of s t) = Some x \<longleftrightarrow>
      (\<exists>y. watches_of s t = Some y \<and> x = (if fw_changed y then settle y else y))" unfolding map_option_eq_Some by (rule ex_cong1) (simp only: eq_commute)
    also have "\<dots> \<longleftrightarrow> (\<exists>i. live_at s i \<and> t = token_at s i \<and>
        x = (if fw_changed (view (watch_slots s ! i)) then settle (view (watch_slots s ! i)) else view (watch_slots s ! i)))"
      unfolding watches_of_Some [OF len] by blast
    also have "\<dots> \<longleftrightarrow> (\<exists>i. live_at ?s i \<and> t = token_at ?s i \<and> x = view (watch_slots ?s ! i))"
    proof (rule ex_cong1)
      fix i
      show "(live_at s i \<and> t = token_at s i \<and>
          x = (if fw_changed (view (watch_slots s ! i)) then settle (view (watch_slots s ! i)) else view (watch_slots s ! i))) \<longleftrightarrow>
        (live_at ?s i \<and> t = token_at ?s i \<and> x = view (watch_slots ?s ! i))"
        unfolding sl yl [unfolded sl] using v [of i] by (cases "live_at s i") (simp_all only: simp_thms)
    qed
    finally show "map_option (\<lambda>x. if fw_changed x then settle x else x) (watches_of s t) = Some x \<longleftrightarrow>
      (\<exists>i. live_at ?s i \<and> t = token_at ?s i \<and> x = view (watch_slots ?s ! i))" .
  qed (use l len in simp)
  show ?thesis using ok cs w dr by (simp add: res)
qed

section \<open>Every run\<close>

lemma watch_exec_refines:
  assumes "watch_ok s" "watch_exec oper (Some s) = (r, ws')"
  shows "\<exists>s'. ws' = Some s' \<and> watch_ok s' \<and> watch_spec (watches_of s) oper r (watches_of s')"
proof (cases oper)
  case (Retain alloc d obj sz)
  then show ?thesis using retain_refines [OF assms(1)] assms(2) by (cases "hl_linux_watch_retain alloc (Some s) d obj sz") auto
next
  case (Release token)
  then show ?thesis using release_refines [OF assms(1)] assms(2) by (cases "hl_linux_watch_release (Some s) token") auto
next
  case (Enqueue alloc token sz fl)
  then show ?thesis using enqueue_refines [OF assms(1)] assms(2)
    by (cases "hl_linux_watch_enqueue alloc (Some s) token sz fl") (auto simp del: watch_spec.simps)
next
  case (Drain alloc)
  then show ?thesis using drain_refines [OF assms(1)] assms(2) by (cases "hl_linux_watch_drain alloc (Some s)") auto
next
  case Shutdown
  have "watches_of (s\<lparr>watch_shutdown := True\<rparr>) = watches_of s" by (rule watches_of_cong) simp
  with Shutdown assms show ?thesis by (auto simp: hl_linux_watch_shutdown_def watch_ok_def)
qed

lemma watch_run_refines:
  "watch_ok s \<Longrightarrow> watch_run ops (Some s) = (rs, ws') \<Longrightarrow>
    \<exists>s'. ws' = Some s' \<and> watch_ok s' \<and> watch_spec_run (watches_of s) ops rs (watches_of s')"
proof (induction ops arbitrary: s rs)
  case (Cons oper ops)
  obtain r ws1 rs' where e: "watch_exec oper (Some s) = (r, ws1)" "watch_run ops ws1 = (rs', ws')" "rs = r # rs'"
    using Cons.prems(2) by (auto split: prod.splits)
  from watch_exec_refines [OF Cons.prems(1) e(1)] obtain s1 where s1: "ws1 = Some s1" "watch_ok s1"
    "watch_spec (watches_of s) oper r (watches_of s1)" by blast
  from Cons.IH [OF s1(2)] e(2) s1(1) obtain s' where "ws' = Some s'" "watch_ok s'"
    "watch_spec_run (watches_of s1) ops rs' (watches_of s')" by blast
  with s1(3) e(3) show ?case by auto
qed auto

definition watch_start :: watch_state where
  "watch_start = \<lparr>watch_slots = [], slot_capacity = 0, watch_queue = [], watch_queue_capacity = 0, watch_shutdown = False\<rparr>"

lemma watch_start_ok: "watch_ok watch_start" "watches_of watch_start = Map.empty"
  "hl_linux_watch_init True True None = (S_OK, Some watch_start)"
  by (simp_all add: watch_ok_def watch_start_def watches_of_def watch_lookup_def fun_eq_iff Let_def hl_linux_watch_init_def)

end
