(* ===== verification/Watch_Properties.thy ===== *)
theory Watch_Properties
  imports Watch_Refine
begin

text \<open>
  Properties of the watch set: it implements its specification, loses no change, does not confuse an old token
  with a new one, and hands a forked child the same files under new tokens.
\<close>

definition watch_demo :: watch_set where
  "watch_demo = snd (watch_run [Retain True 1 2 10] (snd (hl_linux_watch_init True True None)))"

lemma watch_demo_eq: "watch_demo = Some \<lparr>watch_slots = [\<lparr>slot_device = 1, slot_object = 2, slot_size = 10, slot_pending_size = 10, slot_generation = 1,
    slot_references = 1, slot_pending_flags = 0, slot_queued = False\<rparr>], slot_capacity = 8, watch_queue = [], watch_queue_capacity = 0, watch_shutdown = False\<rparr>"
  by (simp add: watch_demo_def hl_linux_watch_init_def hl_linux_watch_retain_def append_slot_def UINT32_MAX_def Let_def with_slot_def
    occupy_def empty_slot_def next_generation_def)

lemmas watch_eval = watch_demo_eq hl_linux_watch_retain_def hl_linux_watch_release_def hl_linux_watch_enqueue_def hl_linux_watch_drain_def
  watch_lookup_def watch_token_def with_slot_def drop_user_def occupy_def next_generation_def slot_change_def deliver_def

text \<open>Claim C32.  The watch set implements its specification.  Whatever sequence of operations runs on a new set,
  and whichever of their allocations fail, their answers are those of a map from tokens to watched files: a file
  is watched once, under a token that is not in use; a user who leaves takes the watch along exactly when it was
  the last; an unknown token changes nothing; draining answers every watch whose size changed once, with the
  latest size and all flags since the last time.\<close>

theorem watch_refines:
  "\<exists>s. snd (watch_run ops (snd (hl_linux_watch_init True True None))) = Some s \<and>
    watch_spec_run Map.empty ops (fst (watch_run ops (snd (hl_linux_watch_init True True None)))) (watches_of s)"
  using watch_run_refines [OF watch_start_ok(1), of ops] unfolding watch_start_ok(2,3)
  by (cases "watch_run ops (Some watch_start)") auto

section \<open>Delivery\<close>

text \<open>What stays true of a watch from a change on, until it is drained or its last user leaves.\<close>

definition owed :: "u32 \<Rightarrow> file_watch option \<Rightarrow> bool" where
  "owed fl x \<longleftrightarrow> (\<exists>y. x = Some y \<and> fw_changed y \<and> fl AND NOT (fw_flags y) = 0)"

text \<open>An operation that neither drains nor gives up the watch.\<close>

definition keeps :: "u64 \<Rightarrow> watch_op \<Rightarrow> watch_reply \<Rightarrow> bool" where
  "keeps token oper r \<longleftrightarrow> (case oper of Drain _ \<Rightarrow> False | Release t \<Rightarrow> t \<noteq> token \<or> r \<noteq> Released (Inr True) | _ \<Rightarrow> True)"

lemma and_not_or: "fl AND NOT f = (0 :: u32) \<Longrightarrow> fl AND NOT f AND NOT g = 0"
  by (rule bit_word_eqI) (auto simp: bit_eq_iff bit_simps)

lemma owed_step:
  assumes "watch_spec m oper r m'" "owed fl (m token)" "keeps token oper r"
  shows "owed fl (m' token)"
proof -
  from assms(2) obtain y where y: "m token = Some y" "fw_changed y" "fl AND NOT (fw_flags y) = 0" by (auto simp: owed_def)
  from assms(1) show ?thesis
    using y assms(3)
    by (cases "(m, oper, r, m')" rule: watch_spec.cases)
      (auto simp: owed_def keeps_def and_not_or split: if_splits option.splits)
qed

lemma owed_run:
  "watch_spec_run m ops rs m' \<Longrightarrow> owed fl (m token) \<Longrightarrow> list_all2 (keeps token) ops rs \<Longrightarrow> owed fl (m' token)"
proof (induction ops arbitrary: m rs)
  case (Cons oper ops)
  then obtain r rs' m1 where "rs = r # rs'" "watch_spec m oper r m1" "watch_spec_run m1 ops rs' m'"
    by (cases rs) auto
  with Cons owed_step show ?case by (metis list_all2_Cons)
qed (auto elim: watch_spec_run.elims)

text \<open>Claim C33.  No change is lost.  After a size change was accepted for a token, and after any operations that
  neither drain nor let the last user of the token go, the next drain that succeeds reports the token, with at
  least the flags of the change.\<close>

theorem watch_change_delivered:
  assumes "watch_run before (snd (hl_linux_watch_init True True None)) = (rs0, ws)"
    and "hl_linux_watch_enqueue alloc ws token sz fl = (S_OK, ws1)"
    and "watch_run after ws1 = (rs, ws2)" "list_all2 (keeps token) after rs"
    and "hl_linux_watch_drain alloc' ws2 = (Inr cs, ws3)"
  shows "\<exists>c \<in> set cs. change_token c = token \<and> fl AND NOT (change_flags c) = 0"
proof -
  obtain s where s: "ws = Some s" "watch_ok s"
    using watch_run_refines [OF watch_start_ok(1) assms(1) [unfolded watch_start_ok(3) snd_conv]] by blast
  obtain s1 where s1: "ws1 = Some s1" "watch_ok s1" "watch_spec (watches_of s) (Enqueue alloc token sz fl) (Enqueued S_OK) (watches_of s1)"
    using enqueue_refines [OF s(2)] assms(2) s(1) by blast
  then have o1: "owed fl (watches_of s1 token)"
    by (auto simp: owed_def split: option.splits intro!: bit_word_eqI simp: bit_simps)
  obtain s2 where s2: "ws2 = Some s2" "watch_ok s2" "watch_spec_run (watches_of s1) after rs (watches_of s2)"
    using watch_run_refines [OF s1(2)] assms(3) s1(1) by blast
  from owed_run [OF s2(3) o1 assms(4)] obtain y where y: "watches_of s2 token = Some y" "fw_changed y" "fl AND NOT (fw_flags y) = 0"
    by (auto simp: owed_def)
  obtain s3 where "watch_spec (watches_of s2) (Drain alloc') (Drained (Inr cs)) (watches_of s3)"
    using drain_refines [OF s2(2)] assms(5) s2(1) by blast
  then have "change_of token y \<in> set cs" using y by auto
  then show ?thesis using y(3) by (intro bexI [of _ "change_of token y"]) (simp_all add: change_of_def)
qed

lemma watch_change_delivered_witness:
  "\<exists>c \<in> set [\<lparr>change_token = 0x100000001, change_device = 1, change_object = 2, old_size = 10, new_size = 30, change_flags = 5\<rparr>].
    change_token c = 0x100000001 \<and> 4 AND NOT (change_flags c) = 0"
proof (rule watch_change_delivered)
  let ?x = "\<lparr>slot_device = 1, slot_object = 2, slot_size = 10, slot_pending_size = 20, slot_generation = 1,
    slot_references = 1, slot_pending_flags = 4, slot_queued = True\<rparr> :: watch_slot"
  let ?s = "\<lparr>watch_slots = [?x], slot_capacity = 8, watch_queue = [0], watch_queue_capacity = 8, watch_shutdown = False\<rparr>"
  show "watch_run [Retain True 1 2 10] (snd (hl_linux_watch_init True True None)) =
      (fst (watch_run [Retain True 1 2 10] (snd (hl_linux_watch_init True True None))), watch_demo)"
    by (simp add: watch_demo_def)
  show "hl_linux_watch_enqueue True watch_demo 0x100000001 20 4 = (S_OK, Some ?s)"
    by (simp add: watch_eval Let_def)
  show "watch_run [Enqueue False 0x100000001 30 1, Retain True 1 2 7, Release 0x100000001] (Some ?s) =
    ([Enqueued S_OK, Retained (Inr (0x100000001, False)), Released (Inr False)],
     Some (?s\<lparr>watch_slots := [?x\<lparr>slot_pending_size := 30, slot_pending_flags := 5\<rparr>]\<rparr>))"
    by (simp add: watch_eval Let_def)
  show "list_all2 (keeps 0x100000001) [Enqueue False 0x100000001 30 1, Retain True 1 2 7, Release 0x100000001]
      [Enqueued S_OK, Retained (Inr (0x100000001, False)), Released (Inr False)]"
    by (simp add: keeps_def)
  show "hl_linux_watch_drain True (Some (?s\<lparr>watch_slots := [?x\<lparr>slot_pending_size := 30, slot_pending_flags := 5\<rparr>]\<rparr>)) =
    (Inr [\<lparr>change_token = 0x100000001, change_device = 1, change_object = 2, old_size = 10, new_size = 30, change_flags = 5\<rparr>],
     Some (?s\<lparr>watch_slots := [?x\<lparr>slot_size := 30, slot_pending_size := 30, slot_pending_flags := 0, slot_queued := False\<rparr>], watch_queue := []\<rparr>))"
    by (simp add: watch_eval Let_def)
qed

section \<open>Stale tokens\<close>

lemma next_generation_unat:
  assumes "g \<noteq> 0"
  shows "unat (next_generation g) = unat g mod (2 ^ 32 - 1) + 1"
proof (cases "g = - 1")
  case True
  then show ?thesis by (simp add: next_generation_def unsigned_minus_1_eq_mask mask_eq_exp_minus_1)
next
  case False
  then have "unat (g + 1) = unat g + 1" by (rule unat_succ)
  moreover have "unat g < 2 ^ 32 - 1"
  proof -
    have "unat g \<noteq> unat (- 1 :: u32)" using False unfolding word_unat_eq_iff .
    then show ?thesis using unat_u32_less [of g] by (simp add: unsigned_minus_1_eq_mask mask_eq_exp_minus_1)
  qed
  ultimately show ?thesis using False by (simp add: next_generation_def eq_neg_iff_add_eq_0 [symmetric])
qed

lemma generation_after:
  "g \<noteq> 0 \<Longrightarrow> unat ((next_generation ^^ k) g) = (unat g - 1 + k) mod (2 ^ 32 - 1) + 1"
proof (induction k)
  case 0
  have "unat g < 2 ^ 32" using unat_u32_less [of g] by simp
  moreover have "0 < unat g" using 0 by (simp add: unat_gt_0)
  ultimately have "unat g - 1 < 2 ^ 32 - 1" by linarith
  with \<open>0 < unat g\<close> show ?case by simp
next
  case (Suc k)
  then have u: "unat ((next_generation ^^ k) g) = (unat g - 1 + k) mod (2 ^ 32 - 1) + 1" by simp
  then have "(next_generation ^^ k) g \<noteq> 0" by auto
  from next_generation_unat [OF this] u show ?case by (simp add: mod_Suc_eq)
qed

lemma generation_differs:
  assumes "0 < k" "k < 2 ^ 32 - 1"
  shows "(next_generation ^^ k) g \<noteq> g"
proof (cases "g = 0")
  case True
  obtain j where k: "k = Suc j" using assms(1) gr0_implies_Suc by blast
  have "(next_generation ^^ k) 0 = (next_generation ^^ j) 1" by (simp add: k funpow_swap1 next_generation_def)
  moreover have "unat ((next_generation ^^ j) 1) \<noteq> 0" using generation_after [of 1 j] by simp
  ultimately show ?thesis using True by auto
next
  case False
  show ?thesis
  proof
    assume r: "(next_generation ^^ k) g = g"
    have a: "unat g - 1 < 2 ^ 32 - 1" using unat_u32_less [of g] by simp
    define x where "x = unat g - 1"
    have "(x + k) mod (2 ^ 32 - 1) + 1 = unat g" unfolding x_def by (metis r generation_after [OF False])
    moreover have "0 < unat g" using False by (simp add: unat_gt_0)
    ultimately have "(x + k) mod (2 ^ 32 - 1) = x" by (simp add: x_def)
    moreover have "x < 2 ^ 32 - 1" using a by (simp add: x_def)
    ultimately have m: "(x + k) mod (2 ^ 32 - 1) = x" "x < 2 ^ 32 - 1" by blast+
    show False
    proof (cases "x + k < 2 ^ 32 - 1")
      case True
      then have "(x + k) mod (2 ^ 32 - 1) = x + k" by (rule mod_less)
      with m assms show False by linarith
    next
      case False
      then have "(x + k) mod (2 ^ 32 - 1) = (x + k - (2 ^ 32 - 1)) mod (2 ^ 32 - 1)" by (intro le_mod_geq) simp
      also have "\<dots> = x + k - (2 ^ 32 - 1)" using m(2) assms(2) by (intro mod_less) linarith
      finally show False using m assms False by linarith
    qed
  qed
qed

lemma with_slot_keeps:
  assumes "i < length (watch_slots s)"
    and "slot_generation (f (watch_slots s ! j)) = slot_generation (watch_slots s ! j)"
    and "slot_references (watch_slots s ! j) = 0 \<Longrightarrow> slot_references (f (watch_slots s ! j)) = 0"
  shows "slot_generation (watch_slots (with_slot j f s) ! i) = slot_generation (watch_slots s ! i)"
    "slot_references (watch_slots s ! i) = 0 \<Longrightarrow> slot_references (watch_slots (with_slot j f s) ! i) = 0"
  using assms by (cases "j = i"; simp add: with_slot_def nth_list_update)+

lemma with_slot_fields:
  assumes "i < length (watch_slots s)"
  shows "(\<And>x. slot_generation (f x) = slot_generation x) \<Longrightarrow> slot_generation (watch_slots (with_slot j f s) ! i) = slot_generation (watch_slots s ! i)"
    "(\<And>x. slot_references (f x) = slot_references x) \<Longrightarrow> slot_references (watch_slots (with_slot j f s) ! i) = slot_references (watch_slots s ! i)"
  using assms by (cases "j = i"; simp add: with_slot_def nth_list_update)+

text \<open>One operation either leaves the generation of a slot alone and does not revive it, or takes the slot
  anew.\<close>

definition ages :: "watch_slot \<Rightarrow> watch_slot \<Rightarrow> bool" where
  "ages x y \<longleftrightarrow> slot_generation y = slot_generation x \<and> (slot_references x = 0 \<longrightarrow> slot_references y = 0) \<or>
    slot_generation y = next_generation (slot_generation x)"

lemma ages_refl [simp]: "ages x x" by (simp add: ages_def)

lemma watch_exec_ages:
  assumes "watch_ok s" "watch_exec oper (Some s) = (r, Some s')" "i < length (watch_slots s)"
  shows "i < length (watch_slots s') \<and> ages (watch_slots s ! i) (watch_slots s' ! i)"
proof (cases oper)
  case (Retain alloc d obj sz)
  obtain r0 where r: "hl_linux_watch_retain alloc (Some s) d obj sz = (r0, Some s')"
    using assms(2) Retain by (cases "hl_linux_watch_retain alloc (Some s) d obj sz") auto
  show ?thesis
  proof (cases "watch_shutdown s")
    case True
    with r assms(3) show ?thesis by (simp add: hl_linux_watch_retain_def)
  next
    case run: False
    show ?thesis
    proof (cases "retain_scan d obj 0 None (watch_slots s)")
      case (Inl j)
      have live: "slot_references (watch_slots s ! j) \<noteq> 0" using retain_scan_Inl [OF Inl] by simp
      show ?thesis
      proof (cases "slot_references (watch_slots s ! j) = - 1")
        case True
        with r run Inl assms(3) show ?thesis by (simp add: hl_linux_watch_retain_def)
      next
        case False
        then have "s' = with_slot j (\<lambda>x. x\<lparr>slot_references := slot_references x + 1\<rparr>) s"
          using r run Inl by (simp add: hl_linux_watch_retain_def)
        then show ?thesis
          using assms(3) live with_slot_keeps [OF assms(3), of "\<lambda>x. x\<lparr>slot_references := slot_references x + 1\<rparr>" j]
          by (simp add: ages_def)
      qed
    next
      case (Inr free)
      show ?thesis
      proof (cases "case free of Some i \<Rightarrow> Inr (i, s) | None \<Rightarrow> append_slot alloc s")
        case (Inl st)
        with r run Inr assms(3) show ?thesis by (simp add: hl_linux_watch_retain_def)
      next
        case p: (Inr p)
        obtain j s1 where j: "p = (j, s1)" by force
        have s': "s' = with_slot j (occupy d obj sz) s1"
          using r run Inr p j by (simp add: hl_linux_watch_retain_def Let_def)
        have s1: "i < length (watch_slots s1)" "watch_slots s1 ! i = watch_slots s ! i"
        proof -
          have "i < length (watch_slots s1) \<and> watch_slots s1 ! i = watch_slots s ! i"
          proof (cases free)
            case None
            with p j have "append_slot alloc s = Inr (j, s1)" by simp
            from append_slot_Inr(2) [OF this assms(1)] assms(3) show ?thesis by (simp add: nth_append)
          next
            case (Some k)
            with p j assms(3) show ?thesis by simp
          qed
          then show "i < length (watch_slots s1)" "watch_slots s1 ! i = watch_slots s ! i" by simp_all
        qed
        then show ?thesis
          by (cases "j = i") (simp_all add: s' with_slot_def ages_def occupy_def nth_list_update)
      qed
    qed
  qed
next
  case (Release token)
  have k: "slot_generation (drop_user x) = slot_generation x" for x by (simp add: drop_user_def Let_def)
  show ?thesis
  proof (cases "watch_lookup s token")
    case None
    with Release assms show ?thesis by (simp add: hl_linux_watch_release_def)
  next
    case (Some j)
    then have live: "slot_references (watch_slots s ! j) \<noteq> 0"
      using watch_lookup_iff [OF watch_okD(1) [OF assms(1)]] by blast
    have "s' = with_slot j drop_user s"
      using Release assms(2) Some by (simp add: hl_linux_watch_release_def Let_def)
    then show ?thesis using assms(3) live k with_slot_keeps [OF assms(3), of drop_user j] by (simp add: ages_def)
  qed
next
  case (Enqueue alloc token sz fl)
  have "length (watch_slots s') = length (watch_slots s) \<and>
    slot_generation (watch_slots s' ! i) = slot_generation (watch_slots s ! i) \<and>
    slot_references (watch_slots s' ! i) = slot_references (watch_slots s ! i)"
    using assms(2,3) Enqueue
    by (auto simp: hl_linux_watch_enqueue_def Let_def with_slot_fields split: option.splits if_splits)
  with assms(3) show ?thesis by (simp add: ages_def)
next
  case (Drain alloc)
  show ?thesis
  proof (cases "watch_queue s \<noteq> [] \<and> \<not> alloc")
    case True
    with Drain assms show ?thesis by (simp add: hl_linux_watch_drain_def)
  next
    case False
    obtain cs ys where d: "drain_queue (watch_queue s) (watch_slots s) = (cs, ys)" by force
    then have s': "watch_slots s' = ys" using False Drain assms(2) by (auto simp: hl_linux_watch_drain_def)
    have "length ys = length (watch_slots s)" "ys ! i = deliver (watch_slots s ! i) \<or> ys ! i = watch_slots s ! i"
      using drain_queue_result [OF watch_okD(4) [OF assms(1)] watch_okD(1) [OF assms(1)] d] assms(3) by auto
    then show ?thesis using s' assms(3) by (auto simp: ages_def)
  qed
next
  case Shutdown
  with assms show ?thesis by (auto simp: hl_linux_watch_shutdown_def)
qed

lemma watch_run_ages:
  assumes "watch_ok s" "watch_run ops (Some s) = (rs, Some s')" "i < length (watch_slots s)" "slot_references (watch_slots s ! i) = 0"
  shows "i < length (watch_slots s') \<and> (\<exists>k \<le> length ops. slot_generation (watch_slots s' ! i) = (next_generation ^^ k) (slot_generation (watch_slots s ! i)) \<and>
    (k = 0 \<longrightarrow> slot_references (watch_slots s' ! i) = 0))"
  using assms
proof (induction ops arbitrary: s' rs rule: rev_induct)
  case (snoc oper ops)
  obtain rs1 ws1 where a: "watch_run ops (Some s) = (rs1, ws1)" by force
  have app: "watch_run (xs @ [oper]) ws = (fst (watch_run xs ws) @ [fst (watch_exec oper (snd (watch_run xs ws)))],
      snd (watch_exec oper (snd (watch_run xs ws))))" for xs ws
    by (induction xs arbitrary: ws) (simp_all add: split_def Let_def)
  obtain s1 where s1: "ws1 = Some s1" "watch_ok s1" using watch_run_refines [OF assms(1) a] by blast
  obtain r where e: "watch_exec oper (Some s1) = (r, Some s')"
    using snoc.prems(2) a s1(1) by (cases "watch_exec oper (Some s1)") (simp add: app)
  from snoc.IH [OF assms(1) _ assms(3,4)] a s1(1) obtain k where ih: "i < length (watch_slots s1)" "k \<le> length ops"
    "slot_generation (watch_slots s1 ! i) = (next_generation ^^ k) (slot_generation (watch_slots s ! i))"
    "k = 0 \<longrightarrow> slot_references (watch_slots s1 ! i) = 0" by blast
  from watch_exec_ages [OF s1(2) e ih(1)] have n: "i < length (watch_slots s')" "ages (watch_slots s1 ! i) (watch_slots s' ! i)"
    by simp_all
  from n(2) consider "slot_generation (watch_slots s' ! i) = slot_generation (watch_slots s1 ! i)"
      "slot_references (watch_slots s1 ! i) = 0 \<longrightarrow> slot_references (watch_slots s' ! i) = 0"
    | "slot_generation (watch_slots s' ! i) = next_generation (slot_generation (watch_slots s1 ! i))"
    unfolding ages_def by blast
  then show ?case
  proof cases
    case 1
    with n(1) ih show ?thesis by (intro conjI exI [of _ k]) auto
  next
    case 2
    with n(1) ih show ?thesis by (intro conjI exI [of _ "Suc k"]) auto
  qed
qed simp

text \<open>Claim C34.  A stale token stays unknown.  Once the last user of a token has left, no sequence of fewer than
  2^32 - 1 operations brings the token back to life, although its slot is used again: releasing it or reporting
  a change for it fails and changes nothing.  (The generation of a slot comes around after 2^32 - 1 uses.)\<close>

theorem watch_token_not_reused:
  assumes "watch_run before (snd (hl_linux_watch_init True True None)) = (rs0, ws)"
    and "hl_linux_watch_release ws token = (Inr True, ws1)"
    and "watch_run after ws1 = (rs, ws2)" "length after < 2 ^ 32 - 1"
  shows "hl_linux_watch_release ws2 token = (Inl S_NOT_FOUND, ws2) \<and>
    hl_linux_watch_enqueue alloc ws2 token sz fl = (S_NOT_FOUND, ws2)"
proof -
  obtain s where s: "ws = Some s" "watch_ok s"
    using watch_run_refines [OF watch_start_ok(1) assms(1) [unfolded watch_start_ok(3) snd_conv]] by blast
  obtain i where l: "watch_lookup s token = Some i" and s1: "ws1 = Some (with_slot i drop_user s)"
    and dead: "slot_references (watch_slots (with_slot i drop_user s) ! i) = 0"
    using assms(2) s(1) by (auto simp: hl_linux_watch_release_def Let_def split: option.splits)
  let ?s = "with_slot i drop_user s"
  have i: "i < length (watch_slots ?s)" "token = token_at s i" using l watch_lookup_iff [OF watch_okD(1) [OF s(2)]] by auto
  have g: "slot_generation (watch_slots ?s ! i) = slot_generation (watch_slots s ! i)"
    using i by (simp add: with_slot_nth drop_user_def Let_def)
  have ok: "watch_ok ?s" using release_refines [OF s(2), of token "Inr True" ws1] assms(2) s(1) s1 by blast
  obtain s2 where s2: "ws2 = Some s2" "watch_ok s2" using watch_run_refines [OF ok] assms(3) s1 by blast
  have run: "watch_run after (Some ?s) = (rs, Some s2)" using assms(3) s1 s2(1) by simp
  obtain k where k: "i < length (watch_slots s2)" "k \<le> length after"
    "slot_generation (watch_slots s2 ! i) = (next_generation ^^ k) (slot_generation (watch_slots s ! i))"
    "k = 0 \<longrightarrow> slot_references (watch_slots s2 ! i) = 0"
    using watch_run_ages [OF ok run i(1) dead] g by auto
  have "watch_lookup s2 token = None"
  proof (rule ccontr)
    assume "watch_lookup s2 token \<noteq> None"
    then obtain j where j: "live_at s2 j" "token = token_at s2 j"
      using watch_lookup_iff [OF watch_okD(1) [OF s2(2)]] by blast
    have "j < UINT32_MAX" "i < UINT32_MAX" using j(1) k(1) watch_okD(1) [OF s2(2)] by simp_all
    with j(2) i(2) have "j = i" "slot_generation (watch_slots s2 ! i) = slot_generation (watch_slots s ! i)"
      using watch_token_eq by metis+
    with k j(1) have "0 < k" "(next_generation ^^ k) (slot_generation (watch_slots s ! i)) = slot_generation (watch_slots s ! i)"
      by auto
    then show False using generation_differs [of k] k(2) assms(4) by simp
  qed
  then show ?thesis by (simp add: s2(1) hl_linux_watch_release_def hl_linux_watch_enqueue_def)
qed

lemma watch_token_not_reused_witness:
  "hl_linux_watch_release (snd (watch_run [Retain True 1 2 10] (snd (hl_linux_watch_release watch_demo 0x100000001)))) 0x100000001 =
    (Inl S_NOT_FOUND, snd (watch_run [Retain True 1 2 10] (snd (hl_linux_watch_release watch_demo 0x100000001)))) \<and>
   hl_linux_watch_enqueue True (snd (watch_run [Retain True 1 2 10] (snd (hl_linux_watch_release watch_demo 0x100000001)))) 0x100000001 9 9 =
    (S_NOT_FOUND, snd (watch_run [Retain True 1 2 10] (snd (hl_linux_watch_release watch_demo 0x100000001))))"
proof (rule watch_token_not_reused)
  show "watch_run [Retain True 1 2 10] (snd (hl_linux_watch_init True True None)) =
      (fst (watch_run [Retain True 1 2 10] (snd (hl_linux_watch_init True True None))), watch_demo)"
    by (simp add: watch_demo_def)
  show "hl_linux_watch_release watch_demo 0x100000001 = (Inr True, snd (hl_linux_watch_release watch_demo 0x100000001))"
    by (simp add: watch_eval Let_def)
  show "watch_run [Retain True 1 2 10] (snd (hl_linux_watch_release watch_demo 0x100000001)) =
      (fst (watch_run [Retain True 1 2 10] (snd (hl_linux_watch_release watch_demo 0x100000001))),
       snd (watch_run [Retain True 1 2 10] (snd (hl_linux_watch_release watch_demo 0x100000001))))"
    by (rule surjective_pairing)
  show "length [Retain True 1 2 10] < 2 ^ 32 - 1" by simp
qed

section \<open>Fork\<close>

definition fork_record_at :: "watch_state \<Rightarrow> nat \<Rightarrow> watch_fork_record" where
  "fork_record_at s i = \<lparr>fork_token = token_at s i, fork_device = slot_device (watch_slots s ! i), fork_object = slot_object (watch_slots s ! i)\<rparr>"

lemma fork_records_app:
  "fork_records capacity k rs xs = (S_OK, rs') \<Longrightarrow>
    rs' = rs @ map (\<lambda>i. \<lparr>fork_token = watch_token (k + i) (slot_generation (xs ! i)), fork_device = slot_device (xs ! i), fork_object = slot_object (xs ! i)\<rparr>)
      (filter (\<lambda>i. slot_references (xs ! i) \<noteq> 0) [0..<length xs])"
proof (induction xs arbitrary: k rs)
  case (Cons x xs)
  have u: "[0..<Suc (length xs)] = 0 # map Suc [0..<length xs]" by (simp add: upt_conv_Cons map_Suc_upt del: upt_Suc)
  have f: "filter (\<lambda>i. slot_references ((x # xs) ! i) \<noteq> 0) (map Suc l) = map Suc (filter (\<lambda>i. slot_references (xs ! i) \<noteq> 0) l)" for l
    by (simp add: filter_map comp_def)
  show ?case
  proof (cases "slot_references x = 0")
    case True
    with Cons.prems Cons.IH [of "Suc k" rs] show ?thesis by (simp add: u f comp_def del: upt_Suc)
  next
    case False
    with Cons.prems have "fork_records capacity (Suc k)
        (rs @ [\<lparr>fork_token = watch_token k (slot_generation x), fork_device = slot_device x, fork_object = slot_object x\<rparr>]) xs = (S_OK, rs')"
      by (auto split: if_splits)
    from Cons.IH [OF this] False show ?thesis by (simp add: u f comp_def del: upt_Suc)
  qed
qed simp

lemma child_slot_simps [simp]:
  "slot_references (child_slot x) = slot_references x" "slot_device (child_slot x) = slot_device x"
  "slot_object (child_slot x) = slot_object x" "slot_size (child_slot x) = slot_size x"
  "slot_pending_size (child_slot x) = slot_size x" "slot_pending_flags (child_slot x) = 0" "\<not> slot_queued (child_slot x)"
  "slot_references x \<noteq> 0 \<Longrightarrow> slot_generation (child_slot x) = next_generation (slot_generation x)"
  by (simp_all add: child_slot_def Let_def)

text \<open>The records of live slots get the slots' new tokens.\<close>

lemma retoken_live:
  assumes "length (watch_slots s) \<le> UINT32_MAX" "length (watch_slots s') = length (watch_slots s)"
    and "\<And>i. i < length (watch_slots s) \<Longrightarrow> slot_device (watch_slots s' ! i) = slot_device (watch_slots s ! i) \<and>
      slot_object (watch_slots s' ! i) = slot_object (watch_slots s ! i) \<and> slot_references (watch_slots s' ! i) = slot_references (watch_slots s ! i)"
    and "\<forall>i \<in> set is. live_at s i"
  shows "retoken (watch_slots s') (map (fork_record_at s) is) = Some (map (fork_record_at s') is)"
  using assms(4)
proof (induction "is")
  case (Cons i "is")
  then have i: "live_at s i" "i < UINT32_MAX" using assms(1) by auto
  note p = watch_token_parts(1) [OF i(2), of "slot_generation (watch_slots s ! i)"] low_position [OF i(2)]
  show ?case
    using Cons i(1) assms(2) assms(3) [of i] p by (simp add: fork_record_at_def Let_def del: of_nat_Suc)
qed simp

text \<open>Claim C35.  A forked child watches the same files under new tokens.  From the records of the preparation
  the child rebuilds exactly its live watches, each with its new token, in slot order; users and sizes are kept,
  nothing is queued, and no token of the parent means anything to the child.\<close>

theorem watch_fork_child_exact:
  assumes "watch_run before (snd (hl_linux_watch_init True True None)) = (rs0, Some s)"
    and "hl_linux_watch_fork_prepare capacity (Some s) = (S_OK, rs)"
  shows "\<exists>s'. hl_linux_watch_fork_child (Some s) rs =
      (Inr (map (fork_record_at s') (filter (\<lambda>i. slot_references (watch_slots s' ! i) \<noteq> 0) [0..<length (watch_slots s')])), Some s') \<and>
    \<not> watch_shutdown s' \<and> watch_queue s' = [] \<and>
    map (\<lambda>x. (slot_device x, slot_object x, slot_size x, slot_references x)) (watch_slots s') =
      map (\<lambda>x. (slot_device x, slot_object x, slot_size x, slot_references x)) (watch_slots s) \<and>
    (\<forall>token. watches_of s token = None \<or> watches_of s' token = None)"
proof -
  have ok: "watch_ok s" using watch_run_refines [OF watch_start_ok(1), of before] assms(1) unfolding watch_start_ok(3) snd_conv by blast
  note len = watch_okD(1) [OF ok]
  define s' where "s' = s\<lparr>watch_queue := [], watch_shutdown := False, watch_slots := map child_slot (watch_slots s)\<rparr>"
  have sl: "watch_slots s' = map child_slot (watch_slots s)" by (simp add: s'_def)
  have rs: "rs = map (fork_record_at s) (filter (\<lambda>i. slot_references (watch_slots s ! i) \<noteq> 0) [0..<length (watch_slots s)])"
    using fork_records_app [of capacity 0 "[]" "watch_slots s" rs] assms(2)
    by (simp add: hl_linux_watch_fork_prepare_def fork_record_at_def)
  have live: "filter (\<lambda>i. slot_references (watch_slots s' ! i) \<noteq> 0) [0..<length (watch_slots s')] =
      filter (\<lambda>i. slot_references (watch_slots s ! i) \<noteq> 0) [0..<length (watch_slots s)]"
    by (rule filter_cong) (simp_all add: sl)
  have "retoken (watch_slots s') rs = Some (map (fork_record_at s') (filter (\<lambda>i. slot_references (watch_slots s ! i) \<noteq> 0) [0..<length (watch_slots s)]))"
    unfolding rs by (rule retoken_live [OF len]) (simp_all add: sl)
  then have res: "hl_linux_watch_fork_child (Some s) rs = (Inr (map (fork_record_at s') (filter (\<lambda>i. slot_references (watch_slots s' ! i) \<noteq> 0) [0..<length (watch_slots s')])), Some s')"
    unfolding live by (simp add: hl_linux_watch_fork_child_def s'_def [symmetric] Let_def)
  have "watches_of s token = None \<or> watches_of s' token = None" for token
  proof (rule ccontr)
    assume "\<not> ?thesis"
    then obtain x y where "watches_of s token = Some x" "watches_of s' token = Some y" by auto
    moreover have len': "length (watch_slots s') \<le> UINT32_MAX" using len by (simp add: sl)
    ultimately obtain i j where ij: "live_at s i" "token = token_at s i" "live_at s' j" "token = token_at s' j"
      using watches_of_Some [OF len] watches_of_Some [OF len'] by blast
    moreover have "i < UINT32_MAX" "j < UINT32_MAX" using ij len len' by simp_all
    ultimately have "i = j" "slot_generation (watch_slots s ! i) = slot_generation (watch_slots s' ! i)"
      using watch_token_eq by metis+
    with ij have "(next_generation ^^ 1) (slot_generation (watch_slots s ! i)) = slot_generation (watch_slots s ! i)" by (simp add: sl)
    then show False using generation_differs [of 1] by simp
  qed
  then show ?thesis using res by (intro exI [of _ s']) (simp add: s'_def)
qed

lemma watch_fork_child_exact_witness:
  "\<exists>s'. hl_linux_watch_fork_child (Some (the watch_demo)) [\<lparr>fork_token = 0x100000001, fork_device = 1, fork_object = 2\<rparr>] =
      (Inr (map (fork_record_at s') (filter (\<lambda>i. slot_references (watch_slots s' ! i) \<noteq> 0) [0..<length (watch_slots s')])), Some s') \<and>
    \<not> watch_shutdown s' \<and> watch_queue s' = [] \<and>
    map (\<lambda>x. (slot_device x, slot_object x, slot_size x, slot_references x)) (watch_slots s') =
      map (\<lambda>x. (slot_device x, slot_object x, slot_size x, slot_references x)) (watch_slots (the watch_demo)) \<and>
    (\<forall>token. watches_of (the watch_demo) token = None \<or> watches_of s' token = None)"
proof (rule watch_fork_child_exact)
  show "watch_run [Retain True 1 2 10] (snd (hl_linux_watch_init True True None)) =
      (fst (watch_run [Retain True 1 2 10] (snd (hl_linux_watch_init True True None))), Some (the watch_demo))"
    using watch_demo_eq unfolding watch_demo_def by (metis option.sel surjective_pairing)
  show "hl_linux_watch_fork_prepare 4 (Some (the watch_demo)) = (S_OK, [\<lparr>fork_token = 0x100000001, fork_device = 1, fork_object = 2\<rparr>])"
    by (simp add: watch_demo_eq hl_linux_watch_fork_prepare_def watch_token_def)
qed

end
