(* ===== verification/Inotify.thy ===== *)
theory Inotify
  imports Fd_Io Logical_Vma
begin

text \<open>
  The inotify object (\<open>linux_abi/inotify.c\<close>): watches by path, a byte queue of framed event records that
  the guest reads, and the image a checkpoint carries.  The provider (it observes the host) and the allocator
  are the record \<open>inotify_host\<close>: functions over a state of the outside, \<open>'w\<close>.  A path and a name are
  shorter than 2^63 bytes, so sums of sizes do not wrap except where the code adds in 32 bits.  Operations hold
  the object's lock; the counter of mutations that nothing reads is left out.
\<close>

section \<open>State\<close>

definition IN_EVENT_MASK :: u32 where "IN_EVENT_MASK = 0xfff"
definition IN_Q_OVERFLOW :: u32 where "IN_Q_OVERFLOW = 0x4000"
definition IN_IGNORED :: u32 where "IN_IGNORED = 0x8000"
definition IN_ONLYDIR :: u32 where "IN_ONLYDIR = 0x1000000"
definition IN_DONT_FOLLOW :: u32 where "IN_DONT_FOLLOW = 0x2000000"
definition IN_EXCL_UNLINK :: u32 where "IN_EXCL_UNLINK = 0x4000000"
definition IN_MASK_CREATE :: u32 where "IN_MASK_CREATE = 0x10000000"
definition IN_MASK_ADD :: u32 where "IN_MASK_ADD = 0x20000000"
definition IN_ISDIR :: u32 where "IN_ISDIR = 0x40000000"
definition IN_ONESHOT :: u32 where "IN_ONESHOT = 0x80000000"

definition INOTIFY_OPTION_MASK :: u32 where
  "INOTIFY_OPTION_MASK = IN_ONLYDIR OR IN_DONT_FOLLOW OR IN_EXCL_UNLINK OR IN_MASK_CREATE OR IN_MASK_ADD OR IN_ONESHOT"

record inotify_watch =
  iw_wd :: u32
  iw_mask :: u32
  iw_token :: u64
  iw_path :: "u8 list"

record inotify_object =
  io_provider :: u64
  io_watches :: "inotify_watch list"
  io_watch_capacity :: nat
  io_queue :: "u8 list"
  io_queue_capacity :: nat
  io_next_wd :: u32
  io_nonblocking :: bool

record provider_event =
  pe_token :: u64
  pe_mask :: u32
  pe_cookie :: u32
  pe_name :: "u8 list"

text \<open>What the provider and the allocator answer.  A drained list is a count and the events before it.\<close>

record 'w inotify_host =
  ih_alloc :: "'w \<Rightarrow> bool \<times> 'w"
  ih_mutex :: "'w \<Rightarrow> bool \<times> 'w"
  ih_add :: "u64 \<Rightarrow> u8 list \<Rightarrow> u64 \<Rightarrow> u32 \<Rightarrow> 'w \<Rightarrow> hl_status \<times> 'w"
  ih_modify :: "u64 \<Rightarrow> u64 \<Rightarrow> u32 \<Rightarrow> 'w \<Rightarrow> hl_status \<times> 'w"
  ih_remove :: "u64 \<Rightarrow> u64 \<Rightarrow> 'w \<Rightarrow> hl_status \<times> 'w"
  ih_drain :: "u64 \<Rightarrow> nat \<Rightarrow> 'w \<Rightarrow> (hl_status \<times> provider_event list) \<times> 'w"
  ih_wait :: "u64 \<Rightarrow> 'w \<Rightarrow> hl_status \<times> 'w"
  ih_readiness :: "u64 \<Rightarrow> 'w \<Rightarrow> bool"
  ih_clone :: "u64 \<Rightarrow> 'w \<Rightarrow> (hl_status + u64) \<times> 'w"
  ih_close :: "u64 \<Rightarrow> 'w \<Rightarrow> hl_status \<times> 'w"
  ih_wait_handle :: "u64 \<Rightarrow> 'w \<Rightarrow> (hl_status \<times> u64) \<times> 'w"
  ih_subscribe :: "(u64 \<Rightarrow> u64 \<Rightarrow> 'w \<Rightarrow> hl_status \<times> 'w) option"
  ih_unsubscribe :: "(u64 \<Rightarrow> u64 \<Rightarrow> 'w \<Rightarrow> 'w) option"

fun inotify_error :: "hl_status \<Rightarrow> int" where
  "inotify_error S_OK = 0"
| "inotify_error S_NOT_FOUND = fails ENOENT"
| "inotify_error S_NOT_DIRECTORY = fails ENOTDIR"
| "inotify_error S_NAME_TOO_LONG = fails ENAMETOOLONG"
| "inotify_error S_PERMISSION_DENIED = fails EACCES"
| "inotify_error S_IO = fails EIO"
| "inotify_error S_ALREADY_EXISTS = fails EEXIST"
| "inotify_error S_OUT_OF_MEMORY = fails ENOMEM"
| "inotify_error S_INTERRUPTED = fails EINTR"
| "inotify_error S_WOULD_BLOCK = fails EAGAIN"
| "inotify_error S_NOT_SUPPORTED = fails ENOSYS"
| "inotify_error _ = fails EINVAL"

fun position_of :: "('a \<Rightarrow> bool) \<Rightarrow> 'a list \<Rightarrow> nat option" where
  "position_of P [] = None"
| "position_of P (x # xs) = (if P x then Some 0 else map_option Suc (position_of P xs))"

definition inotify_watch_token :: "inotify_object \<Rightarrow> u64 \<Rightarrow> nat option" where
  "inotify_watch_token obj token = position_of (\<lambda>w. iw_token w = token) (io_watches obj)"

definition inotify_watch_id :: "inotify_object \<Rightarrow> u32 \<Rightarrow> nat option" where
  "inotify_watch_id obj wd = position_of (\<lambda>w. iw_wd w = wd) (io_watches obj)"

section \<open>Queueing\<close>

definition padded_size :: "nat \<Rightarrow> nat" where
  "padded_size n = (if n = 0 then 0 else (n + 1 + 3) div 4 * 4)"

definition event_frame :: "u32 \<Rightarrow> u32 \<Rightarrow> u32 \<Rightarrow> u8 list \<Rightarrow> u8 list" where
  "event_frame wd m cookie name =
    le_bytes 4 wd @ le_bytes 4 m @ le_bytes 4 cookie @ le_bytes 4 (of_nat (padded_size (length name)) :: u32) @
    name @ replicate (padded_size (length name) - length name) 0"

definition queue_event ::
  "'w inotify_host \<Rightarrow> u32 \<Rightarrow> u32 \<Rightarrow> u32 \<Rightarrow> u8 list \<Rightarrow> inotify_object \<Rightarrow> 'w \<Rightarrow> hl_status \<times> inotify_object \<times> 'w" where
  "queue_event h wd m cookie name obj w =
    (let needed = 16 + padded_size (length name); obj' = obj\<lparr>io_queue := io_queue obj @ event_frame wd m cookie name\<rparr> in
     if needed > SIZE_MAX - length (io_queue obj) then (S_OUT_OF_MEMORY, obj, w)
     else if length (io_queue obj) + needed > io_queue_capacity obj then
       (case grow_capacity (if io_queue_capacity obj = 0 then 256 else io_queue_capacity obj) (length (io_queue obj) + needed) of
          None \<Rightarrow> (S_OUT_OF_MEMORY, obj, w)
        | Some c \<Rightarrow>
            (case ih_alloc h w of
               (False, w1) \<Rightarrow> (S_OUT_OF_MEMORY, obj, w1)
             | (True, w1) \<Rightarrow> (S_OK, obj'\<lparr>io_queue_capacity := c\<rparr>, w1)))
     else (S_OK, obj', w))"

definition drop_watch :: "nat \<Rightarrow> inotify_object \<Rightarrow> inotify_object" where
  "drop_watch i obj = obj\<lparr>io_watches := swap_remove i (io_watches obj)\<rparr>"

definition pump_event :: "'w inotify_host \<Rightarrow> provider_event \<Rightarrow> inotify_object \<Rightarrow> 'w \<Rightarrow> hl_status \<times> inotify_object \<times> 'w" where
  "pump_event h e obj w =
    (case inotify_watch_token obj (pe_token e) of
       None \<Rightarrow>
         if pe_mask e AND IN_Q_OVERFLOW = 0 then (S_OK, obj, w)
         else queue_event h (- 1) (pe_mask e) (pe_cookie e) (pe_name e) obj w
     | Some i \<Rightarrow>
         (let x = io_watches obj ! i; m = pe_mask e in
          if m AND (IN_EVENT_MASK OR IN_ISDIR) \<noteq> 0 \<and> m AND (iw_mask x AND IN_EVENT_MASK) = 0 then (S_OK, obj, w)
          else case queue_event h (iw_wd x) m (pe_cookie e) (pe_name e) obj w of
            (st, obj1, w1) \<Rightarrow>
              if st \<noteq> S_OK then (st, obj1, w1)
              else if iw_mask x AND IN_ONESHOT \<noteq> 0 \<or> m AND IN_IGNORED \<noteq> 0 then
                (if m AND IN_IGNORED = 0 then
                   (case queue_event h (iw_wd x) IN_IGNORED 0 [] obj1 (snd (ih_remove h (io_provider obj1) (iw_token x) w1)) of
                      (st2, obj2, w2) \<Rightarrow> if st2 \<noteq> S_OK then (st2, obj2, w2) else (S_OK, drop_watch i obj2, w2))
                 else (S_OK, drop_watch i obj1, w1))
              else (S_OK, obj1, w1)))"

fun pump_events :: "'w inotify_host \<Rightarrow> provider_event list \<Rightarrow> inotify_object \<Rightarrow> 'w \<Rightarrow> hl_status \<times> inotify_object \<times> 'w" where
  "pump_events h [] obj w = (S_OK, obj, w)"
| "pump_events h (e # es) obj w =
    (case pump_event h e obj w of (st, obj1, w1) \<Rightarrow> if st \<noteq> S_OK then (st, obj1, w1) else pump_events h es obj1 w1)"

definition inotify_pump :: "'w inotify_host \<Rightarrow> inotify_object \<Rightarrow> 'w \<Rightarrow> hl_status \<times> inotify_object \<times> 'w" where
  "inotify_pump h obj w =
    (case ih_drain h (io_provider obj) 32 w of
       ((st, es), w1) \<Rightarrow>
         if st = S_WOULD_BLOCK then (S_OK, obj, w1) else if st \<noteq> S_OK then (st, obj, w1) else pump_events h es obj w1)"

section \<open>Reading\<close>

text \<open>Waiting for an event may go on for ever.\<close>

partial_function (option) wait_for_event ::
  "'w inotify_host \<Rightarrow> inotify_object \<Rightarrow> 'w \<Rightarrow> (hl_status \<times> inotify_object \<times> 'w) option" where
  "wait_for_event h obj w =
    (if io_queue obj \<noteq> [] \<or> io_nonblocking obj then Some (S_OK, obj, w)
     else case ih_wait h (io_provider obj) w of
       (st, w1) \<Rightarrow>
         if st \<noteq> S_OK then Some (st, obj, w1)
         else case inotify_pump h obj w1 of
           (st2, obj2, w2) \<Rightarrow> if st2 \<noteq> S_OK then Some (st2, obj2, w2) else wait_for_event h obj2 w2)"

definition record_length :: "u8 list \<Rightarrow> nat \<Rightarrow> u32" where
  "record_length q i = le32 (q ! (i + 12)) (q ! (i + 13)) (q ! (i + 14)) (q ! (i + 15))"

text \<open>How many bytes of whole records fit.  The size of a record is a sum in 32 bits: when it wraps to 0, the
  loop does not end.\<close>

partial_function (option) take_records :: "u8 list \<Rightarrow> nat \<Rightarrow> nat \<Rightarrow> nat option" where
  "take_records q n i =
    (if i + 16 \<le> length q then
       (let r = unat (16 + record_length q i) in
        if r > length q - i \<or> r > n - i then Some i else take_records q n (i + r))
     else Some i)"

definition read_records :: "nat \<Rightarrow> inotify_object \<Rightarrow> ((int + u8 list) \<times> inotify_object) option" where
  "read_records n obj =
    (if io_queue obj = [] then Some (Inl (fails EAGAIN), obj)
     else if n < 16 then Some (Inl (fails EINVAL), obj)
     else Option.bind (take_records (io_queue obj) n 0) (\<lambda>k.
       if k = 0 then Some (Inl (fails EINVAL), obj)
       else Some (Inr (take k (io_queue obj)), obj\<lparr>io_queue := drop k (io_queue obj)\<rparr>)))"

definition inotify_read ::
  "'w inotify_host \<Rightarrow> nat \<Rightarrow> inotify_object \<Rightarrow> 'w \<Rightarrow> ((int + u8 list) \<times> inotify_object \<times> 'w) option" where
  "inotify_read h n obj w =
    (case inotify_pump h obj w of
       (st, obj1, w1) \<Rightarrow>
         if st \<noteq> S_OK then Some (Inl (inotify_error st), obj1, w1)
         else Option.bind (wait_for_event h obj1 w1) (\<lambda>(st2, obj2, w2).
           if st2 \<noteq> S_OK then Some (Inl (inotify_error st2), obj2, w2)
           else Option.bind (read_records n obj2) (\<lambda>(r, obj3). Some (r, obj3, w2))))"

definition inotify_ready :: "'w inotify_host \<Rightarrow> u32 \<Rightarrow> inotify_object \<Rightarrow> 'w \<Rightarrow> u32 \<times> inotify_object \<times> 'w" where
  "inotify_ready h interests obj w =
    (if interests AND 1 = 0 then (0, obj, w)
     else case (if io_queue obj = [] then snd (inotify_pump h obj w) else (obj, w)) of
       (obj1, w1) \<Rightarrow> (if io_queue obj1 \<noteq> [] \<or> ih_readiness h (io_provider obj1) w1 then 1 else 0, obj1, w1))"

text \<open>Waiting and notification are the provider's.\<close>

definition inotify_wait_handle :: "'w inotify_host \<Rightarrow> inotify_object \<Rightarrow> 'w \<Rightarrow> (hl_status \<times> u64) \<times> 'w" where
  "inotify_wait_handle h obj w = ih_wait_handle h (io_provider obj) w"

definition inotify_subscribe :: "'w inotify_host \<Rightarrow> u64 \<Rightarrow> inotify_object \<Rightarrow> 'w \<Rightarrow> hl_status \<times> 'w" where
  "inotify_subscribe h token obj w =
    (case ih_subscribe h of None \<Rightarrow> (S_NOT_SUPPORTED, w) | Some f \<Rightarrow> f (io_provider obj) token w)"

definition inotify_unsubscribe :: "'w inotify_host \<Rightarrow> u64 \<Rightarrow> inotify_object \<Rightarrow> 'w \<Rightarrow> 'w" where
  "inotify_unsubscribe h token obj w = (case ih_unsubscribe h of None \<Rightarrow> w | Some f \<Rightarrow> f (io_provider obj) token w)"

section \<open>Watches\<close>

text \<open>The operations on the object behind a descriptor; a success of \<open>inotify_add\<close> answers the watch
  descriptor.\<close>

definition inotify_add ::
  "'w inotify_host \<Rightarrow> u8 list \<Rightarrow> u32 \<Rightarrow> inotify_object \<Rightarrow> 'w \<Rightarrow> int \<times> inotify_object \<times> 'w" where
  "inotify_add h path m obj w =
    (case position_of (\<lambda>x. iw_path x = path) (io_watches obj) of
       Some i \<Rightarrow>
         (let x = io_watches obj ! i;
              m' = (if m AND IN_MASK_ADD \<noteq> 0 then iw_mask x OR (m AND NOT IN_MASK_ADD) else m AND NOT IN_MASK_CREATE) in
          if m AND IN_MASK_CREATE \<noteq> 0 then (fails EEXIST, obj, w)
          else case ih_modify h (io_provider obj) (iw_token x) m' w of
            (st, w1) \<Rightarrow>
              if st \<noteq> S_OK then (inotify_error st, obj, w1)
              else (uint (iw_wd x), obj\<lparr>io_watches := (io_watches obj)[i := x\<lparr>iw_mask := m'\<rparr>]\<rparr>, w1))
     | None \<Rightarrow>
         (case (if length (io_watches obj) = io_watch_capacity obj then ih_alloc h w else (True, w)) of
            (False, w1) \<Rightarrow> (fails ENOMEM, obj, w1)
          | (True, w1) \<Rightarrow>
              (let obj1 = (if length (io_watches obj) = io_watch_capacity obj
                     then obj\<lparr>io_watch_capacity := (if io_watch_capacity obj = 0 then 8 else io_watch_capacity obj * 2)\<rparr> else obj) in
               case ih_alloc h w1 of
                 (False, w2) \<Rightarrow> (fails ENOMEM, obj1, w2)
               | (True, w2) \<Rightarrow>
                   if sint (io_next_wd obj1) \<le> 0 \<or> io_next_wd obj1 = 0x7fffffff then (fails ENOSYS, obj1, w2)
                   else
                     (let wd = io_next_wd obj1; obj2 = obj1\<lparr>io_next_wd := wd + 1\<rparr>;
                          x = \<lparr>iw_wd = wd, iw_mask = m AND NOT IN_MASK_CREATE, iw_token = ucast (wd + 1) - 1, iw_path = path\<rparr> in
                      case ih_add h (io_provider obj2) path (iw_token x) (iw_mask x) w2 of
                        (st, w3) \<Rightarrow>
                          if st = S_OK then (uint wd, obj2\<lparr>io_watches := io_watches obj2 @ [x]\<rparr>, w3)
                          else (inotify_error st, obj2, w3)))))"

definition inotify_remove :: "'w inotify_host \<Rightarrow> u32 \<Rightarrow> inotify_object \<Rightarrow> 'w \<Rightarrow> int \<times> inotify_object \<times> 'w" where
  "inotify_remove h wd obj w =
    (case inotify_watch_id obj wd of
       None \<Rightarrow> (fails EINVAL, obj, w)
     | Some i \<Rightarrow>
         (case ih_remove h (io_provider obj) (iw_token (io_watches obj ! i)) w of
            (st, w1) \<Rightarrow>
              if st = S_OK \<or> st = S_NOT_FOUND then
                (case queue_event h wd IN_IGNORED 0 [] obj w1 of (_, obj1, w2) \<Rightarrow> (0, drop_watch i obj1, w2))
              else (inotify_error st, obj, w1)))"

section \<open>Life cycle\<close>

definition empty_inotify :: "u64 \<Rightarrow> u32 \<Rightarrow> bool \<Rightarrow> inotify_object" where
  "empty_inotify provider wd nb = \<lparr>io_provider = provider, io_watches = [], io_watch_capacity = 0, io_queue = [],
     io_queue_capacity = 0, io_next_wd = wd, io_nonblocking = nb\<rparr>"

text \<open>The object itself and its mutex.\<close>

definition new_inotify :: "'w inotify_host \<Rightarrow> 'w \<Rightarrow> bool \<times> 'w" where
  "new_inotify h w = (case ih_alloc h w of (False, w1) \<Rightarrow> (False, w1) | (True, w1) \<Rightarrow> ih_mutex h w1)"

fun copy_paths :: "'w inotify_host \<Rightarrow> inotify_watch list \<Rightarrow> 'w \<Rightarrow> bool \<times> 'w" where
  "copy_paths h [] w = (True, w)"
| "copy_paths h (x # xs) w = (case ih_alloc h w of (False, w1) \<Rightarrow> (False, w1) | (True, w1) \<Rightarrow> copy_paths h xs w1)"

definition inotify_clone :: "'w inotify_host \<Rightarrow> inotify_object \<Rightarrow> 'w \<Rightarrow> (hl_status + inotify_object) \<times> 'w" where
  "inotify_clone h source w =
    (case new_inotify h w of
       (False, w1) \<Rightarrow> (Inl S_OUT_OF_MEMORY, w1)
     | (True, w1) \<Rightarrow>
         (case ih_clone h (io_provider source) w1 of
            (Inl st, w2) \<Rightarrow> (Inl st, w2)
          | (Inr provider, w2) \<Rightarrow>
              (let no_memory = (\<lambda>w. (Inl S_OUT_OF_MEMORY, snd (ih_close h provider w))) in
               case (if io_watch_capacity source \<noteq> 0
                     then (case ih_alloc h w2 of (False, w3) \<Rightarrow> (False, w3) | (True, w3) \<Rightarrow> copy_paths h (io_watches source) w3)
                     else (True, w2)) of
                 (False, w3) \<Rightarrow> no_memory w3
               | (True, w3) \<Rightarrow>
                   (case (if io_queue source \<noteq> [] then ih_alloc h w3 else (True, w3)) of
                      (False, w4) \<Rightarrow> no_memory w4
                    | (True, w4) \<Rightarrow>
                        (Inr ((empty_inotify provider (io_next_wd source) (io_nonblocking source))
                           \<lparr>io_watches := (if io_watch_capacity source \<noteq> 0 then io_watches source else []),
                            io_watch_capacity := io_watch_capacity source,
                            io_queue := io_queue source, io_queue_capacity := length (io_queue source)\<rparr>), w4)))))"

definition inotify_close :: "'w inotify_host \<Rightarrow> inotify_object \<Rightarrow> 'w \<Rightarrow> hl_status \<times> 'w" where
  "inotify_close h obj w = ih_close h (io_provider obj) w"

section \<open>Checkpoint image\<close>

definition INOTIFY_IMAGE_MAGIC :: u64 where "INOTIFY_IMAGE_MAGIC = 0x484c494e4f544659"
definition INOTIFY_IMAGE_VERSION :: u32 where "INOTIFY_IMAGE_VERSION = 1"

definition image_header :: "inotify_object \<Rightarrow> u8 list" where
  "image_header obj =
    le_bytes 8 INOTIFY_IMAGE_MAGIC @ le_bytes 4 INOTIFY_IMAGE_VERSION @ le_bytes 4 (of_nat (length (io_watches obj)) :: u32) @
    le_bytes 4 (io_next_wd obj) @ le_bytes 4 (if io_nonblocking obj then 1 else 0 :: u32) @
    le_bytes 8 (of_nat (length (io_queue obj)) :: u64)"

definition image_watch :: "inotify_watch \<Rightarrow> u8 list" where
  "image_watch x = le_bytes 4 (iw_wd x) @ le_bytes 4 (iw_mask x) @ le_bytes 8 (iw_token x) @
    le_bytes 8 (of_nat (length (iw_path x)) :: u64) @ iw_path x"

text \<open>The bytes; without a buffer, only their number is answered.\<close>

definition image_size :: "inotify_object \<Rightarrow> nat" where
  "image_size obj = 32 + sum_list (map (\<lambda>x. 24 + length (iw_path x)) (io_watches obj)) + length (io_queue obj)"

definition inotify_image :: "inotify_object \<Rightarrow> u8 list" where
  "inotify_image obj = image_header obj @ concat (map image_watch (io_watches obj)) @ io_queue obj"

definition inotify_export ::
  "'w inotify_host \<Rightarrow> nat option \<Rightarrow> inotify_object \<Rightarrow> 'w \<Rightarrow> (hl_status \<times> nat option \<times> u8 list) \<times> inotify_object \<times> 'w" where
  "inotify_export h room obj w =
    (case inotify_pump h obj w of
       (st, obj1, w1) \<Rightarrow>
         if st \<noteq> S_OK then ((st, None, []), obj1, w1)
         else if image_size obj1 > SIZE_MAX then ((S_OUT_OF_MEMORY, None, []), obj1, w1)
         else case room of
             None \<Rightarrow> ((S_OK, Some (image_size obj1), []), obj1, w1)
           | Some c \<Rightarrow>
               if c < image_size obj1 then ((S_OUT_OF_MEMORY, Some (image_size obj1), []), obj1, w1)
               else ((S_OK, Some (image_size obj1), inotify_image obj1), obj1, w1))"

definition word_at :: "u8 list \<Rightarrow> nat \<Rightarrow> u32" where
  "word_at bs i = le32 (bs ! i) (bs ! (i + 1)) (bs ! (i + 2)) (bs ! (i + 3))"

definition long_at :: "u8 list \<Rightarrow> nat \<Rightarrow> u64" where
  "long_at bs i = ucast (word_at bs i) OR push_bit 32 (ucast (word_at bs (i + 4)))"

definition malformed_watch :: "u8 list \<Rightarrow> bool" where
  "malformed_watch bs \<longleftrightarrow> length bs < 24 \<or> sint (word_at bs 0) \<le> 0 \<or> unat (long_at bs 16) = 0 \<or>
    unat (long_at bs 16) > length bs - 24 \<or> unat (long_at bs 16) > SIZE_MAX - 1"

definition watch_at :: "u8 list \<Rightarrow> inotify_watch" where
  "watch_at bs = \<lparr>iw_wd = word_at bs 0, iw_mask = word_at bs 4, iw_token = long_at bs 8,
     iw_path = take (unat (long_at bs 16)) (drop 24 bs)\<rparr>"

text \<open>The watches of an image, with the variable that holds the status: what it is when the image turns out
  to be malformed is what the import answers.\<close>

fun import_watches ::
  "'w inotify_host \<Rightarrow> nat \<Rightarrow> u8 list \<Rightarrow> hl_status \<Rightarrow> inotify_object \<Rightarrow> 'w \<Rightarrow> u8 list option \<times> hl_status \<times> inotify_object \<times> 'w" where
  "import_watches h 0 bs st obj w = (Some bs, st, obj, w)"
| "import_watches h (Suc n) bs st obj w =
    (if malformed_watch bs then (None, st, obj, w)
     else case ih_alloc h w of
         (False, w1) \<Rightarrow> (None, S_OUT_OF_MEMORY, obj, w1)
       | (True, w1) \<Rightarrow>
           (let x = watch_at bs in
            case ih_add h (io_provider obj) (iw_path x) (iw_token x) (iw_mask x) w1 of
              (st1, w2) \<Rightarrow>
                if st1 \<noteq> S_OK then (None, st1, obj, w2)
                else import_watches h n (drop (24 + length (iw_path x)) bs) st1 (obj\<lparr>io_watches := io_watches obj @ [x]\<rparr>) w2))"

text \<open>Whether the records tile the queue from \<open>i\<close> on.\<close>

function well_framed :: "u8 list \<Rightarrow> nat \<Rightarrow> bool" where
  "well_framed q i =
    (if i = length q then True
     else if length q - i < 16 then False
     else if unat (record_length q i) > length q - i - 16 then False
     else well_framed q (i + 16 + unat (record_length q i)))"
  by auto
termination by (relation "measure (\<lambda>(q, i). length q - i)") auto

declare well_framed.simps [simp del]

definition import_queue ::
  "'w inotify_host \<Rightarrow> nat \<Rightarrow> u8 list \<Rightarrow> hl_status \<Rightarrow> inotify_object \<Rightarrow> 'w \<Rightarrow> bool \<times> hl_status \<times> inotify_object \<times> 'w" where
  "import_queue h queue_size bs st obj w =
    (if queue_size \<noteq> length bs then (False, st, obj, w)
     else if queue_size = 0 then (True, st, obj, w)
     else case ih_alloc h w of
         (False, w1) \<Rightarrow> (False, S_OUT_OF_MEMORY, obj, w1)
       | (True, w1) \<Rightarrow> (well_framed bs 0, st, obj\<lparr>io_queue := bs, io_queue_capacity := length bs\<rparr>, w1))"

fun remove_watches :: "'w inotify_host \<Rightarrow> u64 \<Rightarrow> inotify_watch list \<Rightarrow> 'w \<Rightarrow> 'w" where
  "remove_watches h provider [] w = w"
| "remove_watches h provider (x # xs) w = remove_watches h provider xs (snd (ih_remove h provider (iw_token x) w))"

text \<open>The result of a failure: what the status says, after everything is given back.\<close>

definition import_fails :: "'w inotify_host \<Rightarrow> u64 \<Rightarrow> hl_status \<Rightarrow> 'w \<Rightarrow> int \<times> 'w" where
  "import_fails h provider st w = (inotify_error st, (if provider \<noteq> 0 then snd (ih_close h provider w) else w))"

definition import_object ::
  "'w inotify_host \<Rightarrow> u64 \<Rightarrow> bool \<Rightarrow> u8 list \<Rightarrow> 'w \<Rightarrow> (int + inotify_object) \<times> 'w" where
  "import_object h provider nb bs w =
    (let refuse = (\<lambda>st w. map_prod Inl id (import_fails h provider st w)) in
     if length bs < 32 then refuse S_INVALID_ARGUMENT w
     else if long_at bs 0 \<noteq> INOTIFY_IMAGE_MAGIC \<or> word_at bs 8 \<noteq> INOTIFY_IMAGE_VERSION \<or> sint (word_at bs 16) \<le> 0 \<or>
       unat (long_at bs 24) > length bs - 32 \<or> word_at bs 12 > 1048576
     then refuse S_INVALID_ARGUMENT w
     else case new_inotify h w of
         (False, w1) \<Rightarrow> refuse S_OUT_OF_MEMORY w1
       | (True, w1) \<Rightarrow>
           (case (if word_at bs 12 \<noteq> 0 then ih_alloc h w1 else (True, w1)) of
              (False, w2) \<Rightarrow> refuse S_OUT_OF_MEMORY w2
            | (True, w2) \<Rightarrow>
                (let fail_object = (\<lambda>st obj w. refuse st (remove_watches h provider (io_watches obj) w)) in
                 case import_watches h (unat (word_at bs 12)) (drop 32 bs) S_INVALID_ARGUMENT
                   ((empty_inotify provider (word_at bs 16) nb)\<lparr>io_watch_capacity := unat (word_at bs 12)\<rparr>) w2 of
                   (None, st, obj, w3) \<Rightarrow> fail_object st obj w3
                 | (Some rest, st, obj, w3) \<Rightarrow>
                     (case import_queue h (unat (long_at bs 24)) rest st obj w3 of
                        (False, st1, obj1, w4) \<Rightarrow> fail_object st1 obj1 w4
                      | (True, st1, obj1, w4) \<Rightarrow> (Inr obj1, w4)))))"

section \<open>Through a descriptor\<close>

text \<open>The descriptor table, the objects by their address, and the outside.  \<open>ops\<close> is the adapter of inotify
  objects.\<close>

type_synonym 'w inotify_world = "linux_abi \<times> (u64 \<Rightarrow> inotify_object) \<times> 'w"

definition with_inotify ::
  "fd_host \<Rightarrow> nat \<Rightarrow> u32 \<Rightarrow> (hl_status \<Rightarrow> 'r) \<Rightarrow> 'r \<Rightarrow> (inotify_object \<Rightarrow> 'w \<Rightarrow> 'r \<times> inotify_object \<times> 'w) \<Rightarrow> 'w inotify_world \<Rightarrow>
   ('r \<times> 'w inotify_world) option" where
  "with_inotify d ops fd unknown other f s =
    (case s of (t, objs, w) \<Rightarrow>
      (case hl_linux_object_pin_fd d fd t of
         (Inl st, t1) \<Rightarrow> Some (unknown st, t1, objs, w)
       | (Inr pin, t1) \<Rightarrow>
           if pin_ops pin \<noteq> ops then map_option (\<lambda>(t2, evs). (other, t2, objs, w)) (hl_linux_object_unpin d pin t1)
           else case f (objs (pin_context pin)) w of
             (r, obj, w1) \<Rightarrow>
               map_option (\<lambda>(t2, evs). (r, t2, objs(pin_context pin := obj), w1)) (hl_linux_object_unpin d pin t1)))"

definition hl_linux_inotify_add ::
  "'w inotify_host \<Rightarrow> fd_host \<Rightarrow> nat \<Rightarrow> u32 \<Rightarrow> u8 list \<Rightarrow> u32 \<Rightarrow> 'w inotify_world \<Rightarrow> (int \<times> 'w inotify_world) option" where
  "hl_linux_inotify_add h d ops fd path m s =
    (if path = [] \<or> m AND IN_EVENT_MASK = 0 \<or> m AND NOT (IN_EVENT_MASK OR INOTIFY_OPTION_MASK) \<noteq> 0 then Some (fails EINVAL, s)
     else with_inotify d ops fd (\<lambda>_. fails EBADF) (fails EINVAL) (inotify_add h path m) s)"

definition hl_linux_inotify_remove ::
  "'w inotify_host \<Rightarrow> fd_host \<Rightarrow> nat \<Rightarrow> u32 \<Rightarrow> u32 \<Rightarrow> 'w inotify_world \<Rightarrow> (int \<times> 'w inotify_world) option" where
  "hl_linux_inotify_remove h d ops fd wd = with_inotify d ops fd (\<lambda>_. fails EBADF) (fails EINVAL) (inotify_remove h wd)"

definition hl_linux_inotify_export ::
  "'w inotify_host \<Rightarrow> fd_host \<Rightarrow> nat \<Rightarrow> u32 \<Rightarrow> nat option \<Rightarrow> 'w inotify_world \<Rightarrow>
   ((hl_status \<times> nat option \<times> u8 list) \<times> 'w inotify_world) option" where
  "hl_linux_inotify_export h d ops fd room =
    with_inotify d ops fd (\<lambda>st. (st, None, [])) (S_INVALID_ARGUMENT, None, []) (inotify_export h room)"

text \<open>A new object, at the address \<open>a\<close>.\<close>

definition install_inotify ::
  "fd_host \<Rightarrow> nat \<Rightarrow> u32 option \<Rightarrow> u64 \<Rightarrow> u32 \<Rightarrow> u32 \<Rightarrow> inotify_object \<Rightarrow> linux_abi \<times> (u64 \<Rightarrow> inotify_object) \<Rightarrow>
   (hl_status + u32) \<times> linux_abi \<times> (u64 \<Rightarrow> inotify_object)" where
  "install_inotify d ops requested a dflags sflags obj s =
    (case s of (t, objs) \<Rightarrow>
      (case hl_linux_object_install_common d requested ops a 0x696e6f74 sflags dflags t of
         (Inl st, t1, evs) \<Rightarrow> (Inl st, t1, objs)
       | (Inr fd, t1, evs) \<Rightarrow> (Inr fd, t1, objs(a := obj))))"

definition create_inotify ::
  "'w inotify_host \<Rightarrow> fd_host \<Rightarrow> nat \<Rightarrow> u32 option \<Rightarrow> u64 \<Rightarrow> u64 \<Rightarrow> u32 \<Rightarrow> u32 \<Rightarrow> 'w inotify_world \<Rightarrow> int \<times> 'w inotify_world" where
  "create_inotify h d ops requested a provider dflags sflags s =
    (case s of (t, objs, w) \<Rightarrow>
      (case new_inotify h w of
         (False, w1) \<Rightarrow> (fails ENOMEM, t, objs, w1)
       | (True, w1) \<Rightarrow>
           (case install_inotify d ops requested a dflags sflags (empty_inotify provider 1 (sflags AND HL_LINUX_O_NONBLOCK \<noteq> 0)) (t, objs) of
              (Inl st, t1, objs1) \<Rightarrow> (inotify_error st, t1, objs1, snd (ih_close h provider w1))
            | (Inr fd, t1, objs1) \<Rightarrow> (uint fd, t1, objs1, w1))))"

definition hl_linux_inotify_create where
  "hl_linux_inotify_create h d ops = create_inotify h d ops None"

definition hl_linux_inotify_create_at where
  "hl_linux_inotify_create_at h d ops requested = create_inotify h d ops (Some requested)"

definition hl_linux_inotify_import_at ::
  "'w inotify_host \<Rightarrow> fd_host \<Rightarrow> nat \<Rightarrow> u32 \<Rightarrow> u64 \<Rightarrow> u64 \<Rightarrow> u32 \<Rightarrow> u32 \<Rightarrow> u8 list \<Rightarrow> 'w inotify_world \<Rightarrow> int \<times> 'w inotify_world" where
  "hl_linux_inotify_import_at h d ops requested a provider dflags sflags bs s =
    (case s of (t, objs, w) \<Rightarrow>
      (case import_object h provider (sflags AND HL_LINUX_O_NONBLOCK \<noteq> 0) bs w of
         (Inl e, w1) \<Rightarrow> (e, t, objs, w1)
       | (Inr obj, w1) \<Rightarrow>
           (case install_inotify d ops (Some requested) a dflags sflags obj (t, objs) of
              (Inl st, t1, objs1) \<Rightarrow>
                (case import_fails h provider st (remove_watches h provider (io_watches obj) w1) of (e, w2) \<Rightarrow> (e, t1, objs1, w2))
            | (Inr fd, t1, objs1) \<Rightarrow> (uint requested, t1, objs1, w1))))"

end
