(* ===== verification/Inotify_Records.thy ===== *)
theory Inotify_Records
  imports Inotify
begin

text \<open>
  The framing of the event queue, and what the operations that queue or read leave alone: the queue stays a
  sequence of whole records, watch descriptors stay distinct and below the next one.
\<close>

section \<open>Records\<close>

definition is_record :: "u8 list \<Rightarrow> bool" where
  "is_record r \<longleftrightarrow> 16 \<le> length r \<and> length r = 16 + unat (record_length r 0) \<and> length r < 2 ^ 32"

text \<open>How many whole records fit in \<open>n\<close> bytes.\<close>

fun fitting :: "nat \<Rightarrow> u8 list list \<Rightarrow> nat" where
  "fitting n [] = 0"
| "fitting n (r # rs) = (if length r \<le> n then Suc (fitting (n - length r) rs) else 0)"

lemma record_length_append: "16 \<le> length r \<Longrightarrow> record_length (p @ r @ q) (length p) = record_length r 0"
  by (simp add: record_length_def nth_append)

lemma unat_record:
  assumes "is_record r"
  shows "unat (16 + record_length r 0) = length r"
proof -
  have "unat (16 :: u32) + unat (record_length r 0) < 2 ^ LENGTH(32)" using assms by (simp add: is_record_def)
  then have "unat (16 + record_length r 0) = unat (16 :: u32) + unat (record_length r 0)" by (simp only: unat_add_lem)
  then show ?thesis using assms by (simp add: is_record_def)
qed

lemma take_records_fitting:
  "\<forall>r \<in> set rs. is_record r \<Longrightarrow>
    take_records (p @ concat rs) (length p + n) (length p) = Some (length p + length (concat (take (fitting n rs) rs)))"
proof (induction rs arbitrary: p n)
  case Nil
  then show ?case by (subst take_records.simps) simp
next
  case (Cons r rs)
  then have r: "is_record r" "16 \<le> length r" by (simp_all add: is_record_def)
  have l: "unat (16 + record_length (p @ concat (r # rs)) (length p)) = length r"
    using unat_record [OF r(1)] record_length_append [OF r(2), of p "concat rs"] by simp
  show ?case
  proof (cases "length r \<le> n")
    case True
    have "take_records ((p @ r) @ concat rs) (length (p @ r) + (n - length r)) (length (p @ r)) =
        Some (length (p @ r) + length (concat (take (fitting (n - length r) rs) rs)))"
      using Cons.prems by (intro Cons.IH) simp
    then show ?thesis using True r(2) l by (subst take_records.simps) (simp add: add.assoc Let_def)
  next
    case False
    then show ?thesis using r(2) l by (subst take_records.simps) (simp add: Let_def)
  qed
qed

lemma fitting_maximal:
  "fitting n rs \<le> length rs"
  "length (concat (take (fitting n rs) rs)) \<le> n"
  "fitting n rs < length rs \<Longrightarrow> n < length (concat (take (Suc (fitting n rs)) rs))"
  by (induction n rs rule: fitting.induct) auto

lemma read_records_exact:
  assumes "\<forall>r \<in> set rs. is_record r" "io_queue obj = concat rs"
  shows "read_records n obj = Some
    (if rs = [] then (Inl (fails EAGAIN), obj)
     else if n < length (hd rs) then (Inl (fails EINVAL), obj)
     else (Inr (concat (take (fitting n rs) rs)), obj\<lparr>io_queue := concat (drop (fitting n rs) rs)\<rparr>))"
proof (cases rs)
  case Nil
  then show ?thesis using assms(2) by (simp add: read_records_def)
next
  case (Cons r rs')
  then have r: "16 \<le> length r" using assms(1) by (simp add: is_record_def)
  then have ne: "io_queue obj \<noteq> []" using assms(2) Cons by auto
  have t: "take_records (io_queue obj) n 0 = Some (length (concat (take (fitting n rs) rs)))"
    using take_records_fitting [OF assms(1), of "[]" n] assms(2) by simp
  have s: "io_queue obj = concat (take (fitting n rs) rs) @ concat (drop (fitting n rs) rs)"
    using assms(2) by (metis append_take_drop_id concat_append)
  have z: "length (concat (take (fitting n rs) rs)) = 0 \<longleftrightarrow> n < length r"
    using r Cons by auto
  show ?thesis
  proof (cases "n < length r")
    case True
    then show ?thesis using ne t z Cons by (auto simp: read_records_def)
  next
    case False
    then have "take (length (concat (take (fitting n rs) rs))) (io_queue obj) = concat (take (fitting n rs) rs)"
      "drop (length (concat (take (fitting n rs) rs))) (io_queue obj) = concat (drop (fitting n rs) rs)"
      by (subst s, simp)+
    then show ?thesis using False ne t z r Cons by (simp add: read_records_def)
  qed
qed

section \<open>Queueing keeps the framing\<close>

definition records :: "u8 list \<Rightarrow> bool" where
  "records q \<longleftrightarrow> (\<exists>rs. (\<forall>r \<in> set rs. is_record r) \<and> q = concat rs)"

lemma records_Nil [simp]: "records []" unfolding records_def by (intro exI [of _ "[]"]) simp

lemma records_append: "records p \<Longrightarrow> records q \<Longrightarrow> records (p @ q)"
  unfolding records_def by (metis concat_append set_append Un_iff)

lemma records_single: "is_record r \<Longrightarrow> records r"
  unfolding records_def by (intro exI [of _ "[r]"]) simp

lemma padded_size_bounds: "n \<le> padded_size n" "padded_size n \<le> n + 4"
  by (auto simp: padded_size_def)

lemma is_record_event_frame:
  assumes "length name < 2 ^ 31"
  shows "is_record (event_frame wd m c name)"
proof -
  have p: "padded_size (length name) < 2 ^ 32 - 16" using padded_size_bounds(2) [of "length name"] assms by simp
  have "record_length (event_frame wd m c name) 0 = of_nat (padded_size (length name))"
    using le32_of_bytes [of "of_nat (padded_size (length name)) :: u32"]
    by (simp add: record_length_def event_frame_def nth_append)
  moreover have "unat (of_nat (padded_size (length name)) :: u32) = padded_size (length name)"
    using p by (simp add: unat_of_nat take_bit_nat_eq_self)
  moreover have "length (event_frame wd m c name) = 16 + padded_size (length name)"
    using padded_size_bounds(1) [of "length name"] by (simp add: event_frame_def)
  ultimately show ?thesis using p by (simp add: is_record_def)
qed

lemma queue_event_records:
  assumes "records (io_queue obj)" "length name < 2 ^ 31" "queue_event h wd m c name obj w = (st, obj', w')"
  shows "records (io_queue obj')"
proof -
  have "io_queue obj' = io_queue obj \<or> io_queue obj' = io_queue obj @ event_frame wd m c name"
    using assms(3) by (auto simp: queue_event_def Let_def split: if_splits option.splits prod.splits bool.splits)
  with assms show ?thesis using records_append records_single is_record_event_frame by metis
qed

text \<open>What the provider must keep to: names as short as the names of files are.\<close>

definition short_names :: "'w inotify_host \<Rightarrow> bool" where
  "short_names h \<longleftrightarrow> (\<forall>p n w. \<forall>e \<in> set (snd (fst (ih_drain h p n w))). length (pe_name e) < 2 ^ 31)"

lemma pump_event_records:
  assumes "records (io_queue obj)" "length (pe_name e) < 2 ^ 31" "pump_event h e obj w = (st, obj', w')"
  shows "records (io_queue obj')"
proof (cases "inotify_watch_token obj (pe_token e)")
  case None
  then show ?thesis using assms queue_event_records [OF assms(1,2)] by (auto simp: pump_event_def split: if_splits)
next
  case (Some i)
  let ?x = "io_watches obj ! i" and ?m = "pe_mask e"
  show ?thesis
  proof (cases "?m AND (IN_EVENT_MASK OR IN_ISDIR) \<noteq> 0 \<and> ?m AND (iw_mask ?x AND IN_EVENT_MASK) = 0")
    case True
    then show ?thesis using assms Some by (simp add: pump_event_def Let_def)
  next
    case False
    obtain st1 obj1 w1 where q: "queue_event h (iw_wd ?x) ?m (pe_cookie e) (pe_name e) obj w = (st1, obj1, w1)" by (metis prod_cases3)
    note r1 = queue_event_records [OF assms(1,2) q]
    obtain st2 obj2 w2 where q2: "queue_event h (iw_wd ?x) IN_IGNORED 0 [] obj1 (snd (ih_remove h (io_provider obj1) (iw_token ?x) w1)) = (st2, obj2, w2)"
      by (metis prod_cases3)
    have r2: "records (io_queue obj2)" using queue_event_records [OF r1 _ q2] by simp
    have "obj' = obj1 \<or> obj' = obj2 \<or> obj' = drop_watch i obj1 \<or> obj' = drop_watch i obj2"
      using assms(3) Some False q q2 by (auto simp: pump_event_def Let_def split: if_splits)
    with r1 r2 show ?thesis by (auto simp: drop_watch_def)
  qed
qed

lemma pump_events_records:
  "records (io_queue obj) \<Longrightarrow> \<forall>e \<in> set es. length (pe_name e) < 2 ^ 31 \<Longrightarrow> pump_events h es obj w = (st, obj', w') \<Longrightarrow> records (io_queue obj')"
proof (induction es arbitrary: obj w)
  case (Cons e es)
  obtain st1 obj1 w1 where e: "pump_event h e obj w = (st1, obj1, w1)" by (metis prod_cases3)
  have "records (io_queue obj1)" using pump_event_records [OF Cons.prems(1) _ e] Cons.prems(2) by simp
  with Cons e show ?case by (auto split: if_splits)
qed simp

section \<open>Watches\<close>

lemma position_of_Some: "position_of P xs = Some i \<Longrightarrow> i < length xs \<and> P (xs ! i)"
  by (induction xs arbitrary: i) (auto split: if_splits)

lemma position_of_None: "position_of P xs = None \<longleftrightarrow> (\<forall>x \<in> set xs. \<not> P x)"
  by (induction xs) auto

text \<open>Descriptors are distinct, positive and below the next one; so are paths distinct; a token is its
  descriptor.\<close>

definition watches_ok :: "inotify_object \<Rightarrow> bool" where
  "watches_ok obj \<longleftrightarrow>
    distinct (map iw_wd (io_watches obj)) \<and> distinct (map iw_path (io_watches obj)) \<and>
    (\<forall>x \<in> set (io_watches obj). iw_wd x \<noteq> 0 \<and> iw_wd x < io_next_wd obj \<and> iw_token x = ucast (iw_wd x) \<and> iw_path x \<noteq> []) \<and>
    io_next_wd obj \<noteq> 0 \<and> io_next_wd obj \<le> 0x7fffffff"

lemma swap_remove_map:
  "i < length xs \<Longrightarrow> map f (swap_remove i xs) = swap_remove i (map f xs)"
  by (cases xs rule: rev_cases) (auto simp: swap_remove_def map_butlast map_update last_map)

lemma swap_remove_subset: "i < length xs \<Longrightarrow> set (swap_remove i xs) \<subseteq> set xs"
  using mset_swap_remove [of i xs] by (metis set_mset_mset set_mset_add_mset_insert subset_insertI)

lemma distinct_swap_remove: "distinct xs \<Longrightarrow> i < length xs \<Longrightarrow> distinct (swap_remove i xs)"
  using mset_swap_remove [of i xs] mset_eq_imp_distinct_iff [of xs "xs ! i # swap_remove i xs"] by simp

lemma drop_watch_ok:
  assumes "watches_ok obj" "i < length (io_watches obj)"
  shows "watches_ok (drop_watch i obj)"
  using assms swap_remove_subset [OF assms(2)]
  by (auto simp: watches_ok_def drop_watch_def swap_remove_map distinct_swap_remove)

lemma queue_event_keeps:
  assumes "queue_event h wd m c name obj w = (st, obj', w')"
  shows "io_watches obj' = io_watches obj" "io_next_wd obj' = io_next_wd obj" "io_provider obj' = io_provider obj"
    "io_nonblocking obj' = io_nonblocking obj"
  using assms by (auto simp: queue_event_def Let_def split: if_splits option.splits prod.splits bool.splits)

text \<open>The parts of an object that queueing does not touch, and what pumping may do to them.\<close>

definition settled :: "inotify_object \<Rightarrow> inotify_object \<Rightarrow> bool" where
  "settled obj obj' \<longleftrightarrow> io_next_wd obj' = io_next_wd obj \<and> io_provider obj' = io_provider obj \<and>
    io_nonblocking obj' = io_nonblocking obj \<and> (watches_ok obj \<longrightarrow> watches_ok obj')"

lemma settled_refl [simp]: "settled obj obj" by (simp add: settled_def)

lemma settled_trans: "settled a b \<Longrightarrow> settled b c \<Longrightarrow> settled a c" by (simp add: settled_def)

lemma settled_queue_event: "queue_event h wd m c name obj w = (st, obj', w') \<Longrightarrow> settled obj obj'"
  by (simp add: settled_def watches_ok_def queue_event_keeps)

lemma settled_drop_watch: "i < length (io_watches obj) \<Longrightarrow> settled obj (drop_watch i obj)"
  using drop_watch_ok by (simp add: settled_def drop_watch_def)

lemma pump_event_settled:
  assumes "pump_event h e obj w = (st, obj', w')"
  shows "settled obj obj'"
proof (cases "inotify_watch_token obj (pe_token e)")
  case None
  then show ?thesis using assms settled_queue_event by (auto simp: pump_event_def split: if_splits)
next
  case (Some i)
  then have i: "i < length (io_watches obj)" using position_of_Some unfolding inotify_watch_token_def by fast
  let ?x = "io_watches obj ! i" and ?m = "pe_mask e"
  show ?thesis
  proof (cases "?m AND (IN_EVENT_MASK OR IN_ISDIR) \<noteq> 0 \<and> ?m AND (iw_mask ?x AND IN_EVENT_MASK) = 0")
    case True
    then show ?thesis using assms Some by (simp add: pump_event_def Let_def)
  next
    case False
    obtain st1 obj1 w1 where q: "queue_event h (iw_wd ?x) ?m (pe_cookie e) (pe_name e) obj w = (st1, obj1, w1)" by (metis prod_cases3)
    obtain st2 obj2 w2 where q2: "queue_event h (iw_wd ?x) IN_IGNORED 0 [] obj1 (snd (ih_remove h (io_provider obj1) (iw_token ?x) w1)) = (st2, obj2, w2)"
      by (metis prod_cases3)
    have s: "settled obj obj1" "settled obj obj2"
      using settled_queue_event [OF q] settled_queue_event [OF q2] settled_trans by blast+
    have "settled obj (drop_watch i obj1)" "settled obj (drop_watch i obj2)"
      using s i queue_event_keeps(1) [OF q] queue_event_keeps(1) [OF q2] settled_drop_watch settled_trans by (metis, metis)
    moreover have "obj' = obj1 \<or> obj' = obj2 \<or> obj' = drop_watch i obj1 \<or> obj' = drop_watch i obj2"
      using assms Some False q q2 by (auto simp: pump_event_def Let_def split: if_splits)
    ultimately show ?thesis using s by blast
  qed
qed

lemma pump_events_settled: "pump_events h es obj w = (st, obj', w') \<Longrightarrow> settled obj obj'"
proof (induction es arbitrary: obj w)
  case (Cons e es)
  obtain st1 obj1 w1 where e: "pump_event h e obj w = (st1, obj1, w1)" by (metis prod_cases3)
  with Cons pump_event_settled [OF e] show ?case by (auto split: if_splits intro: settled_trans)
qed simp

text \<open>Both facts at once, for every object that only the queue operations have changed.\<close>

definition pumped :: "inotify_object \<Rightarrow> inotify_object \<Rightarrow> bool" where
  "pumped obj obj' \<longleftrightarrow> settled obj obj' \<and> (records (io_queue obj) \<longrightarrow> records (io_queue obj'))"

lemma pumped_refl [simp]: "pumped obj obj" by (simp add: pumped_def)

lemma pumped_trans: "pumped a b \<Longrightarrow> pumped b c \<Longrightarrow> pumped a c" using settled_trans by (auto simp: pumped_def)

lemma inotify_pump_pumped:
  assumes "short_names h" "inotify_pump h obj w = (st, obj', w')"
  shows "pumped obj obj'"
proof -
  obtain st1 es w1 where d: "ih_drain h (io_provider obj) 32 w = ((st1, es), w1)" by (metis prod.exhaust)
  then have "\<forall>e \<in> set es. length (pe_name e) < 2 ^ 31" using assms(1) unfolding short_names_def by (metis fst_conv snd_conv)
  then show ?thesis
    using assms(2) d pump_events_settled pump_events_records by (fastforce simp: inotify_pump_def pumped_def split: if_splits)
qed

lemma wait_for_event_pumped:
  assumes "short_names h" "wait_for_event h obj w = Some (st, obj', w')"
  shows "pumped obj obj'"
proof -
  have "h = h \<longrightarrow> pumped obj (fst (snd (st, obj', w')))"
  proof (rule wait_for_event.raw_induct [where P = "\<lambda>h' obj w r. h' = h \<longrightarrow> pumped obj (fst (snd r))", OF _ assms(2)], rule impI)
    fix f :: "'a inotify_host \<Rightarrow> inotify_object \<Rightarrow> 'a \<Rightarrow> (hl_status \<times> inotify_object \<times> 'a) option" and h' obj w r
    assume ih: "\<And>h' obj w y. f h' obj w = Some y \<Longrightarrow> h' = h \<longrightarrow> pumped obj (fst (snd y))"
      and b: "(if io_queue obj \<noteq> [] \<or> io_nonblocking obj then Some (S_OK, obj, w)
        else case ih_wait h' (io_provider obj) w of (st, w1) \<Rightarrow> if st \<noteq> S_OK then Some (st, obj, w1)
          else case inotify_pump h' obj w1 of (st2, obj2, w2) \<Rightarrow> if st2 \<noteq> S_OK then Some (st2, obj2, w2) else f h' obj2 w2) = Some r"
      and "h' = h"
    obtain st1 w1 where w: "ih_wait h (io_provider obj) w = (st1, w1)" by force
    obtain st2 obj2 w2 where p: "inotify_pump h obj w1 = (st2, obj2, w2)" by (metis prod_cases3)
    have "pumped obj obj2" by (rule inotify_pump_pumped [OF assms(1) p])
    moreover have "r = (S_OK, obj, w) \<or> r = (st1, obj, w1) \<or> r = (st2, obj2, w2) \<or> f h obj2 w2 = Some r"
      using b w p \<open>h' = h\<close> by (simp split: if_splits)
    ultimately show "pumped obj (fst (snd r))" using ih [of h obj2 w2 r] pumped_trans by auto
  qed
  then show ?thesis by simp
qed

lemma inotify_read_pumped:
  assumes "short_names h" "inotify_read h n obj w = Some (r, obj', w')"
  shows "pumped obj obj'"
proof -
  obtain st obj1 w1 where p: "inotify_pump h obj w = (st, obj1, w1)" by (metis prod_cases3)
  have p1: "pumped obj obj1" by (rule inotify_pump_pumped [OF assms(1) p])
  show ?thesis
  proof (cases "st = S_OK")
    case False
    with assms(2) p p1 show ?thesis by (simp add: inotify_read_def)
  next
    case True
    with assms(2) p obtain st2 obj2 w2 where w: "wait_for_event h obj1 w1 = Some (st2, obj2, w2)"
      and r: "(if st2 \<noteq> S_OK then Some (Inl (inotify_error st2), obj2, w2)
        else Option.bind (read_records n obj2) (\<lambda>(r, obj3). Some (r, obj3, w2))) = Some (r, obj', w')"
      by (auto simp: inotify_read_def Option.bind_eq_Some_conv)
    have p2: "pumped obj obj2" using p1 wait_for_event_pumped [OF assms(1) w] by (rule pumped_trans)
    have "pumped obj2 obj'" if "read_records n obj2 = Some (r, obj')"
    proof -
      have "settled obj2 obj'" "records (io_queue obj') " if "records (io_queue obj2)"
      proof -
        from that obtain rs where rs: "\<forall>r \<in> set rs. is_record r" "io_queue obj2 = concat rs" by (auto simp: records_def)
        have "\<forall>r \<in> set (drop k rs). is_record r" for k using rs(1) in_set_dropD by metis
        then have "records (concat (drop k rs))" for k unfolding records_def by blast
        then show "records (io_queue obj')" using read_records_exact [OF rs, of n] \<open>read_records n obj2 = Some (r, obj')\<close> rs(2)
          records_def rs(1) by (auto split: if_splits)
        show "settled obj2 obj'" using read_records_exact [OF rs, of n] \<open>read_records n obj2 = Some (r, obj')\<close>
          by (auto simp: settled_def watches_ok_def split: if_splits)
      qed
      moreover have "settled obj2 obj'"
        using that by (auto simp: read_records_def settled_def watches_ok_def Option.bind_eq_Some_conv split: if_splits)
      ultimately show ?thesis by (simp add: pumped_def)
    qed
    with r p2 show ?thesis by (auto simp: Option.bind_eq_Some_conv split: if_splits intro: pumped_trans)
  qed
qed

lemma inotify_ready_pumped:
  assumes "short_names h" "inotify_ready h k obj w = (r, obj', w')"
  shows "pumped obj obj'"
proof -
  obtain st obj1 w1 where p: "inotify_pump h obj w = (st, obj1, w1)" by (metis prod_cases3)
  have "obj' = obj \<or> obj' = obj1" using assms(2) p by (auto simp: inotify_ready_def split: if_splits)
  then show ?thesis using inotify_pump_pumped [OF assms(1) p] by auto
qed

lemma inotify_export_pumped:
  "short_names h \<Longrightarrow> inotify_export h k obj w = (r, obj', w') \<Longrightarrow> pumped obj obj'"
  using inotify_pump_pumped by (fastforce simp: inotify_export_def split: if_splits prod.splits option.splits)

lemma inotify_remove_pumped:
  assumes "inotify_remove h wd obj w = (r, obj', w')"
  shows "pumped obj obj'"
proof (cases "inotify_watch_id obj wd")
  case None
  with assms show ?thesis by (simp add: inotify_remove_def)
next
  case (Some i)
  then have i: "i < length (io_watches obj)" using position_of_Some unfolding inotify_watch_id_def by fast
  obtain st w1 where rm: "ih_remove h (io_provider obj) (iw_token (io_watches obj ! i)) w = (st, w1)" by force
  obtain st2 obj2 w2 where q: "queue_event h wd IN_IGNORED 0 [] obj w1 = (st2, obj2, w2)" by (metis prod_cases3)
  have "settled obj (drop_watch i obj2)"
    using settled_queue_event [OF q] settled_drop_watch [of i obj2] queue_event_keeps(1) [OF q] i settled_trans by metis
  moreover have "records (io_queue obj) \<longrightarrow> records (io_queue (drop_watch i obj2))"
    using queue_event_records [OF _ _ q] by (simp add: drop_watch_def)
  moreover have "obj' = obj \<or> obj' = drop_watch i obj2" using assms Some rm q by (auto simp: inotify_remove_def split: if_splits)
  ultimately show ?thesis by (auto simp: pumped_def)
qed

end
