(* ===== verification/Inotify_Images.thy ===== *)
theory Inotify_Images
  imports Inotify_Records
begin

text \<open>
  Adding watches, checkpoint images read back, and the objects that can be reached.
\<close>

section \<open>Adding a watch\<close>

lemma succ_below:
  fixes n :: u32
  assumes "n < 0x7fffffff"
  shows "n < n + 1" "n + 1 \<noteq> 0" "n + 1 \<le> 0x7fffffff" "ucast (n + 1) - 1 = (ucast n :: u64)"
proof -
  have u: "unat n < 2147483647" using assms by (simp add: word_less_nat_alt)
  then have s: "unat (n + 1) = unat n + 1" by (intro unat_succ) (auto simp: unsigned_minus_1_eq_mask mask_eq_exp_minus_1)
  then show "n < n + 1" "n + 1 \<noteq> 0" "n + 1 \<le> 0x7fffffff" using u by (auto simp: word_less_nat_alt word_le_nat_alt)
  have "ucast (n + 1) = (of_nat (unat n + 1) :: u64)" unfolding s [symmetric] by simp
  then show "ucast (n + 1) - 1 = (ucast n :: u64)" by simp
qed

lemma signed_positive:
  fixes n :: u32
  assumes "n \<noteq> 0" "n \<le> 0x7fffffff"
  shows "0 < sint n"
proof -
  have "uint n \<le> uint (0x7fffffff :: u32)" using assms(2) by (simp only: word_le_def)
  then have "uint n < 2 ^ 31" by simp
  moreover have "0 < uint n" using assms(1) by (simp add: word_neq_0_conv word_less_def)
  moreover have "sint n = signed_take_bit 31 (uint n)" by (simp add: sint_uint)
  ultimately show ?thesis by (simp add: signed_take_bit_int_eq_self)
qed

lemma inotify_add_queue:
  "inotify_add h path m obj w = (r, obj', w') \<Longrightarrow> io_queue obj' = io_queue obj"
  by (auto simp: inotify_add_def Let_def split: option.splits prod.splits bool.splits if_splits)

lemma inotify_add_new:
  assumes "position_of (\<lambda>x. iw_path x = path) (io_watches obj) = None" "inotify_add h path m obj w = (r, obj', w')"
  shows "\<exists>c. r < 0 \<and> obj' = obj\<lparr>io_watch_capacity := c\<rparr> \<or>
    io_next_wd obj \<noteq> 0x7fffffff \<and> (r < 0 \<and> obj' = obj\<lparr>io_watch_capacity := c, io_next_wd := io_next_wd obj + 1\<rparr> \<or>
      r = uint (io_next_wd obj) \<and> obj' = obj\<lparr>io_watch_capacity := c, io_next_wd := io_next_wd obj + 1, io_watches := io_watches obj @
        [\<lparr>iw_wd = io_next_wd obj, iw_mask = m AND NOT IN_MASK_CREATE, iw_token = ucast (io_next_wd obj + 1) - 1, iw_path = path\<rparr>]\<rparr>)"
proof -
  obtain b1 w1 where a1: "(if length (io_watches obj) = io_watch_capacity obj then ih_alloc h w else (True, w)) = (b1, w1)" by force
  define c where "c = (if length (io_watches obj) = io_watch_capacity obj
    then (if io_watch_capacity obj = 0 then 8 else io_watch_capacity obj * 2) else io_watch_capacity obj)"
  define obj1 where "obj1 = obj\<lparr>io_watch_capacity := c\<rparr>"
  have o1: "(if length (io_watches obj) = io_watch_capacity obj
      then obj\<lparr>io_watch_capacity := (if io_watch_capacity obj = 0 then 8 else io_watch_capacity obj * 2)\<rparr> else obj) = obj1"
    by (simp add: obj1_def c_def)
  obtain b2 w2 where a2: "ih_alloc h w1 = (b2, w2)" by force
  let ?x = "\<lparr>iw_wd = io_next_wd obj, iw_mask = m AND NOT IN_MASK_CREATE, iw_token = ucast (io_next_wd obj + 1) - 1, iw_path = path\<rparr>"
  obtain st w3 where a3: "ih_add h (io_provider obj) path (iw_token ?x) (iw_mask ?x) w2 = (st, w3)" by force
  have neg: "inotify_error st < 0" if "st \<noteq> S_OK" using that by (cases st) (simp_all add: fails_def)
  have self: "obj = obj\<lparr>io_watch_capacity := io_watch_capacity obj\<rparr>" by simp
  show ?thesis
  proof (cases b1)
    case False
    with assms a1 have "r < 0" "obj' = obj" by (simp_all add: inotify_add_def fails_def)
    with self show ?thesis by metis
  next
    case b1: True
    show ?thesis
    proof (cases "b2 \<and> \<not> (sint (io_next_wd obj) \<le> 0 \<or> io_next_wd obj = 0x7fffffff)")
      case False
      with assms a1 b1 a2 have "r < 0 \<and> obj' = obj1"
        by (auto simp: inotify_add_def fails_def o1 Let_def obj1_def split: if_splits bool.splits)
      then show ?thesis unfolding obj1_def by blast
    next
      case True
      have "r < 0 \<and> obj' = obj\<lparr>io_watch_capacity := c, io_next_wd := io_next_wd obj + 1\<rparr> \<or>
        r = uint (io_next_wd obj) \<and> obj' = obj\<lparr>io_watch_capacity := c, io_next_wd := io_next_wd obj + 1, io_watches := io_watches obj @ [?x]\<rparr>"
        using assms a1 b1 a2 a3 True neg
        by (auto simp: inotify_add_def o1 Let_def obj1_def split: if_splits)
      with True show ?thesis by blast
    qed
  qed
qed

text \<open>A new watch takes the next descriptor; a known path keeps its own.\<close>

lemma inotify_add_ok:
  assumes "watches_ok obj" "path \<noteq> []" "inotify_add h path m obj w = (r, obj', w')"
  shows "watches_ok obj'" "io_next_wd obj \<le> io_next_wd obj'"
    "0 < r \<Longrightarrow> \<exists>x \<in> set (io_watches obj'). iw_path x = path \<and> r = uint (iw_wd x) \<and>
      (if path \<in> iw_path ` set (io_watches obj) then map iw_wd (io_watches obj') = map iw_wd (io_watches obj)
       else iw_wd x = io_next_wd obj \<and> io_next_wd obj < io_next_wd obj')"
proof -
  have "watches_ok obj' \<and> io_next_wd obj \<le> io_next_wd obj' \<and> (0 < r \<longrightarrow> (\<exists>x \<in> set (io_watches obj'). iw_path x = path \<and> r = uint (iw_wd x) \<and>
      (if path \<in> iw_path ` set (io_watches obj) then map iw_wd (io_watches obj') = map iw_wd (io_watches obj)
       else iw_wd x = io_next_wd obj \<and> io_next_wd obj < io_next_wd obj')))"
  proof (cases "position_of (\<lambda>x. iw_path x = path) (io_watches obj)")
    case (Some i)
    from position_of_Some [OF Some] have i: "i < length (io_watches obj)" "iw_path (io_watches obj ! i) = path" by simp_all
    let ?x = "io_watches obj ! i"
    have known: "path \<in> iw_path ` set (io_watches obj)" using i by (metis image_eqI nth_mem)
    have unchanged: ?thesis if "obj' = obj" "r < 0" using that assms(1) by simp
    have changed: ?thesis if "obj' = obj\<lparr>io_watches := (io_watches obj)[i := ?x\<lparr>iw_mask := m'\<rparr>]\<rparr>" "r = uint (iw_wd ?x)" for m'
    proof -
      have maps: "map iw_wd (io_watches obj') = map iw_wd (io_watches obj)" "map iw_path (io_watches obj') = map iw_path (io_watches obj)"
        using that(1) i(1) by (simp_all add: map_update list_update_same_conv)
      have "?x\<lparr>iw_mask := m'\<rparr> \<in> set (io_watches obj')" using that(1) i(1) by (simp add: set_update_memI)
      moreover have "watches_ok obj'"
        using assms(1) maps that(1) i(1) unfolding watches_ok_def
        by (auto dest!: set_update_subset_insert [THEN subsetD])
      ultimately show ?thesis using maps known i(2) that by (auto intro!: bexI [of _ "?x\<lparr>iw_mask := m'\<rparr>"])
    qed
    show ?thesis
    proof (cases "m AND IN_MASK_CREATE \<noteq> 0")
      case True
      with assms(3) Some have "obj' = obj" "r = fails EEXIST" by (simp_all add: inotify_add_def Let_def)
      then show ?thesis using unchanged by (simp add: fails_def)
    next
      case False
      obtain st w1 where md: "ih_modify h (io_provider obj) (iw_token ?x)
          (if m AND IN_MASK_ADD \<noteq> 0 then iw_mask ?x OR (m AND NOT IN_MASK_ADD) else m AND NOT IN_MASK_CREATE) w = (st, w1)" by force
      show ?thesis
      proof (cases "st = S_OK")
        case True
        then have "r = uint (iw_wd ?x)" "obj' = obj\<lparr>io_watches := (io_watches obj)[i := ?x\<lparr>iw_mask :=
            (if m AND IN_MASK_ADD \<noteq> 0 then iw_mask ?x OR (m AND NOT IN_MASK_ADD) else m AND NOT IN_MASK_CREATE)\<rparr>]\<rparr>"
          using assms(3) Some False md by (simp_all add: inotify_add_def Let_def)
        then show ?thesis by (intro changed)
      next
        case neg: False
        have "inotify_error st < 0" using neg by (cases st) (simp_all add: fails_def)
        then show ?thesis using assms(3) Some False md neg unchanged by (simp add: inotify_add_def Let_def)
      qed
    qed
  next
    case None
    then have new: "path \<notin> iw_path ` set (io_watches obj)" by (auto simp: position_of_None)
    let ?wd = "io_next_wd obj"
    let ?x = "\<lparr>iw_wd = ?wd, iw_mask = m AND NOT IN_MASK_CREATE, iw_token = ucast (?wd + 1) - 1, iw_path = path\<rparr>"
    from inotify_add_new [OF None assms(3)] obtain c where
      "r < 0 \<and> obj' = obj\<lparr>io_watch_capacity := c\<rparr> \<or>
       ?wd \<noteq> 0x7fffffff \<and> (r < 0 \<and> obj' = obj\<lparr>io_watch_capacity := c, io_next_wd := ?wd + 1\<rparr> \<or>
         r = uint ?wd \<and> obj' = obj\<lparr>io_watch_capacity := c, io_next_wd := ?wd + 1, io_watches := io_watches obj @ [?x]\<rparr>)"
      by blast
    then consider (full) "r < 0" "obj' = obj\<lparr>io_watch_capacity := c\<rparr>"
      | (refused) "?wd \<noteq> 0x7fffffff" "r < 0" "obj' = obj\<lparr>io_watch_capacity := c, io_next_wd := ?wd + 1\<rparr>"
      | (added) "?wd \<noteq> 0x7fffffff" "r = uint ?wd" "obj' = obj\<lparr>io_watch_capacity := c, io_next_wd := ?wd + 1, io_watches := io_watches obj @ [?x]\<rparr>"
      by blast
    then show ?thesis
    proof cases
      case full
      then show ?thesis using assms(1) by (simp add: watches_ok_def)
    next
      case refused
      with assms(1) have "?wd < 0x7fffffff" by (simp add: watches_ok_def order_le_less)
      note s = succ_below [OF this]
      have "x < ?wd + 1" if "x < ?wd" for x using that s(1) by (rule order.strict_trans)
      then show ?thesis using refused assms(1) s by (simp add: watches_ok_def)
    next
      case added
      with assms(1) have "?wd < 0x7fffffff" by (simp add: watches_ok_def order_le_less)
      note s = succ_below [OF this]
      have "x < ?wd + 1" if "x < ?wd" for x using that s(1) by (rule order.strict_trans)
      then have "watches_ok obj'" using added assms(1,2) s new by (auto simp: watches_ok_def)
      then show ?thesis using added s(1) new by simp
    qed
  qed
  then show "watches_ok obj'" "io_next_wd obj \<le> io_next_wd obj'" "0 < r \<Longrightarrow> \<exists>x \<in> set (io_watches obj'). iw_path x = path \<and> r = uint (iw_wd x) \<and>
      (if path \<in> iw_path ` set (io_watches obj) then map iw_wd (io_watches obj') = map iw_wd (io_watches obj)
       else iw_wd x = io_next_wd obj \<and> io_next_wd obj < io_next_wd obj')" by blast+
qed

section \<open>Copies and images\<close>

lemma copy_of_clone:
  assumes "inotify_clone h obj w = (Inr obj', w')"
  shows "io_next_wd obj' = io_next_wd obj" "io_queue obj' = io_queue obj"
    "io_watches obj' = io_watches obj \<or> io_watches obj' = []"
  using assms by (auto simp: inotify_clone_def empty_inotify_def Let_def split: prod.splits bool.splits sum.splits if_splits)

lemma watches_ok_Nil: "watches_ok obj \<Longrightarrow> io_next_wd obj' = io_next_wd obj \<Longrightarrow> io_watches obj' = io_watches obj \<or> io_watches obj' = [] \<Longrightarrow> watches_ok obj'"
  by (auto simp: watches_ok_def)

text \<open>Whatever an image holds: its queue is what the import took over.\<close>

lemma import_watches_queue:
  "import_watches h n bs st obj w = (r, st', obj', w') \<Longrightarrow>
    io_queue obj' = io_queue obj \<and> (\<forall>rest. r = Some rest \<longrightarrow> length rest \<le> length bs)"
proof (induction n arbitrary: bs st obj w)
  case (Suc n)
  obtain b w1 where a: "ih_alloc h w = (b, w1)" by force
  let ?x = "watch_at bs"
  obtain st1 w2 where d: "ih_add h (io_provider obj) (iw_path ?x) (iw_token ?x) (iw_mask ?x) w1 = (st1, w2)" by force
  show ?case
  proof (cases "\<not> malformed_watch bs \<and> b \<and> st1 = S_OK")
    case True
    with Suc.prems a d
    have "import_watches h n (drop (24 + length (iw_path ?x)) bs) st1 (obj\<lparr>io_watches := io_watches obj @ [?x]\<rparr>) w2 = (r, st', obj', w')"
      by (simp add: Let_def)
    from Suc.IH [OF this] show ?thesis by fastforce
  next
    case False
    with Suc.prems a d show ?thesis by (auto simp: Let_def split: if_splits bool.splits)
  qed
qed auto

lemma well_framed_records:
  "well_framed q i \<Longrightarrow> i \<le> length q \<Longrightarrow> length q < 2 ^ 32 \<Longrightarrow> records (drop i q)"
proof (induction q i rule: well_framed.induct)
  case (1 q i)
  show ?case
  proof (cases "i = length q")
    case True
    then show ?thesis by simp
  next
    case False
    let ?n = "unat (record_length q i)"
    have c: "16 \<le> length q - i" "?n \<le> length q - i - 16" "well_framed q (i + 16 + ?n)"
      using "1.prems" False by (subst (asm) well_framed.simps, simp split: if_splits)+
    let ?r = "take (16 + ?n) (drop i q)"
    have l: "length ?r = 16 + ?n" using c "1.prems"(2) by simp
    have "record_length ?r 0 = record_length q i" using c "1.prems"(2) by (simp add: record_length_def add.commute)
    then have r: "is_record ?r" using l c "1.prems" by (simp add: is_record_def)
    have d: "records (drop (i + 16 + ?n) q)" using "1.IH" [OF False] c "1.prems" by simp
    have "drop (i + 16 + ?n) q = drop (16 + ?n) (drop i q)" by (simp add: add.commute add.left_commute)
    then have "?r @ drop (i + 16 + ?n) q = drop i q" by (simp only: append_take_drop_id)
    moreover have "records (?r @ drop (i + 16 + ?n) q)" by (rule records_append [OF records_single [OF r] d])
    ultimately show ?thesis by simp
  qed
qed

lemma import_object_Inr:
  assumes "import_object h p nb bs w = (Inr obj, w')"
  shows "\<exists>w2 rest st obj1 w3 st1.
    import_watches h (unat (word_at bs 12)) (drop 32 bs) S_INVALID_ARGUMENT
      ((empty_inotify p (word_at bs 16) nb)\<lparr>io_watch_capacity := unat (word_at bs 12)\<rparr>) w2 = (Some rest, st, obj1, w3) \<and>
    import_queue h (unat (long_at bs 24)) rest st obj1 w3 = (True, st1, obj, w')"
  using assms
  by (auto simp: import_object_def import_fails_def Let_def map_prod_def split: if_splits prod.splits bool.splits option.splits) blast+

lemma import_queue_True:
  "import_queue h n bs st obj w = (True, st1, obj1, w1) \<Longrightarrow>
    obj1 = obj \<and> bs = [] \<or> obj1 = obj\<lparr>io_queue := bs, io_queue_capacity := length bs\<rparr> \<and> well_framed bs 0"
  by (auto simp: import_queue_def split: if_splits prod.splits bool.splits)

lemma import_object_records:
  assumes "import_object h p nb bs w = (Inr obj, w')" "length bs < 2 ^ 32"
  shows "records (io_queue obj)"
proof -
  obtain w2 rest st obj1 w3 st1 where
    iw: "import_watches h (unat (word_at bs 12)) (drop 32 bs) S_INVALID_ARGUMENT
      ((empty_inotify p (word_at bs 16) nb)\<lparr>io_watch_capacity := unat (word_at bs 12)\<rparr>) w2 = (Some rest, st, obj1, w3)"
    and iq: "import_queue h (unat (long_at bs 24)) rest st obj1 w3 = (True, st1, obj, w')"
    using import_object_Inr [OF assms(1)] by blast
  have "length rest \<le> length bs - 32" using import_watches_queue [OF iw] by simp
  then have "length rest < 2 ^ 32" using assms(2) by linarith
  then show ?thesis
    using import_watches_queue [OF iw] import_queue_True [OF iq] well_framed_records [of rest 0] by (auto simp: empty_inotify_def)
qed

section \<open>Reading back an image\<close>

lemma le64_of_bytes:
  fixes w :: u64
  shows "ucast (le32 (ucast w) (ucast (drop_bit 8 w)) (ucast (drop_bit 16 w)) (ucast (drop_bit 24 w))) OR
    push_bit 32 (ucast (le32 (ucast (drop_bit 32 w)) (ucast (drop_bit 40 w)) (ucast (drop_bit 48 w)) (ucast (drop_bit 56 w)))) = w"
proof -
  have "le32 (ucast (drop_bit 32 w)) (ucast (drop_bit 40 w)) (ucast (drop_bit 48 w)) (ucast (drop_bit 56 w)) = ucast (drop_bit 32 w)"
    using le32_of_bytes [of "drop_bit 32 w"] by simp
  then show ?thesis unfolding le32_of_bytes by (intro bit_word_eqI) (auto simp: bit_simps)
qed

lemma word_at_le_bytes: "word_at (p @ le_bytes 4 (w :: u32) @ q) (length p) = w"
  using le32_of_bytes [of w] by (simp add: word_at_def nth_append)

lemma long_at_le_bytes: "long_at (p @ le_bytes 8 (w :: u64) @ q) (length p) = w"
  using le64_of_bytes [of w] by (simp add: long_at_def word_at_def nth_append)

lemma length_image_watch [simp]: "length (image_watch x) = 24 + length (iw_path x)"
  by (simp add: image_watch_def)

lemma length_image_header [simp]: "length (image_header obj) = 32"
  by (simp add: image_header_def)

lemma length_inotify_image: "length (inotify_image obj) = image_size obj"
  by (simp add: inotify_image_def image_size_def length_concat comp_def)

lemma image_header_fields:
  "long_at (image_header obj @ q) 0 = INOTIFY_IMAGE_MAGIC" "word_at (image_header obj @ q) 8 = INOTIFY_IMAGE_VERSION"
  "word_at (image_header obj @ q) 12 = of_nat (length (io_watches obj))" "word_at (image_header obj @ q) 16 = io_next_wd obj"
  "long_at (image_header obj @ q) 24 = of_nat (length (io_queue obj))"
  using long_at_le_bytes [of "[]" INOTIFY_IMAGE_MAGIC]
    word_at_le_bytes [of "le_bytes 8 INOTIFY_IMAGE_MAGIC" INOTIFY_IMAGE_VERSION]
    word_at_le_bytes [of "le_bytes 8 INOTIFY_IMAGE_MAGIC @ le_bytes 4 INOTIFY_IMAGE_VERSION" "of_nat (length (io_watches obj))"]
    word_at_le_bytes [of "le_bytes 8 INOTIFY_IMAGE_MAGIC @ le_bytes 4 INOTIFY_IMAGE_VERSION @ le_bytes 4 (of_nat (length (io_watches obj)) :: u32)" "io_next_wd obj"]
    long_at_le_bytes [of "le_bytes 8 INOTIFY_IMAGE_MAGIC @ le_bytes 4 INOTIFY_IMAGE_VERSION @ le_bytes 4 (of_nat (length (io_watches obj)) :: u32) @
      le_bytes 4 (io_next_wd obj) @ le_bytes 4 (if io_nonblocking obj then 1 else 0 :: u32)" "of_nat (length (io_queue obj))"]
  by (simp_all add: image_header_def)

lemma image_watch_fields:
  "word_at (image_watch x @ q) 0 = iw_wd x" "word_at (image_watch x @ q) 4 = iw_mask x" "long_at (image_watch x @ q) 8 = iw_token x"
  "long_at (image_watch x @ q) 16 = of_nat (length (iw_path x))"
  using word_at_le_bytes [of "[]" "iw_wd x"] word_at_le_bytes [of "le_bytes 4 (iw_wd x)" "iw_mask x"]
    long_at_le_bytes [of "le_bytes 4 (iw_wd x) @ le_bytes 4 (iw_mask x)" "iw_token x"]
    long_at_le_bytes [of "le_bytes 4 (iw_wd x) @ le_bytes 4 (iw_mask x) @ le_bytes 8 (iw_token x)" "of_nat (length (iw_path x))"]
  by (simp_all add: image_watch_def)

lemma drop_image_watch: "drop 24 (image_watch x) = iw_path x"
  by (simp add: image_watch_def)

text \<open>A watch that can be in an image.\<close>

definition storable :: "inotify_watch \<Rightarrow> bool" where
  "storable x \<longleftrightarrow> 0 < sint (iw_wd x) \<and> iw_path x \<noteq> [] \<and> length (iw_path x) \<le> SIZE_MAX - 1"

lemma unat_size: "n \<le> SIZE_MAX \<Longrightarrow> unat (of_nat n :: u64) = n"
  by (simp add: SIZE_MAX_def unat_of_nat take_bit_nat_eq_self)

lemma watch_at_image:
  assumes "storable x"
  shows "\<not> malformed_watch (image_watch x @ q)" "watch_at (image_watch x @ q) = x"
    "drop (24 + length (iw_path x)) (image_watch x @ q) = q"
proof -
  have u: "unat (of_nat (length (iw_path x)) :: u64) = length (iw_path x)"
    using assms unfolding storable_def by (intro unat_size) linarith
  show "\<not> malformed_watch (image_watch x @ q)"
    using assms u by (simp add: malformed_watch_def image_watch_fields storable_def)
  show "watch_at (image_watch x @ q) = x"
    by (simp add: watch_at_def image_watch_fields drop_image_watch u)
  show "drop (24 + length (iw_path x)) (image_watch x @ q) = q" by simp
qed

text \<open>The watches of an image come back one by one, whatever follows them.\<close>

lemma import_watches_image:
  "\<forall>x \<in> set xs. storable x \<Longrightarrow> import_watches h (length xs) (concat (map image_watch xs) @ q) st obj w = (Some rest, st', obj', w') \<Longrightarrow>
    rest = q \<and> obj' = obj\<lparr>io_watches := io_watches obj @ xs\<rparr> \<and> (xs = [] \<longrightarrow> st' = st) \<and> (xs \<noteq> [] \<longrightarrow> st' = S_OK)"
proof (induction xs arbitrary: st obj w)
  case (Cons x xs)
  let ?bs = "concat (map image_watch (x # xs)) @ q"
  have s: "storable x" using Cons.prems by simp
  note i = watch_at_image [OF s, of "concat (map image_watch xs) @ q"]
  obtain b w1 where a: "ih_alloc h w = (b, w1)" by force
  obtain st1 w2 where d: "ih_add h (io_provider obj) (iw_path x) (iw_token x) (iw_mask x) w1 = (st1, w2)" by force
  have step: "import_watches h (length (x # xs)) ?bs st obj w =
      (if b then (if st1 \<noteq> S_OK then (None, st1, obj, w2)
         else import_watches h (length xs) (concat (map image_watch xs) @ q) st1 (obj\<lparr>io_watches := io_watches obj @ [x]\<rparr>) w2)
       else (None, S_OUT_OF_MEMORY, obj, w1))"
    using i a d by (simp add: Let_def split: bool.splits)
  have ok: "b" "st1 = S_OK" "import_watches h (length xs) (concat (map image_watch xs) @ q) S_OK (obj\<lparr>io_watches := io_watches obj @ [x]\<rparr>) w2 = (Some rest, st', obj', w')"
    using Cons.prems(2) unfolding step by (simp_all split: if_splits)
  from Cons.prems(1) have "\<forall>x \<in> set xs. storable x" by simp
  from Cons.IH [OF this ok(3)] show ?case by (cases "xs = []") simp_all
qed simp

text \<open>With a willing host they do come back.\<close>

definition willing :: "'w inotify_host \<Rightarrow> bool" where
  "willing h \<longleftrightarrow> (\<forall>w. fst (ih_alloc h w)) \<and> (\<forall>w. fst (ih_mutex h w)) \<and> (\<forall>p path token m w. fst (ih_add h p path token m w) = S_OK)"

lemma willingD:
  assumes "willing h"
  shows "\<exists>w'. ih_alloc h w = (True, w')" "\<exists>w'. new_inotify h w = (True, w')" "\<exists>w'. ih_add h p path token m w = (S_OK, w')"
proof -
  have a: "ih_alloc h w = (True, snd (ih_alloc h w))" for w by (rule prod_eqI) (use assms in \<open>simp_all add: willing_def\<close>)
  have m: "ih_mutex h w = (True, snd (ih_mutex h w))" for w by (rule prod_eqI) (use assms in \<open>simp_all add: willing_def\<close>)
  have d: "ih_add h p path token m w = (S_OK, snd (ih_add h p path token m w))" by (rule prod_eqI) (use assms in \<open>simp_all add: willing_def\<close>)
  show "\<exists>w'. ih_alloc h w = (True, w')" "\<exists>w'. ih_add h p path token m w = (S_OK, w')" using a d by blast+
  show "\<exists>w'. new_inotify h w = (True, w')" unfolding new_inotify_def by (subst a) (simp, rule exI, rule m)
qed

lemma import_watches_willing:
  assumes "willing h"
  shows "\<forall>x \<in> set xs. storable x \<Longrightarrow> \<exists>w'. import_watches h (length xs) (concat (map image_watch xs) @ q) st obj w =
    (Some q, if xs = [] then st else S_OK, obj\<lparr>io_watches := io_watches obj @ xs\<rparr>, w')"
proof (induction xs arbitrary: st obj w)
  case (Cons x xs)
  have s: "storable x" using Cons.prems by simp
  note i = watch_at_image [OF s, of "concat (map image_watch xs) @ q"]
  obtain w1 where a: "ih_alloc h w = (True, w1)" using willingD(1) [OF assms] by blast
  obtain w2 where d: "ih_add h (io_provider obj) (iw_path x) (iw_token x) (iw_mask x) w1 = (S_OK, w2)" using willingD(3) [OF assms] by blast
  obtain w' where "import_watches h (length xs) (concat (map image_watch xs) @ q) S_OK (obj\<lparr>io_watches := io_watches obj @ [x]\<rparr>) w2 =
      (Some q, if xs = [] then S_OK else S_OK, obj\<lparr>io_watches := io_watches obj @ [x], io_watches := (io_watches obj @ [x]) @ xs\<rparr>, w')"
    using Cons.IH [of S_OK "obj\<lparr>io_watches := io_watches obj @ [x]\<rparr>" w2] Cons.prems by auto
  then show ?case using a d i by (auto simp: Let_def)
qed simp

lemma storable_watch:
  assumes "watches_ok obj" "x \<in> set (io_watches obj)" "image_size obj \<le> SIZE_MAX"
  shows "storable x"
proof -
  have "iw_wd x \<noteq> 0" "iw_wd x \<le> 0x7fffffff" "iw_path x \<noteq> []" using assms(1,2) by (auto simp: watches_ok_def intro: order.strict_implies_order order_less_le_trans)
  moreover have "24 + length (iw_path x) \<le> sum_list (map (\<lambda>x. 24 + length (iw_path x)) (io_watches obj))"
    using assms(2) by (intro member_le_sum_list) auto
  ultimately show ?thesis using assms(3) signed_positive by (auto simp: storable_def image_size_def)
qed

lemma few_watches:
  assumes "watches_ok obj"
  shows "length (io_watches obj) < 2 ^ 31"
proof -
  have u: "distinct (map unat ys)" if "distinct ys" for ys :: "u32 list"
    using that by (auto simp: distinct_map intro!: inj_onI word_unat_eq_iff [THEN iffD2])
  have d: "distinct (map unat (map iw_wd (io_watches obj)))" using assms by (intro u) (simp add: watches_ok_def)
  have "unat w < 2 ^ 31" if "w \<in> set (map iw_wd (io_watches obj))" for w
    using assms that by (auto simp: watches_ok_def word_less_nat_alt word_le_nat_alt)
  then have "set (map unat (map iw_wd (io_watches obj))) \<subseteq> {1..<2 ^ 31}"
    using assms by (auto simp: watches_ok_def unat_gt_0 Suc_le_eq)
  then have "card (set (map unat (map iw_wd (io_watches obj)))) \<le> card {1..<2 ^ 31 :: nat}" by (intro card_mono) simp_all
  then show ?thesis using distinct_card [OF d] by simp
qed

lemma records_well_framed:
  "\<forall>r \<in> set rs. is_record r \<Longrightarrow> well_framed (p @ concat rs) (length p)"
proof (induction rs arbitrary: p)
  case Nil
  then show ?case by (subst well_framed.simps) simp
next
  case (Cons r rs)
  then have r: "is_record r" "16 \<le> length r" by (simp_all add: is_record_def)
  have l: "16 + unat (record_length (p @ concat (r # rs)) (length p)) = length r"
    using r record_length_append [OF r(2), of p "concat rs"] by (simp add: is_record_def)
  have "well_framed ((p @ r) @ concat rs) (length (p @ r))" using Cons.prems by (intro Cons.IH) simp
  then have "well_framed (p @ concat (r # rs)) (length p + 16 + unat (record_length (p @ concat (r # rs)) (length p)))"
    using l by (simp add: add.assoc)
  then show ?case using l r(2) by (subst well_framed.simps) auto
qed

lemma well_framed_queue: "records q \<Longrightarrow> well_framed q 0"
  using records_well_framed [of _ "[]"] by (auto simp: records_def)

text \<open>What the import reads in the header of an image, whatever follows the header.\<close>

lemma count_field: "length (io_watches obj) < 2 ^ 31 \<Longrightarrow> unat (of_nat (length (io_watches obj)) :: u32) = length (io_watches obj)"
  by (simp add: unat_of_nat take_bit_nat_eq_self)

lemma import_object_image:
  assumes "watches_ok obj0" "image_size obj0 \<le> SIZE_MAX" "import_object h p nb (inotify_image obj0) w = (Inr obj, w')"
  shows "io_watches obj = io_watches obj0" "io_queue obj = io_queue obj0" "io_next_wd obj = io_next_wd obj0"
    "io_provider obj = p" "io_nonblocking obj = nb"
proof -
  let ?bs = "inotify_image obj0"
  have f: "word_at ?bs 12 = of_nat (length (io_watches obj0))" "word_at ?bs 16 = io_next_wd obj0" "long_at ?bs 24 = of_nat (length (io_queue obj0))"
    "drop 32 ?bs = concat (map image_watch (io_watches obj0)) @ io_queue obj0"
    unfolding inotify_image_def by (simp_all only: image_header_fields) simp
  note n = count_field [OF few_watches [OF assms(1)]]
  have q: "unat (of_nat (length (io_queue obj0)) :: u64) = length (io_queue obj0)"
    using assms(2) by (intro unat_size) (simp add: image_size_def)
  let ?o = "(empty_inotify p (io_next_wd obj0) nb)\<lparr>io_watch_capacity := length (io_watches obj0)\<rparr>"
  obtain w2 rest st obj1 w3 st1 where
    iw: "import_watches h (length (io_watches obj0)) (concat (map image_watch (io_watches obj0)) @ io_queue obj0) S_INVALID_ARGUMENT ?o w2 = (Some rest, st, obj1, w3)"
    and iq: "import_queue h (length (io_queue obj0)) rest st obj1 w3 = (True, st1, obj, w')"
    using import_object_Inr [OF assms(3)] unfolding f n q by blast
  have st: "\<forall>x \<in> set (io_watches obj0). storable x" using storable_watch [OF assms(1) _ assms(2)] by blast
  from import_watches_image [OF st iw] have o1: "rest = io_queue obj0" "obj1 = ?o\<lparr>io_watches := io_watches obj0\<rparr>"
    by (simp_all add: empty_inotify_def)
  from import_queue_True [OF iq] show "io_watches obj = io_watches obj0" "io_queue obj = io_queue obj0" "io_next_wd obj = io_next_wd obj0"
    "io_provider obj = p" "io_nonblocking obj = nb"
    by (auto simp: o1 empty_inotify_def)
qed

section \<open>Reachable objects\<close>

text \<open>Objects that creation, import, copying and the operations lead to; \<open>u\<close> says whether images of any
  origin are imported (shorter than 4 GiB), or only exported ones.\<close>

inductive inotify_reach :: "'w inotify_host \<Rightarrow> bool \<Rightarrow> inotify_object \<Rightarrow> bool" for h :: "'w inotify_host" and u :: bool where
  create: "inotify_reach h u (empty_inotify p 1 nb)"
| foreign: "u \<Longrightarrow> length bs < 2 ^ 32 \<Longrightarrow> import_object h p nb bs w = (Inr obj, w') \<Longrightarrow> inotify_reach h u obj"
| restore: "\<not> u \<Longrightarrow> inotify_reach h u obj \<Longrightarrow> inotify_export h (Some c) obj w = ((S_OK, n, bs), obj1, w1) \<Longrightarrow>
    import_object h p nb bs w2 = (Inr obj', w') \<Longrightarrow> inotify_reach h u obj'"
| copy: "inotify_reach h u obj \<Longrightarrow> inotify_clone h obj w = (Inr obj', w') \<Longrightarrow> inotify_reach h u obj'"
| read: "inotify_reach h u obj \<Longrightarrow> inotify_read h k obj w = Some (r, obj', w') \<Longrightarrow> inotify_reach h u obj'"
| ready: "inotify_reach h u obj \<Longrightarrow> inotify_ready h m obj w = (b, obj', w') \<Longrightarrow> inotify_reach h u obj'"
| export: "inotify_reach h u obj \<Longrightarrow> inotify_export h room obj w = (e, obj', w') \<Longrightarrow> inotify_reach h u obj'"
| add: "inotify_reach h u obj \<Longrightarrow> path \<noteq> [] \<Longrightarrow> inotify_add h path m obj w = (i, obj', w') \<Longrightarrow> inotify_reach h u obj'"
| remove: "inotify_reach h u obj \<Longrightarrow> inotify_remove h wd obj w = (i, obj', w') \<Longrightarrow> inotify_reach h u obj'"

lemma export_image:
  assumes "inotify_export h room obj w = ((S_OK, n, bs), obj1, w1)" "room = Some c"
  shows "bs = inotify_image obj1" "image_size obj1 \<le> SIZE_MAX"
  using assms by (auto simp: inotify_export_def split: prod.splits if_splits)

lemma pumped_watches: "pumped a b \<Longrightarrow> watches_ok a \<Longrightarrow> watches_ok b"
  and pumped_records: "pumped a b \<Longrightarrow> records (io_queue a) \<Longrightarrow> records (io_queue b)"
  by (simp_all add: pumped_def settled_def)

lemma reach_watches:
  assumes "short_names h"
  shows "inotify_reach h False obj \<Longrightarrow> watches_ok obj"
proof (induction rule: inotify_reach.induct)
  case (create p nb)
  show ?case by (simp add: watches_ok_def empty_inotify_def)
next
  case (restore obj c w n bs obj1 w1 p nb w2 obj' w')
  have ok: "watches_ok obj1" by (rule pumped_watches [OF inotify_export_pumped [OF assms restore(3)] restore.IH])
  note im = export_image [OF restore(3) refl]
  note e = import_object_image [OF ok im(2) restore(4) [unfolded im(1)]]
  show ?case by (rule watches_ok_Nil [OF ok]) (simp_all add: e)
next
  case (copy obj w obj' w')
  show ?case by (rule watches_ok_Nil [OF copy.IH copy_of_clone(1,3) [OF copy(2)]])
next
  case (add obj path m w i obj' w')
  show ?case by (rule inotify_add_ok(1) [OF add.IH add(2) add(3)])
next
  case (read obj k w r obj' w')
  show ?case by (rule pumped_watches [OF inotify_read_pumped [OF assms read(2)] read.IH])
next
  case (ready obj m w b obj' w')
  show ?case by (rule pumped_watches [OF inotify_ready_pumped [OF assms ready(2)] ready.IH])
next
  case (export obj room w e obj' w')
  show ?case by (rule pumped_watches [OF inotify_export_pumped [OF assms export(2)] export.IH])
next
  case (remove obj wd w i obj' w')
  show ?case by (rule pumped_watches [OF inotify_remove_pumped [OF remove(2)] remove.IH])
qed simp

lemma reach_records:
  assumes "short_names h" "inotify_reach h u obj"
  shows "records (io_queue obj)"
  using assms(2)
proof (induction rule: inotify_reach.induct)
  case (create p nb)
  show ?case by (simp add: empty_inotify_def)
next
  case (foreign bs p nb w obj w')
  show ?case by (rule import_object_records [OF foreign(3,2)])
next
  case (restore obj c w n bs obj1 w1 p nb w2 obj' w')
  then have "watches_ok obj" by (intro reach_watches [OF assms(1)]) simp
  then have ok: "watches_ok obj1" by (rule pumped_watches [OF inotify_export_pumped [OF assms(1) restore(3)]])
  note im = export_image [OF restore(3) refl]
  note e = import_object_image [OF ok im(2) restore(4) [unfolded im(1)]]
  show ?case using pumped_records [OF inotify_export_pumped [OF assms(1) restore(3)] restore.IH] by (simp add: e)
next
  case (copy obj w obj' w')
  show ?case using copy.IH copy_of_clone(2) [OF copy(2)] by simp
next
  case (add obj path m w i obj' w')
  show ?case using add.IH inotify_add_queue [OF add(3)] by simp
next
  case (read obj k w r obj' w')
  show ?case by (rule pumped_records [OF inotify_read_pumped [OF assms(1) read(2)] read.IH])
next
  case (ready obj m w b obj' w')
  show ?case by (rule pumped_records [OF inotify_ready_pumped [OF assms(1) ready(2)] ready.IH])
next
  case (export obj room w e obj' w')
  show ?case by (rule pumped_records [OF inotify_export_pumped [OF assms(1) export(2)] export.IH])
next
  case (remove obj wd w i obj' w')
  show ?case by (rule pumped_records [OF inotify_remove_pumped [OF remove(2)] remove.IH])
qed

end
