(* ===== verification/Inotify_Properties.thy ===== *)
theory Inotify_Properties
  imports Inotify_Images
begin

text \<open>
  Properties of inotify objects: reads deliver whole records, descriptors are unique, images restore the object;
  and two defects of the import.
\<close>

text \<open>An image cut short by less than its queue and a watch header: the watches are whole, so the status is a
  success when the queue turns out to be short.\<close>

lemma import_cut_image:
  assumes "willing h" "watches_ok obj" "image_size obj \<le> SIZE_MAX" "length (io_watches obj) \<le> 1048576"
    and "k \<le> length (io_queue obj)" "k \<le> 24 \<or> k = 0" "io_watches obj \<noteq> [] \<or> k = 0"
  shows "\<exists>obj' w'. import_object h p nb (take (image_size obj - k) (inotify_image obj)) w =
    (if k = 0 \<and> well_framed (io_queue obj) 0 then Inr obj' else Inl (if io_watches obj = [] then fails EINVAL else 0), w')"
proof -
  let ?q = "take (length (io_queue obj) - k) (io_queue obj)"
  let ?bs = "image_header obj @ concat (map image_watch (io_watches obj)) @ ?q"
  have cut: "take (image_size obj - k) (inotify_image obj) = ?bs"
    using assms(5) by (simp add: inotify_image_def image_size_def length_concat comp_def)
  have f: "long_at ?bs 0 = INOTIFY_IMAGE_MAGIC" "word_at ?bs 8 = INOTIFY_IMAGE_VERSION"
    "word_at ?bs 12 = of_nat (length (io_watches obj))" "word_at ?bs 16 = io_next_wd obj"
    "long_at ?bs 24 = of_nat (length (io_queue obj))"
    "drop 32 ?bs = concat (map image_watch (io_watches obj)) @ ?q"
    by (simp_all only: image_header_fields) simp
  note n = count_field [OF few_watches [OF assms(2)]]
  have q: "unat (of_nat (length (io_queue obj)) :: u64) = length (io_queue obj)"
    using assms(3) by (intro unat_size) (simp add: image_size_def)
  have few: "\<not> 1048576 < (of_nat (length (io_watches obj)) :: u32)" using assms(4) n by (simp add: word_less_nat_alt)
  have pos: "\<not> sint (io_next_wd obj) \<le> 0" using assms(2) signed_positive by (auto simp: watches_ok_def not_le)
  have long: "\<not> length (io_queue obj) > length ?bs - 32"
  proof (cases "k = 0")
    case False
    then obtain x where "x \<in> set (io_watches obj)" using assms(7) by (cases "io_watches obj") auto
    then have "24 \<le> length (concat (map image_watch (io_watches obj)))"
      using member_le_sum_list [of "24 + length (iw_path x)" "map (\<lambda>x. 24 + length (iw_path x)) (io_watches obj)"]
      by (simp add: length_concat comp_def)
    then show ?thesis using assms(5,6) by auto
  qed simp
  obtain w1 where a: "new_inotify h w = (True, w1)" using willingD(2) [OF assms(1)] by blast
  obtain w2 where b: "(if (of_nat (length (io_watches obj)) :: u32) \<noteq> 0 then ih_alloc h w1 else (True, w1)) = (True, w2)"
    using willingD(1) [OF assms(1)] by fastforce
  let ?o = "(empty_inotify p (io_next_wd obj) nb)\<lparr>io_watch_capacity := length (io_watches obj)\<rparr>"
  have st: "\<forall>x \<in> set (io_watches obj). storable x" using storable_watch [OF assms(2) _ assms(3)] by blast
  obtain w3 where iw: "import_watches h (length (io_watches obj)) (concat (map image_watch (io_watches obj)) @ ?q) S_INVALID_ARGUMENT ?o w2 =
      (Some ?q, if io_watches obj = [] then S_INVALID_ARGUMENT else S_OK, ?o\<lparr>io_watches := io_watches obj\<rparr>, w3)"
    using import_watches_willing [OF assms(1) st, of ?q S_INVALID_ARGUMENT ?o w2] by (auto simp: empty_inotify_def)
  obtain w4 where al: "ih_alloc h w3 = (True, w4)" using willingD(1) [OF assms(1)] by blast
  show ?thesis
    unfolding cut using a b iw al few pos long assms(5) well_framed.simps [of "[]" 0]
    by (auto simp: import_object_def f n q import_queue_def import_fails_def Let_def)
qed

section \<open>Properties\<close>




text \<open>Claim C39.  A truncated image is reported as a success.  When the image of an object with a watch and unread
  events loses some of its last bytes, the import gives everything back and installs nothing, but answers 0,
  which its callers take for success: the status is still the one of the last watch added.\<close>

theorem inotify_truncated_image_accepted:
  assumes "short_names h" "inotify_reach h False obj" "inotify_export h (Some c) obj w = ((S_OK, n, bs), obj1, w1)"
    and "willing h'" "length (io_watches obj1) \<le> 1048576" "io_watches obj1 \<noteq> []" "0 < k" "k \<le> 24" "k \<le> length (io_queue obj1)"
  shows "\<exists>w2. hl_linux_inotify_import_at h' d ops requested a p dflags sflags (take (length bs - k) bs) (t, objs, w0) = (0, t, objs, w2)"
proof -
  note im = export_image [OF assms(3) refl]
  have ok: "watches_ok obj1"
    by (rule pumped_watches [OF inotify_export_pumped [OF assms(1,3)] reach_watches [OF assms(1,2)]])
  obtain w2 where "import_object h' p (sflags AND HL_LINUX_O_NONBLOCK \<noteq> 0) (take (length bs - k) bs) w0 = (Inl 0, w2)"
    using import_cut_image [OF assms(4) ok im(2) assms(5,9), of p "sflags AND HL_LINUX_O_NONBLOCK \<noteq> 0" w0] assms(6-8)
    by (auto simp: im(1) length_inotify_image)
  then show ?thesis by (simp add: hl_linux_inotify_import_at_def)
qed

text \<open>One record whose length field is 2^32 - 16.\<close>

definition wrapped_queue :: "u8 list" where
  "wrapped_queue = replicate 12 0 @ le_bytes 4 (0xfffffff0 :: u32) @ replicate (2 ^ 32 - 16) 0"

lemma wrapped_length: "record_length wrapped_queue 0 = 0xfffffff0" "length wrapped_queue = 2 ^ 32"
proof -
  have "record_length wrapped_queue 0 = le32 (le_bytes 4 (0xfffffff0 :: u32) ! 0) (le_bytes 4 (0xfffffff0 :: u32) ! 1)
      (le_bytes 4 (0xfffffff0 :: u32) ! 2) (le_bytes 4 (0xfffffff0 :: u32) ! 3)"
    unfolding record_length_def wrapped_queue_def by (simp only: nth_append length_replicate length_le_bytes) simp
  also have "\<dots> = 0xfffffff0" using le32_of_bytes [of "0xfffffff0 :: u32"] by simp
  finally show "record_length wrapped_queue 0 = 0xfffffff0" .
  show "length wrapped_queue = 2 ^ 32" unfolding wrapped_queue_def by (simp only: length_append length_replicate length_le_bytes) simp
qed

lemma wrapped_never_ends:
  assumes "take_records q n i = Some r"
  shows "\<not> (q = wrapped_queue \<and> i = 0)"
proof (rule take_records.raw_induct [where P = "\<lambda>q n i r. \<not> (q = wrapped_queue \<and> i = 0)", OF _ assms], rule notI)
  fix f :: "u8 list \<Rightarrow> nat \<Rightarrow> nat \<Rightarrow> nat option" and q n i r
  assume ih: "\<And>q n i r. f q n i = Some r \<Longrightarrow> \<not> (q = wrapped_queue \<and> i = 0)"
    and b: "(if i + 16 \<le> length q then let r = unat (16 + record_length q i) in
        if r > length q - i \<or> r > n - i then Some i else f q n (i + r) else Some i) = Some r"
    and "q = wrapped_queue \<and> i = 0"
  then have "f wrapped_queue n 0 = Some r" using wrapped_length by simp
  with ih show False by blast
qed

text \<open>Claim C40.  A record whose size wraps is accepted and hangs the reader.  The import accepts a queue with a
  record of 2^32 bytes; the size of that record is 0 in the 32-bit sum of the reader, whose loop never ends.\<close>

theorem inotify_wrapped_record_hangs:
  "well_framed wrapped_queue 0 \<and> read_records (n + 16) (obj\<lparr>io_queue := wrapped_queue\<rparr>) = None"
proof
  have "well_framed wrapped_queue (2 ^ 32)" by (subst well_framed.simps) (simp add: wrapped_length)
  then show "well_framed wrapped_queue 0" by (subst well_framed.simps) (simp add: wrapped_length)
  have "take_records wrapped_queue (n + 16) 0 = None" using wrapped_never_ends by (metis not_None_eq)
  moreover have "wrapped_queue \<noteq> []" using wrapped_length(2) by auto
  ultimately show "read_records (n + 16) (obj\<lparr>io_queue := wrapped_queue\<rparr>) = None" by (simp add: read_records_def)
qed

section \<open>Witnesses\<close>

text \<open>A host on which everything succeeds and that always has one change of the file 1 to report.\<close>

definition demo_host :: "unit inotify_host" where
  "demo_host = \<lparr>ih_alloc = Pair True, ih_mutex = Pair True, ih_add = \<lambda>p path token m. Pair S_OK, ih_modify = \<lambda>p token m. Pair S_OK,
     ih_remove = \<lambda>p token. Pair S_OK, ih_drain = \<lambda>p n. Pair (S_OK, [\<lparr>pe_token = 1, pe_mask = 2, pe_cookie = 0, pe_name = []\<rparr>]),
     ih_wait = \<lambda>p. Pair S_OK, ih_readiness = \<lambda>p w. True, ih_clone = \<lambda>p. Pair (Inr 9), ih_close = \<lambda>p. Pair S_OK,
     ih_wait_handle = \<lambda>p. Pair (S_OK, 3), ih_subscribe = None, ih_unsubscribe = None\<rparr>"

definition demo_inotify :: inotify_object where
  "demo_inotify = \<lparr>io_provider = 7, io_watches = [\<lparr>iw_wd = 1, iw_mask = 2, iw_token = 1, iw_path = [0x66]\<rparr>], io_watch_capacity = 8,
     io_queue = [], io_queue_capacity = 0, io_next_wd = 2, io_nonblocking = True\<rparr>"

definition demo_queued :: inotify_object where
  "demo_queued = demo_inotify\<lparr>io_queue := event_frame 1 2 0 [], io_queue_capacity := 256\<rparr>"

lemma demo_adds: "inotify_add demo_host [0x66] 2 (empty_inotify 7 1 True) () = (1, demo_inotify, ())"
  by (simp add: inotify_add_def demo_host_def demo_inotify_def empty_inotify_def Let_def IN_MASK_CREATE_def)

lemma demo_pumps: "inotify_pump demo_host demo_inotify () = (S_OK, demo_queued, ())"
  by (simp add: inotify_pump_def demo_host_def demo_inotify_def demo_queued_def pump_event_def inotify_watch_token_def queue_event_def
    padded_size_def SIZE_MAX_def grow_capacity.simps IN_EVENT_MASK_def IN_ISDIR_def IN_ONESHOT_def IN_IGNORED_def Let_def)

lemma demo_exports: "inotify_export demo_host (Some 100) demo_inotify () = ((S_OK, Some 73, inotify_image demo_queued), demo_queued, ())"
proof -
  have "image_size demo_queued = 73" by (simp add: image_size_def demo_queued_def demo_inotify_def event_frame_def padded_size_def)
  then show ?thesis by (simp add: inotify_export_def demo_pumps SIZE_MAX_def)
qed

lemma demo_short: "short_names demo_host" by (simp add: short_names_def demo_host_def)

lemma demo_willing: "willing demo_host" by (simp add: willing_def demo_host_def)

lemma demo_reach: "inotify_reach demo_host u demo_inotify" "inotify_reach demo_host u demo_queued"
proof -
  show r: "inotify_reach demo_host u demo_inotify"
    by (rule inotify_reach.add [OF inotify_reach.create _ demo_adds]) simp
  show "inotify_reach demo_host u demo_queued"
    by (rule inotify_reach.export [OF r demo_exports])
qed




lemma inotify_truncated_image_accepted_witness:
  "\<exists>w2. hl_linux_inotify_import_at demo_host
      \<lparr>has_sync = True, has_files = True, mutex_create = (S_OK, 9), mutex_lock = S_OK, mutex_unlock = S_OK, mutex_close = S_OK,
       object_close = S_OK, file_close = S_OK, process_id = 1, token_counter = 1\<rparr> 5 3 64 9 0 0
      (take (length (inotify_image demo_queued) - 1) (inotify_image demo_queued))
      (\<lparr>abi = 4, fds = [], ofds = [], ofd_watermark = 0, reserved_fds = 0\<rparr>, \<lambda>_. demo_inotify, ()) =
    (0, \<lparr>abi = 4, fds = [], ofds = [], ofd_watermark = 0, reserved_fds = 0\<rparr>, \<lambda>_. demo_inotify, w2)"
  by (rule inotify_truncated_image_accepted [OF demo_short demo_reach(1) demo_exports demo_willing])
    (simp_all add: demo_queued_def demo_inotify_def event_frame_def padded_size_def)

end
