(* ===== verification/A64_State.thy ===== *)
theory A64_State
  imports Husk_Prelude
begin

text \<open>
  The state of the AArch64 interpreter and the helpers every instruction class uses, from
  \<open>translator/guest/aarch64/interp/integer.c\<close> and \<open>translator/guest/aarch64/cpu.h\<close>.

  \<open>a64\<close> is the part of \<open>struct cpu\<close> the interpreter reads or writes, together with the interpreter's
  per-thread variables (FPCR, FPSR, the exclusive monitor), the guest's bytes and the state of the rest
  of the engine, \<open>'w\<close>.  Addresses of the memory are host addresses.  \<open>a64_env\<close> holds what the
  interpreter calls: the geometry of a non-PIE image, signal delivery, the clock, fatal reports, the
  host's page permissions, the addresses at which the host can compare and exchange 16 bytes, and the
  past-end-of-file ledger.  A call that the host abandons (a memory fault
  leaves by \<open>siglongjmp\<close>) or that ends the process is an outcome of its own.
\<close>

section \<open>State\<close>

record 'w a64 =
  cpu_x :: "u64 list"
  cpu_sp :: u64
  cpu_pc :: u64
  cpu_tls :: u64
  cpu_reason :: u64
  cpu_v :: "u64 list"
  cpu_nzcv :: u64
  cpu_sigmask :: u64
  cpu_tpending :: u64
  cpu_sync_signal :: int
  cpu_sync_code :: int
  cpu_sync_address :: u64
  cpu_smc_va :: u64
  cpu_vdirty :: bool
  cpu_fault_addr :: u64
  cpu_bus_ea :: u64
  interp_fpcr :: u64
  interp_fpsr :: u64
  monitor_valid :: bool
  monitor_address :: u64
  monitor_bytes :: nat
  monitor_value :: u64
  monitor_value2 :: u64
  guest_memory :: "u64 \<Rightarrow> u8"
  engine :: 'w

record 'w a64_env =
  nonpie_lo :: u64
  nonpie_hi :: u64
  nonpie_bias :: u64
  raise_guest_signal :: "int \<Rightarrow> 'w a64 \<Rightarrow> 'w a64 option"
  sigq_flush :: "int \<Rightarrow> 'w \<Rightarrow> 'w"
  jit_fail :: "u32 \<Rightarrow> u64 \<Rightarrow> string \<Rightarrow> 'w \<Rightarrow> 'w"
  clock_ns :: "'w \<Rightarrow> u64"
  host_readable :: "'w \<Rightarrow> u64 \<Rightarrow> bool"
  host_writable :: "'w \<Rightarrow> u64 \<Rightarrow> bool"
  host_atomic16 :: "u64 \<Rightarrow> bool"
  bus_active :: "'w \<Rightarrow> bool"
  bus_fault :: "'w \<Rightarrow> u64 \<Rightarrow> nat \<Rightarrow> u64"
  guest_fetch_u32 :: "'w a64 \<Rightarrow> u64 \<Rightarrow> u32 option"

text \<open>Why a block was left, and what one step answers to the block loop.\<close>

definition R_BRANCH :: u64 where "R_BRANCH = 0"
definition R_SYSCALL :: u64 where "R_SYSCALL = 1"
definition R_ICFLUSH :: u64 where "R_ICFLUSH = 4"
definition R_ICCOMMIT :: u64 where "R_ICCOMMIT = 6"
definition R_BUS :: u64 where "R_BUS = 5"
definition R_FETCHFAULT :: u64 where "R_FETCHFAULT = 7"

datatype interp_outcome = INTERP_NEXT | INTERP_END | INTERP_RETIRED_END | Abandoned | Process_exit

type_synonym 'w interp = "interp_outcome \<times> 'w a64"

section \<open>Fields of an instruction\<close>

text \<open>\<open>(insn >> lo) & (2^n - 1)\<close>, as the index or the operand it is used as.\<close>

definition ifield :: "nat \<Rightarrow> nat \<Rightarrow> u32 \<Rightarrow> nat" where
  "ifield lo n insn = unat (take_bit n (drop_bit lo insn))"

definition wfield :: "nat \<Rightarrow> nat \<Rightarrow> u32 \<Rightarrow> u64" where
  "wfield lo n insn = ucast (take_bit n (drop_bit lo insn))"

definition iflag :: "nat \<Rightarrow> u32 \<Rightarrow> bool" where
  "iflag n insn \<longleftrightarrow> drop_bit n insn AND 1 \<noteq> 0"

definition matches :: "u32 \<Rightarrow> u32 \<Rightarrow> u32 \<Rightarrow> bool" where
  "matches msk pattern insn \<longleftrightarrow> insn AND msk = pattern"

section \<open>Addresses of a non-PIE image\<close>

definition pcrel_base :: "'w a64_env \<Rightarrow> u64 \<Rightarrow> u64" where
  "pcrel_base env gpc =
    (if nonpie_lo env \<noteq> 0 \<and> gpc \<ge> nonpie_lo env + nonpie_bias env \<and> gpc < nonpie_hi env + nonpie_bias env
     then gpc - nonpie_bias env else gpc)"

definition interp_guest_pointer :: "'w a64_env \<Rightarrow> u64 \<Rightarrow> u64" where
  "interp_guest_pointer env address =
    (if nonpie_lo env \<noteq> 0 \<and> address \<ge> nonpie_lo env \<and> address < nonpie_hi env
     then address + nonpie_bias env else address)"

section \<open>General registers\<close>

text \<open>Register 31 is the zero register, or the stack pointer in the encodings that say so.\<close>

definition interp_gpr :: "'w a64 \<Rightarrow> nat \<Rightarrow> u64" where
  "interp_gpr s reg = (if reg = 31 then 0 else cpu_x s ! reg)"

definition interp_gpr_sp :: "'w a64 \<Rightarrow> nat \<Rightarrow> u64" where
  "interp_gpr_sp s reg = (if reg = 31 then cpu_sp s else cpu_x s ! reg)"

definition interp_set_gpr :: "nat \<Rightarrow> u64 \<Rightarrow> 'w a64 \<Rightarrow> 'w a64" where
  "interp_set_gpr reg v s = (if reg \<noteq> 31 then s\<lparr>cpu_x := (cpu_x s)[reg := v]\<rparr> else s)"

definition interp_set_gpr_sp :: "nat \<Rightarrow> u64 \<Rightarrow> 'w a64 \<Rightarrow> 'w a64" where
  "interp_set_gpr_sp reg v s = (if reg = 31 then s\<lparr>cpu_sp := v\<rparr> else s\<lparr>cpu_x := (cpu_x s)[reg := v]\<rparr>)"

definition interp_set_gpr32 :: "nat \<Rightarrow> u32 \<Rightarrow> 'w a64 \<Rightarrow> 'w a64" where
  "interp_set_gpr32 reg v s = interp_set_gpr reg (ucast v) s"

definition interp_set_gpr32_sp :: "nat \<Rightarrow> u32 \<Rightarrow> 'w a64 \<Rightarrow> 'w a64" where
  "interp_set_gpr32_sp reg v s = interp_set_gpr_sp reg (ucast v) s"

text \<open>\<open>if (sf) set_gpr(rd, result) else set_gpr32(rd, (uint32_t)result)\<close>, which most classes end with.\<close>

definition put_gpr :: "bool \<Rightarrow> nat \<Rightarrow> u64 \<Rightarrow> 'w a64 \<Rightarrow> 'w a64" where
  "put_gpr sf reg v s = (if sf then interp_set_gpr reg v s else interp_set_gpr32 reg (ucast v) s)"

section \<open>Condition flags\<close>

definition INTERP_NZCV_N :: u64 where "INTERP_NZCV_N = push_bit 31 1"
definition INTERP_NZCV_Z :: u64 where "INTERP_NZCV_Z = push_bit 30 1"
definition INTERP_NZCV_C :: u64 where "INTERP_NZCV_C = push_bit 29 1"
definition INTERP_NZCV_V :: u64 where "INTERP_NZCV_V = push_bit 28 1"

definition interp_set_flags :: "bool \<Rightarrow> bool \<Rightarrow> bool \<Rightarrow> bool \<Rightarrow> 'w a64 \<Rightarrow> 'w a64" where
  "interp_set_flags n z c v s =
    s\<lparr>cpu_nzcv := (if n then INTERP_NZCV_N else 0) OR (if z then INTERP_NZCV_Z else 0) OR
        (if c then INTERP_NZCV_C else 0) OR (if v then INTERP_NZCV_V else 0)\<rparr>"

definition interp_flag_n :: "'w a64 \<Rightarrow> bool" where
  "interp_flag_n s \<longleftrightarrow> cpu_nzcv s AND INTERP_NZCV_N \<noteq> 0"

definition interp_flag_z :: "'w a64 \<Rightarrow> bool" where
  "interp_flag_z s \<longleftrightarrow> cpu_nzcv s AND INTERP_NZCV_Z \<noteq> 0"

definition interp_flag_c :: "'w a64 \<Rightarrow> bool" where
  "interp_flag_c s \<longleftrightarrow> cpu_nzcv s AND INTERP_NZCV_C \<noteq> 0"

definition interp_flag_v :: "'w a64 \<Rightarrow> bool" where
  "interp_flag_v s \<longleftrightarrow> cpu_nzcv s AND INTERP_NZCV_V \<noteq> 0"

text \<open>The low bit of the condition inverts the test, except for 1111, which is "always" like 1110.\<close>

definition interp_cond_holds :: "'w a64 \<Rightarrow> nat \<Rightarrow> bool" where
  "interp_cond_holds s cond =
    (let n = interp_flag_n s; z = interp_flag_z s; c = interp_flag_c s; v = interp_flag_v s;
         k = (cond div 2) mod 8;
         r = (if k = 0 then z else if k = 1 then c else if k = 2 then n else if k = 3 then v
              else if k = 4 then c \<and> \<not> z else if k = 5 then n = v else if k = 6 then n = v \<and> \<not> z else True)
     in if odd cond \<and> cond mod 16 div 2 \<noteq> 7 then \<not> r else r)"

section \<open>Arithmetic\<close>

text \<open>\<open>__builtin_add_overflow\<close> on unsigned operands: the wrapped sum, and whether it wrapped.\<close>

definition add_overflow :: "'a::len word \<Rightarrow> 'a word \<Rightarrow> 'a word \<times> bool" where
  "add_overflow a b = (a + b, unat a + unat b \<ge> 2 ^ LENGTH('a))"

definition interp_add_with_carry64 :: "u64 \<Rightarrow> u64 \<Rightarrow> bool \<Rightarrow> bool \<Rightarrow> 'w a64 \<Rightarrow> u64 \<times> 'w a64" where
  "interp_add_with_carry64 a b carry_in setflags s =
    (let (part, carry_a) = add_overflow a b;
         (res, carry_b) = add_overflow part (of_bool carry_in)
     in (res, if setflags
              then interp_set_flags (drop_bit 63 res AND 1 \<noteq> 0) (res = 0) (carry_a \<or> carry_b)
                     (drop_bit 63 ((a XOR res) AND (b XOR res)) AND 1 \<noteq> 0) s
              else s))"

definition interp_add_with_carry32 :: "u32 \<Rightarrow> u32 \<Rightarrow> bool \<Rightarrow> bool \<Rightarrow> 'w a64 \<Rightarrow> u32 \<times> 'w a64" where
  "interp_add_with_carry32 a b carry_in setflags s =
    (let (part, carry_a) = add_overflow a b;
         (res, carry_b) = add_overflow part (of_bool carry_in)
     in (res, if setflags
              then interp_set_flags (drop_bit 31 res AND 1 \<noteq> 0) (res = 0) (carry_a \<or> carry_b)
                     (drop_bit 31 ((a XOR res) AND (b XOR res)) AND 1 \<noteq> 0) s
              else s))"

definition interp_set_logical_flags :: "u64 \<Rightarrow> bool \<Rightarrow> 'w a64 \<Rightarrow> 'w a64" where
  "interp_set_logical_flags res sf s =
    (let negative = (if sf then drop_bit 63 res AND 1 \<noteq> 0 else drop_bit 31 res AND 1 \<noteq> 0);
         masked = (if sf then res else take_bit 32 res)
     in interp_set_flags negative (masked = 0) False False s)"

definition interp_sext :: "u64 \<Rightarrow> nat \<Rightarrow> u64" where
  "interp_sext v n = signed_drop_bit (64 - n) (push_bit (64 - n) v)"

definition interp_ror64 :: "u64 \<Rightarrow> nat \<Rightarrow> u64" where
  "interp_ror64 v amount =
    (let k = amount mod 64 in if k \<noteq> 0 then drop_bit k v OR push_bit (64 - k) v else v)"

definition interp_ror32 :: "u32 \<Rightarrow> nat \<Rightarrow> u32" where
  "interp_ror32 v amount =
    (let k = amount mod 32 in if k \<noteq> 0 then drop_bit k v OR push_bit (32 - k) v else v)"

text \<open>CRC-32 and CRC-32C in reflected form, one bit at a time, the low byte of the data first.\<close>

definition crc32_bit :: "u32 \<Rightarrow> u32 \<Rightarrow> u32" where
  "crc32_bit poly acc = drop_bit 1 acc XOR (poly AND - (acc AND 1))"

definition crc32_byte :: "u32 \<Rightarrow> u64 \<Rightarrow> nat \<Rightarrow> u32 \<Rightarrow> u32" where
  "crc32_byte poly dat i acc = (crc32_bit poly ^^ 8) (acc XOR ucast (drop_bit (8 * i) dat AND 0xFF))"

definition interp_crc32 :: "u32 \<Rightarrow> u64 \<Rightarrow> nat \<Rightarrow> bool \<Rightarrow> u64" where
  "interp_crc32 acc dat bytes castagnoli =
    (let poly = (if castagnoli then 0x82F63B78 else 0xEDB88320)
     in ucast (fold (crc32_byte poly dat) [0..<bytes] acc))"

text \<open>\<open>DecodeBitMasks\<close>: the element size is the highest set bit of \<open>N : NOT(imms)\<close>.\<close>

definition replicate_element :: "nat \<Rightarrow> u64 \<Rightarrow> u64" where
  "replicate_element esize e = fold (\<lambda>i m. m OR push_bit (esize * i) e) [0..<64 div esize] 0"

definition low_ones :: "nat \<Rightarrow> u64" where
  "low_ones n = (if n \<ge> 64 then - 1 else push_bit n 1 - 1)"

definition interp_bit_masks :: "bool \<Rightarrow> u32 \<Rightarrow> u32 \<Rightarrow> u32 \<Rightarrow> bool \<Rightarrow> (u64 \<times> u64) option" where
  "interp_bit_masks sf immn imms immr immediate =
    (let combined = push_bit 6 immn OR (NOT imms AND 0x3F)
     in case find (bit combined) [6, 5, 4, 3, 2, 1, 0] of
          None \<Rightarrow> None
        | Some len \<Rightarrow>
          if len < 1 then None
          else if \<not> sf \<and> immn \<noteq> 0 then None
          else let levels = push_bit len 1 - 1
            in if immediate \<and> imms AND levels = levels then None
               else let s = imms AND levels; r = immr AND levels; diff = (s - r) AND levels;
                        esize = 2 ^ len;
                        element_mask = low_ones esize;
                        welem = low_ones (unat s + 1) AND element_mask;
                        telem = low_ones (unat diff + 1) AND element_mask;
                        rotated = (if r \<noteq> 0
                          then (drop_bit (unat r) welem OR push_bit (esize - unat r) welem) AND element_mask
                          else welem)
                 in Some (replicate_element esize rotated, replicate_element esize telem))"

section \<open>Signals and refusals\<close>

text \<open>
  A trap the architecture defines.  The disposition belongs to \<open>raise_guest_signal\<close>, which does not
  return when it ends the process.
\<close>

definition interp_raise_sync_signal :: "'w a64_env \<Rightarrow> int \<Rightarrow> int \<Rightarrow> u64 \<Rightarrow> 'w a64 \<Rightarrow> 'w a64 option" where
  "interp_raise_sync_signal env signo code fault_address s =
    (let s1 = s\<lparr>cpu_sync_signal := signo, cpu_sync_code := code, cpu_sync_address := fault_address,
                cpu_sigmask := cpu_sigmask s AND NOT (push_bit (nat (signo - 1)) 1)\<rparr>
     in case raise_guest_signal env signo s1 of
          None \<Rightarrow> None
        | Some s2 \<Rightarrow>
            Some (s2\<lparr>engine := sigq_flush env signo (engine s2),
                     cpu_tpending := cpu_tpending s2 OR push_bit (nat signo) 1,
                     cpu_reason := R_BRANCH\<rparr>))"

definition raise_and_end :: "'w a64_env \<Rightarrow> int \<Rightarrow> int \<Rightarrow> u64 \<Rightarrow> 'w a64 \<Rightarrow> 'w interp" where
  "raise_and_end env signo code fault_address s =
    (case interp_raise_sync_signal env signo code fault_address s of
       None \<Rightarrow> (Process_exit, s)
     | Some s' \<Rightarrow> (INTERP_END, s'))"

text \<open>A gap of the interpreter: the report is fatal and the program counter stays on the instruction.\<close>

definition interp_undefined :: "'w a64_env \<Rightarrow> u32 \<Rightarrow> string \<Rightarrow> 'w a64 \<Rightarrow> 'w interp" where
  "interp_undefined env insn class_name s =
    (INTERP_END, s\<lparr>engine := jit_fail env insn (cpu_pc s) class_name (engine s), cpu_reason := R_BRANCH\<rparr>)"

definition retire :: "u64 \<Rightarrow> 'w a64 \<Rightarrow> 'w interp" where
  "retire gpc s = (INTERP_NEXT, s\<lparr>cpu_pc := gpc + 4\<rparr>)"

end
