(* ===== verification/A64_Integer.thy ===== *)
theory A64_Integer
  imports A64_State
begin

text \<open>
  The integer instructions of the AArch64 interpreter: data processing with an immediate
  (\<open>integer/immediate.c\<close>) and with registers (\<open>integer/register.c\<close>).  Each instruction class of a
  \<open>switch\<close> or of an \<open>if\<close> chain is one definition, in the order of the code; the dispatching functions
  keep the names of the C functions.
\<close>

section \<open>Data processing, immediate\<close>

definition exec_adr :: "'w a64_env \<Rightarrow> u32 \<Rightarrow> 'w a64 \<Rightarrow> 'w interp" where
  "exec_adr env insn s =
    (let gpc = cpu_pc s;
         immediate = interp_sext (push_bit 2 (wfield 5 19 insn) OR wfield 29 2 insn) 21;
         v = (if iflag 31 insn then (pcrel_base env gpc AND NOT 0xFFF) + push_bit 12 immediate
              else pcrel_base env gpc + immediate)
     in retire gpc (interp_set_gpr (ifield 0 5 insn) v s))"

definition exec_add_sub_immediate :: "u32 \<Rightarrow> 'w a64 \<Rightarrow> 'w interp" where
  "exec_add_sub_immediate insn s =
    (let gpc = cpu_pc s; sf = iflag 31 insn; rd = ifield 0 5 insn; rn = ifield 5 5 insn;
         op = iflag 30 insn; setflags = iflag 29 insn;
         imm12 = wfield 10 12 insn;
         immediate = (if iflag 22 insn then push_bit 12 imm12 else imm12)
     in if sf then
          let a = interp_gpr_sp s rn;
              (res, s1) = (if op then interp_add_with_carry64 a (NOT immediate) True setflags s
                           else interp_add_with_carry64 a immediate False setflags s)
          in retire gpc (if setflags then interp_set_gpr rd res s1 else interp_set_gpr_sp rd res s1)
        else
          let a = ucast (interp_gpr_sp s rn);
              (res, s1) = (if op then interp_add_with_carry32 a (NOT (ucast immediate)) True setflags s
                           else interp_add_with_carry32 a (ucast immediate) False setflags s)
          in retire gpc (if setflags then interp_set_gpr32 rd res s1 else interp_set_gpr32_sp rd res s1))"

definition exec_logical_immediate :: "'w a64_env \<Rightarrow> u32 \<Rightarrow> 'w a64 \<Rightarrow> 'w interp" where
  "exec_logical_immediate env insn s =
    (let gpc = cpu_pc s; sf = iflag 31 insn; rd = ifield 0 5 insn; rn = ifield 5 5 insn;
         opc = ifield 29 2 insn
     in case interp_bit_masks sf (take_bit 1 (drop_bit 22 insn)) (take_bit 6 (drop_bit 10 insn))
               (take_bit 6 (drop_bit 16 insn)) True of
          None \<Rightarrow> interp_undefined env insn ''data-processing immediate -- undefined logical-immediate mask'' s
        | Some (wmask, _) \<Rightarrow>
          let operand = interp_gpr s rn;
              full = (if opc = 0 then operand AND wmask else if opc = 1 then operand OR wmask
                      else if opc = 2 then operand XOR wmask else operand AND wmask);
              res = (if sf then full else take_bit 32 full)
          in if opc = 3 then retire gpc (put_gpr sf rd res (interp_set_logical_flags res sf s))
             else retire gpc (if sf then interp_set_gpr_sp rd res s else interp_set_gpr32_sp rd (ucast res) s))"

definition exec_move_wide :: "'w a64_env \<Rightarrow> u32 \<Rightarrow> 'w a64 \<Rightarrow> 'w interp" where
  "exec_move_wide env insn s =
    (let gpc = cpu_pc s; sf = iflag 31 insn; rd = ifield 0 5 insn;
         opc = ifield 29 2 insn; hw = ifield 21 2 insn
     in if opc = 1 then interp_undefined env insn ''data-processing immediate -- unallocated move-wide opc'' s
        else if \<not> sf \<and> hw \<ge> 2 then interp_undefined env insn ''data-processing immediate -- 32-bit move-wide hw>1'' s
        else let shift = hw * 16;
                 field = push_bit shift (wfield 5 16 insn);
                 res = (if opc = 0 then NOT field else if opc = 2 then field
                        else (interp_gpr s rd AND NOT (push_bit shift 0xFFFF)) OR field)
             in retire gpc (put_gpr sf rd res s))"

definition exec_bitfield :: "'w a64_env \<Rightarrow> u32 \<Rightarrow> 'w a64 \<Rightarrow> 'w interp" where
  "exec_bitfield env insn s =
    (let gpc = cpu_pc s; sf = iflag 31 insn; rd = ifield 0 5 insn; rn = ifield 5 5 insn;
         opc = ifield 29 2 insn; immn = iflag 22 insn; immr = ifield 16 6 insn; imms = ifield 10 6 insn
     in if opc = 3 \<or> immn \<noteq> sf then
          interp_undefined env insn ''data-processing immediate -- unallocated bitfield encoding'' s
        else case interp_bit_masks sf (take_bit 1 (drop_bit 22 insn)) (take_bit 6 (drop_bit 10 insn))
               (take_bit 6 (drop_bit 16 insn)) False of
          None \<Rightarrow> interp_undefined env insn ''data-processing immediate -- undefined bitfield mask'' s
        | Some (wmask, tmask) \<Rightarrow>
          let source = interp_gpr s rn;
              rotated = (if sf then interp_ror64 source immr else ucast (interp_ror32 (ucast source) immr));
              res = (if opc = 1 then
                       let destination = interp_gpr s rd;
                           bottom = (destination AND NOT wmask) OR (rotated AND wmask)
                       in (destination AND NOT tmask) OR (bottom AND tmask)
                     else
                       let bottom = rotated AND wmask;
                           top = (if opc = 0 \<and> drop_bit imms source AND 1 \<noteq> 0 then - 1 else 0)
                       in (top AND NOT tmask) OR (bottom AND tmask))
          in retire gpc (put_gpr sf rd res s))"

definition exec_extract :: "'w a64_env \<Rightarrow> u32 \<Rightarrow> 'w a64 \<Rightarrow> 'w interp" where
  "exec_extract env insn s =
    (let gpc = cpu_pc s; sf = iflag 31 insn; rd = ifield 0 5 insn; rn = ifield 5 5 insn; rm = ifield 16 5 insn;
         immn = iflag 22 insn; imms = ifield 10 6 insn
     in if ifield 29 2 insn \<noteq> 0 \<or> iflag 21 insn \<or> immn \<noteq> sf then
          interp_undefined env insn ''data-processing immediate -- unallocated extract encoding'' s
        else if \<not> sf \<and> imms \<ge> 32 then
          interp_undefined env insn ''data-processing immediate -- 32-bit EXTR lsb>31'' s
        else let high = interp_gpr s rn; low = interp_gpr s rm
          in if sf then
               retire gpc (interp_set_gpr rd (if imms \<noteq> 0 then drop_bit imms low OR push_bit (64 - imms) high else low) s)
             else
               retire gpc (interp_set_gpr32 rd
                 (if imms \<noteq> 0 then drop_bit imms (ucast low) OR push_bit (32 - imms) (ucast high) else ucast low) s))"

definition interp_exec_dp_immediate :: "'w a64_env \<Rightarrow> u32 \<Rightarrow> 'w a64 \<Rightarrow> 'w interp" where
  "interp_exec_dp_immediate env insn s =
    (let group = ifield 23 3 insn
     in if group = 0 \<or> group = 1 then exec_adr env insn s
        else if group = 2 then exec_add_sub_immediate insn s
        else if group = 3 then interp_undefined env insn ''data-processing immediate -- ADDG/SUBG (memory tagging)'' s
        else if group = 4 then exec_logical_immediate env insn s
        else if group = 5 then exec_move_wide env insn s
        else if group = 6 then exec_bitfield env insn s
        else exec_extract env insn s)"

section \<open>Shifted and extended operands\<close>

definition interp_shift_operand :: "u64 \<Rightarrow> nat \<Rightarrow> nat \<Rightarrow> bool \<Rightarrow> u64" where
  "interp_shift_operand v shift_type amount sf =
    (if sf then
       (if shift_type = 0 then push_bit amount v
        else if shift_type = 1 then drop_bit amount v
        else if shift_type = 2 then signed_drop_bit amount v
        else interp_ror64 v amount)
     else let narrow = (ucast v :: u32) in
       (if shift_type = 0 then ucast (push_bit amount narrow)
        else if shift_type = 1 then ucast (drop_bit amount narrow)
        else if shift_type = 2 then ucast (signed_drop_bit amount narrow)
        else ucast (interp_ror32 narrow amount)))"

definition interp_extend_operand :: "'w a64 \<Rightarrow> nat \<Rightarrow> nat \<Rightarrow> nat \<Rightarrow> bool \<Rightarrow> u64" where
  "interp_extend_operand s rm option shift sf =
    (let v = interp_gpr s rm;
         extended = (if option = 0 then ucast (ucast v :: u8) else if option = 1 then ucast (ucast v :: u16)
                     else if option = 2 then ucast (ucast v :: u32) else if option = 3 then v
                     else if option = 4 then scast (ucast v :: u8) else if option = 5 then scast (ucast v :: u16)
                     else if option = 6 then scast (ucast v :: u32) else v);
         shifted = push_bit shift extended
     in if sf then shifted else ucast (ucast shifted :: u32))"

section \<open>Data processing, register: arithmetic\<close>

text \<open>The operand of an addition or subtraction, and whether the form names the stack pointer.\<close>

definition add_sub_operand :: "u32 \<Rightarrow> 'w a64 \<Rightarrow> string + u64 \<times> bool" where
  "add_sub_operand insn s =
    (let sf = iflag 31 insn; rm = ifield 16 5 insn
     in if insn AND 0x00200000 \<noteq> 0 then
          let option = ifield 13 3 insn; shift = ifield 10 3 insn
          in if shift > 4 then Inl ''data-processing register -- extend shift > 4''
             else Inr (interp_extend_operand s rm option shift sf, True)
        else
          let shift_type = ifield 22 2 insn; amount = ifield 10 6 insn
          in if shift_type = 3 then Inl ''data-processing register -- add/sub ROR''
             else if \<not> sf \<and> amount \<ge> 32 then Inl ''data-processing register -- 32-bit add/sub shift > 31''
             else Inr (interp_shift_operand (interp_gpr s rm) shift_type amount sf, False))"

definition exec_add_sub_register :: "'w a64_env \<Rightarrow> u32 \<Rightarrow> 'w a64 \<Rightarrow> 'w interp" where
  "exec_add_sub_register env insn s =
    (let gpc = cpu_pc s; sf = iflag 31 insn; rd = ifield 0 5 insn; rn = ifield 5 5 insn;
         op = iflag 30 insn; setflags = iflag 29 insn
     in case add_sub_operand insn s of
          Inl class_name \<Rightarrow> interp_undefined env insn class_name s
        | Inr (operand, destination_is_sp) \<Rightarrow>
          let rn_value = (if destination_is_sp then interp_gpr_sp s rn else interp_gpr s rn)
          in if sf then
               let (res, s1) = (if op then interp_add_with_carry64 rn_value (NOT operand) True setflags s
                                else interp_add_with_carry64 rn_value operand False setflags s)
               in retire gpc (if destination_is_sp \<and> \<not> setflags then interp_set_gpr_sp rd res s1
                              else interp_set_gpr rd res s1)
             else
               let a = ucast rn_value;
                   (res, s1) = (if op then interp_add_with_carry32 a (NOT (ucast operand)) True setflags s
                                else interp_add_with_carry32 a (ucast operand) False setflags s)
               in retire gpc (if destination_is_sp \<and> \<not> setflags then interp_set_gpr32_sp rd res s1
                              else interp_set_gpr32 rd res s1))"

definition exec_logical_register :: "'w a64_env \<Rightarrow> u32 \<Rightarrow> 'w a64 \<Rightarrow> 'w interp" where
  "exec_logical_register env insn s =
    (let gpc = cpu_pc s; sf = iflag 31 insn; rd = ifield 0 5 insn; rn = ifield 5 5 insn; rm = ifield 16 5 insn;
         opc = ifield 29 2 insn; shift_type = ifield 22 2 insn; negate = iflag 21 insn; amount = ifield 10 6 insn
     in if \<not> sf \<and> amount \<ge> 32 then
          interp_undefined env insn ''data-processing register -- 32-bit logical shift > 31'' s
        else
          let shifted = interp_shift_operand (interp_gpr s rm) shift_type amount sf;
              operand = (if negate then (if sf then NOT shifted else ucast (NOT (ucast shifted :: u32))) else shifted);
              a = interp_gpr s rn;
              full = (if opc = 0 then a AND operand else if opc = 1 then a OR operand
                      else if opc = 2 then a XOR operand else a AND operand);
              res = (if sf then full else take_bit 32 full);
              s1 = (if opc = 3 then interp_set_logical_flags res sf s else s)
          in retire gpc (put_gpr sf rd res s1))"

definition exec_three_source :: "'w a64_env \<Rightarrow> u32 \<Rightarrow> 'w a64 \<Rightarrow> 'w interp" where
  "exec_three_source env insn s =
    (let gpc = cpu_pc s; sf = iflag 31 insn; rd = ifield 0 5 insn; rn = ifield 5 5 insn; rm = ifield 16 5 insn;
         op31 = ifield 21 3 insn; o0 = iflag 15 insn;
         addend = interp_gpr s (ifield 10 5 insn); n = interp_gpr s rn; m = interp_gpr s rm
     in if op31 = 0 then
          (if sf then
             let product = n * m
             in retire gpc (interp_set_gpr rd (if o0 then addend - product else addend + product) s)
           else
             let product = (ucast n :: u32) * ucast m; base = ucast addend
             in retire gpc (interp_set_gpr32 rd (if o0 then base - product else base + product) s))
        else if op31 = 1 then
          (if \<not> sf then interp_undefined env insn ''data-processing register -- 32-bit widening multiply'' s
           else let product = scast (ucast n :: u32) * scast (ucast m :: u32)
             in retire gpc (interp_set_gpr rd (if o0 then addend - product else addend + product) s))
        else if op31 = 2 then
          (if \<not> sf \<or> o0 then interp_undefined env insn ''data-processing register -- unallocated SMULH form'' s
           else retire gpc (interp_set_gpr rd (word_of_int ((sint n * sint m) div 2 ^ 64)) s))
        else if op31 = 5 then
          (if \<not> sf then interp_undefined env insn ''data-processing register -- 32-bit widening multiply'' s
           else let product = ucast (ucast n :: u32) * ucast (ucast m :: u32)
             in retire gpc (interp_set_gpr rd (if o0 then addend - product else addend + product) s))
        else if op31 = 6 then
          (if \<not> sf \<or> o0 then interp_undefined env insn ''data-processing register -- unallocated UMULH form'' s
           else retire gpc (interp_set_gpr rd (word_of_int ((uint n * uint m) div 2 ^ 64)) s))
        else interp_undefined env insn ''data-processing register -- unallocated 3-source op31'' s)"

definition interp_exec_dp_register_arithmetic :: "'w a64_env \<Rightarrow> u32 \<Rightarrow> 'w a64 \<Rightarrow> 'w interp" where
  "interp_exec_dp_register_arithmetic env insn s =
    (if matches 0x1F000000 0x0B000000 insn then exec_add_sub_register env insn s
     else if matches 0x1F000000 0x0A000000 insn then exec_logical_register env insn s
     else if matches 0x1F000000 0x1B000000 insn then exec_three_source env insn s
     else interp_undefined env insn ''data-processing register -- unallocated arithmetic encoding'' s)"

section \<open>Data processing, register: carry and conditional comparison\<close>

definition exec_add_with_carry :: "'w a64_env \<Rightarrow> u32 \<Rightarrow> 'w a64 \<Rightarrow> 'w interp" where
  "exec_add_with_carry env insn s =
    (let gpc = cpu_pc s; sf = iflag 31 insn; rd = ifield 0 5 insn; rn = ifield 5 5 insn; rm = ifield 16 5 insn;
         op = iflag 30 insn; setflags = iflag 29 insn
     in if insn AND 0x0000FC00 \<noteq> 0 then interp_undefined env insn ''data-processing register -- rotate/flag ops'' s
        else let carry = interp_flag_c s
          in if sf then
               let a = interp_gpr s rn; b = interp_gpr s rm;
                   (res, s1) = (if op then interp_add_with_carry64 a (NOT b) carry setflags s
                                else interp_add_with_carry64 a b carry setflags s)
               in retire gpc (interp_set_gpr rd res s1)
             else
               let a = ucast (interp_gpr s rn); b = ucast (interp_gpr s rm);
                   (res, s1) = (if op then interp_add_with_carry32 a (NOT b) carry setflags s
                                else interp_add_with_carry32 a b carry setflags s)
               in retire gpc (interp_set_gpr32 rd res s1))"

definition exec_conditional_compare :: "'w a64_env \<Rightarrow> u32 \<Rightarrow> 'w a64 \<Rightarrow> 'w interp" where
  "exec_conditional_compare env insn s =
    (let gpc = cpu_pc s; sf = iflag 31 insn; rn = ifield 5 5 insn; rm = ifield 16 5 insn;
         op = iflag 30 insn; setflags = iflag 29 insn; cond = ifield 12 4 insn; immediate_form = iflag 11 insn
     in if \<not> setflags \<or> iflag 10 insn \<or> iflag 4 insn then
          interp_undefined env insn ''data-processing register -- unallocated conditional-compare form'' s
        else if \<not> interp_cond_holds s cond then
          retire gpc (interp_set_flags (iflag 3 insn) (iflag 2 insn) (iflag 1 insn) (iflag 0 insn) s)
        else let operand = (if immediate_form then wfield 16 5 insn else interp_gpr s rm)
          in if sf then
               let a = interp_gpr s rn
               in retire gpc (snd (if op then interp_add_with_carry64 a (NOT operand) True True s
                                   else interp_add_with_carry64 a operand False True s))
             else
               let a = ucast (interp_gpr s rn)
               in retire gpc (snd (if op then interp_add_with_carry32 a (NOT (ucast operand)) True True s
                                   else interp_add_with_carry32 a (ucast operand) False True s)))"

definition interp_exec_dp_register_flags :: "'w a64_env \<Rightarrow> u32 \<Rightarrow> 'w a64 \<Rightarrow> 'w interp" where
  "interp_exec_dp_register_flags env insn s =
    (if matches 0x1FE00000 0x1A000000 insn then exec_add_with_carry env insn s
     else if matches 0x1FE00000 0x1A400000 insn then exec_conditional_compare env insn s
     else interp_undefined env insn ''data-processing register -- unallocated flag encoding'' s)"

section \<open>Data processing, register: selection, one source, two sources\<close>

definition exec_conditional_select :: "'w a64_env \<Rightarrow> u32 \<Rightarrow> 'w a64 \<Rightarrow> 'w interp" where
  "exec_conditional_select env insn s =
    (let gpc = cpu_pc s; sf = iflag 31 insn; rd = ifield 0 5 insn; rn = ifield 5 5 insn; rm = ifield 16 5 insn;
         op = iflag 30 insn; setflags = iflag 29 insn; op2 = ifield 10 2 insn
     in if setflags \<or> op2 \<ge> 2 then
          interp_undefined env insn ''data-processing register -- unallocated conditional-select form'' s
        else let cond = ifield 12 4 insn;
                 res = (if interp_cond_holds s cond then interp_gpr s rn
                        else let other = interp_gpr s rm
                          in if \<not> op then (if op2 \<noteq> 0 then other + 1 else other)
                             else (if op2 \<noteq> 0 then 0 - other else NOT other))
             in retire gpc (put_gpr sf rd res s))"

text \<open>The compiler's byte swap and count of leading zeros (of a nonzero operand).\<close>

definition bswap :: "nat \<Rightarrow> 'a::len word \<Rightarrow> 'a word" where
  "bswap n w = fold (\<lambda>i acc. acc OR push_bit (8 * (n - 1 - i)) (take_bit 8 (drop_bit (8 * i) w))) [0..<n] 0"

definition clz :: "'a::len word \<Rightarrow> nat" where
  "clz w = length (takeWhile (\<lambda>i. \<not> bit w i) (rev [0..<LENGTH('a)]))"

definition rbit :: "u64 \<Rightarrow> bool \<Rightarrow> u64" where
  "rbit v sf =
    (let w1 = push_bit 1 (v AND 0x5555555555555555) OR (drop_bit 1 v AND 0x5555555555555555);
         w2 = push_bit 2 (w1 AND 0x3333333333333333) OR (drop_bit 2 w1 AND 0x3333333333333333);
         w3 = push_bit 4 (w2 AND 0x0F0F0F0F0F0F0F0F) OR (drop_bit 4 w2 AND 0x0F0F0F0F0F0F0F0F);
         w4 = bswap 8 w3
     in if sf then w4 else take_bit 32 (drop_bit 32 w4))"

definition rev16 :: "u64 \<Rightarrow> u64" where
  "rev16 v = push_bit 8 (v AND 0x00FF00FF00FF00FF) OR (drop_bit 8 v AND 0x00FF00FF00FF00FF)"

definition rev32 :: "u64 \<Rightarrow> bool \<Rightarrow> u64" where
  "rev32 v sf =
    (if sf then push_bit 24 (v AND 0x000000FF000000FF) OR push_bit 8 (v AND 0x0000FF000000FF00) OR
                (drop_bit 8 v AND 0x0000FF000000FF00) OR (drop_bit 24 v AND 0x000000FF000000FF)
     else ucast (bswap 4 (ucast v :: u32)))"

definition count_leading_zeros :: "u64 \<Rightarrow> bool \<Rightarrow> u64" where
  "count_leading_zeros v sf =
    (if sf then (if v \<noteq> 0 then of_nat (clz v) else 64)
     else (if (ucast v :: u32) \<noteq> 0 then of_nat (clz (ucast v :: u32)) else 32))"

definition count_leading_signs :: "u64 \<Rightarrow> bool \<Rightarrow> u64" where
  "count_leading_signs v sf =
    (if sf then
       let narrowed = drop_bit 1 (v XOR push_bit 1 v)
       in if narrowed \<noteq> 0 then of_nat (clz narrowed) - 1 else 63
     else
       let narrowed = drop_bit 1 ((ucast v :: u32) XOR push_bit 1 (ucast v))
       in if narrowed \<noteq> 0 then of_nat (clz narrowed) - 1 else 31)"

definition exec_one_source :: "'w a64_env \<Rightarrow> u32 \<Rightarrow> 'w a64 \<Rightarrow> 'w interp" where
  "exec_one_source env insn s =
    (let gpc = cpu_pc s; sf = iflag 31 insn; rd = ifield 0 5 insn; rn = ifield 5 5 insn;
         opcode2 = ifield 16 5 insn; opcode = ifield 10 6 insn
     in if iflag 29 insn \<or> opcode2 \<noteq> 0 then
          interp_undefined env insn ''data-processing register -- PAC/1-source extension'' s
        else let v = interp_gpr s rn
          in if opcode = 0 then retire gpc (put_gpr sf rd (rbit v sf) s)
             else if opcode = 1 then retire gpc (put_gpr sf rd (rev16 v) s)
             else if opcode = 2 then retire gpc (put_gpr sf rd (rev32 v sf) s)
             else if opcode = 3 then
               (if \<not> sf then interp_undefined env insn ''data-processing register -- 32-bit REV64'' s
                else retire gpc (put_gpr sf rd (bswap 8 v) s))
             else if opcode = 4 then retire gpc (put_gpr sf rd (count_leading_zeros v sf) s)
             else if opcode = 5 then retire gpc (put_gpr sf rd (count_leading_signs v sf) s)
             else interp_undefined env insn ''data-processing register -- unallocated 1-source opcode'' s)"

text \<open>C's signed division truncates towards zero; its one overflow is guarded before it.\<close>

definition c_div :: "int \<Rightarrow> int \<Rightarrow> int" where
  "c_div x y = sgn x * sgn y * (\<bar>x\<bar> div \<bar>y\<bar>)"

definition udiv :: "u64 \<Rightarrow> u64 \<Rightarrow> bool \<Rightarrow> u64" where
  "udiv a b sf =
    (if sf then (if b \<noteq> 0 then a div b else 0)
     else (if (ucast b :: u32) \<noteq> 0 then ucast ((ucast a :: u32) div ucast b) else 0))"

definition sdiv :: "u64 \<Rightarrow> u64 \<Rightarrow> bool \<Rightarrow> u64" where
  "sdiv a b sf =
    (if sf then
       (if sint b = 0 then 0
        else if sint b = - 1 \<and> sint a = - (2 ^ 63) then a
        else word_of_int (c_div (sint a) (sint b)))
     else let x = (ucast a :: u32); y = (ucast b :: u32)
       in if sint y = 0 then 0
          else ucast (if sint y = - 1 \<and> sint x = - (2 ^ 31) then x else word_of_int (c_div (sint x) (sint y)) :: u32))"

definition exec_two_source :: "'w a64_env \<Rightarrow> u32 \<Rightarrow> 'w a64 \<Rightarrow> 'w interp" where
  "exec_two_source env insn s =
    (let gpc = cpu_pc s; sf = iflag 31 insn; rd = ifield 0 5 insn; rn = ifield 5 5 insn; rm = ifield 16 5 insn;
         opcode = ifield 10 6 insn
     in if iflag 29 insn then interp_undefined env insn ''data-processing register -- flag-setting 2-source'' s
        else let a = interp_gpr s rn; b = interp_gpr s rm; amount = unat (b AND (if sf then 63 else 31))
          in if opcode = 2 then retire gpc (put_gpr sf rd (udiv a b sf) s)
             else if opcode = 3 then retire gpc (put_gpr sf rd (sdiv a b sf) s)
             else if 8 \<le> opcode \<and> opcode \<le> 11 then
               retire gpc (put_gpr sf rd (interp_shift_operand a (opcode - 8) amount sf) s)
             else if 16 \<le> opcode \<and> opcode \<le> 23 then
               let data_bytes = 2 ^ (opcode mod 4)
               in if (data_bytes = 8) \<noteq> sf then
                    interp_undefined env insn ''data-processing register -- CRC32 size/sf mismatch'' s
                  else retire gpc (interp_set_gpr32 rd (ucast (interp_crc32 (ucast a) b data_bytes (opcode \<ge> 20))) s)
             else interp_undefined env insn ''data-processing register -- unallocated 2-source opcode'' s)"

definition interp_exec_dp_register_select :: "'w a64_env \<Rightarrow> u32 \<Rightarrow> 'w a64 \<Rightarrow> 'w interp" where
  "interp_exec_dp_register_select env insn s =
    (if matches 0x1FE00000 0x1A800000 insn then exec_conditional_select env insn s
     else if matches 0x1FE00000 0x1AC00000 insn then
       (if insn AND 0x40000000 \<noteq> 0 then exec_one_source env insn s else exec_two_source env insn s)
     else interp_undefined env insn ''data-processing register -- unallocated selection encoding'' s)"

definition interp_exec_dp_register :: "'w a64_env \<Rightarrow> u32 \<Rightarrow> 'w a64 \<Rightarrow> 'w interp" where
  "interp_exec_dp_register env insn s =
    (let group = insn AND 0x1FE00000
     in if matches 0x1F000000 0x0B000000 insn \<or> matches 0x1F000000 0x0A000000 insn \<or>
           matches 0x1F000000 0x1B000000 insn then interp_exec_dp_register_arithmetic env insn s
        else if group = 0x1A000000 \<or> group = 0x1A400000 then interp_exec_dp_register_flags env insn s
        else if group = 0x1A800000 \<or> group = 0x1AC00000 then interp_exec_dp_register_select env insn s
        else interp_undefined env insn ''data-processing register -- unallocated encoding'' s)"

end
