(* ===== verification/A64_Memory.thy ===== *)
theory A64_Memory
  imports A64_State
begin

text \<open>
  Guest memory as the AArch64 interpreter sees it: the accesses of \<open>integer.c\<close>, with the
  past-end-of-file ledger and the accesses the host abandons, and the vector registers they fill
  (\<open>vector.c\<close>).  A faulting access leaves the interpreter by \<open>siglongjmp\<close>: it is the answer \<open>Fault\<close>,
  with the state the landing pad finds.  One access is one host instruction: it happens whole or not at
  all.
\<close>

section \<open>Accesses\<close>

datatype ('w, 'a) access = Done 'a "'w a64" | Fault "'w a64"

definition then_do :: "('w, 'a) access \<Rightarrow> ('a \<Rightarrow> 'w a64 \<Rightarrow> 'w interp) \<Rightarrow> 'w interp" where
  "then_do r f = (case r of Done v s \<Rightarrow> f v s | Fault s \<Rightarrow> (Abandoned, s))"

definition bind_access :: "('w, 'a) access \<Rightarrow> ('a \<Rightarrow> 'w a64 \<Rightarrow> ('w, 'b) access) \<Rightarrow> ('w, 'b) access" where
  "bind_access r f = (case r of Done v s \<Rightarrow> f v s | Fault s \<Rightarrow> Fault s)"

text \<open>The bytes an access touches, in host addresses.\<close>

definition span_of :: "u64 \<Rightarrow> nat \<Rightarrow> u64 list" where
  "span_of h n = map (\<lambda>i. h + of_nat i) [0..<n]"

definition peek :: "'w a64 \<Rightarrow> u64 \<Rightarrow> nat \<Rightarrow> u64" where
  "peek s h n = horner_sum ucast (2 ^ 8) (map (guest_memory s) (span_of h n))"

definition poke :: "u64 \<Rightarrow> nat \<Rightarrow> u64 \<Rightarrow> 'w a64 \<Rightarrow> 'w a64" where
  "poke h n v s = s\<lparr>guest_memory := fold (\<lambda>i m. m(h + of_nat i := ucast (drop_bit (8 * i) v))) [0..<n] (guest_memory s)\<rparr>"

text \<open>
  \<open>interp_access_begin\<close>: an access past the end of a mapped file raises SIGBUS at its first byte past
  the end.  Otherwise the access is announced, and a host fault is blamed on its guest address.
\<close>

definition interp_access_begin :: "'w a64_env \<Rightarrow> u64 \<Rightarrow> nat \<Rightarrow> 'w a64 \<Rightarrow> ('w, unit) access" where
  "interp_access_begin env address bytes s =
    (if \<not> bus_active env (engine s) then Done () s
     else let host = interp_guest_pointer env address;
              host_fault = bus_fault env (engine s) host bytes
       in if host_fault = 0 then Done () s
          else let guest_fault = host_fault - (host - address)
            in Fault (s\<lparr>cpu_fault_addr := guest_fault, cpu_bus_ea := guest_fault, cpu_reason := R_BUS\<rparr>))"

definition touch :: "'w a64_env \<Rightarrow> u64 \<Rightarrow> nat \<Rightarrow> bool \<Rightarrow> 'w a64 \<Rightarrow> ('w, unit) access" where
  "touch env address bytes write s =
    (if list_all (if write then host_writable env (engine s) else host_readable env (engine s))
          (span_of (interp_guest_pointer env address) bytes)
     then Done () s
     else Fault (s\<lparr>cpu_fault_addr := address\<rparr>))"

definition interp_load_bits :: "'w a64_env \<Rightarrow> u64 \<Rightarrow> nat \<Rightarrow> 'w a64 \<Rightarrow> ('w, u64) access" where
  "interp_load_bits env address bytes s =
    bind_access (interp_access_begin env address bytes s) (\<lambda>_ s1.
    bind_access (touch env address bytes False s1) (\<lambda>_ s2.
    Done (peek s2 (interp_guest_pointer env address) bytes) s2))"

definition interp_store_bits :: "'w a64_env \<Rightarrow> u64 \<Rightarrow> u64 \<Rightarrow> nat \<Rightarrow> 'w a64 \<Rightarrow> ('w, unit) access" where
  "interp_store_bits env address v bytes s =
    bind_access (interp_access_begin env address bytes s) (\<lambda>_ s1.
    bind_access (touch env address bytes True s1) (\<lambda>_ s2.
    Done () (poke (interp_guest_pointer env address) bytes v s2)))"

text \<open>The host pointer of an atomic access, when it is aligned to \<open>bytes\<close>, a power of two.\<close>

definition interp_atomic_pointer :: "'w a64_env \<Rightarrow> u64 \<Rightarrow> nat \<Rightarrow> u64 option" where
  "interp_atomic_pointer env address bytes =
    (let host = interp_guest_pointer env address
     in if host AND of_nat (bytes - 1) \<noteq> 0 then None else Some host)"

definition interp_alignment_fault :: "u64 \<Rightarrow> 'w a64 \<Rightarrow> 'w interp" where
  "interp_alignment_fault address s =
    (INTERP_END, s\<lparr>cpu_fault_addr := address, cpu_bus_ea := address, cpu_reason := R_BUS\<rparr>)"

section \<open>Vector registers\<close>

text \<open>A vector register is its 16 bytes as one little-endian word; \<open>v\<close> keeps it as two halves.\<close>

type_synonym interp_vec = "128 word"

definition interp_vec_read :: "'w a64 \<Rightarrow> nat \<Rightarrow> interp_vec" where
  "interp_vec_read s reg = ucast (cpu_v s ! (2 * reg)) OR push_bit 64 (ucast (cpu_v s ! (2 * reg + 1)))"

definition interp_vec_write :: "nat \<Rightarrow> interp_vec \<Rightarrow> bool \<Rightarrow> 'w a64 \<Rightarrow> 'w a64" where
  "interp_vec_write reg v q s =
    s\<lparr>cpu_v := (cpu_v s)[2 * reg := ucast v, 2 * reg + 1 := (if q then ucast (drop_bit 64 v) else 0)],
      cpu_vdirty := True\<rparr>"

definition interp_vec_load :: "'w a64_env \<Rightarrow> nat \<Rightarrow> u64 \<Rightarrow> nat \<Rightarrow> 'w a64 \<Rightarrow> ('w, unit) access" where
  "interp_vec_load env reg address bytes s =
    (if bytes \<le> 8 then
       bind_access (interp_load_bits env address bytes s) (\<lambda>chunk s1.
       Done () (interp_vec_write reg (ucast (take_bit (8 * bytes) chunk)) False s1))
     else
       bind_access (interp_load_bits env address 8 s) (\<lambda>low s1.
       bind_access (interp_load_bits env (address + 8) 8 s1) (\<lambda>high s2.
       Done () (interp_vec_write reg (ucast low OR push_bit 64 (ucast high)) True s2))))"

definition interp_vec_store :: "'w a64_env \<Rightarrow> nat \<Rightarrow> u64 \<Rightarrow> nat \<Rightarrow> 'w a64 \<Rightarrow> ('w, unit) access" where
  "interp_vec_store env reg address bytes s =
    (let v = interp_vec_read s reg; low = ucast v; high = ucast (drop_bit 64 v)
     in if bytes \<le> 8 then interp_store_bits env address low bytes s
        else bind_access (interp_store_bits env address low 8 s) (\<lambda>_ s1.
             interp_store_bits env (address + 8) high 8 s1))"

definition interp_simd_access_bytes :: "nat \<Rightarrow> nat \<Rightarrow> nat" where
  "interp_simd_access_bytes size_code opc =
    (if opc \<ge> 2 then (if size_code = 0 then 16 else 0) else 2 ^ size_code)"

text \<open>The elements of a vector; \<open>size_code\<close> is the logarithm of their width in bytes.\<close>

definition interp_vec_element :: "interp_vec \<Rightarrow> nat \<Rightarrow> nat \<Rightarrow> u64" where
  "interp_vec_element v size_code index =
    ucast (take_bit (8 * 2 ^ size_code) (drop_bit (8 * (index * 2 ^ size_code)) v))"

definition interp_vec_set_element :: "nat \<Rightarrow> nat \<Rightarrow> u64 \<Rightarrow> interp_vec \<Rightarrow> interp_vec" where
  "interp_vec_set_element size_code index e v =
    (let width = 8 * 2 ^ size_code; at = 8 * (index * 2 ^ size_code)
     in (v AND NOT (push_bit at (push_bit width 1 - 1))) OR push_bit at (take_bit width (ucast e)))"

definition interp_vec_lanes :: "nat \<Rightarrow> bool \<Rightarrow> nat" where
  "interp_vec_lanes size_code q = (if q then 16 else 8) div 2 ^ size_code"

section \<open>Atomic accesses\<close>

text \<open>
  One atomic read-modify-write of the host: announced, faulting as a store, and answering the value it
  found.
\<close>

definition atomic_rmw :: "'w a64_env \<Rightarrow> u64 \<Rightarrow> nat \<Rightarrow> (u64 \<Rightarrow> u64) \<Rightarrow> 'w a64 \<Rightarrow> ('w, u64) access" where
  "atomic_rmw env address bytes f s =
    bind_access (interp_access_begin env address bytes s) (\<lambda>_ s1.
    bind_access (touch env address bytes True s1) (\<lambda>_ s2.
    let host = interp_guest_pointer env address; old = peek s2 host bytes
    in Done old (poke host bytes (f old) s2)))"

definition atomic_cas :: "'w a64_env \<Rightarrow> u64 \<Rightarrow> nat \<Rightarrow> u64 \<Rightarrow> u64 \<Rightarrow> 'w a64 \<Rightarrow> ('w, u64) access" where
  "atomic_cas env address bytes expected desired s =
    atomic_rmw env address bytes (\<lambda>old. if old = expected then desired else old) s"

text \<open>The 16-byte compare-and-exchange, where the host can perform it; it answers both halves.\<close>

definition atomic_cas16 ::
  "'w a64_env \<Rightarrow> u64 \<Rightarrow> u64 \<times> u64 \<Rightarrow> u64 \<times> u64 \<Rightarrow> 'w a64 \<Rightarrow> ('w, u64 \<times> u64) access" where
  "atomic_cas16 env address expected desired s =
    bind_access (interp_access_begin env address 16 s) (\<lambda>_ s1.
    bind_access (touch env address 16 True s1) (\<lambda>_ s2.
    let host = interp_guest_pointer env address;
        low = peek s2 host 8; high = peek s2 (host + 8) 8
    in if \<not> host_atomic16 env host then Fault (s2\<lparr>cpu_fault_addr := address\<rparr>)
       else Done (low, high)
         (if (low, high) = expected then poke (host + 8) 8 (snd desired) (poke host 8 (fst desired) s2) else s2)))"

text \<open>
  \<open>INTERP_LSE_MINMAX\<close>: a load, and a compare-and-exchange only when the value changes.  The retries of
  the loop against other threads end at the exchange that succeeds, which is the access described here.
\<close>

definition interp_lse_minmax :: "'w a64_env \<Rightarrow> u64 \<Rightarrow> nat \<Rightarrow> u64 \<Rightarrow> bool \<Rightarrow> bool \<Rightarrow> 'w a64 \<Rightarrow> ('w, u64) access" where
  "interp_lse_minmax env address bytes operand want_max is_signed s =
    bind_access (interp_access_begin env address bytes s) (\<lambda>_ s1.
    bind_access (touch env address bytes False s1) (\<lambda>_ s2.
    let host = interp_guest_pointer env address;
        argument = take_bit (8 * bytes) operand;
        current = peek s2 host bytes;
        argument_greater = (if is_signed then sint (interp_sext argument (8 * bytes)) > sint (interp_sext current (8 * bytes))
                            else argument > current);
        chosen = (if argument_greater = want_max then argument else current)
    in if chosen = current then Done current s2
       else bind_access (touch env address bytes True s2) (\<lambda>_ s3. Done current (poke host bytes chosen s3))))"

end
