(* ===== verification/A64_Control.thy ===== *)
theory A64_Control
  imports A64_Memory
begin

text \<open>
  System registers, branches, exception generation and system instructions of the AArch64 interpreter
  (\<open>integer/control.c\<close>), one definition per instruction class, in the order of the code.
\<close>

section \<open>System registers\<close>

definition ctr_el0 :: u64 where "ctr_el0 = 0x9444C004"
definition dczid_el0 :: u64 where "dczid_el0 = 4"
definition user_id_registers :: bool where "user_id_registers = False"

definition INTERP_FPCR_WRITABLE :: u64 where
  "INTERP_FPCR_WRITABLE = push_bit 19 1 OR push_bit 22 3 OR push_bit 24 1 OR push_bit 25 1 OR push_bit 26 1"

definition INTERP_FPSR_WRITABLE :: u64 where
  "INTERP_FPSR_WRITABLE = 0x9F OR 0x08000000"

definition nzcv_bits :: u64 where
  "nzcv_bits = INTERP_NZCV_N OR INTERP_NZCV_Z OR INTERP_NZCV_C OR INTERP_NZCV_V"

definition interp_exec_system_register :: "'w a64_env \<Rightarrow> u32 \<Rightarrow> u64 \<Rightarrow> 'w a64 \<Rightarrow> 'w interp" where
  "interp_exec_system_register env insn gpc s =
    (let rt = ifield 0 5 insn; reg = insn AND 0xFFFFFFE0; is_read = iflag 21 insn;
         read = (\<lambda>v. retire gpc (interp_set_gpr rt v s)); v = interp_gpr s rt
     in if is_read \<and> insn AND 0xFFFF0000 = 0xD5380000 \<and> \<not> user_id_registers then
          raise_and_end env 4 1 (pcrel_base env gpc) (s\<lparr>cpu_pc := gpc\<rparr>)
        else if reg = 0xD53B0020 then read ctr_el0
        else if reg = 0xD53B00E0 then read dczid_el0
        else if reg = 0xD53BD040 \<or> reg = 0xD53BD060 then read (cpu_tls s)
        else if reg = 0xD51BD040 then retire gpc (s\<lparr>cpu_tls := v\<rparr>)
        else if reg = 0xD53B4200 then read (cpu_nzcv s AND nzcv_bits)
        else if reg = 0xD51B4200 then retire gpc (s\<lparr>cpu_nzcv := v AND nzcv_bits\<rparr>)
        else if reg = 0xD53B4220 then read 0
        else if reg = 0xD51B4220 then retire gpc s
        else if reg = 0xD53B4400 then read (interp_fpcr s)
        else if reg = 0xD51B4400 then retire gpc (s\<lparr>interp_fpcr := v AND INTERP_FPCR_WRITABLE\<rparr>)
        else if reg = 0xD53B4420 then read (interp_fpsr s)
        else if reg = 0xD51B4420 then retire gpc (s\<lparr>interp_fpsr := v AND INTERP_FPSR_WRITABLE\<rparr>)
        else if reg = 0xD53BE000 then read 1000000000
        else if reg = 0xD53BE020 \<or> reg = 0xD53BE040 \<or> reg = 0xD53BE0C0 then read (clock_ns env (engine s))
        else interp_undefined env insn ''system -- unmodelled system register (MRS/MSR)'' s)"

section \<open>Branches\<close>

text \<open>Every taken or untaken branch ends the block with the reason of a branch.\<close>

definition branch_to :: "u64 \<Rightarrow> 'w a64 \<Rightarrow> 'w interp" where
  "branch_to target s = (INTERP_RETIRED_END, s\<lparr>cpu_pc := target, cpu_reason := R_BRANCH\<rparr>)"

definition branch_offset :: "u64 \<Rightarrow> nat \<Rightarrow> u64" where
  "branch_offset imm n = push_bit 2 (interp_sext imm n)"

definition link_register :: "'w a64_env \<Rightarrow> u64 \<Rightarrow> 'w a64 \<Rightarrow> 'w a64" where
  "link_register env gpc s = s\<lparr>cpu_x := (cpu_x s)[30 := pcrel_base env gpc + 4]\<rparr>"

definition exec_branch_immediate :: "'w a64_env \<Rightarrow> u32 \<Rightarrow> 'w a64 \<Rightarrow> 'w interp" where
  "exec_branch_immediate env insn s =
    (let gpc = cpu_pc s; offset = branch_offset (wfield 0 26 insn) 26;
         s1 = (if iflag 31 insn then link_register env gpc s else s)
     in branch_to (gpc + offset) s1)"

definition exec_branch_conditional :: "u32 \<Rightarrow> 'w a64 \<Rightarrow> 'w interp" where
  "exec_branch_conditional insn s =
    (let gpc = cpu_pc s; offset = branch_offset (wfield 5 19 insn) 19
     in branch_to (if interp_cond_holds s (ifield 0 4 insn) then gpc + offset else gpc + 4) s)"

definition exec_compare_branch :: "u32 \<Rightarrow> 'w a64 \<Rightarrow> 'w interp" where
  "exec_compare_branch insn s =
    (let gpc = cpu_pc s; sf = iflag 31 insn; nonzero = iflag 24 insn;
         offset = branch_offset (wfield 5 19 insn) 19;
         v = interp_gpr s (ifield 0 5 insn);
         is_zero = (if sf then v = 0 else (ucast v :: u32) = 0)
     in branch_to (if (if nonzero then \<not> is_zero else is_zero) then gpc + offset else gpc + 4) s)"

definition exec_test_branch :: "u32 \<Rightarrow> 'w a64 \<Rightarrow> 'w interp" where
  "exec_test_branch insn s =
    (let gpc = cpu_pc s; nonzero = iflag 24 insn;
         b = 32 * ifield 31 1 insn + ifield 19 5 insn;
         offset = branch_offset (wfield 5 14 insn) 14;
         isset = drop_bit b (interp_gpr s (ifield 0 5 insn)) AND 1 \<noteq> 0
     in branch_to (if (if nonzero then isset else \<not> isset) then gpc + offset else gpc + 4) s)"

definition exec_branch_register :: "'w a64_env \<Rightarrow> u32 \<Rightarrow> 'w a64 \<Rightarrow> 'w interp" where
  "exec_branch_register env insn s =
    (let gpc = cpu_pc s; opc = ifield 21 4 insn; rn = ifield 5 5 insn
     in if ifield 16 5 insn \<noteq> 0x1F \<or> ifield 10 6 insn \<noteq> 0 \<or> ifield 0 5 insn \<noteq> 0 then
          interp_undefined env insn ''branch register -- pointer-authenticated branch (BRAA/BLRAA/RETAA)'' s
        else if opc = 0 then branch_to (interp_gpr s rn) s
        else if opc = 1 then let target = interp_gpr s rn in branch_to target (link_register env gpc s)
        else if opc = 2 then branch_to (interp_gpr s rn) s
        else interp_undefined env insn ''branch register -- ERET/DRPS or unallocated opc'' s)"

section \<open>Exceptions and system instructions\<close>

definition exec_exception :: "'w a64_env \<Rightarrow> u32 \<Rightarrow> 'w a64 \<Rightarrow> 'w interp" where
  "exec_exception env insn s =
    (let gpc = cpu_pc s; opc = ifield 21 3 insn; ll = ifield 0 2 insn
     in if opc = 0 \<and> ll = 1 then (INTERP_RETIRED_END, s\<lparr>cpu_pc := gpc, cpu_reason := R_SYSCALL\<rparr>)
        else raise_and_end env (if opc = 1 then 5 else 4) 1 (pcrel_base env gpc) (s\<lparr>cpu_pc := gpc\<rparr>))"

text \<open>Barriers order the accesses of one thread with those of others; the thread's own state is unchanged.\<close>

definition exec_barrier :: "u32 \<Rightarrow> 'w a64 \<Rightarrow> 'w interp" where
  "exec_barrier insn s =
    (let gpc = cpu_pc s
     in if ifield 5 3 insn = 6 then (INTERP_RETIRED_END, s\<lparr>cpu_pc := gpc + 4, cpu_reason := R_ICCOMMIT\<rparr>)
        else retire gpc s)"

definition exec_ic_ivau :: "u32 \<Rightarrow> 'w a64 \<Rightarrow> 'w interp" where
  "exec_ic_ivau insn s =
    (INTERP_RETIRED_END, s\<lparr>cpu_smc_va := interp_gpr s (ifield 0 5 insn), cpu_pc := cpu_pc s + 4,
                           cpu_reason := R_ICFLUSH\<rparr>)"

fun store_zeros :: "'w a64_env \<Rightarrow> u64 \<Rightarrow> nat list \<Rightarrow> 'w a64 \<Rightarrow> ('w, unit) access" where
  "store_zeros env address [] s = Done () s"
| "store_zeros env address (offset # offsets) s =
    bind_access (interp_store_bits env (address + of_nat offset) 0 8 s) (\<lambda>_ s1. store_zeros env address offsets s1)"

definition exec_dc_zva :: "'w a64_env \<Rightarrow> u32 \<Rightarrow> 'w a64 \<Rightarrow> 'w interp" where
  "exec_dc_zva env insn s =
    (let gpc = cpu_pc s; address = interp_gpr s (ifield 0 5 insn) AND NOT 63
     in then_do (store_zeros env address (map (\<lambda>i. 8 * i) [0..<8]) s) (\<lambda>_ s1. retire gpc s1))"

definition exec_msr_immediate :: "'w a64_env \<Rightarrow> u32 \<Rightarrow> 'w a64 \<Rightarrow> 'w interp" where
  "exec_msr_immediate env insn s =
    (let op1 = ifield 16 3 insn; op2 = ifield 5 3 insn
     in if op1 = 0 \<or> (op1 = 3 \<and> op2 = 3) then
          interp_undefined env insn
            ''system -- MSR (immediate) CFINV/XAFLAG/AXFLAG, SMSTART/SMSTOP, or an EL1 PSTATE field'' s
        else retire (cpu_pc s) s)"

definition interp_exec_branch_system :: "'w a64_env \<Rightarrow> u32 \<Rightarrow> 'w a64 \<Rightarrow> 'w interp" where
  "interp_exec_branch_system env insn s =
    (if matches 0x7C000000 0x14000000 insn then exec_branch_immediate env insn s
     else if matches 0xFF000010 0x54000000 insn \<or> matches 0xFF000010 0x54000010 insn then
       exec_branch_conditional insn s
     else if matches 0x7E000000 0x34000000 insn then exec_compare_branch insn s
     else if matches 0x7E000000 0x36000000 insn then exec_test_branch insn s
     else if matches 0xFE000000 0xD6000000 insn then exec_branch_register env insn s
     else if matches 0xFF000000 0xD4000000 insn then exec_exception env insn s
     else if matches 0xFFFFF01F 0xD503201F insn then retire (cpu_pc s) s
     else if matches 0xFFFFF01F 0xD503301F insn then exec_barrier insn s
     else if matches 0xFFFFFFE0 0xD50B7B20 insn then retire (cpu_pc s) s
     else if matches 0xFFFFFFE0 0xD50B7520 insn then exec_ic_ivau insn s
     else if matches 0xFFFFFFE0 0xD50B7420 insn then exec_dc_zva env insn s
     else if matches 0xFFF8F01F 0xD500401F insn then exec_msr_immediate env insn s
     else if matches 0xFFD00000 0xD5100000 insn then interp_exec_system_register env insn (cpu_pc s) s
     else if matches 0xFFC00000 0xD5000000 insn then
       interp_undefined env insn ''system -- SYS/SYSL maintenance operation'' s
     else interp_undefined env insn
       ''branches, exception generating and system -- unallocated encoding'' s)"

end
