(* ===== verification/A64_Load_Store.thy ===== *)
theory A64_Load_Store
  imports A64_Integer A64_Memory
begin

text \<open>
  Loads and stores of the AArch64 interpreter: single registers, pairs and literals, the LSE atomic
  operations (\<open>vector.c\<close>), exclusive and ordered accesses (\<open>exclusive.c\<close>) and vector structures
  (\<open>structure.c\<close>).
\<close>

text \<open>A loaded value goes to the whole register when it is 8 bytes wide, else to its 32-bit view.\<close>

definition put_width :: "nat \<Rightarrow> nat \<Rightarrow> u64 \<Rightarrow> 'w a64 \<Rightarrow> 'w a64" where
  "put_width bytes reg v s = (if bytes = 8 then interp_set_gpr reg v s else interp_set_gpr32 reg (ucast v) s)"

section \<open>Literals and pairs\<close>

definition exec_load_literal :: "'w a64_env \<Rightarrow> u32 \<Rightarrow> 'w a64 \<Rightarrow> 'w interp" where
  "exec_load_literal env insn s =
    (let gpc = cpu_pc s; rt = ifield 0 5 insn; vector = iflag 26 insn; opc = ifield 30 2 insn;
         address = pcrel_base env gpc + push_bit 2 (interp_sext (wfield 5 19 insn) 19)
     in if vector then
          (if opc = 3 then interp_undefined env insn ''loads and stores -- unallocated SIMD literal size'' s
           else then_do (interp_vec_load env rt address (4 * 2 ^ opc) s) (\<lambda>_. retire gpc))
        else if opc = 3 then retire gpc s
        else if opc = 2 then
          then_do (interp_load_bits env address 4 s) (\<lambda>v s1. retire gpc (interp_set_gpr rt (interp_sext v 32) s1))
        else if opc = 1 then
          then_do (interp_load_bits env address 8 s) (\<lambda>v s1. retire gpc (interp_set_gpr rt v s1))
        else
          then_do (interp_load_bits env address 4 s) (\<lambda>v s1. retire gpc (interp_set_gpr32 rt (ucast v) s1)))"

definition write_back :: "bool \<Rightarrow> nat \<Rightarrow> u64 \<Rightarrow> 'w a64 \<Rightarrow> 'w a64" where
  "write_back wb rn v s = (if wb then interp_set_gpr_sp rn v s else s)"

definition exec_vector_pair :: "'w a64_env \<Rightarrow> u32 \<Rightarrow> 'w a64 \<Rightarrow> 'w interp" where
  "exec_vector_pair env insn s =
    (let gpc = cpu_pc s; rt = ifield 0 5 insn; rn = ifield 5 5 insn; rt2 = ifield 10 5 insn;
         opc = ifield 30 2 insn; load = iflag 22 insn; mode = ifield 23 2 insn
     in if opc = 3 then interp_undefined env insn ''loads and stores -- unallocated SIMD pair opc'' s
        else let element = 4 * 2 ^ opc;
                 offset = interp_sext (wfield 15 7 insn) 7 * of_nat element;
                 base = interp_gpr_sp s rn;
                 wb = (mode = 1 \<or> mode = 3);
                 address = (if mode = 1 then base else base + offset);
                 second = address + of_nat element;
                 finish = (\<lambda>_ s1. retire gpc (write_back wb rn (base + offset) s1))
             in if load then
                  then_do (bind_access (interp_vec_load env rt address element s)
                    (\<lambda>_ s1. interp_vec_load env rt2 second element s1)) finish
                else
                  then_do (bind_access (interp_vec_store env rt address element s)
                    (\<lambda>_ s1. interp_vec_store env rt2 second element s1)) finish)"

definition exec_register_pair :: "'w a64_env \<Rightarrow> u32 \<Rightarrow> 'w a64 \<Rightarrow> 'w interp" where
  "exec_register_pair env insn s =
    (let gpc = cpu_pc s; rt = ifield 0 5 insn; rn = ifield 5 5 insn; rt2 = ifield 10 5 insn;
         opc = ifield 30 2 insn; load = iflag 22 insn; mode = ifield 23 2 insn
     in if opc = 3 then interp_undefined env insn ''loads and stores -- unallocated pair opc'' s
        else if opc = 1 \<and> \<not> load then interp_undefined env insn ''loads and stores -- STGP (memory tagging)'' s
        else let bytes = (if opc = 2 then 8 else 4); scale = (if opc = 2 then 3 else 2);
                 offset = push_bit scale (interp_sext (wfield 15 7 insn) 7);
                 base = interp_gpr_sp s rn;
                 wb = (mode = 1 \<or> mode = 3);
                 address = (if mode = 1 then base else base + offset);
                 second = address + of_nat bytes;
                 finish = (\<lambda>s1. retire gpc (write_back wb rn (base + offset) s1))
             in if load then
                  then_do (interp_load_bits env address bytes s) (\<lambda>v1 s1.
                  then_do (interp_load_bits env second bytes s1) (\<lambda>v2 s2.
                    finish (if opc = 1 then interp_set_gpr rt2 (interp_sext v2 32) (interp_set_gpr rt (interp_sext v1 32) s2)
                            else put_width bytes rt2 v2 (put_width bytes rt v1 s2))))
                else
                  let v1 = interp_gpr s rt; v2 = interp_gpr s rt2
                  in then_do (interp_store_bits env address v1 bytes s) (\<lambda>_ s1.
                     then_do (interp_store_bits env second v2 bytes s1) (\<lambda>_ s2. finish s2)))"

definition interp_exec_load_store_literal_pair :: "'w a64_env \<Rightarrow> u32 \<Rightarrow> 'w a64 \<Rightarrow> 'w interp" where
  "interp_exec_load_store_literal_pair env insn s =
    (if matches 0x3B000000 0x18000000 insn then exec_load_literal env insn s
     else if matches 0x3A000000 0x28000000 insn then
       (if iflag 26 insn then exec_vector_pair env insn s else exec_register_pair env insn s)
     else interp_undefined env insn ''loads and stores -- unallocated literal/pair encoding'' s)"

section \<open>Single registers\<close>

text \<open>The address of an access, whether the base is written back, and with what; or the refusal.\<close>

definition single_address :: "u32 \<Rightarrow> 'w a64 \<Rightarrow> string + u64 \<times> bool \<times> u64" where
  "single_address insn s =
    (let rn = ifield 5 5 insn; rm = ifield 16 5 insn; vector = iflag 26 insn;
         size_code = ifield 30 2 insn; opc = ifield 22 2 insn;
         scale = (if vector then (if opc \<ge> 2 then 4 else size_code) else size_code);
         base = interp_gpr_sp s rn
     in if matches 0x3B000000 0x39000000 insn then Inr (base + push_bit scale (wfield 10 12 insn), False, 0)
        else if matches 0x3B200C00 0x38200800 insn then
          let option = ifield 13 3 insn; shift = (if iflag 12 insn then scale else 0)
          in if option mod 4 < 2 then Inl ''loads and stores -- unallocated register-offset extend option''
             else Inr (base + interp_extend_operand s rm option shift True, False, 0)
        else
          let mode = ifield 10 2 insn; offset = interp_sext (wfield 12 9 insn) 9
          in Inr (if mode = 1 then base else base + offset, mode = 1 \<or> mode = 3, base + offset))"

definition interp_exec_load_store_single :: "'w a64_env \<Rightarrow> u32 \<Rightarrow> 'w a64 \<Rightarrow> 'w interp" where
  "interp_exec_load_store_single env insn s =
    (let gpc = cpu_pc s; rt = ifield 0 5 insn; rn = ifield 5 5 insn; vector = iflag 26 insn;
         size_code = ifield 30 2 insn; opc = ifield 22 2 insn;
         scaled = matches 0x3B000000 0x39000000 insn;
         register_offset = matches 0x3B200C00 0x38200800 insn;
         unscaled = matches 0x3B200000 0x38000000 insn;
         bytes = (if vector then interp_simd_access_bytes size_code opc else 2 ^ size_code)
     in if \<not> scaled \<and> \<not> register_offset \<and> \<not> unscaled then
          interp_undefined env insn ''loads and stores -- AdvSIMD structure or unallocated encoding'' s
        else if \<not> vector \<and> (matches 0x3B200C00 0x38200400 insn \<or> matches 0x3B200C00 0x38200C00 insn) then
          interp_undefined env insn ''loads and stores -- LDRAA/LDRAB (pointer authentication)'' s
        else if vector \<and> bytes = 0 then
          interp_undefined env insn ''loads and stores -- unallocated SIMD/FP access size'' s
        else case single_address insn s of
            Inl class_name \<Rightarrow> interp_undefined env insn class_name s
          | Inr (address, wb, wb_value) \<Rightarrow>
            let finish = (\<lambda>s1. retire gpc (write_back wb rn wb_value s1))
            in if vector then
                 (if odd opc then then_do (interp_vec_load env rt address bytes s) (\<lambda>_. finish)
                  else then_do (interp_vec_store env rt address bytes s) (\<lambda>_. finish))
               else if opc = 0 then
                 then_do (interp_store_bits env address (interp_gpr s rt) bytes s) (\<lambda>_. finish)
               else if opc = 2 \<and> size_code = 3 then finish s
               else if opc = 1 then
                 then_do (interp_load_bits env address bytes s) (\<lambda>v s1. finish (put_width bytes rt v s1))
               else if size_code = 3 \<or> (size_code = 2 \<and> opc = 3) then
                 interp_undefined env insn ''loads and stores -- unallocated sign-extending load size'' s
               else
                 then_do (interp_load_bits env address bytes s) (\<lambda>v s1.
                   let extended = interp_sext v (8 * bytes)
                   in finish (if opc = 2 then interp_set_gpr rt extended s1
                              else interp_set_gpr32 rt (ucast extended) s1)))"

section \<open>LSE atomic operations\<close>

definition exec_ldapr :: "'w a64_env \<Rightarrow> u32 \<Rightarrow> 'w a64 \<Rightarrow> 'w interp" where
  "exec_ldapr env insn s =
    (let gpc = cpu_pc s; rt = ifield 0 5 insn; rn = ifield 5 5 insn; bytes = 2 ^ ifield 30 2 insn
     in then_do (interp_load_bits env (interp_gpr_sp s rn) bytes s) (\<lambda>v s1. retire gpc (put_width bytes rt v s1)))"

text \<open>The new value of the fetch-and-modify operations, and the swap, as functions of the old one.\<close>

definition lse_update :: "nat \<Rightarrow> u64 \<Rightarrow> u64 \<Rightarrow> u64" where
  "lse_update opc operand old =
    (if opc = 0 then old + operand else if opc = 1 then old AND NOT operand
     else if opc = 2 then old XOR operand else old OR operand)"

definition exec_lse_atomic :: "'w a64_env \<Rightarrow> u32 \<Rightarrow> 'w a64 \<Rightarrow> 'w interp" where
  "exec_lse_atomic env insn s =
    (let gpc = cpu_pc s; rt = ifield 0 5 insn; rn = ifield 5 5 insn; rs = ifield 16 5 insn;
         opc = ifield 12 3 insn; o3 = iflag 15 insn; bytes = 2 ^ ifield 30 2 insn
     in if iflag 26 insn then interp_undefined env insn ''loads and stores -- SIMD/FP atomic'' s
        else let address = interp_gpr_sp s rn
          in case interp_atomic_pointer env address bytes of
               None \<Rightarrow> interp_alignment_fault address s
             | Some _ \<Rightarrow>
               let operand = interp_gpr s rs;
                   finish = (\<lambda>old s1. retire gpc (put_width bytes rt old s1))
               in if o3 then
                    (if opc \<noteq> 0 then
                       then_do (interp_access_begin env address bytes s)
                         (\<lambda>_. interp_undefined env insn ''loads and stores -- unallocated LSE swap/op3 encoding'')
                     else then_do (atomic_rmw env address bytes (\<lambda>_. operand) s) finish)
                  else if opc < 4 then
                    then_do (atomic_rmw env address bytes (lse_update opc operand) s) finish
                  else
                    then_do (interp_lse_minmax env address bytes operand (opc = 4 \<or> opc = 6) (opc < 6) s) finish)"

definition interp_exec_load_store_atomic :: "'w a64_env \<Rightarrow> u32 \<Rightarrow> 'w a64 \<Rightarrow> 'w interp" where
  "interp_exec_load_store_atomic env insn s =
    (if matches 0x3FFFFC00 0x38BFC000 insn \<and> \<not> iflag 26 insn then exec_ldapr env insn s
     else if matches 0x3B200C00 0x38200000 insn then exec_lse_atomic env insn s
     else interp_undefined env insn ''loads and stores -- unallocated atomic encoding'' s)"

section \<open>Exclusive and ordered accesses\<close>

definition interp_monitor_clear :: "'w a64 \<Rightarrow> 'w a64" where
  "interp_monitor_clear s = s\<lparr>monitor_valid := False\<rparr>"

definition pair32 :: "u64 \<Rightarrow> u64 \<Rightarrow> u64" where
  "pair32 low high = (low AND 0xFFFFFFFF) OR push_bit 32 (high AND 0xFFFFFFFF)"

definition interp_exec_compare_exchange_pair ::
  "'w a64_env \<Rightarrow> u32 \<Rightarrow> u64 \<Rightarrow> u64 \<Rightarrow> nat \<Rightarrow> nat \<Rightarrow> nat \<Rightarrow> 'w a64 \<Rightarrow> 'w interp" where
  "interp_exec_compare_exchange_pair env insn gpc address rt rt2 rs s =
    (if rt2 \<noteq> 31 then interp_undefined env insn ''loads and stores -- unallocated CASP encoding'' s
     else if odd rs \<or> odd rt then
       interp_undefined env insn ''loads and stores -- CASP with an odd register pair'' s
     else let element = (if iflag 30 insn then 8 else 4)
       in case interp_atomic_pointer env address (2 * element) of
            None \<Rightarrow> interp_alignment_fault address s
          | Some _ \<Rightarrow>
            let compare_low = interp_gpr s rs; compare_high = interp_gpr s (rs + 1);
                swap_low = interp_gpr s rt; swap_high = interp_gpr s (rt + 1)
            in if element = 4 then
                 then_do (atomic_cas env address 8 (pair32 compare_low compare_high) (pair32 swap_low swap_high) s)
                   (\<lambda>observed s1. retire gpc
                     (interp_set_gpr32 (rs + 1) (ucast (drop_bit 32 observed)) (interp_set_gpr32 rs (ucast observed) s1)))
               else
                 then_do (atomic_cas16 env address (compare_low, compare_high) (swap_low, swap_high) s)
                   (\<lambda>(low, high) s1. retire gpc (interp_set_gpr (rs + 1) high (interp_set_gpr rs low s1))))"

definition exec_cas :: "'w a64_env \<Rightarrow> u32 \<Rightarrow> 'w a64 \<Rightarrow> 'w interp" where
  "exec_cas env insn s =
    (let gpc = cpu_pc s; rt = ifield 0 5 insn; rn = ifield 5 5 insn; rt2 = ifield 10 5 insn; rs = ifield 16 5 insn;
         bytes = 2 ^ ifield 30 2 insn
     in if rt2 \<noteq> 31 then interp_undefined env insn ''loads and stores -- unallocated CAS encoding'' s
        else let address = interp_gpr_sp s rn
          in case interp_atomic_pointer env address bytes of
               None \<Rightarrow> interp_alignment_fault address s
             | Some _ \<Rightarrow>
               let expected = take_bit (8 * bytes) (interp_gpr s rs); swap = take_bit (8 * bytes) (interp_gpr s rt)
               in then_do (atomic_cas env address bytes expected swap s)
                    (\<lambda>observed s1. retire gpc (put_width bytes rs observed s1)))"

definition exec_ordered :: "'w a64_env \<Rightarrow> u32 \<Rightarrow> 'w a64 \<Rightarrow> 'w interp" where
  "exec_ordered env insn s =
    (let gpc = cpu_pc s; rt = ifield 0 5 insn; rn = ifield 5 5 insn; rt2 = ifield 10 5 insn; rs = ifield 16 5 insn;
         bytes = 2 ^ ifield 30 2 insn
     in if iflag 21 insn \<or> rs \<noteq> 31 \<or> rt2 \<noteq> 31 then
          interp_undefined env insn ''loads and stores -- unallocated ordered-access encoding'' s
        else let address = interp_gpr_sp s rn
          in if iflag 22 insn then
               then_do (interp_load_bits env address bytes s) (\<lambda>v s1. retire gpc (put_width bytes rt v s1))
             else
               then_do (interp_store_bits env address (interp_gpr s rt) bytes s) (\<lambda>_. retire gpc))"

text \<open>The load of an exclusive pair or single records the address and the value it saw.\<close>

definition exec_load_exclusive :: "'w a64_env \<Rightarrow> u32 \<Rightarrow> 'w a64 \<Rightarrow> 'w interp" where
  "exec_load_exclusive env insn s =
    (let gpc = cpu_pc s; rt = ifield 0 5 insn; rn = ifield 5 5 insn; rt2 = ifield 10 5 insn; rs = ifield 16 5 insn;
         o1 = iflag 21 insn; bytes = 2 ^ ifield 30 2 insn; address = interp_gpr_sp s rn
     in if rs \<noteq> 31 \<or> (\<not> o1 \<and> rt2 \<noteq> 31) then
          interp_undefined env insn ''loads and stores -- unallocated load-exclusive encoding'' s
        else if interp_atomic_pointer env address bytes = None then interp_alignment_fault address s
        else
          then_do (interp_load_bits env address bytes s) (\<lambda>first s1.
          then_do (if o1 then interp_load_bits env (address + of_nat bytes) bytes s1 else Done 0 s1) (\<lambda>second s2.
            let s3 = s2\<lparr>monitor_address := address, monitor_bytes := (if o1 then bytes * 2 else bytes),
                        monitor_value := first, monitor_value2 := second, monitor_valid := True\<rparr>;
                s4 = put_width bytes rt first s3
            in retire gpc (if o1 then put_width bytes rt2 second s4 else s4))))"

text \<open>
  The store compares memory with what the monitor saw and exchanges: 0 in Rs when it stored, 1 when not.
  Whatever the outcome, the monitor is spent.
\<close>

definition store_exclusive_access :: "'w a64_env \<Rightarrow> u32 \<Rightarrow> nat \<Rightarrow> u64 \<Rightarrow> 'w a64 \<Rightarrow> ('w, bool) access" where
  "store_exclusive_access env insn bytes address s =
    (let o1 = iflag 21 insn; desired = interp_gpr s (ifield 0 5 insn); desired2 = interp_gpr s (ifield 10 5 insn);
         v1 = monitor_value s; v2 = monitor_value2 s
     in if \<not> o1 then
          let expected = take_bit (8 * bytes) v1
          in bind_access (atomic_cas env address bytes expected (take_bit (8 * bytes) desired) s)
               (\<lambda>old s1. Done (old \<noteq> expected) s1)
        else if bytes = 4 then
          bind_access (atomic_cas env address 8 (pair32 v1 v2) (pair32 desired desired2) s)
            (\<lambda>old s1. Done (old \<noteq> pair32 v1 v2) s1)
        else
          bind_access (atomic_cas16 env address (v1, v2) (desired, desired2) s)
            (\<lambda>old s1. Done (old \<noteq> (v1, v2)) s1))"

definition exec_store_exclusive :: "'w a64_env \<Rightarrow> u32 \<Rightarrow> 'w a64 \<Rightarrow> 'w interp" where
  "exec_store_exclusive env insn s =
    (let gpc = cpu_pc s; rn = ifield 5 5 insn; rt2 = ifield 10 5 insn; rs = ifield 16 5 insn;
         o1 = iflag 21 insn; bytes = 2 ^ ifield 30 2 insn; address = interp_gpr_sp s rn;
         access_bytes = (if o1 then bytes * 2 else bytes)
     in if \<not> o1 \<and> rt2 \<noteq> 31 then
          interp_undefined env insn ''loads and stores -- unallocated store-exclusive encoding'' s
        else if interp_atomic_pointer env address bytes = None then interp_alignment_fault address s
        else
          then_do (if monitor_valid s \<and> monitor_address s = address \<and> monitor_bytes s = access_bytes
                   then store_exclusive_access env insn bytes address s else Done True s) (\<lambda>failed s1.
            retire gpc (interp_set_gpr32 rs (of_bool failed) (interp_monitor_clear s1))))"

definition interp_exec_load_store_exclusive :: "'w a64_env \<Rightarrow> u32 \<Rightarrow> 'w a64 \<Rightarrow> 'w interp" where
  "interp_exec_load_store_exclusive env insn s =
    (if matches 0x3F000000 0x08000000 insn then
       let gpc = cpu_pc s; rt = ifield 0 5 insn; rn = ifield 5 5 insn; rt2 = ifield 10 5 insn; rs = ifield 16 5 insn;
           o1 = iflag 21 insn; o2 = iflag 23 insn
       in if o2 \<and> o1 then exec_cas env insn s
          else if o2 then exec_ordered env insn s
          else if o1 \<and> insn AND 0x80000000 = 0 then
            interp_exec_compare_exchange_pair env insn gpc (interp_gpr_sp s rn) rt rt2 rs s
          else if o1 \<and> ifield 30 2 insn < 2 then
            interp_undefined env insn ''loads and stores -- unallocated exclusive-pair size'' s
          else if iflag 22 insn then exec_load_exclusive env insn s
          else exec_store_exclusive env insn s
     else interp_undefined env insn ''loads and stores -- unallocated exclusive encoding'' s)"

end
