(* ===== verification/A64_Structure.thy ===== *)
theory A64_Structure
  imports A64_Load_Store
begin

text \<open>
  AdvSIMD structure loads and stores (\<open>structure.c\<close>) and the dispatch of the load and store group
  (\<open>vector.c\<close>).  The loops over lanes and registers are recursions over the list of accesses they make,
  in order; each answers the address after the last access.
\<close>

definition vreg :: "nat \<Rightarrow> nat \<Rightarrow> nat" where
  "vreg rt index = (rt + index) mod 32"

text \<open>Interleaved transfer: one element of one register at a time.\<close>

fun transfer_interleaved ::
  "'w a64_env \<Rightarrow> bool \<Rightarrow> nat \<Rightarrow> nat \<Rightarrow> (nat \<times> nat) list \<Rightarrow> u64 \<Rightarrow> 'w a64 \<Rightarrow> ('w, u64) access" where
  "transfer_interleaved env load esize rt [] address s = Done address s"
| "transfer_interleaved env load esize rt ((lane, index) # rest) address s =
    (let reg = vreg rt index; element_bytes = 2 ^ esize; continue = transfer_interleaved env load esize rt rest (address + of_nat element_bytes)
     in if load then
          bind_access (interp_load_bits env address element_bytes s) (\<lambda>element s1.
          let v = (if lane = 0 then 0 else interp_vec_read s1 reg)
          in continue (interp_vec_write reg (interp_vec_set_element esize lane element v) True s1))
        else
          bind_access (interp_store_bits env address (interp_vec_element (interp_vec_read s reg) esize lane) element_bytes s)
            (\<lambda>_. continue))"

text \<open>Whole registers, in chunks of eight bytes.\<close>

fun transfer_whole :: "'w a64_env \<Rightarrow> bool \<Rightarrow> bool \<Rightarrow> nat \<Rightarrow> nat list \<Rightarrow> u64 \<Rightarrow> 'w a64 \<Rightarrow> ('w, u64) access" where
  "transfer_whole env load q rt [] address s = Done address s"
| "transfer_whole env load q rt (index # rest) address s =
    (let reg = vreg rt index; continue = transfer_whole env load q rt rest (address + (if q then 16 else 8))
     in if load then
          bind_access (interp_load_bits env address 8 s) (\<lambda>low s1.
          bind_access (if q then interp_load_bits env (address + 8) 8 s1 else Done 0 s1) (\<lambda>high s2.
          continue (interp_vec_write reg (ucast low OR push_bit 64 (ucast high)) q s2)))
        else
          let v = interp_vec_read s reg
          in bind_access (interp_store_bits env address (ucast v) 8 s) (\<lambda>_ s1.
             bind_access (if q then interp_store_bits env (address + 8) (ucast (drop_bit 64 v)) 8 s1 else Done () s1)
               (\<lambda>_. continue)))"

text \<open>The register count of a multiple-structure opcode, and whether the registers interleave.\<close>

definition structure_shape :: "nat \<Rightarrow> (nat \<times> bool) option" where
  "structure_shape opcode =
    (if opcode = 0 then Some (4, True) else if opcode = 2 then Some (4, False)
     else if opcode = 4 then Some (3, True) else if opcode = 6 then Some (3, False)
     else if opcode = 7 then Some (1, False) else if opcode = 8 then Some (2, True)
     else if opcode = 10 then Some (2, False) else None)"

definition lanes_by_register :: "nat \<Rightarrow> nat \<Rightarrow> (nat \<times> nat) list" where
  "lanes_by_register lanes registers = concat (map (\<lambda>lane. map (\<lambda>index. (lane, index)) [0..<registers]) [0..<lanes])"

definition exec_multiple_structures :: "'w a64_env \<Rightarrow> u32 \<Rightarrow> 'w a64 \<Rightarrow> 'w interp" where
  "exec_multiple_structures env insn s =
    (let gpc = cpu_pc s; rt = ifield 0 5 insn; rn = ifield 5 5 insn; rm = ifield 16 5 insn; q = iflag 30 insn;
         load = iflag 22 insn; esize = ifield 10 2 insn; post_index = insn AND 0x00800000 \<noteq> 0
     in case structure_shape (ifield 12 4 insn) of
          None \<Rightarrow> interp_undefined env insn ''AdvSIMD load/store -- unallocated multi-structure opcode'' s
        | Some (registers, interleaved) \<Rightarrow>
          let bytes = (if q then 16 else 8); base = interp_gpr_sp s rn
          in if esize = 3 \<and> \<not> q \<and> registers > 1 then
               interp_undefined env insn ''AdvSIMD load/store -- 1D arrangement with several registers'' s
             else
               then_do
                 (if interleaved
                  then transfer_interleaved env load esize rt
                         (lanes_by_register (interp_vec_lanes esize q) registers) base s
                  else transfer_whole env load q rt [0..<registers] base s)
                 (\<lambda>_ s1. retire gpc
                   (if post_index
                    then interp_set_gpr_sp rn (base + (if rm = 31 then of_nat (registers * bytes) else interp_gpr s1 rm)) s1
                    else s1)))"

text \<open>One element per register: replicated into every lane, or moved to or from one lane.\<close>

fun transfer_replicate :: "'w a64_env \<Rightarrow> bool \<Rightarrow> nat \<Rightarrow> nat \<Rightarrow> nat list \<Rightarrow> u64 \<Rightarrow> 'w a64 \<Rightarrow> ('w, u64) access" where
  "transfer_replicate env q esize rt [] address s = Done address s"
| "transfer_replicate env q esize rt (entry # rest) address s =
    bind_access (interp_load_bits env address (2 ^ esize) s) (\<lambda>element s1.
    let v = fold (\<lambda>lane. interp_vec_set_element esize lane element) [0..<interp_vec_lanes esize q] 0
    in transfer_replicate env q esize rt rest (address + of_nat (2 ^ esize)) (interp_vec_write (vreg rt entry) v q s1))"

fun transfer_lane :: "'w a64_env \<Rightarrow> bool \<Rightarrow> nat \<Rightarrow> nat \<Rightarrow> nat \<Rightarrow> nat list \<Rightarrow> u64 \<Rightarrow> 'w a64 \<Rightarrow> ('w, u64) access" where
  "transfer_lane env load esize index rt [] address s = Done address s"
| "transfer_lane env load esize index rt (entry # rest) address s =
    (let reg = vreg rt entry; continue = transfer_lane env load esize index rt rest (address + of_nat (2 ^ esize))
     in if load then
          bind_access (interp_load_bits env address (2 ^ esize) s) (\<lambda>element s1.
          continue (interp_vec_write reg (interp_vec_set_element esize index element (interp_vec_read s1 reg)) True s1))
        else
          bind_access (interp_store_bits env address (interp_vec_element (interp_vec_read s reg) esize index) (2 ^ esize) s)
            (\<lambda>_. continue))"

text \<open>The element size and lane of a single-structure encoding, or the refusal.\<close>

definition single_lane :: "u32 \<Rightarrow> string + nat \<times> nat" where
  "single_lane insn =
    (let q = ifield 30 1 insn; selector = ifield 12 1 insn; size_field = ifield 10 2 insn; kind = ifield 14 2 insn
     in if kind = 0 then Inr (0, 8 * q + 4 * selector + size_field)
        else if kind = 1 then
          (if odd size_field then Inl ''AdvSIMD load single -- 16-bit size<0> set''
           else Inr (1, 4 * q + 2 * selector + size_field div 2))
        else if size_field = 0 then Inr (2, 2 * q + selector)
        else if size_field = 1 \<and> selector = 0 then Inr (3, q)
        else Inl ''AdvSIMD load single -- unallocated 32/64-bit form'')"

definition exec_single_structure :: "'w a64_env \<Rightarrow> u32 \<Rightarrow> 'w a64 \<Rightarrow> 'w interp" where
  "exec_single_structure env insn s =
    (let gpc = cpu_pc s; rt = ifield 0 5 insn; rn = ifield 5 5 insn; rm = ifield 16 5 insn; q = iflag 30 insn;
         load = iflag 22 insn; opcode = ifield 13 3 insn; post_index = insn AND 0x00800000 \<noteq> 0;
         registers = (if iflag 21 insn then 2 else 1) + (if odd opcode then 2 else 0);
         base = interp_gpr_sp s rn;
         finish = (\<lambda>address s1. retire gpc
           (if post_index then interp_set_gpr_sp rn (base + (if rm = 31 then address - base else interp_gpr s1 rm)) s1
            else s1))
     in if opcode div 2 = 3 then
          (if \<not> load \<or> iflag 12 insn then
             interp_undefined env insn ''AdvSIMD load single -- unallocated replicate'' s
           else then_do (transfer_replicate env q (ifield 10 2 insn) rt [0..<registers] base s) finish)
        else case single_lane insn of
            Inl class_name \<Rightarrow> interp_undefined env insn class_name s
          | Inr (esize, index) \<Rightarrow> then_do (transfer_lane env load esize index rt [0..<registers] base s) finish)"

definition interp_exec_load_store_structures :: "'w a64_env \<Rightarrow> u32 \<Rightarrow> 'w a64 \<Rightarrow> 'w interp" where
  "interp_exec_load_store_structures env insn s =
    (if matches 0xBF200000 0x0C000000 insn then exec_multiple_structures env insn s
     else if matches 0xBF000000 0x0D000000 insn then exec_single_structure env insn s
     else interp_undefined env insn ''loads and stores -- unallocated structure encoding'' s)"

definition interp_exec_load_store :: "'w a64_env \<Rightarrow> u32 \<Rightarrow> 'w a64 \<Rightarrow> 'w interp" where
  "interp_exec_load_store env insn s =
    (if matches 0xBF200000 0x0C000000 insn \<or> matches 0xBF000000 0x0D000000 insn then
       interp_exec_load_store_structures env insn s
     else if matches 0x3B000000 0x18000000 insn \<or> matches 0x3A000000 0x28000000 insn then
       interp_exec_load_store_literal_pair env insn s
     else if matches 0x3F000000 0x08000000 insn then interp_exec_load_store_exclusive env insn s
     else if matches 0x3FFFFC00 0x38BFC000 insn \<or> matches 0x3B200C00 0x38200000 insn then
       interp_exec_load_store_atomic env insn s
     else interp_exec_load_store_single env insn s)"

end
