(* ===== verification/A64_Step.thy ===== *)
theory A64_Step
  imports A64_Structure A64_Control
begin

text \<open>
  The top-level decoder, one step, and blocks (\<open>dispatch.c\<close>): the pre-scan that delimits a block and the
  loop that runs one.  The scalar floating-point and AdvSIMD computations (\<open>interp_exec_simd\<close>) are the
  parameter \<open>exec_simd\<close> of the decoder.  The poll of \<open>cpu->irq\<close>, which other threads and signal handlers
  set at any time, is the oracle \<open>irq\<close>: the value read when so many instructions have been executed.
\<close>

section \<open>One step\<close>

definition interp_step_decoded ::
  "'w a64_env \<Rightarrow> (u32 \<Rightarrow> 'w a64 \<Rightarrow> 'w interp) \<Rightarrow> u32 \<Rightarrow> 'w a64 \<Rightarrow> 'w interp" where
  "interp_step_decoded env exec_simd insn s =
    (let major = ifield 25 4 insn
     in if major = 0 then raise_and_end env 4 1 (pcrel_base env (cpu_pc s)) s
        else if major = 1 then interp_undefined env insn ''unallocated (SME)'' s
        else if major = 2 then interp_undefined env insn ''SVE'' s
        else if major = 3 then interp_undefined env insn ''unallocated'' s
        else if major = 8 \<or> major = 9 then interp_exec_dp_immediate env insn s
        else if major = 10 \<or> major = 11 then interp_exec_branch_system env insn s
        else if major = 4 \<or> major = 6 \<or> major = 12 \<or> major = 14 then interp_exec_load_store env insn s
        else if major = 5 \<or> major = 13 then interp_exec_dp_register env insn s
        else exec_simd insn s)"

definition interp_step :: "'w a64_env \<Rightarrow> (u32 \<Rightarrow> 'w a64 \<Rightarrow> 'w interp) \<Rightarrow> 'w a64 \<Rightarrow> 'w interp" where
  "interp_step env exec_simd s =
    (case guest_fetch_u32 env s (cpu_pc s) of
       None \<Rightarrow> (INTERP_END, s\<lparr>cpu_fault_addr := cpu_pc s, cpu_reason := R_FETCHFAULT\<rparr>)
     | Some insn \<Rightarrow> interp_step_decoded env exec_simd insn s)"

section \<open>Blocks\<close>

definition interp_block_ends :: "u32 \<Rightarrow> bool" where
  "interp_block_ends insn \<longleftrightarrow>
    matches 0x7C000000 0x14000000 insn \<or> matches 0xFF000010 0x54000000 insn \<or>
    matches 0xFF000010 0x54000010 insn \<or> matches 0x7E000000 0x34000000 insn \<or>
    matches 0x7E000000 0x36000000 insn \<or> matches 0xFE000000 0xD6000000 insn \<or>
    matches 0xFF000000 0xD4000000 insn \<or> matches 0xFFFFFFE0 0xD50B7520 insn \<or>
    (matches 0xFFFFF01F 0xD503301F insn \<and> ifield 5 3 insn = 6)"

definition INTERP_BLOCK_MAX_INSNS :: nat where
  "INTERP_BLOCK_MAX_INSNS = 4096"

record interp_block =
  guest_start :: u64
  guest_end :: u64
  insn_count :: nat

text \<open>The pre-scan stops after an instruction that ends a block, at one that cannot be fetched, or at the cap.\<close>

function prescan :: "(u64 \<Rightarrow> u32 option) \<Rightarrow> u64 \<Rightarrow> nat \<Rightarrow> u64 \<times> nat" where
  "prescan fetch cursor count =
    (if count \<ge> INTERP_BLOCK_MAX_INSNS then (cursor, count)
     else case fetch cursor of
            None \<Rightarrow> (cursor + 4, count + 1)
          | Some insn \<Rightarrow>
              if interp_block_ends insn then (cursor + 4, count + 1) else prescan fetch (cursor + 4) (count + 1))"
  by pat_completeness auto
termination by (relation "measure (\<lambda>(f, cursor, count). INTERP_BLOCK_MAX_INSNS - count)") auto

declare prescan.simps [simp del]

definition translate_block :: "'w a64_env \<Rightarrow> u64 \<Rightarrow> 'w a64 \<Rightarrow> interp_block" where
  "translate_block env gpc s =
    (let (cursor, count) = prescan (guest_fetch_u32 env s) gpc 0
     in \<lparr>guest_start = gpc, guest_end = cursor, insn_count = count\<rparr>)"

text \<open>
  The loop of \<open>run_block\<close>, \<open>None\<close> when it does not return; \<open>executed\<close> counts the instructions that
  retired.  A faulting access reaches the landing pad, which returns with the state as it is.
\<close>

partial_function (option) run_loop ::
  "'w a64_env \<Rightarrow> (u32 \<Rightarrow> 'w a64 \<Rightarrow> 'w interp) \<Rightarrow> (nat \<Rightarrow> bool) \<Rightarrow> interp_block \<Rightarrow> nat \<Rightarrow> 'w a64 \<Rightarrow>
    (interp_outcome \<times> nat \<times> 'w a64) option" where
  "run_loop env exec_simd irq block executed s =
    (if executed \<noteq> 0 \<and> irq executed then Some (INTERP_NEXT, executed, s\<lparr>cpu_reason := R_BRANCH\<rparr>)
     else if cpu_pc s < guest_start block \<or> cpu_pc s \<ge> guest_end block then
       Some (INTERP_NEXT, executed, s\<lparr>cpu_reason := R_BRANCH\<rparr>)
     else
       let (outcome, s1) = interp_step env exec_simd s
       in if outcome = INTERP_NEXT then run_loop env exec_simd irq block (executed + 1) s1
          else Some (outcome, if outcome = INTERP_RETIRED_END then executed + 1 else executed, s1))"

definition run_block ::
  "'w a64_env \<Rightarrow> (u32 \<Rightarrow> 'w a64 \<Rightarrow> 'w interp) \<Rightarrow> (nat \<Rightarrow> bool) \<Rightarrow> interp_block \<Rightarrow> 'w a64 \<Rightarrow>
    (interp_outcome \<times> nat \<times> 'w a64) option" where
  "run_block env exec_simd irq block s = run_loop env exec_simd irq block 0 s"

end
