(* ===== verification/A64_Arith.thy ===== *)
theory A64_Arith
  imports A64_State
begin

text \<open>
  Arithmetic of the AArch64 interpreter against integers: addition with carry is the sum of the operands,
  unsigned and signed, with the flags saying what the word lost of it (\<open>reference_sum\<close>); and each condition
  code, read after a comparison, is the comparison of the operands it is named after
  (\<open>compare_condition\<close>).
\<close>

section \<open>Words read as integers\<close>

lemma sint_of_uint: "sint w = (if uint w < 2 ^ (LENGTH('a) - 1) then uint w else uint w - 2 ^ LENGTH('a))"
  for w :: "'a::len word"
proof -
  have p: "(2::int) ^ LENGTH('a) = 2 * 2 ^ (LENGTH('a) - 1)"
    by (metis len_gt_0 power_eq_if not_gr_zero)
  have r: "- (2 ^ (LENGTH('a) - 1)) \<le> sint w" "sint w < 2 ^ (LENGTH('a) - 1)"
    using sint_greater_eq [of w] sint_less [of w] by auto
  have u: "uint w = sint w mod 2 ^ LENGTH('a)"
    by (simp add: uint_sint take_bit_eq_mod)
  show ?thesis
  proof (cases "sint w < 0")
    case True
    have "sint w mod 2 ^ LENGTH('a) = (sint w + 2 ^ LENGTH('a)) mod 2 ^ LENGTH('a)" by simp
    also have "\<dots> = sint w + 2 ^ LENGTH('a)"
      using True r p by (intro mod_pos_pos_trivial) linarith+
    finally show ?thesis using True u p r by auto
  next
    case False
    have "sint w mod 2 ^ LENGTH('a) = sint w"
      using False r p by (intro mod_pos_pos_trivial) linarith+
    then show ?thesis using False u r by auto
  qed
qed

lemma msb_of_uint: "bit w (LENGTH('a) - Suc 0) \<longleftrightarrow> 2 ^ (LENGTH('a) - 1) \<le> uint w" for w :: "'a::len word"
proof -
  have "uint w < 2 ^ LENGTH('a)" by (rule uint_bounded)
  moreover have "(0::int) \<le> uint w" by simp
  ultimately show ?thesis by (auto simp: bit_last_iff sint_of_uint)
qed

lemma add_overflow_wraps: "snd (add_overflow a b) \<longleftrightarrow> uint a + uint b \<ge> 2 ^ LENGTH('a)" for a b :: "'a::len word"
proof -
  have "(2::nat) ^ LENGTH('a) \<le> unat a + unat b \<longleftrightarrow> int (2 ^ LENGTH('a)) \<le> int (unat a + unat b)"
    by (simp only: of_nat_le_iff)
  then show ?thesis by (simp only: add_overflow_def snd_conv of_nat_add of_nat_power of_nat_numeral of_nat_unat)
qed

lemma carry_sum:
  fixes a b :: "'a::len word"
  assumes "c = 0 \<or> c = (1::'a word)"
  shows "uint (a + b + c) = uint a + uint b + uint c - (if 2 ^ LENGTH('a) \<le> uint a + uint b + uint c then 2 ^ LENGTH('a) else 0)"
proof -
  have "uint (a + b + c) = (uint a + uint b + uint c) mod 2 ^ LENGTH('a)"
    by (simp add: uint_word_ariths mod_simps)
  moreover have b: "uint a < 2 ^ LENGTH('a)" "uint b < 2 ^ LENGTH('a)" by (rule uint_bounded)+
  moreover have c: "uint c \<le> 1" using assms by auto
  moreover have "0 \<le> uint a" "0 \<le> uint b" "0 \<le> uint c" by simp_all
  moreover have "(S - 2 ^ LENGTH('a)) mod 2 ^ LENGTH('a) = S mod 2 ^ LENGTH('a)" for S :: int by simp
  moreover have "S mod 2 ^ LENGTH('a) = S" if "0 \<le> S" "S < 2 ^ LENGTH('a)" for S :: int
    using that by simp
  ultimately show ?thesis
    by (smt (verit))
qed
lemma bit_test: "drop_bit n w AND 1 \<noteq> 0 \<longleftrightarrow> bit w n" for w :: "'a::len word"
  by (simp add: and_one_eq bit_iff_odd_drop_bit even_iff_mod_2_eq_zero)

section \<open>Registers and flags\<close>

named_theorems a64_simps "reading the state after an update"

lemma flag_of_flags [a64_simps]:
  "interp_flag_n (interp_set_flags n z c v s) = n"
  "interp_flag_z (interp_set_flags n z c v s) = z"
  "interp_flag_c (interp_set_flags n z c v s) = c"
  "interp_flag_v (interp_set_flags n z c v s) = v"
  by (cases n; cases z; cases c; cases v;
      simp add: interp_set_flags_def interp_flag_n_def interp_flag_z_def interp_flag_c_def interp_flag_v_def
        INTERP_NZCV_N_def INTERP_NZCV_Z_def INTERP_NZCV_C_def INTERP_NZCV_V_def)+

section \<open>Addition with carry\<close>

text \<open>The reference: the sum as integers, unsigned and signed, and what of it the word keeps.\<close>

definition reference_sum :: "'a::len word \<Rightarrow> 'a word \<Rightarrow> bool \<Rightarrow> 'a word \<times> bool \<times> bool \<times> bool \<times> bool" where
  "reference_sum a b carry =
    (let unsigned_sum = uint a + uint b + of_bool carry; signed_sum = sint a + sint b + of_bool carry;
         res = word_of_int unsigned_sum
     in (res, sint res < 0, res = 0, uint res \<noteq> unsigned_sum, sint res \<noteq> signed_sum))"

lemma reference_sum_bits:
  fixes a b :: "'a::len word" and carry :: bool
  defines "part \<equiv> a + b" and "res \<equiv> a + b + of_bool carry"
  shows "reference_sum a b carry =
    (res, bit res (LENGTH('a) - Suc 0), res = 0, snd (add_overflow a b) \<or> snd (add_overflow part (of_bool carry)),
     bit ((a XOR res) AND (b XOR res)) (LENGTH('a) - Suc 0))"
proof -
  define c where "c = (of_bool carry :: 'a word)"
  have c01: "c = 0 \<or> c = 1" by (simp add: c_def)
  have uc: "uint c = of_bool carry" by (cases carry) (simp_all add: c_def)
  have res: "res = a + b + c" by (simp add: res_def c_def)
  have sum: "word_of_int (uint a + uint b + of_bool carry) = res"
    by (simp add: res_def)
  have p: "(2::int) ^ LENGTH('a) = 2 * 2 ^ (LENGTH('a) - 1)"
    by (metis len_gt_0 power_eq_if not_gr_zero)
  note ub = uint_bounded [of a] uint_bounded [of b] uint_bounded [of res]
  have ur: "uint res = uint a + uint b + uint c - (if 2 ^ LENGTH('a) \<le> uint a + uint b + uint c then 2 ^ LENGTH('a) else 0)"
    unfolding res by (rule carry_sum [OF c01])
  have carry: "(uint res \<noteq> uint a + uint b + of_bool carry) =
      (snd (add_overflow a b) \<or> snd (add_overflow part (of_bool carry)))"
  proof -
    have "uint (a + b) = uint a + uint b - (if 2 ^ LENGTH('a) \<le> uint a + uint b then 2 ^ LENGTH('a) else 0)"
      using carry_sum [of 0 a b] by simp
    moreover have "0 \<le> uint c" "uint c \<le> 1" using uc by simp_all
    ultimately show ?thesis
      using ur ub p unfolding add_overflow_wraps part_def c_def [symmetric] uc [symmetric]
      by (smt (verit) zero_less_power)
  qed
  have overflow: "(sint res \<noteq> sint a + sint b + of_bool carry) =
      bit ((a XOR res) AND (b XOR res)) (LENGTH('a) - Suc 0)"
  proof -
    have nz: "0 \<le> uint a" "0 \<le> uint b" "0 \<le> uint res" "0 \<le> uint c" "uint c \<le> 1" by (simp_all add: uc)
    define P where "P = (2::int) ^ (LENGTH('a) - 1)"
    have "P \<ge> 1" by (simp add: P_def)
    moreover have "bit ((a XOR res) AND (b XOR res)) (LENGTH('a) - Suc 0) \<longleftrightarrow>
        (P \<le> uint a) \<noteq> (P \<le> uint res) \<and> (P \<le> uint b) \<noteq> (P \<le> uint res)"
      unfolding P_def msb_of_uint [symmetric] by (auto simp: bit_simps)
    ultimately show ?thesis
      using ur ub nz p unfolding sint_of_uint uc [symmetric] P_def [symmetric]
      by (smt (verit))
  qed
  show ?thesis
    unfolding reference_sum_def Let_def sum carry overflow bit_last_iff [symmetric] by simp
qed

theorem interp_add_with_carry64_reference:
  "interp_add_with_carry64 a b carry True s =
    (case reference_sum a b carry of (res, n, z, c, v) \<Rightarrow> (res, interp_set_flags n z c v s))"
proof -
  have l: "LENGTH(64) - Suc 0 = 63" by simp
  show ?thesis
    by (simp only: interp_add_with_carry64_def reference_sum_bits bit_test add_overflow_def Let_def prod.case fst_conv
        snd_conv if_True l)
qed

theorem interp_add_with_carry32_reference:
  "interp_add_with_carry32 a b carry True s =
    (case reference_sum a b carry of (res, n, z, c, v) \<Rightarrow> (res, interp_set_flags n z c v s))"
proof -
  have l: "LENGTH(32) - Suc 0 = 31" by simp
  show ?thesis
    by (simp only: interp_add_with_carry32_def reference_sum_bits bit_test add_overflow_def Let_def prod.case fst_conv
        snd_conv if_True l)
qed

section \<open>Comparison\<close>

lemma uint_not: "uint (NOT b) = 2 ^ LENGTH('a) - 1 - uint b" for b :: "'a::len word"
  by (simp add: unsigned_not_eq take_bit_not_eq_mask_diff mask_eq_exp_minus_1 take_bit_int_eq_self uint_bounded)

lemma sint_not: "sint (NOT b) = - 1 - sint b" for b :: "'a::len word"
proof -
  have "(2::int) ^ LENGTH('a) = 2 * 2 ^ (LENGTH('a) - 1)"
    by (metis len_gt_0 power_eq_if not_gr_zero)
  then show ?thesis
    using uint_bounded [of b] unfolding sint_of_uint uint_not by (smt (verit))
qed

lemma reference_difference:
  fixes a b :: "'a::len word"
  shows "reference_sum a (NOT b) True =
    (a - b, sint (a - b) < 0, a = b, b \<le> a, sint (a - b) \<noteq> sint a - sint b)"
proof -
  have r: "word_of_int (uint a + uint (NOT b) + 1) = a - b"
    by (simp add: not_eq_complement)
  have "uint (a - b) = (if uint b \<le> uint a then uint a - uint b else uint a - uint b + 2 ^ LENGTH('a))"
    by (simp add: uint_sub_if')
  then have "uint (a - b) \<noteq> uint a + uint (NOT b) + 1 \<longleftrightarrow> b \<le> a"
    by (simp add: uint_not word_le_def)
  then show ?thesis
    by (simp only: reference_sum_def Let_def of_bool_eq r) (simp add: sint_not)
qed

lemma difference_sign:
  fixes a b :: "'a::len word"
  shows "(sint (a - b) < 0) = (sint (a - b) \<noteq> sint a - sint b) \<longleftrightarrow> sint b \<le> sint a"
proof -
  have "uint (a - b) = (if uint b \<le> uint a then uint a - uint b else uint a - uint b + 2 ^ LENGTH('a))"
    by (simp add: uint_sub_if')
  moreover have "(2::int) ^ LENGTH('a) = 2 * 2 ^ (LENGTH('a) - 1)"
    by (metis len_gt_0 power_eq_if not_gr_zero)
  moreover note uint_bounded [of a] uint_bounded [of b] uint_bounded [of "a - b"]
  moreover have "0 \<le> uint a" "0 \<le> uint b" "0 \<le> uint (a - b)" by simp_all
  ultimately show ?thesis unfolding sint_of_uint by (smt (verit))
qed

text \<open>What each condition code says of two operands after their comparison.\<close>

definition compare_condition :: "nat \<Rightarrow> 'a::len word \<Rightarrow> 'a word \<Rightarrow> bool" where
  "compare_condition cond a b =
    (let overflows = sint (a - b) \<noteq> sint a - sint b
     in if cond = 0 then a = b else if cond = 1 then a \<noteq> b
        else if cond = 2 then b \<le> a else if cond = 3 then a < b
        else if cond = 4 then sint (a - b) < 0 else if cond = 5 then 0 \<le> sint (a - b)
        else if cond = 6 then overflows else if cond = 7 then \<not> overflows
        else if cond = 8 then b < a else if cond = 9 then a \<le> b
        else if cond = 10 then sint b \<le> sint a else if cond = 11 then sint a < sint b
        else if cond = 12 then sint b < sint a else if cond = 13 then sint a \<le> sint b
        else True)"

lemma condition_after_difference:
  fixes a b :: "'a::len word"
  assumes "reference_sum a (NOT b) True = (r, n, z, c, v)" "cond < 16"
  shows "interp_cond_holds (interp_set_flags n z c v s) cond \<longleftrightarrow> compare_condition cond a b"
proof -
  have eq: "n = (sint (a - b) < 0)" "z = (a = b)" "c = (b \<le> a)" "v = (sint (a - b) \<noteq> sint a - sint b)"
    using assms(1) unfolding reference_difference by auto
  have sg: "(n = v) \<longleftrightarrow> sint b \<le> sint a" unfolding eq by (rule difference_sign)
  have ne: "sint a = sint b \<longleftrightarrow> a = b" by (auto intro: signed_word_eqI)
  have "cond = 0 \<or> cond = 1 \<or> cond = 2 \<or> cond = 3 \<or> cond = 4 \<or> cond = 5 \<or> cond = 6 \<or> cond = 7 \<or> cond = 8 \<or>
      cond = 9 \<or> cond = 10 \<or> cond = 11 \<or> cond = 12 \<or> cond = 13 \<or> cond = 14 \<or> cond = 15"
    using assms(2) by presburger
  then show ?thesis
    by (elim disjE) (use sg ne in \<open>auto simp: interp_cond_holds_def compare_condition_def a64_simps eq Let_def not_less not_le\<close>)
qed

lemma compare64:
  "cond < 16 \<Longrightarrow> interp_cond_holds (snd (interp_add_with_carry64 a (NOT b) True True s)) cond \<longleftrightarrow> compare_condition cond a b"
  by (cases "reference_sum a (NOT b) True") (simp add: interp_add_with_carry64_reference condition_after_difference)

lemma compare32:
  "cond < 16 \<Longrightarrow> interp_cond_holds (snd (interp_add_with_carry32 a (NOT b) True True s)) cond \<longleftrightarrow> compare_condition cond a b"
  by (cases "reference_sum a (NOT b) True") (simp add: interp_add_with_carry32_reference condition_after_difference)

end
