(* ===== verification/A64_Access.thy ===== *)
theory A64_Access
  imports A64_Arith A64_Step
begin

text \<open>
  Decoding by masks, well-formed interpreter states, and what the memory accesses keep: an access that
  succeeds or faults changes no general register, no flag and not the program counter
  (\<open>access_ok\<close>).  \<open>step_shape\<close> says what the outcome of an instruction may be, with rules that follow
  the structure of the definitions.
\<close>

section \<open>Decoding\<close>

lemma matches_sub: "matches m p insn \<Longrightarrow> M AND m = M \<Longrightarrow> matches M P insn \<longleftrightarrow> p AND M = P"
  by (auto simp: matches_def ac_simps) (metis and.assoc and.commute)+

lemma matches_iflag: "matches m p insn \<Longrightarrow> bit m n \<Longrightarrow> iflag n insn \<longleftrightarrow> bit p n"
  by (auto simp: matches_def iflag_def bit_test bit_and_iff)

lemma matches_ifield:
  "matches m p insn \<Longrightarrow> take_bit n (drop_bit lo m) = mask n \<Longrightarrow> ifield lo n insn = unat (take_bit n (drop_bit lo p))"
  by (auto simp: matches_def ifield_def)
    (metis (no_types, lifting) and.commute drop_bit_and take_bit_and take_bit_eq_mask and.right_idem)

lemma ifield_less: "ifield lo n insn < 2 ^ n"
proof -
  have "unat (take_bit n (drop_bit lo insn)) = take_bit n (unat (drop_bit lo insn))"
    by (simp add: unsigned_take_bit_eq)
  then show ?thesis by (simp add: ifield_def)
qed

section \<open>Well-formed states\<close>

definition a64_wf :: "'w a64 \<Rightarrow> bool" where
  "a64_wf s \<longleftrightarrow> length (cpu_x s) = 31 \<and> length (cpu_v s) = 64 \<and> cpu_nzcv s AND NOT nzcv_bits = 0 \<and>
    interp_fpcr s AND NOT INTERP_FPCR_WRITABLE = 0 \<and> interp_fpsr s AND NOT INTERP_FPSR_WRITABLE = 0"

text \<open>What a refused or abandoned instruction leaves alone.\<close>

definition a64_kept :: "'w a64 \<Rightarrow> 'w a64 \<Rightarrow> bool" where
  "a64_kept s s' \<longleftrightarrow> cpu_x s' = cpu_x s \<and> cpu_sp s' = cpu_sp s \<and> cpu_pc s' = cpu_pc s \<and> cpu_tls s' = cpu_tls s \<and>
    cpu_nzcv s' = cpu_nzcv s \<and> interp_fpcr s' = interp_fpcr s \<and> interp_fpsr s' = interp_fpsr s \<and>
    monitor_valid s' = monitor_valid s \<and> monitor_address s' = monitor_address s \<and>
    monitor_bytes s' = monitor_bytes s \<and> monitor_value s' = monitor_value s \<and> monitor_value2 s' = monitor_value2 s"

lemma a64_kept_refl [simp, intro]: "a64_kept s s" by (simp add: a64_kept_def)
lemma a64_kept_trans: "a64_kept s s1 \<Longrightarrow> a64_kept s1 s2 \<Longrightarrow> a64_kept s s2" by (simp add: a64_kept_def)
lemma a64_kept_pc: "a64_kept s s' \<Longrightarrow> cpu_pc s' = cpu_pc s" by (simp add: a64_kept_def)

lemma wf_nzcv_update: "a64_wf s \<Longrightarrow> w AND NOT nzcv_bits = 0 \<Longrightarrow> a64_wf (s\<lparr>cpu_nzcv := w\<rparr>)"
  by (simp add: a64_wf_def)

lemma wf_set_flags [simp]: "a64_wf s \<Longrightarrow> a64_wf (interp_set_flags n z c v s)"
  unfolding interp_set_flags_def
  by (rule wf_nzcv_update, assumption) (cases n; cases z; cases c; cases v;
      simp add: nzcv_bits_def INTERP_NZCV_N_def INTERP_NZCV_Z_def INTERP_NZCV_C_def INTERP_NZCV_V_def)

lemma wf_updates [simp]:
  "a64_wf (s\<lparr>cpu_pc := a\<rparr>) = a64_wf s" "a64_wf (s\<lparr>cpu_reason := a\<rparr>) = a64_wf s"
  "a64_wf (s\<lparr>cpu_sp := a\<rparr>) = a64_wf s" "a64_wf (s\<lparr>cpu_tls := a\<rparr>) = a64_wf s"
  "a64_wf (s\<lparr>cpu_x := (cpu_x s)[i := a]\<rparr>) = a64_wf s"
  "a64_wf (s\<lparr>engine := e\<rparr>) = a64_wf s" "a64_wf (s\<lparr>cpu_smc_va := a\<rparr>) = a64_wf s"
  "a64_wf (s\<lparr>cpu_fault_addr := a\<rparr>) = a64_wf s" "a64_wf (s\<lparr>cpu_bus_ea := a\<rparr>) = a64_wf s"
  "a64_wf (s\<lparr>guest_memory := g\<rparr>) = a64_wf s"
  "a64_wf (s\<lparr>monitor_valid := b\<rparr>) = a64_wf s" "a64_wf (s\<lparr>monitor_address := a\<rparr>) = a64_wf s"
  "a64_wf (s\<lparr>monitor_bytes := k\<rparr>) = a64_wf s" "a64_wf (s\<lparr>monitor_value := a\<rparr>) = a64_wf s"
  "a64_wf (s\<lparr>monitor_value2 := a\<rparr>) = a64_wf s" "a64_wf (s\<lparr>cpu_tpending := a\<rparr>) = a64_wf s"
  "a64_wf (s\<lparr>cpu_sigmask := a\<rparr>) = a64_wf s" "a64_wf (s\<lparr>cpu_sync_signal := i1\<rparr>) = a64_wf s"
  "a64_wf (s\<lparr>cpu_sync_code := i1\<rparr>) = a64_wf s" "a64_wf (s\<lparr>cpu_sync_address := a\<rparr>) = a64_wf s"
  "a64_wf (s\<lparr>cpu_vdirty := b\<rparr>) = a64_wf s"
  by (simp_all add: a64_wf_def)

lemma wf_registers [simp]:
  "a64_wf (interp_set_gpr r v s) = a64_wf s"
  "a64_wf (interp_set_gpr_sp r v s) = a64_wf s"
  "a64_wf (interp_set_gpr32 r w s) = a64_wf s"
  "a64_wf (interp_set_gpr32_sp r w s) = a64_wf s"
  "a64_wf (put_gpr sf r v s) = a64_wf s"
  "a64_wf (put_width bytes r v s) = a64_wf s"
  "a64_wf (write_back wb r v s) = a64_wf s"
  "a64_wf (link_register env gpc s) = a64_wf s"
  "a64_wf (interp_monitor_clear s) = a64_wf s"
  by (simp_all add: interp_set_gpr_def interp_set_gpr_sp_def interp_set_gpr32_def interp_set_gpr32_sp_def put_gpr_def
      put_width_def write_back_def link_register_def interp_monitor_clear_def)

lemma wf_vec_write [simp]: "a64_wf (interp_vec_write r v q s) = a64_wf s"
  by (simp add: a64_wf_def interp_vec_write_def)

lemma wf_logical_flags [simp]: "a64_wf s \<Longrightarrow> a64_wf (interp_set_logical_flags r sf s)"
  by (simp add: interp_set_logical_flags_def Let_def)

lemma wf_add_with_carry [simp]:
  "a64_wf s \<Longrightarrow> a64_wf (snd (interp_add_with_carry64 a b c f s))"
  "a64_wf s \<Longrightarrow> a64_wf (snd (interp_add_with_carry32 a' b' c f s))"
  by (simp_all add: interp_add_with_carry64_def interp_add_with_carry32_def Let_def split_def)

lemma poke_wf [simp]: "a64_wf (poke h n v s) = a64_wf s"
  by (simp add: poke_def)

lemma poke_kept [simp]: "a64_kept s (poke h n v s')= a64_kept s s'"
  by (simp add: poke_def a64_kept_def)

lemma vec_write_kept [simp]: "a64_kept s (interp_vec_write r v q s') = a64_kept s s'"
  by (simp add: interp_vec_write_def a64_kept_def)

section \<open>Accesses keep the registers\<close>

definition access_ok :: "'w a64 \<Rightarrow> ('w, 'a) access \<Rightarrow> bool" where
  "access_ok s r \<longleftrightarrow> (case r of Done v s' \<Rightarrow> a64_wf s' \<and> a64_kept s s' | Fault s' \<Rightarrow> a64_wf s' \<and> a64_kept s s')"

lemma access_ok_simps [simp]:
  "access_ok s (Done v s') \<longleftrightarrow> a64_wf s' \<and> a64_kept s s'"
  "access_ok s (Fault s') \<longleftrightarrow> a64_wf s' \<and> a64_kept s s'"
  by (simp_all add: access_ok_def)

lemma access_ok_mono: "a64_kept s s' \<Longrightarrow> access_ok s' r \<Longrightarrow> access_ok s r"
  by (cases r) (simp_all add: a64_kept_trans [of s s'])

lemma access_ok_bind:
  assumes "access_ok s r" "\<And>v s'. a64_wf s' \<Longrightarrow> a64_kept s s' \<Longrightarrow> access_ok s' (f v s')"
  shows "access_ok s (bind_access r f)"
proof (cases r)
  case (Done v s')
  then show ?thesis
    using assms by (simp add: bind_access_def access_ok_mono [of s s'])
next
  case (Fault s')
  then show ?thesis using assms(1) by (simp add: bind_access_def)
qed

lemma access_ok_begin [simp]: "a64_wf s \<Longrightarrow> access_ok s (interp_access_begin env a n s)"
  by (auto simp: interp_access_begin_def Let_def a64_kept_def)

lemma access_ok_touch [simp]: "a64_wf s \<Longrightarrow> access_ok s (touch env a n w s)"
  by (auto simp: touch_def a64_kept_def)

lemma access_ok_load [simp]: "a64_wf s \<Longrightarrow> access_ok s (interp_load_bits env a n s)"
  unfolding interp_load_bits_def by (intro access_ok_bind) simp_all

lemma access_ok_store [simp]: "a64_wf s \<Longrightarrow> access_ok s (interp_store_bits env a v n s)"
  unfolding interp_store_bits_def by (intro access_ok_bind) simp_all

lemma access_ok_vec_load [simp]: "a64_wf s \<Longrightarrow> access_ok s (interp_vec_load env r a n s)"
  unfolding interp_vec_load_def by (simp split: if_split) (intro conjI impI access_ok_bind; simp)

lemma access_ok_vec_store [simp]: "a64_wf s \<Longrightarrow> access_ok s (interp_vec_store env r a n s)"
  unfolding interp_vec_store_def Let_def by (simp split: if_split) (intro conjI impI access_ok_bind; simp)

lemma access_ok_rmw [simp]: "a64_wf s \<Longrightarrow> access_ok s (atomic_rmw env a n f s)"
  unfolding atomic_rmw_def Let_def by (intro access_ok_bind) simp_all

lemma access_ok_cas [simp]: "a64_wf s \<Longrightarrow> access_ok s (atomic_cas env a n e d s)"
  by (simp add: atomic_cas_def)

lemma access_ok_cas16 [simp]: "a64_wf s \<Longrightarrow> access_ok s (atomic_cas16 env a e d s)"
  unfolding atomic_cas16_def Let_def by (intro access_ok_bind) (simp_all, simp add: a64_kept_def)

lemma access_ok_minmax [simp]: "a64_wf s \<Longrightarrow> access_ok s (interp_lse_minmax env a n v m g s)"
  unfolding interp_lse_minmax_def Let_def
  by (intro access_ok_bind; simp) (auto intro!: access_ok_bind)

lemma access_ok_zeros [simp]: "a64_wf s \<Longrightarrow> access_ok s (store_zeros env a offsets s)"
  by (induction offsets arbitrary: s) (auto intro!: access_ok_bind)

lemma access_ok_write: "access_ok (interp_vec_write r v q s) x \<Longrightarrow> access_ok s x"
  by (erule access_ok_mono [rotated]) simp

lemma access_ok_interleaved [simp]: "a64_wf s \<Longrightarrow> access_ok s (transfer_interleaved env load esize rt ps a s)"
proof (induction ps arbitrary: load a s)
  case (Cons p ps)
  then show ?case
    by (cases p) (auto simp: Let_def intro!: access_ok_bind access_ok_write [OF Cons.IH])
qed simp

lemma access_ok_whole [simp]: "a64_wf s \<Longrightarrow> access_ok s (transfer_whole env load q rt ps a s)"
proof (induction ps arbitrary: load q a s)
  case (Cons p ps)
  then show ?case
    by (auto simp: Let_def intro!: access_ok_bind access_ok_write [OF Cons.IH])
qed simp

lemma access_ok_replicate [simp]: "a64_wf s \<Longrightarrow> access_ok s (transfer_replicate env q esize rt ps a s)"
proof (induction ps arbitrary: a s)
  case (Cons p ps)
  then show ?case
    by (auto simp: Let_def intro!: access_ok_bind access_ok_write [OF Cons.IH])
qed simp

lemma access_ok_lane [simp]: "a64_wf s \<Longrightarrow> access_ok s (transfer_lane env load esize index rt ps a s)"
proof (induction ps arbitrary: load a s)
  case (Cons p ps)
  then show ?case
    by (auto simp: Let_def intro!: access_ok_bind access_ok_write [OF Cons.IH])
qed simp

section \<open>The shape of a step\<close>

text \<open>
  What is assumed of signal delivery: \<open>raise_guest_signal\<close> queues the signal or ends the process, and
  does not touch the registers of the thread (a thread that is not traced).
\<close>

definition signals_keep_registers :: "'w a64_env \<Rightarrow> bool" where
  "signals_keep_registers env \<longleftrightarrow>
    (\<forall>signo s s'. raise_guest_signal env signo s = Some s' \<longrightarrow> a64_wf s \<longrightarrow> a64_wf s' \<and> a64_kept s s')"

definition step_shape :: "u32 \<Rightarrow> 'w a64 \<Rightarrow> 'w interp \<Rightarrow> bool" where
  "step_shape insn s r \<longleftrightarrow>
    (case r of
       (INTERP_NEXT, s') \<Rightarrow> a64_wf s' \<and> cpu_pc s' = cpu_pc s + 4
     | (INTERP_RETIRED_END, s') \<Rightarrow> a64_wf s' \<and> interp_block_ends insn
     | (INTERP_END, s') \<Rightarrow> a64_wf s' \<and> a64_kept s s'
     | (Abandoned, s') \<Rightarrow> a64_wf s' \<and> a64_kept s s'
     | (Process_exit, s') \<Rightarrow> True)"

lemma shape_retire [intro!]: "a64_wf s' \<Longrightarrow> gpc = cpu_pc s \<Longrightarrow> step_shape insn s (retire gpc s')"
  by (simp add: step_shape_def retire_def)

lemma shape_undefined [intro!]: "a64_wf s \<Longrightarrow> step_shape insn s (interp_undefined env insn' c s)"
  by (simp add: step_shape_def interp_undefined_def a64_kept_def)

lemma shape_undefined_after: "a64_wf s' \<Longrightarrow> a64_kept s s' \<Longrightarrow> step_shape insn s (interp_undefined env insn' c s')"
  by (simp add: step_shape_def interp_undefined_def a64_kept_def)

lemma shape_alignment [intro!]: "a64_wf s \<Longrightarrow> step_shape insn s (interp_alignment_fault a s)"
  by (simp add: step_shape_def interp_alignment_fault_def a64_kept_def)

lemma shape_branch [intro!]: "a64_wf s' \<Longrightarrow> interp_block_ends insn \<Longrightarrow> step_shape insn s (branch_to t s')"
  by (simp add: step_shape_def branch_to_def)

lemma shape_raise:
  assumes "signals_keep_registers env" "a64_wf s" "s' = s \<or> s' = s\<lparr>cpu_pc := cpu_pc s\<rparr>"
  shows "step_shape insn s (raise_and_end env n c a s')"
proof -
  have s': "s' = s" using assms(3) by auto
  define s1 where "s1 = s\<lparr>cpu_sync_signal := n, cpu_sync_code := c, cpu_sync_address := a,
      cpu_sigmask := cpu_sigmask s AND NOT (push_bit (nat (n - 1)) 1)\<rparr>"
  have "a64_wf s1" "a64_kept s s1" using assms(2) by (simp_all add: s1_def a64_kept_def)
  then have "a64_wf s2 \<and> a64_kept s s2" if "raise_guest_signal env n s1 = Some s2" for s2
    using assms(1) that a64_kept_trans unfolding signals_keep_registers_def by blast
  then show ?thesis
    unfolding s' raise_and_end_def interp_raise_sync_signal_def Let_def s1_def [symmetric]
    by (cases "raise_guest_signal env n s1") (auto simp: step_shape_def a64_kept_def)
qed

lemma shape_access:
  assumes "access_ok s r" "\<And>v s'. a64_wf s' \<Longrightarrow> a64_kept s s' \<Longrightarrow> step_shape insn s (f v s')"
  shows "step_shape insn s (then_do r f)"
  using assms by (cases r) (auto simp: then_do_def step_shape_def)

lemma shape_access_after:
  assumes "access_ok s1 r" "a64_kept s s1" "\<And>v s'. a64_wf s' \<Longrightarrow> a64_kept s s' \<Longrightarrow> step_shape insn s (f v s')"
  shows "step_shape insn s (then_do r f)"
  using assms by (intro shape_access) (simp_all add: access_ok_mono)

end
