(* ===== verification/A64_Shape.thy ===== *)
theory A64_Shape
  imports A64_Access
begin

text \<open>
  Every instruction class of the AArch64 interpreter has the shape of a step: it ends with the next
  program counter, ends its block in a way the pre-scan knows, or leaves the registers as they were.
\<close>

section \<open>Every instruction class has the shape\<close>

lemma wf_add_with_carryD:
  "interp_add_with_carry64 a b c f s = (r, s1) \<Longrightarrow> a64_wf s \<Longrightarrow> a64_wf s1"
  "interp_add_with_carry32 a' b' c f s = (r', s1) \<Longrightarrow> a64_wf s \<Longrightarrow> a64_wf s1"
  using wf_add_with_carry(1) [of s a b c f] wf_add_with_carry(2) [of s a' b' c f] by auto

lemma wf_if: "(if c then interp_add_with_carry64 a1 b1 c1 f s else interp_add_with_carry64 a2 b2 c2 f s) = (r, s1) \<Longrightarrow>
    a64_wf s \<Longrightarrow> a64_wf s1"
  "(if c then interp_add_with_carry32 x1 y1 c1 f s else interp_add_with_carry32 x2 y2 c2 f s) = (r', s1) \<Longrightarrow>
    a64_wf s \<Longrightarrow> a64_wf s1"
  by (auto split: if_splits dest: wf_add_with_carryD)

lemma wf_cond: "(c \<Longrightarrow> a64_wf s) \<Longrightarrow> (\<not> c \<Longrightarrow> a64_wf s') \<Longrightarrow> a64_wf (if c then s else s')"
  by simp

lemma shape_let: "(\<And>v. v = x \<Longrightarrow> step_shape insn s (f v)) \<Longrightarrow> step_shape insn s (let v = x in f v)"
  by (simp add: Let_def)

lemma shape_if: "(c \<Longrightarrow> step_shape insn s x) \<Longrightarrow> (\<not> c \<Longrightarrow> step_shape insn s y) \<Longrightarrow> step_shape insn s (if c then x else y)"
  by simp

lemma shape_prod: "(\<And>a b. e = (a, b) \<Longrightarrow> step_shape insn s (f a b)) \<Longrightarrow> step_shape insn s (case e of (a, b) \<Rightarrow> f a b)"
  by (cases e) simp

lemma shape_option:
  "(e = None \<Longrightarrow> step_shape insn s x) \<Longrightarrow> (\<And>v. e = Some v \<Longrightarrow> step_shape insn s (f v)) \<Longrightarrow>
    step_shape insn s (case e of None \<Rightarrow> x | Some v \<Rightarrow> f v)"
  by (cases e) simp_all

lemma shape_sum:
  "(\<And>c. e = Inl c \<Longrightarrow> step_shape insn s (g c)) \<Longrightarrow> (\<And>v. e = Inr v \<Longrightarrow> step_shape insn s (f v)) \<Longrightarrow>
    step_shape insn s (case e of Inl c \<Rightarrow> g c | Inr v \<Rightarrow> f v)"
  by (cases e) simp_all

lemmas shape_rules = shape_let shape_if shape_prod shape_option shape_sum shape_retire shape_undefined shape_alignment
lemmas wf_simps = wf_updates wf_registers wf_set_flags wf_vec_write wf_logical_flags wf_add_with_carry

lemma shape_exec_adr [intro]: "a64_wf s \<Longrightarrow> step_shape insn s (exec_adr env insn s)"
  unfolding exec_adr_def
  by (intro shape_rules; hypsubst?; (intro wf_cond)?; simp?; (erule wf_if, assumption)?)

lemma shape_exec_add_sub_immediate [intro]: "a64_wf s \<Longrightarrow> step_shape insn s (exec_add_sub_immediate insn s)"
  unfolding exec_add_sub_immediate_def
  by (intro shape_rules; hypsubst?; (intro wf_cond)?; simp?; (erule wf_if, assumption)?)

lemma shape_exec_logical_immediate [intro]: "a64_wf s \<Longrightarrow> step_shape insn s (exec_logical_immediate env insn s)"
  unfolding exec_logical_immediate_def
  by (intro shape_rules; hypsubst?; (intro wf_cond)?; simp?; (erule wf_if, assumption)?)

lemma shape_exec_move_wide [intro]: "a64_wf s \<Longrightarrow> step_shape insn s (exec_move_wide env insn s)"
  unfolding exec_move_wide_def
  by (intro shape_rules; hypsubst?; (intro wf_cond)?; simp?; (erule wf_if, assumption)?)

lemma shape_exec_bitfield [intro]: "a64_wf s \<Longrightarrow> step_shape insn s (exec_bitfield env insn s)"
  unfolding exec_bitfield_def
  by (intro shape_rules; hypsubst?; (intro wf_cond)?; simp?; (erule wf_if, assumption)?)

lemma shape_exec_extract [intro]: "a64_wf s \<Longrightarrow> step_shape insn s (exec_extract env insn s)"
  unfolding exec_extract_def
  by (intro shape_rules; hypsubst?; (intro wf_cond)?; simp?; (erule wf_if, assumption)?)

lemma shape_exec_add_sub_register [intro]: "a64_wf s \<Longrightarrow> step_shape insn s (exec_add_sub_register env insn s)"
  unfolding exec_add_sub_register_def
  by (intro shape_rules; hypsubst?; (intro wf_cond)?; simp?; (erule wf_if, assumption)?)

lemma shape_exec_logical_register [intro]: "a64_wf s \<Longrightarrow> step_shape insn s (exec_logical_register env insn s)"
  unfolding exec_logical_register_def
  by (intro shape_rules; hypsubst?; (intro wf_cond)?; simp?; (erule wf_if, assumption)?)

lemma shape_exec_three_source [intro]: "a64_wf s \<Longrightarrow> step_shape insn s (exec_three_source env insn s)"
  unfolding exec_three_source_def
  by (intro shape_rules; hypsubst?; (intro wf_cond)?; simp?; (erule wf_if, assumption)?)

lemma shape_exec_add_with_carry [intro]: "a64_wf s \<Longrightarrow> step_shape insn s (exec_add_with_carry env insn s)"
  unfolding exec_add_with_carry_def
  by (intro shape_rules; hypsubst?; (intro wf_cond)?; simp?; (erule wf_if, assumption)?)

lemma shape_exec_conditional_compare [intro]: "a64_wf s \<Longrightarrow> step_shape insn s (exec_conditional_compare env insn s)"
  unfolding exec_conditional_compare_def
  by (intro shape_rules; hypsubst?; (intro wf_cond)?; simp?; (erule wf_if, assumption)?)

lemma shape_exec_conditional_select [intro]: "a64_wf s \<Longrightarrow> step_shape insn s (exec_conditional_select env insn s)"
  unfolding exec_conditional_select_def
  by (intro shape_rules; hypsubst?; (intro wf_cond)?; simp?; (erule wf_if, assumption)?)

lemma shape_exec_one_source [intro]: "a64_wf s \<Longrightarrow> step_shape insn s (exec_one_source env insn s)"
  unfolding exec_one_source_def
  by (intro shape_rules; hypsubst?; (intro wf_cond)?; simp?; (erule wf_if, assumption)?)

lemma shape_exec_two_source [intro]: "a64_wf s \<Longrightarrow> step_shape insn s (exec_two_source env insn s)"
  unfolding exec_two_source_def
  by (intro shape_rules; hypsubst?; (intro wf_cond)?; simp?; (erule wf_if, assumption)?)

lemma shape_dp_immediate: "a64_wf s \<Longrightarrow> step_shape insn s (interp_exec_dp_immediate env insn s)"
  unfolding interp_exec_dp_immediate_def Let_def by (intro shape_if; rule; assumption)

lemma shape_dp_register: "a64_wf s \<Longrightarrow> step_shape insn s (interp_exec_dp_register env insn s)"
  unfolding interp_exec_dp_register_def interp_exec_dp_register_arithmetic_def interp_exec_dp_register_flags_def
    interp_exec_dp_register_select_def Let_def
  by (intro shape_if; rule; assumption)

lemma and_not_zero: "(v AND w) AND NOT w = 0" for v w :: u64
  by (simp add: and.assoc)

lemma wf_system [simp]:
  "a64_wf s \<Longrightarrow> a64_wf (s\<lparr>cpu_nzcv := v AND nzcv_bits\<rparr>)"
  "a64_wf s \<Longrightarrow> a64_wf (s\<lparr>interp_fpcr := v AND INTERP_FPCR_WRITABLE\<rparr>)"
  "a64_wf s \<Longrightarrow> a64_wf (s\<lparr>interp_fpsr := v AND INTERP_FPSR_WRITABLE\<rparr>)"
  by (simp_all add: a64_wf_def and_not_zero)

lemma shape_system_register:
  "signals_keep_registers env \<Longrightarrow> a64_wf s \<Longrightarrow> gpc = cpu_pc s \<Longrightarrow>
    step_shape insn s (interp_exec_system_register env insn gpc s)"
  unfolding interp_exec_system_register_def
  by (intro shape_let shape_if shape_retire shape_undefined shape_raise; hypsubst?; simp?; (rule shape_retire; simp)?)

lemma shape_dc_zva: "a64_wf s \<Longrightarrow> step_shape insn s (exec_dc_zva env insn s)"
  unfolding exec_dc_zva_def
  by (intro shape_let shape_access shape_retire; hypsubst?; simp add: a64_kept_pc)

lemma shape_exception:
  "signals_keep_registers env \<Longrightarrow> a64_wf s \<Longrightarrow> interp_block_ends insn \<Longrightarrow> step_shape insn s (exec_exception env insn s)"
  unfolding exec_exception_def
  by (intro shape_let shape_if shape_raise; hypsubst?; simp add: step_shape_def)

lemma shape_branches:
  assumes "a64_wf s" "interp_block_ends insn"
  shows "step_shape insn s (exec_branch_immediate env insn s)" "step_shape insn s (exec_branch_conditional insn s)"
    "step_shape insn s (exec_compare_branch insn s)" "step_shape insn s (exec_test_branch insn s)"
    "step_shape insn s (exec_branch_register env insn s)"
  unfolding exec_branch_immediate_def exec_branch_conditional_def exec_compare_branch_def exec_test_branch_def
    exec_branch_register_def
  using assms by (intro shape_let shape_if shape_branch shape_undefined; hypsubst?; simp)+

lemma shape_barrier: "a64_wf s \<Longrightarrow> matches 0xFFFFF01F 0xD503301F insn \<Longrightarrow> step_shape insn s (exec_barrier insn s)"
  unfolding exec_barrier_def
  by (intro shape_let shape_if shape_retire; hypsubst?; simp add: step_shape_def interp_block_ends_def)

lemma shape_branch_system:
  assumes "signals_keep_registers env" "a64_wf s"
  shows "step_shape insn s (interp_exec_branch_system env insn s)"
proof -
  have "step_shape insn s (exec_ic_ivau insn s)" if "matches 0xFFFFFFE0 0xD50B7520 insn"
    using assms that by (simp add: exec_ic_ivau_def step_shape_def interp_block_ends_def)
  moreover have "step_shape insn s (exec_msr_immediate env insn s)"
    using assms unfolding exec_msr_immediate_def by (intro shape_let shape_if shape_retire shape_undefined) simp_all
  ultimately show ?thesis
    using assms unfolding interp_exec_branch_system_def
    by (intro shape_if shape_retire shape_undefined)
      (auto simp: interp_block_ends_def intro!: shape_branches shape_exception shape_barrier shape_dc_zva
        shape_system_register)
qed

lemmas load_store_rules = shape_let shape_if shape_prod shape_option shape_sum shape_retire shape_undefined
  shape_undefined_after shape_alignment shape_access

lemma access_ok_if [simp]: "access_ok s (if c then x else y) = (if c then access_ok s x else access_ok s y)"
  by simp

lemma access_kept [simp]:
  assumes "a64_wf s1" "a64_kept s s1"
  shows "access_ok s (interp_load_bits env a n s1)" "access_ok s (interp_store_bits env a v n s1)"
    "access_ok s (interp_vec_load env r a n s1)" "access_ok s (interp_vec_store env r a n s1)"
    "access_ok s (interp_access_begin env a n s1)" "access_ok s (atomic_rmw env a n f s1)"
    "access_ok s (atomic_cas env a n e d s1)" "access_ok s (atomic_cas16 env a e2 d2 s1)"
    "access_ok s (interp_lse_minmax env a n v m g s1)"
  using assms by (intro access_ok_mono [OF assms(2)]; simp)+

lemma access_ok_binds [simp]:
  "a64_wf s \<Longrightarrow> access_ok s (bind_access (interp_vec_load env r a n s) (\<lambda>_. interp_vec_load env r' a' n))"
  "a64_wf s \<Longrightarrow> access_ok s (bind_access (interp_vec_store env r a n s) (\<lambda>_. interp_vec_store env r' a' n))"
  by (intro access_ok_bind; simp)+

lemma shape_literal: "a64_wf s \<Longrightarrow> step_shape insn s (exec_load_literal env insn s)"
  unfolding exec_load_literal_def
  by (intro load_store_rules; hypsubst?; simp add: a64_kept_pc)

lemma shape_vector_pair: "a64_wf s \<Longrightarrow> step_shape insn s (exec_vector_pair env insn s)"
  unfolding exec_vector_pair_def Let_def
  by (intro load_store_rules; simp add: a64_kept_pc)

lemma shape_register_pair: "a64_wf s \<Longrightarrow> step_shape insn s (exec_register_pair env insn s)"
  unfolding exec_register_pair_def Let_def
  by (intro load_store_rules; simp add: a64_kept_pc)

lemma shape_single: "a64_wf s \<Longrightarrow> step_shape insn s (interp_exec_load_store_single env insn s)"
  unfolding interp_exec_load_store_single_def Let_def
  by (intro load_store_rules; simp add: a64_kept_pc)

lemma shape_lse: "a64_wf s \<Longrightarrow> step_shape insn s (exec_lse_atomic env insn s)"
  unfolding exec_lse_atomic_def Let_def
  by (intro load_store_rules; simp add: a64_kept_pc)

lemma shape_ldapr: "a64_wf s \<Longrightarrow> step_shape insn s (exec_ldapr env insn s)"
  unfolding exec_ldapr_def Let_def
  by (intro load_store_rules; simp add: a64_kept_pc)

lemma shape_cas: "a64_wf s \<Longrightarrow> step_shape insn s (exec_cas env insn s)"
  unfolding exec_cas_def Let_def
  by (intro load_store_rules; simp add: a64_kept_pc)

lemma shape_ordered: "a64_wf s \<Longrightarrow> step_shape insn s (exec_ordered env insn s)"
  unfolding exec_ordered_def Let_def
  by (intro load_store_rules; simp add: a64_kept_pc)

lemma shape_casp:
  "a64_wf s \<Longrightarrow> gpc = cpu_pc s \<Longrightarrow>
    step_shape insn s (interp_exec_compare_exchange_pair env insn' gpc a rt rt2 rs s)"
  unfolding interp_exec_compare_exchange_pair_def Let_def
  by (intro load_store_rules; (simp add: a64_kept_pc; fail)?) (auto simp: a64_kept_pc split: prod.split)

lemma shape_load_exclusive: "a64_wf s \<Longrightarrow> step_shape insn s (exec_load_exclusive env insn s)"
  unfolding exec_load_exclusive_def Let_def
  by (intro load_store_rules; simp add: a64_kept_pc)

lemma access_ok_store_exclusive [simp]:
  "a64_wf s \<Longrightarrow> access_ok s (store_exclusive_access env insn bytes a s)"
  unfolding store_exclusive_access_def Let_def
  by (simp split: if_split) (intro conjI impI access_ok_bind; simp)

lemma shape_store_exclusive: "a64_wf s \<Longrightarrow> step_shape insn s (exec_store_exclusive env insn s)"
  unfolding exec_store_exclusive_def Let_def
  by (intro load_store_rules; simp add: a64_kept_pc)

lemma shape_exclusive: "a64_wf s \<Longrightarrow> step_shape insn s (interp_exec_load_store_exclusive env insn s)"
  unfolding interp_exec_load_store_exclusive_def Let_def
  by (intro shape_if shape_undefined shape_cas shape_ordered shape_casp shape_load_exclusive shape_store_exclusive; simp)

lemma shape_multiple_structures: "a64_wf s \<Longrightarrow> step_shape insn s (exec_multiple_structures env insn s)"
  unfolding exec_multiple_structures_def Let_def
  by (intro load_store_rules; simp add: a64_kept_pc)

lemma shape_single_structure: "a64_wf s \<Longrightarrow> step_shape insn s (exec_single_structure env insn s)"
  unfolding exec_single_structure_def Let_def
  by (intro load_store_rules; simp add: a64_kept_pc)

lemma shape_load_store: "a64_wf s \<Longrightarrow> step_shape insn s (interp_exec_load_store env insn s)"
  unfolding interp_exec_load_store_def interp_exec_load_store_structures_def interp_exec_load_store_literal_pair_def
    interp_exec_load_store_atomic_def
  by (intro shape_if shape_undefined shape_multiple_structures shape_single_structure shape_literal shape_vector_pair
      shape_register_pair shape_exclusive shape_ldapr shape_lse shape_single; simp)

section \<open>One step\<close>

definition simd_insn :: "u32 \<Rightarrow> bool" where
  "simd_insn insn \<longleftrightarrow> ifield 25 4 insn = 7 \<or> ifield 25 4 insn = 15"

definition no_simd :: "'w a64_env \<Rightarrow> bool" where
  "no_simd env \<longleftrightarrow> (\<forall>s pc insn. guest_fetch_u32 env s pc = Some insn \<longrightarrow> \<not> simd_insn insn)"

lemma shape_step_decoded:
  assumes "signals_keep_registers env" "a64_wf s" "\<not> simd_insn insn"
  shows "step_shape insn s (interp_step_decoded env exec_simd insn s)"
proof -
  have "ifield 25 4 insn < 16" using ifield_less [of 25 4 insn] by simp
  then have "ifield 25 4 insn = 0 \<or> ifield 25 4 insn = 1 \<or> ifield 25 4 insn = 2 \<or> ifield 25 4 insn = 3 \<or>
      ifield 25 4 insn = 8 \<or> ifield 25 4 insn = 9 \<or> ifield 25 4 insn = 10 \<or> ifield 25 4 insn = 11 \<or>
      ifield 25 4 insn = 4 \<or> ifield 25 4 insn = 6 \<or> ifield 25 4 insn = 12 \<or> ifield 25 4 insn = 14 \<or>
      ifield 25 4 insn = 5 \<or> ifield 25 4 insn = 13"
    using assms(3) unfolding simd_insn_def by presburger
  then show ?thesis
    using assms unfolding interp_step_decoded_def Let_def
    by (intro shape_if shape_raise shape_undefined shape_dp_immediate shape_branch_system shape_load_store
        shape_dp_register; simp)
qed

end
