(* ===== verification/A64_Machine.thy ===== *)
theory A64_Machine
  imports A64_Shape
begin

text \<open>
  A thread about to run a no-operation and a branch, on an engine whose signals are queued elsewhere; the
  instances of the theorems below are about it.
\<close>

definition sample_env :: "unit a64_env" where
  "sample_env = \<lparr>nonpie_lo = 0, nonpie_hi = 0, nonpie_bias = 0, raise_guest_signal = (\<lambda>_. Some), sigq_flush = (\<lambda>_ e. e),
    jit_fail = (\<lambda>_ _ _ e. e), clock_ns = (\<lambda>_. 0), host_readable = (\<lambda>_ _. True), host_writable = (\<lambda>_ _. True),
    host_atomic16 = (\<lambda>a. a AND 15 = 0), bus_active = (\<lambda>_. False), bus_fault = (\<lambda>_ _ _. 0),
    guest_fetch_u32 = (\<lambda>_ pc. if pc = 0x1000 then Some 0xD503201F else if pc = 0x1004 then Some 0x14000000 else None)\<rparr>"

definition sample_cpu :: "unit a64" where
  "sample_cpu = \<lparr>cpu_x = replicate 31 0, cpu_sp = 0x8000, cpu_pc = 0x1000, cpu_tls = 0, cpu_reason = 0,
    cpu_v = replicate 64 0, cpu_nzcv = 0, cpu_sigmask = 0, cpu_tpending = 0, cpu_sync_signal = 0, cpu_sync_code = 0,
    cpu_sync_address = 0, cpu_smc_va = 0, cpu_vdirty = False, cpu_fault_addr = 0, cpu_bus_ea = 0, interp_fpcr = 0,
    interp_fpsr = 0, monitor_valid = False, monitor_address = 0, monitor_bytes = 0, monitor_value = 0,
    monitor_value2 = 0, guest_memory = (\<lambda>_. 0), engine = ()\<rparr>"

lemma sample_env_ok: "signals_keep_registers sample_env" "no_simd sample_env"
  by (auto simp: signals_keep_registers_def no_simd_def sample_env_def simd_insn_def ifield_def split: if_splits)

lemma sample_cpu_ok: "a64_wf sample_cpu"
  by (simp add: a64_wf_def sample_cpu_def)

end
