(* ===== verification/A64_Block.thy ===== *)
theory A64_Block
  imports A64_Machine
begin

text \<open>
  Blocks of the AArch64 interpreter: the pre-scan visits consecutive instructions and stops at the first
  that ends a block, and the loop that runs a block returns, within its extent.
\<close>

section \<open>Steps\<close>

lemma shape_step:
  assumes "signals_keep_registers env" "a64_wf s"
    "\<And>insn. guest_fetch_u32 env s (cpu_pc s) = Some insn \<Longrightarrow> \<not> simd_insn insn"
  shows "case interp_step env exec_simd s of
      (INTERP_NEXT, s') \<Rightarrow> a64_wf s' \<and> cpu_pc s' = cpu_pc s + 4
    | (INTERP_RETIRED_END, s') \<Rightarrow> a64_wf s' \<and>
        (\<exists>insn. guest_fetch_u32 env s (cpu_pc s) = Some insn \<and> interp_block_ends insn)
    | (INTERP_END, s') \<Rightarrow> a64_wf s' \<and> a64_kept s s'
    | (Abandoned, s') \<Rightarrow> a64_wf s' \<and> a64_kept s s'
    | (Process_exit, s') \<Rightarrow> True"
proof (cases "guest_fetch_u32 env s (cpu_pc s)")
  case None
  then show ?thesis using assms(2) by (simp add: interp_step_def a64_kept_def)
next
  case (Some insn)
  then show ?thesis
    using shape_step_decoded [OF assms(1,2) assms(3) [OF Some], of exec_simd]
    by (auto simp: interp_step_def step_shape_def split: prod.splits interp_outcome.splits)
qed

section \<open>The pre-scan\<close>

lemma prescan_spec:
  assumes "prescan fetch cursor count = (e, n)" "count \<le> INTERP_BLOCK_MAX_INSNS"
  shows "count \<le> n \<and> n \<le> INTERP_BLOCK_MAX_INSNS \<and> e = cursor + 4 * of_nat (n - count) \<and>
    (\<forall>i<n - count - 1. \<exists>insn. fetch (cursor + 4 * of_nat i) = Some insn \<and> \<not> interp_block_ends insn) \<and>
    (count < INTERP_BLOCK_MAX_INSNS \<longrightarrow> count < n)"
  using assms
proof (induction fetch cursor count rule: prescan.induct)
  case (1 fetch cursor count)
  show ?case
  proof (cases "count \<ge> INTERP_BLOCK_MAX_INSNS")
    case True
    then show ?thesis using 1(2,3) by (simp add: prescan.simps)
  next
    case less: False
    show ?thesis
    proof (cases "\<exists>insn. fetch cursor = Some insn \<and> \<not> interp_block_ends insn")
      case True
      then obtain insn where insn: "fetch cursor = Some insn" "\<not> interp_block_ends insn" by blast
      with 1(2) less have "prescan fetch (cursor + 4) (count + 1) = (e, n)"
        by (subst (asm) prescan.simps) simp
      from 1(1) [OF less insn(1,2) this] less
      have IH: "count + 1 \<le> n" "n \<le> INTERP_BLOCK_MAX_INSNS" "e = cursor + 4 + 4 * of_nat (n - (count + 1))"
        "\<forall>i<n - (count + 1) - 1. \<exists>insn. fetch (cursor + 4 + 4 * of_nat i) = Some insn \<and> \<not> interp_block_ends insn"
        by auto
      have "\<exists>insn. fetch (cursor + 4 * of_nat i) = Some insn \<and> \<not> interp_block_ends insn" if "i < n - count - 1" for i
      proof (cases i)
        case (Suc j)
        then show ?thesis using IH(4) that by (auto simp: algebra_simps)
      qed (use insn in simp)
      moreover have "(of_nat (n - count) :: u64) = 1 + of_nat (n - (count + 1))"
        using IH(1) by (simp add: of_nat_diff)
      ultimately show ?thesis using IH(1-3) by (auto simp: algebra_simps)
    next
      case False
      then have "prescan fetch cursor count = (cursor + 4, count + 1)"
        using less by (subst prescan.simps) (auto split: option.splits)
      then show ?thesis using 1(2) less by auto
    qed
  qed
qed

section \<open>The loop of a block\<close>

text \<open>\<open>k\<close> bounds the instructions left between the program counter and the end of the block.\<close>

lemma run_loop_returns:
  assumes "signals_keep_registers env" "no_simd env" "unat (guest_end block) + 4 \<le> 2 ^ 64"
    "a64_wf s" "unat (guest_end block) \<le> unat (cpu_pc s) + 4 * k"
  shows "\<exists>out e s'. run_loop env exec_simd irq block executed s = Some (out, e, s') \<and> e \<le> executed + k \<and>
    (out \<noteq> Process_exit \<longrightarrow> a64_wf s')"
  using assms(4,5)
proof (induction k arbitrary: s executed)
  case 0
  then show ?case by (subst run_loop.simps) (auto simp: word_le_nat_alt)
next
  case (Suc k)
  show ?case
  proof (cases "(executed \<noteq> 0 \<and> irq executed) \<or> cpu_pc s < guest_start block \<or> cpu_pc s \<ge> guest_end block")
    case True
    then show ?thesis using Suc.prems by (subst run_loop.simps) auto
  next
    case False
    obtain out s1 where step: "interp_step env exec_simd s = (out, s1)" by (cases "interp_step env exec_simd s")
    have shape: "case (out, s1) of
        (INTERP_NEXT, s') \<Rightarrow> a64_wf s' \<and> cpu_pc s' = cpu_pc s + 4
      | (INTERP_RETIRED_END, s') \<Rightarrow> a64_wf s' \<and>
          (\<exists>insn. guest_fetch_u32 env s (cpu_pc s) = Some insn \<and> interp_block_ends insn)
      | (INTERP_END, s') \<Rightarrow> a64_wf s' \<and> a64_kept s s'
      | (Abandoned, s') \<Rightarrow> a64_wf s' \<and> a64_kept s s'
      | (Process_exit, s') \<Rightarrow> True"
      using shape_step [OF assms(1) Suc.prems(1), of exec_simd] assms(2) unfolding step no_simd_def by blast
    show ?thesis
    proof (cases "out = INTERP_NEXT")
      case True
      with shape have s1: "a64_wf s1" "cpu_pc s1 = cpu_pc s + 4" by simp_all
      have "unat (cpu_pc s) < unat (guest_end block)" using False by (simp add: word_less_nat_alt not_le)
      then have "unat (cpu_pc s + 4) = unat (cpu_pc s) + 4"
        using assms(3) unat_add_lem [of "cpu_pc s" 4] by simp
      then have "unat (guest_end block) \<le> unat (cpu_pc s1) + 4 * k" using Suc.prems(2) s1 by simp
      from Suc.IH [OF s1(1) this, of "executed + 1"] show ?thesis
        using False step True by (subst run_loop.simps) auto
    next
      case out: False
      then show ?thesis
        using False step shape by (subst run_loop.simps) (auto split: interp_outcome.splits)
    qed
  qed
qed

text \<open>While the code stays as the pre-scan saw it, a block leaves by its last instruction only.\<close>

lemma run_loop_extent:
  assumes "signals_keep_registers env" "no_simd env" "\<And>t. guest_fetch_u32 env t = fetch"
    "prescan fetch (guest_start block) 0 = (guest_end block, insn_count block)"
    "run_loop env exec_simd irq block executed s = Some (INTERP_RETIRED_END, e, s')"
    "a64_wf s" "cpu_pc s = guest_start block + 4 * of_nat executed" "executed < insn_count block"
  shows "e = insn_count block"
  using assms(5-8)
proof (induction "insn_count block - executed" arbitrary: s executed rule: less_induct)
  case less
  have scan: "\<forall>i<insn_count block - 1. \<exists>insn. fetch (guest_start block + 4 * of_nat i) = Some insn \<and> \<not> interp_block_ends insn"
    "guest_end block = guest_start block + 4 * of_nat (insn_count block)"
    using prescan_spec [OF assms(4)] by simp_all
  obtain out s1 where step: "interp_step env exec_simd s = (out, s1)" by (cases "interp_step env exec_simd s")
  have shape: "case (out, s1) of
      (INTERP_NEXT, s') \<Rightarrow> a64_wf s' \<and> cpu_pc s' = cpu_pc s + 4
    | (INTERP_RETIRED_END, s') \<Rightarrow> a64_wf s' \<and>
        (\<exists>insn. guest_fetch_u32 env s (cpu_pc s) = Some insn \<and> interp_block_ends insn)
    | (INTERP_END, s') \<Rightarrow> a64_wf s' \<and> a64_kept s s'
    | (Abandoned, s') \<Rightarrow> a64_wf s' \<and> a64_kept s s'
    | (Process_exit, s') \<Rightarrow> True"
    using shape_step [OF assms(1) less.prems(2), of exec_simd] assms(2) unfolding step no_simd_def by blast
  have go: "run_loop env exec_simd irq block executed s =
      (let (outcome, s1) = interp_step env exec_simd s
       in if outcome = INTERP_NEXT then run_loop env exec_simd irq block (executed + 1) s1
          else Some (outcome, if outcome = INTERP_RETIRED_END then executed + 1 else executed, s1))"
    using less.prems(1) by (subst run_loop.simps, subst (asm) run_loop.simps) (auto split: if_splits)
  show ?case
  proof (cases out)
    case INTERP_NEXT
    with shape have s1: "a64_wf s1" "cpu_pc s1 = guest_start block + 4 * of_nat (executed + 1)"
      using less.prems(3) by (simp_all add: algebra_simps)
    have run: "run_loop env exec_simd irq block (executed + 1) s1 = Some (INTERP_RETIRED_END, e, s')"
      using less.prems(1) go step INTERP_NEXT by simp
    show ?thesis
    proof (cases "executed + 1 < insn_count block")
      case True
      then show ?thesis using less.hyps [of "executed + 1" s1] run s1 by simp
    next
      case False
      then have "insn_count block = executed + 1" using less.prems(4) by simp
      then have "cpu_pc s1 = guest_end block" using s1 scan(2) by simp
      then show ?thesis using run by (subst (asm) run_loop.simps) (simp split: if_splits)
    qed
  next
    case INTERP_RETIRED_END
    with shape obtain insn where insn: "fetch (cpu_pc s) = Some insn" "interp_block_ends insn"
      using assms(3) by auto
    have "\<not> executed < insn_count block - 1"
      using insn scan(1) less.prems(3) by auto
    then have "insn_count block = executed + 1" using less.prems(4) by linarith
    then show ?thesis using less.prems(1) go step INTERP_RETIRED_END by simp
  qed (use less.prems(1) go step in simp_all)
qed

lemma translate_block_spec:
  "guest_start (translate_block env pc s) = pc"
  "0 < insn_count (translate_block env pc s)"
  "insn_count (translate_block env pc s) \<le> INTERP_BLOCK_MAX_INSNS"
  "guest_end (translate_block env pc s) = pc + 4 * of_nat (insn_count (translate_block env pc s))"
  "prescan (guest_fetch_u32 env s) pc 0 = (guest_end (translate_block env pc s), insn_count (translate_block env pc s))"
  using prescan_spec [of "guest_fetch_u32 env s" pc 0]
  by (auto simp: translate_block_def INTERP_BLOCK_MAX_INSNS_def split: prod.splits)

lemma sample_run:
  "run_block sample_env (\<lambda>_ s. (INTERP_END, s)) (\<lambda>_. False) (translate_block sample_env (cpu_pc sample_cpu) sample_cpu) sample_cpu =
    Some (INTERP_RETIRED_END, 2, sample_cpu\<lparr>cpu_pc := 0x1004, cpu_reason := R_BRANCH\<rparr>)"
proof -
  have "prescan (guest_fetch_u32 sample_env sample_cpu) 0x1000 0 = (0x1008, 2)"
    by (simp add: prescan.simps sample_env_def interp_block_ends_def matches_def ifield_def INTERP_BLOCK_MAX_INSNS_def)
  then have b: "translate_block sample_env (cpu_pc sample_cpu) sample_cpu =
      \<lparr>guest_start = 0x1000, guest_end = 0x1008, insn_count = 2\<rparr>"
    by (simp add: translate_block_def sample_cpu_def)
  show ?thesis
    unfolding b run_block_def
    by (simp add: run_loop.simps sample_env_def sample_cpu_def interp_step_def interp_step_decoded_def Let_def ifield_def
        interp_exec_branch_system_def matches_def retire_def exec_branch_immediate_def iflag_def branch_to_def
        branch_offset_def wfield_def interp_sext_def)
qed





end
