(* ===== verification/A64_Bytes.thy ===== *)
theory A64_Bytes
  imports A64_Machine
begin

text \<open>
  Guest memory as bytes: what a load of a stored value reads, for any width, and that a store touches its
  own bytes only.
\<close>

section \<open>Bytes of memory\<close>

lemma bit_byte_then:
  fixes x :: u8 and w :: u64
  shows "bit (ucast x + 256 * w) k \<longleftrightarrow> k < 64 \<and> (if k < 8 then bit x k else bit w (k - 8))"
proof -
  have "ucast x AND push_bit 8 w = 0"
    by (rule bit_word_eqI) (auto simp: bit_simps dest: bit_imp_le_length)
  then have "ucast x + 256 * w = ucast x OR push_bit 8 w"
    by (simp add: disjunctive_add_eq_or push_bit_eq_mult mult.commute)
  then show ?thesis by (auto simp: bit_simps dest: bit_imp_le_length)
qed

lemma bit_horner:
  "bit (horner_sum (ucast :: u8 \<Rightarrow> u64) 256 bs) k \<longleftrightarrow> k < 64 \<and> k < 8 * length bs \<and> bit (bs ! (k div 8)) (k mod 8)"
proof (induction bs arbitrary: k)
  case (Cons b bs)
  show ?case
  proof (cases "k < 8")
    case True
    then show ?thesis by (simp add: bit_byte_then)
  next
    case False
    then have "k div 8 = Suc ((k - 8) div 8)" "(k - 8) mod 8 = k mod 8"
      by (simp_all add: le_div_geq le_mod_geq not_less)
    then show ?thesis
      using False by (auto simp: Cons.IH bit_byte_then)
  qed
qed simp

lemma bit_peek:
  "bit (peek s h n) k \<longleftrightarrow> k < 64 \<and> k < 8 * n \<and> bit (guest_memory s (h + of_nat (k div 8))) (k mod 8)"
  by (auto simp: peek_def bit_horner span_of_def less_mult_imp_div_less mult.commute)

lemma poke_memory:
  assumes "n \<le> 8"
  shows "guest_memory (poke h n v s) a =
    (if unat (a - h) < n then ucast (drop_bit (8 * unat (a - h)) v) else guest_memory s a)"
proof -
  have "fold (\<lambda>i m. m(h + of_nat i := ucast (drop_bit (8 * i) v))) [0..<n] mem a =
    (if unat (a - h) < n then ucast (drop_bit (8 * unat (a - h)) v) else mem a)" for mem :: "u64 \<Rightarrow> u8"
    using assms
  proof (induction n)
    case (Suc n)
    have "a = h + of_nat n \<longleftrightarrow> unat (a - h) = n"
    proof
      assume "a = h + of_nat n"
      then show "unat (a - h) = n" using Suc.prems by (simp add: unat_of_nat)
    next
      assume "unat (a - h) = n"
      then have "a - h = of_nat n" by auto
      then show "a = h + of_nat n" by (simp add: algebra_simps)
    qed
    with Suc show ?case by auto
  qed simp
  then show ?thesis by (simp add: poke_def)
qed

lemma peek_poke:
  assumes "n \<le> 8"
  shows "peek (poke h n v s) h n = take_bit (8 * n) v"
proof (rule bit_word_eqI)
  fix k assume "k < LENGTH(64)"
  then have k: "k < 64" by simp
  then have "unat (of_nat (k div 8) :: u64) = k div 8" by (simp add: unat_of_nat)
  moreover have "k div 8 < n \<longleftrightarrow> k < 8 * n" by auto
  moreover have "8 * (k div 8) + k mod 8 = k" by simp
  ultimately show "bit (peek (poke h n v s) h n) k = bit (take_bit (8 * n) v) k"
    using k assms by (auto simp: bit_peek poke_memory bit_simps)
qed

lemma peek_poke_other:
  assumes "n \<le> 8" "\<And>i. i < m \<Longrightarrow> \<not> unat (a + of_nat i - h) < n"
  shows "peek (poke h n v s) a m = peek s a m"
  by (rule bit_word_eqI) (auto simp: bit_peek poke_memory assms)

lemma poke_peek [simp]:
  assumes "n \<le> 8"
  shows "poke h n (peek s h n) s = s"
proof -
  have "guest_memory (poke h n (peek s h n) s) a = guest_memory s a" for a
  proof -
    have "(ucast (drop_bit (8 * unat (a - h)) (peek s h n)) :: u8) = guest_memory s a" if "unat (a - h) < n"
      using that assms by (intro bit_word_eqI) (auto simp: bit_simps bit_peek)
    then show ?thesis using assms by (simp add: poke_memory)
  qed
  then have "guest_memory (poke h n (peek s h n) s) = guest_memory s" by (rule ext)
  then show ?thesis by (simp add: poke_def)
qed

end
