(* ===== verification/A64_Exclusive.thy ===== *)
theory A64_Exclusive
  imports A64_Bytes
begin

text \<open>
  Accesses that succeeded, and the exclusive monitor: load-exclusive and store-exclusive as one
  compare-and-exchange, CLREX, and misaligned pairs.
\<close>

section \<open>What an access that succeeded did\<close>

lemma then_do_next:
  assumes "then_do r f = (INTERP_NEXT, s')"
  obtains v s1 where "r = Done v s1" "f v s1 = (INTERP_NEXT, s')"
  using assms by (cases r) (auto simp: then_do_def)

lemma bind_done:
  assumes "bind_access r f = Done v s'"
  obtains u s1 where "r = Done u s1" "f u s1 = Done v s'"
  using assms by (cases r) (auto simp: bind_access_def)

lemma begin_done: "interp_access_begin env a n s = Done u s' \<Longrightarrow> s' = s"
  by (auto simp: interp_access_begin_def Let_def split: if_splits)

lemma touch_done: "touch env a n w s = Done u s' \<Longrightarrow> s' = s"
  by (auto simp: touch_def split: if_splits)

lemma load_done:
  assumes "interp_load_bits env a n s = Done v s'"
  shows "s' = s" "v = peek s (interp_guest_pointer env a) n"
  using assms unfolding interp_load_bits_def
  by (auto elim!: bind_done dest!: begin_done touch_done)

lemma load_doneD: "interp_load_bits env a n s = Done v s' \<Longrightarrow> s' = s \<and> v = peek s (interp_guest_pointer env a) n"
  using load_done by blast

lemma store_done:
  assumes "interp_store_bits env a v n s = Done u s'"
  shows "s' = poke (interp_guest_pointer env a) n v s"
  using assms unfolding interp_store_bits_def
  by (auto elim!: bind_done dest!: begin_done touch_done)

lemma rmw_done:
  assumes "atomic_rmw env a n f s = Done v s'"
  shows "v = peek s (interp_guest_pointer env a) n" "s' = poke (interp_guest_pointer env a) n (f v) s"
  using assms unfolding atomic_rmw_def Let_def
  by (auto elim!: bind_done dest!: begin_done touch_done)

lemma cas_done:
  assumes "atomic_cas env a n expected desired s = Done v s'" "n \<le> 8"
  shows "v = peek s (interp_guest_pointer env a) n"
    "s' = (if v = expected then poke (interp_guest_pointer env a) n desired s else s)"
proof -
  from rmw_done [OF assms(1) [unfolded atomic_cas_def]]
  show v: "v = peek s (interp_guest_pointer env a) n"
    and "s' = (if v = expected then poke (interp_guest_pointer env a) n desired s else s)"
    using assms(2) by simp_all
qed

lemma pow_field: "ifield lo 2 insn < 4" "(2::nat) ^ ifield lo 2 insn \<le> 8"
proof -
  show l: "ifield lo 2 insn < 4" using ifield_less [of lo 2 insn] by simp
  then have "(2::nat) ^ ifield lo 2 insn \<le> 2 ^ 3" by (intro power_increasing) auto
  then show "(2::nat) ^ ifield lo 2 insn \<le> 8" by simp
qed

section \<open>Exclusive accesses\<close>

text \<open>
  \<open>same_monitor s t\<close>: whatever happened between the two states (other threads' stores, other
  instructions), the monitor is still the one of \<open>s\<close>.
\<close>

definition same_monitor :: "'w a64 \<Rightarrow> 'w a64 \<Rightarrow> bool" where
  "same_monitor s t \<longleftrightarrow> monitor_valid t = monitor_valid s \<and> monitor_address t = monitor_address s \<and>
    monitor_bytes t = monitor_bytes s \<and> monitor_value t = monitor_value s \<and> monitor_value2 t = monitor_value2 s"

lemma put_monitor [simp]:
  "monitor_valid (put_width b r v s) = monitor_valid s" "monitor_address (put_width b r v s) = monitor_address s"
  "monitor_bytes (put_width b r v s) = monitor_bytes s" "monitor_value (put_width b r v s) = monitor_value s"
  "monitor_value2 (put_width b r v s) = monitor_value2 s" "guest_memory (put_width b r v s) = guest_memory s"
  by (simp_all add: put_width_def interp_set_gpr_def interp_set_gpr32_def)

lemma load_exclusive_monitor:
  assumes "exec_load_exclusive env ld s = (INTERP_NEXT, s1)" "\<not> iflag 21 ld"
  shows "monitor_valid s1" "monitor_address s1 = interp_gpr_sp s (ifield 5 5 ld)"
    "monitor_bytes s1 = 2 ^ ifield 30 2 ld"
    "monitor_value s1 = peek s (interp_guest_pointer env (interp_gpr_sp s (ifield 5 5 ld))) (2 ^ ifield 30 2 ld)"
  using assms unfolding exec_load_exclusive_def Let_def
  by (auto simp: interp_undefined_def interp_alignment_fault_def retire_def split: if_splits
      elim!: then_do_next dest!: load_doneD)

lemma poke_take [simp]: "n \<le> 8 \<Longrightarrow> poke h n (take_bit (8 * n) v) s = poke h n v s"
proof -
  assume n: "n \<le> 8"
  have "guest_memory (poke h n (take_bit (8 * n) v) s) a = guest_memory (poke h n v s) a" for a
    using n by (auto simp: poke_memory intro!: bit_word_eqI simp: bit_simps)
  then have "guest_memory (poke h n (take_bit (8 * n) v) s) = guest_memory (poke h n v s)" by (rule ext)
  then show ?thesis by (simp add: poke_def)
qed

lemma store_exclusive_exact:
  fixes s :: "'w a64"
  assumes "exec_store_exclusive env st s = (INTERP_NEXT, s')" "\<not> iflag 21 st"
  defines "address \<equiv> interp_gpr_sp s (ifield 5 5 st)" and "bytes \<equiv> (2::nat) ^ ifield 30 2 st"
  defines "host \<equiv> interp_guest_pointer env address"
  defines "stores \<equiv> monitor_valid s \<and> monitor_address s = address \<and> monitor_bytes s = bytes \<and>
      peek s host bytes = take_bit (8 * bytes) (monitor_value s)"
  shows "s' = interp_set_gpr32 (ifield 16 5 st) (if stores then 0 else 1)
      (interp_monitor_clear (if stores then poke host bytes (interp_gpr s (ifield 0 5 st)) s else s))\<lparr>cpu_pc := cpu_pc s + 4\<rparr>"
proof -
  have b: "bytes \<le> 8" unfolding bytes_def by (rule pow_field)
  define acc where "acc = (if monitor_valid s \<and> monitor_address s = address \<and> monitor_bytes s = bytes
     then store_exclusive_access env st bytes address s else Done True s)"
  define fin :: "bool \<Rightarrow> 'w a64 \<Rightarrow> 'w interp" where "fin = (\<lambda>failed s1. retire (cpu_pc s) (interp_set_gpr32 (ifield 16 5 st) (of_bool failed) (interp_monitor_clear s1)))"
  have "exec_store_exclusive env st s =
      (if ifield 10 5 st \<noteq> 31 then interp_undefined env st ''loads and stores -- unallocated store-exclusive encoding'' s
       else if interp_atomic_pointer env address bytes = None then interp_alignment_fault address s
       else then_do acc fin)"
    using assms(2) by (simp add: exec_store_exclusive_def Let_def address_def bytes_def acc_def fin_def)
  then have "then_do acc fin = (INTERP_NEXT, s')"
    using assms(1) by (auto simp: interp_undefined_def interp_alignment_fault_def split: if_split_asm)
  then obtain failed s1 where acc: "acc = Done failed s1" and "fin failed s1 = (INTERP_NEXT, s')"
    by (rule then_do_next)
  then have s': "s' = (interp_set_gpr32 (ifield 16 5 st) (of_bool failed) (interp_monitor_clear s1))\<lparr>cpu_pc := cpu_pc s + 4\<rparr>"
    by (simp add: fin_def retire_def)
  have "failed = (\<not> stores) \<and> s1 = (if stores then poke host bytes (interp_gpr s (ifield 0 5 st)) s else s)"
  proof (cases "monitor_valid s \<and> monitor_address s = address \<and> monitor_bytes s = bytes")
    case True
    then have "store_exclusive_access env st bytes address s = Done failed s1" using acc by (simp add: acc_def)
    then obtain old where "atomic_cas env address bytes (take_bit (8 * bytes) (monitor_value s))
        (take_bit (8 * bytes) (interp_gpr s (ifield 0 5 st))) s = Done old s1"
      "failed = (old \<noteq> take_bit (8 * bytes) (monitor_value s))"
      using assms(2) unfolding store_exclusive_access_def Let_def by (auto elim!: bind_done)
    from cas_done [OF this(1) b] this(2) True b show ?thesis
      by (auto simp: stores_def host_def)
  next
    case False
    then show ?thesis using acc by (auto simp: stores_def acc_def)
  qed
  then show ?thesis unfolding s' by simp
qed

lemma store_after_load:
  fixes s :: "'w a64"
  assumes "exec_load_exclusive env ld s = (INTERP_NEXT, s1)" "\<not> iflag 21 ld"
    "same_monitor s1 s2" "a64_wf s2"
    "exec_store_exclusive env st s2 = (INTERP_NEXT, s3)" "\<not> iflag 21 st"
    "ifield 30 2 st = ifield 30 2 ld" "interp_gpr_sp s2 (ifield 5 5 st) = interp_gpr_sp s (ifield 5 5 ld)"
    "ifield 16 5 st \<noteq> 31"
  defines "host \<equiv> interp_guest_pointer env (interp_gpr_sp s (ifield 5 5 ld))" and "bytes \<equiv> (2::nat) ^ ifield 30 2 ld"
  defines "unchanged \<equiv> peek s2 host bytes = peek s host bytes"
  shows "interp_gpr s3 (ifield 16 5 st) = (if unchanged then 0 else 1) \<and>
    guest_memory s3 = guest_memory (if unchanged then poke host bytes (interp_gpr s2 (ifield 0 5 st)) s2 else s2) \<and>
    \<not> monitor_valid s3"
proof -
  note m = load_exclusive_monitor [OF assms(1,2), folded host_def bytes_def]
  have t: "take_bit (8 * bytes) (peek s host bytes) = peek s host bytes"
    by (rule bit_word_eqI) (auto simp: bit_simps bit_peek)
  have "ifield 16 5 st < 31"
    using ifield_less [of 16 5 st] assms(9) by simp
  then have "ifield 16 5 st < length (cpu_x s2)" using assms(4) by (simp add: a64_wf_def)
  then show ?thesis
    using store_exclusive_exact [OF assms(5,6)] assms(3,7,8,9) m t
    by (simp add: same_monitor_def host_def [symmetric] bytes_def [symmetric] unchanged_def interp_gpr_def
        interp_set_gpr32_def interp_set_gpr_def interp_monitor_clear_def poke_def)
qed

text \<open>
Claim C23: load-exclusive and store-exclusive are a compare-and-exchange across whatever happens in between.
After a load-exclusive of an address, and any steps that leave the monitor alone, a store-exclusive of the
same width to the address stores, and answers 0, exactly when memory still holds the value that was
loaded; otherwise it answers 1 and memory is unchanged.  Either way the monitor is spent, so that a second
store-exclusive fails.
\<close>

theorem a64_exclusive_pair:
  fixes s :: "'w a64"
  assumes "exec_load_exclusive env ld s = (INTERP_NEXT, s1)" "\<not> iflag 21 ld"
    "same_monitor s1 s2" "a64_wf s2"
    "exec_store_exclusive env st s2 = (INTERP_NEXT, s3)" "\<not> iflag 21 st"
    "ifield 30 2 st = ifield 30 2 ld" "interp_gpr_sp s2 (ifield 5 5 st) = interp_gpr_sp s (ifield 5 5 ld)"
    "ifield 16 5 st \<noteq> 31"
  defines "host \<equiv> interp_guest_pointer env (interp_gpr_sp s (ifield 5 5 ld))" and "bytes \<equiv> (2::nat) ^ ifield 30 2 ld"
  defines "unchanged \<equiv> peek s2 host bytes = peek s host bytes"
  shows "interp_gpr s3 (ifield 16 5 st) = (if unchanged then 0 else 1) \<and>
    guest_memory s3 = guest_memory (if unchanged then poke host bytes (interp_gpr s2 (ifield 0 5 st)) s2 else s2) \<and>
    \<not> monitor_valid s3"
  unfolding host_def bytes_def unchanged_def by (rule store_after_load [OF assms(1-9)])

text \<open>\<open>ldxr xzr, [x1]\<close>, a store of 5 by another thread, \<open>stxr w2, x3, [x1]\<close>: the store-exclusive fails.\<close>

definition sample_locked :: "unit a64" where
  "sample_locked = sample_cpu\<lparr>cpu_x := (replicate 31 0)[1 := 0x2000, 3 := 7]\<rparr>"

definition sample_loaded :: "unit a64" where
  "sample_loaded = sample_locked\<lparr>monitor_valid := True, monitor_address := 0x2000, monitor_bytes := 8, cpu_pc := 0x1004\<rparr>"

definition sample_stored :: "unit a64" where
  "sample_stored = poke 0x2000 8 5 sample_loaded"

lemma peek_zero: "guest_memory s = (\<lambda>_. 0) \<Longrightarrow> peek s h n = 0"
  by (rule bit_word_eqI) (simp add: bit_peek)

lemma sample_loads: "exec_load_exclusive sample_env 0xC85F7C3F sample_locked = (INTERP_NEXT, sample_loaded)"
  by (simp add: exec_load_exclusive_def sample_locked_def sample_loaded_def sample_cpu_def sample_env_def Let_def ifield_def
      iflag_def interp_gpr_sp_def interp_atomic_pointer_def interp_guest_pointer_def interp_load_bits_def
      interp_access_begin_def touch_def bind_access_def then_do_def peek_zero retire_def put_width_def
      interp_set_gpr_def list_all_iff)

lemma sample_stores:
  "exec_store_exclusive sample_env 0xC8027C23 sample_stored =
    (INTERP_NEXT, snd (exec_store_exclusive sample_env 0xC8027C23 sample_stored))"
  by (simp add: exec_store_exclusive_def sample_stored_def sample_loaded_def sample_locked_def sample_cpu_def sample_env_def Let_def ifield_def
      iflag_def interp_gpr_sp_def interp_atomic_pointer_def interp_guest_pointer_def store_exclusive_access_def
      atomic_cas_def atomic_rmw_def interp_access_begin_def touch_def bind_access_def then_do_def poke_def
      span_of_def retire_def list_all_iff)

theorem a64_exclusive_pair_witness:
  "interp_gpr (snd (exec_store_exclusive sample_env 0xC8027C23 sample_stored)) 2 = 1"
proof -
  have r: "interp_gpr_sp sample_locked (Suc 0) = 0x2000" "interp_gpr_sp sample_stored (Suc 0) = 0x2000"
      "interp_guest_pointer sample_env 0x2000 = 0x2000"
    by (simp_all add: interp_gpr_sp_def sample_locked_def sample_loaded_def sample_stored_def poke_def
        interp_guest_pointer_def sample_env_def)
  have p: "peek sample_stored 0x2000 8 = 5" "peek sample_locked 0x2000 8 = 0"
    by (simp_all add: sample_stored_def peek_poke, simp add: peek_zero sample_locked_def sample_cpu_def)
  have w: "a64_wf sample_stored" "same_monitor sample_loaded sample_stored"
    by (simp_all add: a64_wf_def sample_stored_def sample_loaded_def sample_locked_def sample_cpu_def poke_def
        same_monitor_def)
  show ?thesis
    using a64_exclusive_pair [OF sample_loads _ w(2,1) sample_stores]
    by (simp add: ifield_def iflag_def r p)
qed

text \<open>
Claim C27: CLREX does not clear the monitor.  The instruction is executed as a barrier, so that a
store-exclusive after load-exclusive and CLREX still stores and reports success when memory is unchanged,
although CLREX is there to make it fail.
\<close>

theorem a64_clrex_ignored:
  assumes "exec_load_exclusive env ld s = (INTERP_NEXT, s1)" "\<not> iflag 21 ld"
    "interp_step_decoded env exec_simd 0xD503305F s1 = (out, s2)" "a64_wf s2"
    "exec_store_exclusive env st s2 = (INTERP_NEXT, s3)" "\<not> iflag 21 st"
    "ifield 30 2 st = ifield 30 2 ld" "interp_gpr_sp s2 (ifield 5 5 st) = interp_gpr_sp s (ifield 5 5 ld)"
    "ifield 16 5 st \<noteq> 31"
  shows "out = INTERP_NEXT \<and> monitor_valid s2 \<and> interp_gpr s3 (ifield 16 5 st) = 0"
proof -
  have s2: "out = INTERP_NEXT" "s2 = s1\<lparr>cpu_pc := cpu_pc s1 + 4\<rparr>"
    using assms(3) by (simp_all add: interp_step_decoded_def ifield_def interp_exec_branch_system_def matches_def
        exec_barrier_def retire_def Let_def)
  note m = load_exclusive_monitor [OF assms(1,2)]
  have s1: "guest_memory s1 = guest_memory s"
    using assms(1,2) unfolding exec_load_exclusive_def Let_def
    by (auto simp: interp_undefined_def interp_alignment_fault_def retire_def split: if_splits
        elim!: then_do_next dest!: load_doneD)
  have "peek s2 h n = peek s h n" for h n
    by (simp add: peek_def s2(2) s1)
  moreover have "same_monitor s1 s2" by (simp add: same_monitor_def s2)
  ultimately show ?thesis
    using store_after_load [OF assms(1,2) _ assms(4-9)] m(1) s2 by simp
qed

definition sample_cleared :: "unit a64" where
  "sample_cleared = sample_loaded\<lparr>cpu_pc := 0x1008\<rparr>"

lemma sample_clears:
  "interp_step_decoded sample_env (\<lambda>_ s. (INTERP_END, s)) 0xD503305F sample_loaded = (INTERP_NEXT, sample_cleared)"
  by (simp add: interp_step_decoded_def ifield_def interp_exec_branch_system_def matches_def exec_barrier_def
      retire_def Let_def sample_cleared_def sample_loaded_def)

lemma sample_stores_after_clrex:
  "exec_store_exclusive sample_env 0xC8027C23 sample_cleared =
    (INTERP_NEXT, snd (exec_store_exclusive sample_env 0xC8027C23 sample_cleared))"
  by (simp add: exec_store_exclusive_def sample_cleared_def sample_loaded_def sample_locked_def sample_cpu_def sample_env_def
      Let_def ifield_def iflag_def interp_gpr_sp_def interp_atomic_pointer_def interp_guest_pointer_def
      store_exclusive_access_def atomic_cas_def atomic_rmw_def interp_access_begin_def touch_def bind_access_def
      then_do_def span_of_def retire_def list_all_iff)

theorem a64_clrex_ignored_witness:
  "interp_gpr (snd (exec_store_exclusive sample_env 0xC8027C23 sample_cleared)) 2 = 0"
proof -
  have r: "interp_gpr_sp sample_locked (Suc 0) = interp_gpr_sp sample_cleared (Suc 0)" "a64_wf sample_cleared"
    by (simp_all add: interp_gpr_sp_def sample_locked_def sample_loaded_def sample_cleared_def a64_wf_def sample_cpu_def)
  show ?thesis
    using a64_clrex_ignored [OF sample_loads _ sample_clears r(2) sample_stores_after_clrex]
    by (simp add: ifield_def iflag_def r(1))
qed

section \<open>Stores and loads\<close>

text \<open>
  A 64-bit store-exclusive pair checks the alignment of one register, not of the pair: at an address
  aligned to 8 but not to 16, where the host cannot compare and exchange 16 bytes, the load-exclusive pair
  has succeeded and the store-exclusive pair faults as an access to a bad address, not as a misaligned one.
\<close>

lemma stxp_misaligned_faults:
  assumes "iflag 21 st" "ifield 30 2 st = 3" "monitor_valid s" "monitor_address s = interp_gpr_sp s (ifield 5 5 st)"
    "monitor_bytes s = 16" "\<not> bus_active env (engine s)"
    "interp_guest_pointer env (interp_gpr_sp s (ifield 5 5 st)) AND 7 = 0"
    "\<not> host_atomic16 env (interp_guest_pointer env (interp_gpr_sp s (ifield 5 5 st)))"
  shows "exec_store_exclusive env st s = (Abandoned, s\<lparr>cpu_fault_addr := interp_gpr_sp s (ifield 5 5 st)\<rparr>)"
  using assms by (simp add: exec_store_exclusive_def Let_def interp_atomic_pointer_def store_exclusive_access_def
      atomic_cas16_def interp_access_begin_def touch_def bind_access_def then_do_def)

lemma ldxp_checks_half:
  assumes "iflag 21 ld" "ifield 30 2 ld = 3" "ifield 16 5 ld = 31" "\<not> bus_active env (engine s)"
    "interp_guest_pointer env (interp_gpr_sp s (ifield 5 5 ld)) AND 7 = 0" "host_readable env (engine s) = (\<lambda>_. True)"
  shows "fst (exec_load_exclusive env ld s) = INTERP_NEXT"
  using assms by (simp add: exec_load_exclusive_def Let_def interp_atomic_pointer_def interp_load_bits_def
      interp_access_begin_def touch_def bind_access_def then_do_def retire_def list_all_iff)

end
