(* ===== verification/A64_Wide.thy ===== *)
theory A64_Wide
  imports A64_Machine
begin

text \<open>
  Addition of several words: chains of additions with carry are additions of wide numbers, flags
  included.
\<close>

section \<open>Multi-word addition\<close>

lemma uint_cat: "uint (word_cat (h :: u64) (l :: u64) :: 128 word) = uint h * 2 ^ 64 + uint l"
proof -
  have "uint h < 2 ^ 64" "uint l < 2 ^ 64" using uint_bounded [of h] uint_bounded [of l] by simp_all
  moreover have "0 \<le> uint h" "0 \<le> uint l" by simp_all
  ultimately show ?thesis
    by (simp add: word_cat_eq uint_word_ariths push_bit_eq_mult unsigned_ucast_eq take_bit_eq_mod)
qed

lemma sint_cat: "sint (word_cat (h :: u64) (l :: u64) :: 128 word) = sint h * 2 ^ 64 + uint l"
proof -
  have "uint h < 2 ^ 64" "uint l < 2 ^ 64" using uint_bounded [of h] uint_bounded [of l] by simp_all
  moreover have "0 \<le> uint h" "0 \<le> uint l" by simp_all
  ultimately show ?thesis
    unfolding sint_of_uint uint_cat by (simp split: if_split) (intro impI, smt (verit) uint_ge_0)
qed

lemma reference_uint:
  assumes "reference_sum a b carry = (r, n, z, c, v)"
  shows "uint (r :: 'a::len word) = uint a + uint b + of_bool carry - (if c then 2 ^ LENGTH('a) else 0)"
    "c \<longleftrightarrow> uint r \<noteq> uint a + uint b + of_bool carry" "v \<longleftrightarrow> sint r \<noteq> sint a + sint b + of_bool carry"
    "n \<longleftrightarrow> sint r < 0"
proof -
  have r: "r = a + b + of_bool carry" "c \<longleftrightarrow> uint r \<noteq> uint a + uint b + of_bool carry"
    using assms by (auto simp: reference_sum_def Let_def)
  then show "uint r = uint a + uint b + of_bool carry - (if c then 2 ^ LENGTH('a) else 0)"
    using carry_sum [of "of_bool carry" a b] by (cases carry) (auto split: if_splits)
  show "c \<longleftrightarrow> uint r \<noteq> uint a + uint b + of_bool carry" by (rule r(2))
  show "v \<longleftrightarrow> sint r \<noteq> sint a + sint b + of_bool carry" "n \<longleftrightarrow> sint r < 0"
    using assms by (auto simp: reference_sum_def Let_def)
qed

text \<open>
Claim C26: an addition with flags followed by an addition with carry adds 128-bit numbers: the two results
are the halves of the 128-bit sum, and N, C and V are those of the 128-bit sum.  (With an inverted second
operand and a carry-in it is the 128-bit subtraction.)
\<close>

theorem a64_wide_addition:
  assumes "interp_add_with_carry64 a0 b0 carry True s = (lo, s1)"
    "interp_add_with_carry64 a1 b1 (interp_flag_c s1) True s1 = (hi, s2)"
  shows "reference_sum (word_cat a1 a0 :: 128 word) (word_cat b1 b0) carry =
    (word_cat hi lo, interp_flag_n s2, hi = 0 \<and> lo = 0, interp_flag_c s2, interp_flag_v s2)"
proof -
  obtain n0 z0 c0 v0 where low: "reference_sum a0 b0 carry = (lo, n0, z0, c0, v0)" "interp_flag_c s1 = c0"
    using assms(1) by (auto simp: interp_add_with_carry64_reference a64_simps split: prod.splits)
  obtain n1 z1 c1 v1 where high: "reference_sum a1 b1 c0 = (hi, n1, z1, c1, v1)"
      "interp_flag_n s2 = n1" "interp_flag_c s2 = c1" "interp_flag_v s2 = v1"
    using assms(2) low(2) by (auto simp: interp_add_with_carry64_reference a64_simps split: prod.splits)
  note l = reference_uint [OF low(1)] and h = reference_uint [OF high(1)]
  define A B :: "128 word" where "A = word_cat a1 a0" and "B = word_cat b1 b0"
  have sum: "uint A + uint B + of_bool carry = uint (word_cat hi lo :: 128 word) + of_bool c1 * 2 ^ 128"
    using l(1) h(1) unfolding A_def B_def uint_cat by (simp split: if_splits)
  then have r: "word_of_int (uint A + uint B + of_bool carry) = (word_cat hi lo :: 128 word)"
    by (simp only: sum) simp
  have c: "uint (word_cat hi lo :: 128 word) \<noteq> uint A + uint B + of_bool carry \<longleftrightarrow> c1"
    unfolding sum by simp
  have v: "sint (word_cat hi lo :: 128 word) \<noteq> sint A + sint B + of_bool carry \<longleftrightarrow> v1"
    using l(1) h(3) unfolding A_def B_def sint_cat by (auto split: if_splits)
  have n: "sint (word_cat hi lo :: 128 word) < 0 \<longleftrightarrow> n1"
  proof -
    have "0 \<le> uint lo" "uint lo < 2 ^ 64" using uint_bounded [of lo] by simp_all
    then show ?thesis unfolding h(4) sint_cat by (intro iffI; simp; smt (verit) uint_ge_0)
  qed
  have z: "(word_cat hi lo :: 128 word) = 0 \<longleftrightarrow> hi = 0 \<and> lo = 0"
    by (simp add: word_uint_eq_iff uint_cat add_nonneg_eq_0_iff)
  show ?thesis
    unfolding reference_sum_def Let_def A_def [symmetric] B_def [symmetric] r c v n z high(2-4) by simp
qed

text \<open>\<open>0xffffffffffffffff + 1\<close> carries into the upper half.\<close>

theorem a64_wide_addition_witness:
  "reference_sum (word_cat (0 :: u64) (0xFFFFFFFFFFFFFFFF :: u64) :: 128 word) (word_cat (0 :: u64) (1 :: u64)) False =
    (word_cat (1 :: u64) (0 :: u64), False, False, False, False)"
proof -
  have "interp_add_with_carry64 0xFFFFFFFFFFFFFFFF 1 False True sample_cpu = (0, interp_set_flags False True True False sample_cpu)"
    by (simp add: interp_add_with_carry64_def add_overflow_def)
  moreover have "interp_add_with_carry64 0 0 True True s = (1, interp_set_flags False False False False s)" for s :: "unit a64"
    by (simp add: interp_add_with_carry64_def add_overflow_def)
  ultimately show ?thesis
    using a64_wide_addition [of "0xFFFFFFFFFFFFFFFF" 1 False sample_cpu 0 "interp_set_flags False True True False sample_cpu" 0 0 1]
    by (simp add: a64_simps)
qed

end
