(* ===== verification/A64_Behaviour.thy ===== *)
theory A64_Behaviour
  imports A64_Exclusive A64_Wide
begin

text \<open>
  What programs observe of the AArch64 interpreter: comparisons and branches, stores and loads, and steps
  that are precise.
\<close>

section \<open>Comparison and conditional branch\<close>

text \<open>\<open>subs xzr, xn, xm\<close> and its 32-bit form, and \<open>b.cond\<close>.\<close>

definition is_cmp :: "u32 \<Rightarrow> bool" where
  "is_cmp insn \<longleftrightarrow> matches 0x7FE0FC1F 0x6B00001F insn"

definition is_bcond :: "u32 \<Rightarrow> bool" where
  "is_bcond insn \<longleftrightarrow> matches 0xFF000010 0x54000000 insn"

lemma mask_4: "mask 4 = (15 :: u32)" and mask_5: "mask 5 = (31 :: u32)" and mask_6: "mask 6 = (63 :: u32)"
  and mask_2: "mask 2 = (3 :: u32)" and mask_3: "mask 3 = (7::u32)" and mask_12: "mask 12 = (0xFFF :: u32)"
  by (simp_all add: mask_eq_exp_minus_1)

lemmas masks = mask_2 mask_3 mask_4 mask_5 mask_6 mask_12

lemma cmp_fields:
  assumes "is_cmp insn"
  shows "ifield 25 4 insn = 5" "iflag 30 insn" "iflag 29 insn" "insn AND 0x00200000 = 0" "ifield 22 2 insn = 0"
    "ifield 10 6 insn = 0" "ifield 0 5 insn = 31" "matches 0x1F000000 0x0B000000 insn"
proof -
  note m = assms [unfolded is_cmp_def]
  show "ifield 25 4 insn = 5" "ifield 22 2 insn = 0" "ifield 10 6 insn = 0" "ifield 0 5 insn = 31"
    by (simp_all add: matches_ifield [OF m] masks)
  show "iflag 30 insn" "iflag 29 insn"
    by (simp_all add: matches_iflag [OF m])
  show "matches 0x1F000000 0x0B000000 insn"
    by (simp add: matches_sub [OF m])
  have "matches 0x00200000 0 insn"
    by (simp add: matches_sub [OF m])
  then show "insn AND 0x00200000 = 0" by (simp add: matches_def)
qed

lemma set_gpr_zr [simp]: "interp_set_gpr 31 v s = s" "interp_set_gpr32 31 w s = s"
  by (simp_all add: interp_set_gpr_def interp_set_gpr32_def)

lemma shift_operand_zero: "interp_shift_operand v 0 0 sf = (if sf then v else ucast (ucast v :: u32))"
  by (simp add: interp_shift_operand_def)

lemma ucast_ucast_u32 [simp]: "(ucast (ucast (v :: u32) :: u64) :: u32) = v"
  by (rule bit_word_eqI) (simp add: bit_simps)

lemma exec_cmp:
  assumes "is_cmp insn"
  shows "interp_step_decoded env exec_simd insn s =
    (let a = interp_gpr s (ifield 5 5 insn); b = interp_gpr s (ifield 16 5 insn)
     in retire (cpu_pc s)
       (if iflag 31 insn then snd (interp_add_with_carry64 a (NOT b) True True s)
        else snd (interp_add_with_carry32 (ucast a) (NOT (ucast b)) True True s)))"
proof -
  note f = cmp_fields [OF assms]
  have "add_sub_operand insn s =
      Inr (if iflag 31 insn then interp_gpr s (ifield 16 5 insn) else ucast (ucast (interp_gpr s (ifield 16 5 insn)) :: u32), False)"
    unfolding add_sub_operand_def Let_def using f by (simp add: shift_operand_zero)
  then show ?thesis
    using f by (simp add: interp_step_decoded_def interp_exec_dp_register_def interp_exec_dp_register_arithmetic_def
        exec_add_sub_register_def Let_def split_def)
qed

lemma add_with_carry_pc [simp]:
  "cpu_pc (snd (interp_add_with_carry64 a b c f s)) = cpu_pc s"
  "cpu_pc (snd (interp_add_with_carry32 a' b' c f s)) = cpu_pc s"
  by (simp_all add: interp_add_with_carry64_def interp_add_with_carry32_def Let_def split_def interp_set_flags_def)

lemma cond_holds_pc [simp]: "interp_cond_holds (s\<lparr>cpu_pc := p\<rparr>) cond = interp_cond_holds s cond"
  by (simp add: interp_cond_holds_def interp_flag_n_def interp_flag_z_def interp_flag_c_def interp_flag_v_def)

lemma exec_bcond:
  assumes "is_bcond insn"
  shows "interp_step_decoded env exec_simd insn s = exec_branch_conditional insn s"
proof -
  note m = assms [unfolded is_bcond_def]
  have "ifield 25 4 insn = 10" by (simp add: matches_ifield [OF m] masks)
  moreover have "\<not> matches 0x7C000000 0x14000000 insn" by (simp add: matches_sub [OF m])
  ultimately show ?thesis using m by (simp add: interp_step_decoded_def interp_exec_branch_system_def)
qed

text \<open>
Claim C22: a comparison of two registers followed by a conditional branch goes to the branch target exactly
when the registers, read as the condition code says (equal, signed or unsigned order, sign or overflow of
the difference, 64 or 32 bits wide), are in the relation the code is named after, and to the next
instruction otherwise.  The comparison itself changes nothing but the flags.
\<close>

theorem a64_compare_branch:
  assumes "is_cmp cmp" "is_bcond br"
    "interp_step_decoded env exec_simd cmp s = (out, s1)" "interp_step_decoded env exec_simd br s1 = (out2, s2)"
  defines "a \<equiv> interp_gpr s (ifield 5 5 cmp)" and "b \<equiv> interp_gpr s (ifield 16 5 cmp)" and "cond \<equiv> ifield 0 4 br"
  shows "out = INTERP_NEXT \<and> s1 = s\<lparr>cpu_pc := cpu_pc s + 4, cpu_nzcv := cpu_nzcv s1\<rparr> \<and> out2 = INTERP_RETIRED_END \<and>
    cpu_pc s2 = cpu_pc s + 4 +
      (if (if iflag 31 cmp then compare_condition cond a b else compare_condition cond (ucast a :: u32) (ucast b))
       then branch_offset (wfield 5 19 br) 19 else 4)"
proof -
  define t where "t = (if iflag 31 cmp then snd (interp_add_with_carry64 a (NOT b) True True s)
        else snd (interp_add_with_carry32 (ucast a) (NOT (ucast b)) True True s))"
  have s1: "(out, s1) = retire (cpu_pc s) t"
    unfolding t_def a_def b_def assms(3) [symmetric] by (simp only: exec_cmp [OF assms(1)] Let_def)
  obtain w where t: "t = s\<lparr>cpu_nzcv := w\<rparr>"
    unfolding t_def by (cases "iflag 31 cmp") (simp_all add: t_def interp_add_with_carry64_def interp_add_with_carry32_def Let_def split_def interp_set_flags_def)
  have "cond < 16" using ifield_less [of 0 4 br] by (simp add: cond_def)
  then have c: "interp_cond_holds t cond =
      (if iflag 31 cmp then compare_condition cond a b else compare_condition cond (ucast a :: u32) (ucast b))"
    by (simp add: t_def compare64 compare32)
  have nxt: "s1 = t\<lparr>cpu_pc := cpu_pc s + 4\<rparr>" "out = INTERP_NEXT" using s1 by (simp_all add: retire_def)
  have "s1 = s\<lparr>cpu_pc := cpu_pc s + 4, cpu_nzcv := cpu_nzcv s1\<rparr>"
    unfolding nxt(1) t by (rule a64.equality) simp_all
  moreover have "(out2, s2) = exec_branch_conditional br s1"
    using assms(4) exec_bcond [OF assms(2), of env exec_simd s1] by simp
  then have "out2 = INTERP_RETIRED_END" "cpu_pc s2 = cpu_pc s + 4 + (if interp_cond_holds t cond then branch_offset (wfield 5 19 br) 19 else 4)"
    by (simp_all add: nxt exec_branch_conditional_def branch_to_def Let_def cond_def)
  ultimately show ?thesis using c nxt(2) by simp
qed

text \<open>\<open>cmp x1, x2\<close> with 1 and -1, then \<open>b.gt\<close>: greater as signed numbers, although not as unsigned ones.\<close>

theorem a64_compare_branch_witness:
  "cpu_pc (snd (interp_step_decoded sample_env (\<lambda>_ s. (INTERP_END, s)) 0x5400008C
     (snd (interp_step_decoded sample_env (\<lambda>_ s. (INTERP_END, s)) 0xEB02003F
       (sample_cpu\<lparr>cpu_x := (replicate 31 0)[1 := 1, 2 := - 1]\<rparr>))))) = 0x1004 + 0x10"
proof -
  let ?s = "sample_cpu\<lparr>cpu_x := (replicate 31 0)[1 := 1, 2 := - 1]\<rparr>"
  have i: "is_cmp 0xEB02003F" "is_bcond 0x5400008C" by (simp_all add: is_cmp_def is_bcond_def matches_def)
  from a64_compare_branch [OF i, of sample_env "\<lambda>_ s. (INTERP_END, s)" ?s] show ?thesis
    by (simp add: split_def prod_eq_iff compare_condition_def ifield_def iflag_def interp_gpr_def sample_cpu_def
        branch_offset_def wfield_def interp_sext_def)
qed

lemma matches_not: "matches m p insn \<Longrightarrow> P AND m \<noteq> p AND M \<Longrightarrow> \<not> matches M P insn"
  by (auto simp: matches_def ac_simps)

text \<open>\<open>str xt, [xn, #imm]\<close> and \<open>ldr xt, [xn, #imm]\<close> of any width, bytes and halfwords included.\<close>

definition is_str :: "u32 \<Rightarrow> bool" where
  "is_str insn \<longleftrightarrow> matches 0x3FC00000 0x39000000 insn"

definition is_ldr :: "u32 \<Rightarrow> bool" where
  "is_ldr insn \<longleftrightarrow> matches 0x3FC00000 0x39400000 insn"

definition offset_address :: "u32 \<Rightarrow> 'w a64 \<Rightarrow> u64" where
  "offset_address insn s = interp_gpr_sp s (ifield 5 5 insn) + push_bit (ifield 30 2 insn) (wfield 10 12 insn)"

lemma mask_1: "mask 1 = (1 :: u32)" by (simp add: mask_eq_exp_minus_1)

lemma single_decodes:
  assumes m: "matches 0x3FC00000 p insn" and p: "p = 0x39000000 \<or> p = 0x39400000"
  shows "interp_step_decoded env exec_simd insn s = interp_exec_load_store_single env insn s"
    "matches 0x3B000000 0x39000000 insn" "\<not> iflag 26 insn"
    "ifield 22 2 insn = (if p = 0x39000000 then 0 else 1)"
    "\<not> matches 0x3B200C00 0x38200400 insn" "\<not> matches 0x3B200C00 0x38200C00 insn"
proof -
  have "ifield 25 4 insn = 12" using p by (auto simp: matches_ifield [OF m] masks)
  moreover have "\<not> matches 0xBF200000 0x0C000000 insn" "\<not> matches 0xBF000000 0x0D000000 insn"
    "\<not> matches 0x3B000000 0x18000000 insn" "\<not> matches 0x3A000000 0x28000000 insn"
    "\<not> matches 0x3F000000 0x08000000 insn" "\<not> matches 0x3FFFFC00 0x38BFC000 insn" "\<not> matches 0x3B200C00 0x38200000 insn"
    using p by (auto simp: matches_not [OF m])
  ultimately show "interp_step_decoded env exec_simd insn s = interp_exec_load_store_single env insn s"
    by (simp add: interp_step_decoded_def interp_exec_load_store_def)
  show "matches 0x3B000000 0x39000000 insn" "\<not> iflag 26 insn"
    "ifield 22 2 insn = (if p = 0x39000000 then 0 else 1)"
    "\<not> matches 0x3B200C00 0x38200400 insn" "\<not> matches 0x3B200C00 0x38200C00 insn"
    using p by (auto simp: matches_sub [OF m] matches_iflag [OF m] matches_ifield [OF m] masks matches_not [OF m])
qed

lemma str_exact:
  assumes "is_str st" "interp_step_decoded env exec_simd st s = (INTERP_NEXT, s')"
  shows "s' = (poke (interp_guest_pointer env (offset_address st s)) (2 ^ ifield 30 2 st) (interp_gpr s (ifield 0 5 st)) s)
    \<lparr>cpu_pc := cpu_pc s + 4\<rparr>"
proof -
  note d = single_decodes [OF assms(1) [unfolded is_str_def]]
  have "interp_exec_load_store_single env st s = (INTERP_NEXT, s')"
    using assms(2) by (simp only: d(1) simp_thms)
  then show ?thesis
    using d(2-6) by (auto simp: interp_exec_load_store_single_def single_address_def Let_def write_back_def retire_def offset_address_def
      elim!: then_do_next dest!: store_done)
qed

lemma ldr_exact:
  assumes "is_ldr ld" "interp_step_decoded env exec_simd ld s = (INTERP_NEXT, s')"
  shows "s' = (put_width (2 ^ ifield 30 2 ld) (ifield 0 5 ld)
      (peek s (interp_guest_pointer env (offset_address ld s)) (2 ^ ifield 30 2 ld)) s)\<lparr>cpu_pc := cpu_pc s + 4\<rparr>"
proof -
  note d = single_decodes [OF assms(1) [unfolded is_ldr_def]]
  have "interp_exec_load_store_single env ld s = (INTERP_NEXT, s')"
    using assms(2) by (simp only: d(1) simp_thms)
  then show ?thesis
    using d(2-6) by (auto simp: interp_exec_load_store_single_def single_address_def Let_def write_back_def retire_def offset_address_def
      elim!: then_do_next dest!: load_doneD)
qed

text \<open>
Claim C30: a register stored by STR and loaded back by LDR of the same width and address (whatever its
alignment, within one page or across) arrives unchanged up to that width, and loads of bytes the store
did not cover are not affected: what was there before is read.
\<close>

theorem a64_store_load:
  fixes s :: "'w a64"
  assumes "is_str st" "is_ldr ld" "ifield 30 2 ld = ifield 30 2 st" "ifield 0 5 ld \<noteq> 31" "a64_wf s"
    "interp_step_decoded env exec_simd st s = (INTERP_NEXT, s1)" "interp_step_decoded env exec_simd ld s1 = (INTERP_NEXT, s2)"
  defines "bytes \<equiv> (2::nat) ^ ifield 30 2 st"
    and "from \<equiv> interp_guest_pointer env (offset_address ld s1)"
    and "to \<equiv> interp_guest_pointer env (offset_address st s)"
  shows "(from = to \<longrightarrow> interp_gpr s2 (ifield 0 5 ld) = take_bit (8 * bytes) (interp_gpr s (ifield 0 5 st))) \<and>
    ((\<forall>i<bytes. unat (from + of_nat i - to) \<ge> bytes) \<longrightarrow> interp_gpr s2 (ifield 0 5 ld) = peek s from bytes)"
proof -
  have b: "bytes \<le> 8" unfolding bytes_def by (rule pow_field)
  have b4: "bytes = 8 \<or> bytes \<le> 4"
  proof -
    have "ifield 30 2 st = 0 \<or> ifield 30 2 st = 1 \<or> ifield 30 2 st = 2 \<or> ifield 30 2 st = 3"
      using pow_field(1) [of 30 st] by linarith
    then show ?thesis by (elim disjE) (simp_all add: bytes_def)
  qed
  note st = str_exact [OF assms(1,6), folded bytes_def to_def]
  note ld = ldr_exact [OF assms(2,7), folded from_def, unfolded assms(3), folded bytes_def]
  have narrow: "(ucast (ucast (peek t h bytes) :: u32) :: u64) = peek t h bytes" if "bytes \<le> 4" for t :: "'w a64" and h
    using that by (intro bit_word_eqI) (auto simp: bit_simps bit_peek)
  have "length (cpu_x s1) = 31" using st assms(5) by (simp add: a64_wf_def poke_def)
  then have v: "interp_gpr s2 (ifield 0 5 ld) = peek s1 from bytes"
    using ifield_less [of 0 5 ld] assms(4) b4 narrow
    by (auto simp: ld put_width_def interp_set_gpr_def interp_set_gpr32_def interp_gpr_def)
  have p: "peek s1 h bytes = peek (poke to bytes (interp_gpr s (ifield 0 5 st)) s) h bytes" for h
    by (simp add: st peek_def)
  show ?thesis
    unfolding v p using b by (auto simp: peek_poke peek_poke_other not_less)
qed

text \<open>\<open>strh w3, [x1]\<close> and \<open>ldrh w4, [x1]\<close> with 65543 in x3: the low halfword 7 comes back.\<close>

definition sample_wide :: "unit a64" where
  "sample_wide = sample_cpu\<lparr>cpu_x := (replicate 31 0)[1 := 0x2000, 3 := 65543]\<rparr>"

definition sample_written :: "unit a64" where
  "sample_written = (poke 0x2000 2 65543 sample_wide)\<lparr>cpu_pc := 0x1004\<rparr>"

lemma sample_writes:
  "interp_step_decoded sample_env (\<lambda>_ s. (INTERP_END, s)) 0x79000023 sample_wide = (INTERP_NEXT, sample_written)"
  by (simp add: interp_step_decoded_def interp_exec_load_store_def matches_def ifield_def iflag_def
      interp_exec_load_store_single_def single_address_def Let_def wfield_def interp_store_bits_def interp_access_begin_def
      touch_def bind_access_def then_do_def write_back_def retire_def sample_env_def sample_written_def
      interp_gpr_sp_def interp_gpr_def interp_guest_pointer_def list_all_iff poke_def)
    (simp add: sample_wide_def sample_cpu_def)

lemma sample_reads:
  "interp_step_decoded sample_env (\<lambda>_ s. (INTERP_END, s)) 0x79400024 sample_written =
    (INTERP_NEXT, snd (interp_step_decoded sample_env (\<lambda>_ s. (INTERP_END, s)) 0x79400024 sample_written))"
  by (simp add: interp_step_decoded_def interp_exec_load_store_def matches_def ifield_def iflag_def
      interp_exec_load_store_single_def single_address_def Let_def wfield_def interp_load_bits_def interp_access_begin_def
      touch_def bind_access_def then_do_def write_back_def retire_def sample_env_def list_all_iff)

theorem a64_store_load_witness:
  "interp_gpr (snd (interp_step_decoded sample_env (\<lambda>_ s. (INTERP_END, s)) 0x79400024 sample_written)) 4 = 7"
proof -
  have i: "is_str 0x79000023" "is_ldr 0x79400024" by (simp_all add: is_str_def is_ldr_def matches_def)
  have w: "a64_wf sample_wide" by (simp add: a64_wf_def sample_wide_def sample_cpu_def)
  have r: "offset_address 0x79000023 sample_wide = 0x2000" "offset_address 0x79400024 sample_written = 0x2000"
      "interp_gpr sample_wide 3 = 65543"
    by (simp_all add: offset_address_def ifield_def wfield_def interp_gpr_sp_def interp_gpr_def sample_written_def
        sample_wide_def poke_def)
  show ?thesis
    using a64_store_load [OF i _ _ w sample_writes sample_reads] by (simp add: r) (simp add: ifield_def r)
qed

section \<open>Precise steps\<close>


text \<open>\<open>ldr x4, [x1]\<close> from memory that cannot be read.\<close>

lemma sample_faults:
  "interp_step_decoded (sample_env\<lparr>host_readable := \<lambda>_ _. False\<rparr>) (\<lambda>_ s. (INTERP_END, s)) 0xF9400024 sample_wide =
    (Abandoned, sample_wide\<lparr>cpu_fault_addr := 0x2000\<rparr>)"
  by (simp add: interp_step_decoded_def interp_exec_load_store_def matches_def ifield_def iflag_def
      interp_exec_load_store_single_def single_address_def Let_def wfield_def interp_load_bits_def interp_access_begin_def
      touch_def bind_access_def then_do_def sample_env_def interp_gpr_sp_def interp_guest_pointer_def
      sample_wide_def sample_cpu_def span_of_def list_all_iff)


text \<open>
  Vector registers are the exception: \<open>ldp q0, q1, [x1]\<close> writes the first register before it reads the
  memory of the second, so that a fault on the second leaves the first changed.
\<close>

lemma upt_8: "[0..<8] = [0, 1, 2, 3, 4, 5, 6, 7 :: nat]"
  by (simp add: upt_rec)

lemma vector_pair_not_precise:
  fixes mem :: "u64 \<Rightarrow> u8"
  defines "s \<equiv> sample_wide\<lparr>guest_memory := mem\<rparr>"
  shows "interp_step_decoded (sample_env\<lparr>host_readable := \<lambda>_ a. a < 0x2010\<rparr>) exec_simd 0xAD400420 s =
    (Abandoned, (interp_vec_write 0 (ucast (peek s 0x2000 8) OR push_bit 64 (ucast (peek s 0x2008 8))) True s)
      \<lparr>cpu_fault_addr := 0x2010\<rparr>)"
proof -
  have g: "interp_gpr_sp s (Suc 0) = 0x2000" by (simp add: s_def interp_gpr_sp_def sample_wide_def)
  show ?thesis
    by (simp add: interp_step_decoded_def interp_exec_load_store_def matches_def ifield_def iflag_def g
      interp_exec_load_store_literal_pair_def exec_vector_pair_def Let_def wfield_def interp_load_bits_def
      interp_access_begin_def interp_vec_load_def interp_sext_def
      touch_def bind_access_def then_do_def sample_env_def interp_guest_pointer_def span_of_def upt_8)
qed

end
